(* ===== verification/Prelude.thy ===== *)
theory Prelude
  imports Complex_Main "HOL-Library.AList" "HOL-Library.Char_ord" "HOL-Library.List_Lexorder"
begin

text \<open>
  What every component shares: the values of the Python data model that arrive from outside
  (JSON), the exceptions as values of a sum type, insertion-ordered dictionaries as association
  lists, decimal strings, and the generic lemmas about them.

  A float is an exact rational or one of the three non-finite values: the branches on
  \<open>math.isfinite\<close> are kept, the rounding of IEEE arithmetic is not modelled.  A string is a list
  of 8-bit characters (the UTF-8 bytes of the Python string).
\<close>

named_theorems py_simps \<open>evaluation of the Python primitives\<close>

section \<open>Exceptions and results\<close>

datatype pyexc =
    ValueError string
  | TypeError
  | KeyError
  | IndexError
  | AttributeError
  | OverflowError
  | ZeroDivisionError
  | RuntimeError string
  | AssertionError
  | RpcError string string \<comment> \<open>a provider error: category and message\<close>

type_synonym 'a res = "pyexc + 'a"

definition bindR :: "'a res \<Rightarrow> ('a \<Rightarrow> 'b res) \<Rightarrow> 'b res" where
  "bindR m f = (case m of Inl e \<Rightarrow> Inl e | Inr x \<Rightarrow> f x)"

definition guardR :: "bool \<Rightarrow> pyexc \<Rightarrow> unit res" where
  "guardR b e = (if b then Inr () else Inl e)"

lemma bindR_simps [simp]:
  "bindR (Inl e) f = Inl e"
  "bindR (Inr x) f = f x"
  by (simp_all add: bindR_def)

lemma bindR_eq_Inr: "bindR m f = Inr y \<longleftrightarrow> (\<exists>x. m = Inr x \<and> f x = Inr y)"
  by (cases m) auto

lemma bindR_eq_Inl: "bindR m f = Inl e \<longleftrightarrow> m = Inl e \<or> (\<exists>x. m = Inr x \<and> f x = Inl e)"
  by (cases m) auto

lemma bindR_assoc: "bindR (bindR m f) g = bindR m (\<lambda>x. bindR (f x) g)"
  by (cases m) auto

lemma guardR_simps [simp]:
  "guardR b e = Inr u \<longleftrightarrow> b"
  "guardR b e = Inl e' \<longleftrightarrow> \<not> b \<and> e' = e"
  by (auto simp: guardR_def)

lemma bindR_guard: "bindR (guardR b e) f = (if b then f () else Inl e)"
  by (simp add: guardR_def)

text \<open>A \<open>for\<close> loop whose body may raise: the first exception ends it.\<close>

fun foldR :: "('s \<Rightarrow> 'a \<Rightarrow> 's res) \<Rightarrow> 's \<Rightarrow> 'a list \<Rightarrow> 's res" where
  "foldR f s [] = Inr s"
| "foldR f s (x # xs) = bindR (f s x) (\<lambda>s'. foldR f s' xs)"

lemma foldR_append: "foldR f s (xs @ ys) = bindR (foldR f s xs) (\<lambda>s'. foldR f s' ys)"
  by (induction xs arbitrary: s) (auto simp: bindR_assoc)

lemma foldR_invariant:
  assumes "foldR f s xs = Inr s'" and "P s"
    and "\<And>s x s'. P s \<Longrightarrow> x \<in> set xs \<Longrightarrow> f s x = Inr s' \<Longrightarrow> P s'"
  shows "P s'"
  using assms
proof (induction xs arbitrary: s)
  case Nil
  then show ?case by simp
next
  case (Cons x xs)
  from Cons.prems(1) obtain t where t: "f s x = Inr t" "foldR f t xs = Inr s'"
    by (auto simp: bindR_eq_Inr)
  have "P t" by (rule Cons.prems(3) [OF Cons.prems(2) _ t(1)]) simp
  with t(2) show ?case using Cons.IH Cons.prems(3) by (meson list.set_intros(2))
qed

fun mapR :: "('a \<Rightarrow> 'b res) \<Rightarrow> 'a list \<Rightarrow> 'b list res" where
  "mapR f [] = Inr []"
| "mapR f (x # xs) = bindR (f x) (\<lambda>y. bindR (mapR f xs) (\<lambda>ys. Inr (y # ys)))"

lemma mapR_length: "mapR f xs = Inr ys \<Longrightarrow> length ys = length xs"
  by (induction xs arbitrary: ys) (auto simp: bindR_eq_Inr)

lemma foldl_invariant:
  assumes "P s" and "\<And>s x. P s \<Longrightarrow> x \<in> set xs \<Longrightarrow> P (f s x)"
  shows "P (foldl f s xs)"
  using assms by (induction xs arbitrary: s) auto

section \<open>Values of the Python data model\<close>

datatype pyfloat = Fin rat | PosInf | NegInf | NaN

datatype pyval =
    PNone
  | PBool bool
  | PInt int
  | PFloat pyfloat
  | PStr string
  | PList "pyval list"
  | PDict "(string \<times> pyval) list"

fun is_dict :: "pyval \<Rightarrow> bool" where
  "is_dict (PDict _) = True"
| "is_dict _ = False"

fun is_list :: "pyval \<Rightarrow> bool" where
  "is_list (PList _) = True"
| "is_list _ = False"

fun is_str :: "pyval \<Rightarrow> bool" where
  "is_str (PStr _) = True"
| "is_str _ = False"

fun is_bool :: "pyval \<Rightarrow> bool" where
  "is_bool (PBool _) = True"
| "is_bool _ = False"

text \<open>\<open>isinstance(v, int) and not isinstance(v, bool)\<close>; a Python bool is an int.\<close>

fun is_int :: "pyval \<Rightarrow> bool" where
  "is_int (PInt _) = True"
| "is_int _ = False"

text \<open>Truth value testing (\<open>bool(v)\<close>, \<open>v or w\<close>, \<open>if v\<close>).\<close>

fun truthy :: "pyval \<Rightarrow> bool" where
  "truthy PNone = False"
| "truthy (PBool b) = b"
| "truthy (PInt i) = (i \<noteq> 0)"
| "truthy (PFloat (Fin q)) = (q \<noteq> 0)"
| "truthy (PFloat _) = True"
| "truthy (PStr s) = (s \<noteq> [])"
| "truthy (PList xs) = (xs \<noteq> [])"
| "truthy (PDict d) = (d \<noteq> [])"

definition py_or :: "pyval \<Rightarrow> pyval \<Rightarrow> pyval" where
  "py_or a b = (if truthy a then a else b)"

lemma py_or_simps [simp]: "truthy a \<Longrightarrow> py_or a b = a" "\<not> truthy a \<Longrightarrow> py_or a b = b"
  by (simp_all add: py_or_def)

text \<open>\<open>v.get(k, d)\<close>: only a dictionary has the attribute.\<close>

fun dget_default :: "pyval \<Rightarrow> string \<Rightarrow> pyval \<Rightarrow> pyval res" where
  "dget_default (PDict d) k v = Inr (case map_of d k of None \<Rightarrow> v | Some w \<Rightarrow> w)"
| "dget_default _ k v = Inl AttributeError"

definition dget :: "pyval \<Rightarrow> string \<Rightarrow> pyval res" where
  "dget v k = dget_default v k PNone"

text \<open>\<open>d.get(k)\<close> on a value already known to be a dictionary.\<close>

fun getd :: "pyval \<Rightarrow> string \<Rightarrow> pyval" where
  "getd (PDict d) k = (case map_of d k of None \<Rightarrow> PNone | Some w \<Rightarrow> w)"
| "getd _ k = PNone"

fun has_key :: "pyval \<Rightarrow> string \<Rightarrow> bool" where
  "has_key (PDict d) k = (map_of d k \<noteq> None)"
| "has_key _ k = False"

text \<open>\<open>v[k]\<close> with a string key.\<close>

fun dict_item :: "pyval \<Rightarrow> string \<Rightarrow> pyval res" where
  "dict_item (PDict d) k = (case map_of d k of None \<Rightarrow> Inl KeyError | Some w \<Rightarrow> Inr w)"
| "dict_item _ k = Inl TypeError"

text \<open>\<open>xs[i]\<close> with an index that is not negative.\<close>

definition list_item :: "'a list \<Rightarrow> nat \<Rightarrow> 'a res" where
  "list_item xs i = (if i < length xs then Inr (xs ! i) else Inl IndexError)"

fun as_list :: "pyval \<Rightarrow> pyval list" where
  "as_list (PList xs) = xs"
| "as_list _ = []"

lemma dget_dict [simp]: "dget (PDict d) k = Inr (getd (PDict d) k)"
  by (simp add: dget_def)

lemma dget_Inr_iff: "(\<exists>v. dget d k = Inr v) \<longleftrightarrow> is_dict d"
  by (cases d) (auto simp: dget_def)

lemma is_dict_dget: "is_dict d \<Longrightarrow> dget d k = Inr (getd d k)"
  by (cases d) (auto simp: dget_def)

lemma is_listE: "is_list v \<Longrightarrow> (\<And>xs. v = PList xs \<Longrightarrow> P) \<Longrightarrow> P"
  by (cases v) auto

lemma is_dictE: "is_dict v \<Longrightarrow> (\<And>d. v = PDict d \<Longrightarrow> P) \<Longrightarrow> P"
  by (cases v) auto

lemma is_strE: "is_str v \<Longrightarrow> (\<And>s. v = PStr s \<Longrightarrow> P) \<Longrightarrow> P"
  by (cases v) auto

section \<open>Equality and membership\<close>

text \<open>A number as a rational: a bool counts as 0 or 1.\<close>

fun py_num :: "pyval \<Rightarrow> rat option" where
  "py_num (PBool b) = Some (if b then 1 else 0)"
| "py_num (PInt i) = Some (of_int i)"
| "py_num (PFloat (Fin q)) = Some q"
| "py_num _ = None"

text \<open>\<open>v == w\<close>: numbers by value, lists in order, dictionaries by their keys.\<close>

fun py_eq :: "pyval \<Rightarrow> pyval \<Rightarrow> bool"
  and py_eqs :: "pyval list \<Rightarrow> pyval list \<Rightarrow> bool"
  and py_eqd :: "(string \<times> pyval) list \<Rightarrow> (string \<times> pyval) list \<Rightarrow> bool" where
  "py_eq (PStr s) w = (w = PStr s)"
| "py_eq PNone w = (w = PNone)"
| "py_eq (PList xs) w = (case w of PList ys \<Rightarrow> py_eqs xs ys | _ \<Rightarrow> False)"
| "py_eq (PDict d) w = (case w of PDict e \<Rightarrow> length d = length e \<and> py_eqd d e | _ \<Rightarrow> False)"
| "py_eq (PFloat NaN) w = False"
| "py_eq (PFloat PosInf) w = (w = PFloat PosInf)"
| "py_eq (PFloat NegInf) w = (w = PFloat NegInf)"
| "py_eq (PFloat (Fin q)) w = (py_num w = Some q)"
| "py_eq (PInt i) w = (py_num w = Some (of_int i))"
| "py_eq (PBool b) w = (py_num w = Some (if b then 1 else 0))"
| "py_eqs [] ys = (ys = [])"
| "py_eqs (x # xs) ys = (case ys of [] \<Rightarrow> False | y # ys' \<Rightarrow> py_eq x y \<and> py_eqs xs ys')"
| "py_eqd [] e = True"
| "py_eqd ((k, v) # d) e = ((case map_of e k of None \<Rightarrow> False | Some w \<Rightarrow> py_eq v w) \<and> py_eqd d e)"

text \<open>\<open>v in {s1, s2, ...}\<close> for a set (or the keys) of strings: a list or a dictionary is not hashable.\<close>

fun py_in_strs :: "pyval \<Rightarrow> string list \<Rightarrow> bool res" where
  "py_in_strs (PStr s) ss = Inr (s \<in> set ss)"
| "py_in_strs (PList _) ss = Inl TypeError"
| "py_in_strs (PDict _) ss = Inl TypeError"
| "py_in_strs _ ss = Inr False"

section \<open>Decimal strings\<close>

definition is_digit :: "char \<Rightarrow> bool" where
  "is_digit c \<longleftrightarrow> (48::nat) \<le> of_char c \<and> of_char c \<le> (57::nat)"

text \<open>\<open>s.isascii() and s.isdigit()\<close>.\<close>

definition isdigit :: "string \<Rightarrow> bool" where
  "isdigit s \<longleftrightarrow> s \<noteq> [] \<and> list_all is_digit s"

definition digit_val :: "char \<Rightarrow> nat" where
  "digit_val c = of_char c - 48"

definition digit_char :: "nat \<Rightarrow> char" where
  "digit_char n = char_of (48 + n)"

definition int_of_dec :: "string \<Rightarrow> nat" where
  "int_of_dec s = foldl (\<lambda>n c. 10 * n + digit_val c) 0 s"

fun str_of_nat :: "nat \<Rightarrow> string" where
  "str_of_nat n = (if n < 10 then [digit_char n] else str_of_nat (n div 10) @ [digit_char (n mod 10)])"

declare str_of_nat.simps [simp del]

definition str_of_int :: "int \<Rightarrow> string" where
  "str_of_int i = (if i < 0 then CHR ''-'' # str_of_nat (nat (- i)) else str_of_nat (nat i))"

lemma of_char_digit_char [simp]: "n < 10 \<Longrightarrow> of_char (digit_char n) = 48 + n"
  by (simp add: digit_char_def)

lemma is_digit_digit_char [simp]: "n < 10 \<Longrightarrow> is_digit (digit_char n)"
  by (simp add: is_digit_def)

lemma digit_val_digit_char [simp]: "n < 10 \<Longrightarrow> digit_val (digit_char n) = n"
  by (simp add: digit_val_def)

lemma isdigit_str_of_nat [simp]: "isdigit (str_of_nat n)"
proof (induction n rule: str_of_nat.induct)
  case (1 n)
  show ?case
  proof (cases "n < 10")
    case True
    then show ?thesis by (simp add: str_of_nat.simps [of n] isdigit_def)
  next
    case False
    with "1.IH" show ?thesis by (auto simp: str_of_nat.simps [of n] isdigit_def)
  qed
qed

lemma int_of_dec_snoc: "int_of_dec (s @ [c]) = 10 * int_of_dec s + digit_val c"
  by (simp add: int_of_dec_def)

lemma int_of_dec_str_of_nat [simp]: "int_of_dec (str_of_nat n) = n"
proof (induction n rule: str_of_nat.induct)
  case (1 n)
  show ?case
  proof (cases "n < 10")
    case True
    then show ?thesis by (simp add: str_of_nat.simps [of n] int_of_dec_def)
  next
    case False
    with "1.IH" show ?thesis by (simp add: str_of_nat.simps [of n] int_of_dec_snoc)
  qed
qed

lemma str_of_nat_inject [simp]: "str_of_nat m = str_of_nat n \<longleftrightarrow> m = n"
  by (metis int_of_dec_str_of_nat)

section \<open>Whitespace\<close>

definition is_space :: "char \<Rightarrow> bool" where
  "is_space c \<longleftrightarrow> (of_char c :: nat) \<in> {9, 10, 11, 12, 13, 28, 29, 30, 31, 32}"

definition py_strip :: "string \<Rightarrow> string" where
  "py_strip s = rev (dropWhile is_space (rev (dropWhile is_space s)))"

section \<open>Insertion-ordered dictionaries\<close>

text \<open>
  A Python dictionary of the program's own making is an association list with distinct keys in
  insertion order: \<^const>\<open>AList.update\<close> overwrites in place or appends, as \<open>d[k] = v\<close> does, and
  \<^const>\<open>AList.delete\<close> is \<open>d.pop(k, None)\<close>.
\<close>

abbreviation keys :: "('k \<times> 'v) list \<Rightarrow> 'k list" where
  "keys d \<equiv> map fst d"

lemma map_of_update [simp]: "map_of (AList.update k v d) = (map_of d)(k \<mapsto> v)"
  by (simp add: update_conv')

lemma map_of_delete [simp]: "map_of (AList.delete k d) = (map_of d)(k := None)"
  by (simp add: delete_conv')

lemma set_keys_update [simp]: "set (keys (AList.update k v d)) = insert k (set (keys d))"
  by (induction d) auto

lemma distinct_keys_update [simp]: "distinct (keys d) \<Longrightarrow> distinct (keys (AList.update k v d))"
  by (rule distinct_update)

lemma distinct_keys_delete [simp]: "distinct (keys d) \<Longrightarrow> distinct (keys (AList.delete k d))"
  by (rule distinct_delete)

lemma map_of_None_keys: "map_of d k = None \<longleftrightarrow> k \<notin> set (keys d)"
  by (simp add: map_of_eq_None_iff)

lemma update_fresh: "map_of d k = None \<Longrightarrow> AList.update k v d = d @ [(k, v)]"
  by (induction d) (auto split: if_splits)

lemma sum_update_new:
  "map_of d k = None \<Longrightarrow>
     sum_list (map (\<lambda>(k, v). f k v) (AList.update k v d)) =
     sum_list (map (\<lambda>(k, v). f k v) d) + (f k v :: int)"
  by (induction d) (auto split: if_splits)

lemma sum_update_old:
  "distinct (keys d) \<Longrightarrow> map_of d k = Some v' \<Longrightarrow>
     sum_list (map (\<lambda>(k, v). f k v) (AList.update k v d)) =
     sum_list (map (\<lambda>(k, v). f k v) d) + (f k v :: int) - f k v'"
  by (induction d) (auto split: if_splits)

lemma set_update_subset:
  "set (AList.update k v d) \<subseteq> insert (k, v) (set d)"
  by (induction d) auto

lemma list_all_update:
  "list_all P d \<Longrightarrow> P (k, v) \<Longrightarrow> list_all P (AList.update k v d)"
  by (induction d) auto

lemma length_filter_le_one:
  "distinct xs \<Longrightarrow> length (filter (\<lambda>y. y = x) xs) \<le> 1"
  by (induction xs) (auto simp: filter_empty_conv)

section \<open>Membership lists without repetition\<close>

definition insert_new :: "'a \<Rightarrow> 'a list \<Rightarrow> 'a list" where
  "insert_new x xs = (if x \<in> set xs then xs else xs @ [x])"

lemma set_insert_new [simp]: "set (insert_new x xs) = insert x (set xs)"
  by (auto simp: insert_new_def)

lemma distinct_insert_new [simp]: "distinct xs \<Longrightarrow> distinct (insert_new x xs)"
  by (simp add: insert_new_def)

text \<open>\<open>sorted(set(xs))\<close>.\<close>

definition sorted_set :: "'a::linorder list \<Rightarrow> 'a list" where
  "sorted_set xs = sort (remdups xs)"

lemma set_sorted_set [simp]: "set (sorted_set xs) = set xs"
  by (simp add: sorted_set_def)

lemma sorted_sorted_set [simp]: "sorted (sorted_set xs)"
  by (simp add: sorted_set_def)

lemma distinct_sorted_set [simp]: "distinct (sorted_set xs)"
  by (simp add: sorted_set_def)

section \<open>Small helpers\<close>

text \<open>\<open>enumerate(xs)\<close>\<close>

definition indexed :: "'a list \<Rightarrow> (nat \<times> 'a) list" where
  "indexed xs = zip [0..<length xs] xs"

lemma length_indexed [simp]: "length (indexed xs) = length xs"
  by (simp add: indexed_def)

lemma nth_indexed: "i < length xs \<Longrightarrow> indexed xs ! i = (i, xs ! i)"
  by (simp add: indexed_def)

lemma in_set_indexed: "(i, x) \<in> set (indexed xs) \<longleftrightarrow> i < length xs \<and> x = xs ! i"
  by (force simp: in_set_conv_nth nth_indexed)

text \<open>A condition that adds an issue to the set of issues.\<close>

definition add_if :: "bool \<Rightarrow> 'a \<Rightarrow> 'a list \<Rightarrow> 'a list" where
  "add_if b x xs = (if b then insert_new x xs else xs)"

lemma set_add_if [simp]: "set (add_if b x xs) = set xs \<union> (if b then {x} else {})"
  by (auto simp: add_if_def)

text \<open>\<open>p in s\<close> for strings.\<close>

fun py_contains :: "string \<Rightarrow> string \<Rightarrow> bool" where
  "py_contains p [] = (p = [])"
| "py_contains p (c # s) = (take (length p) (c # s) = p \<or> py_contains p s)"

end
