(* ===== verification/Rpc_Routing.thy ===== *)
theory Rpc_Routing
  imports Prelude
begin

text \<open>
  \<^verbatim>\<open>src/rpc_routing.py\<close>: the orders in which providers are asked, the page size a provider is asked
  for, the plan limits of the EVM routes and the shape a read result must have.

  Lower-casing concerns ASCII letters.  \<open>urlparse(endpoint).hostname\<close> is an argument.
\<close>

section \<open>Text and numbers\<close>

definition lower_char :: "char \<Rightarrow> char" where
  "lower_char c = (if (65::nat) \<le> of_char c \<and> of_char c \<le> (90::nat) then char_of (of_char c + 32 :: nat) else c)"

definition lower :: "string \<Rightarrow> string" where
  "lower s = map lower_char s"

definition ends_with :: "string \<Rightarrow> string \<Rightarrow> bool" where
  "ends_with suffix s \<longleftrightarrow> length suffix \<le> length s \<and> drop (length s - length suffix) s = suffix"

text \<open>Digits with single underscores between them, in a base up to 16.\<close>

definition hex_val :: "char \<Rightarrow> nat option" where
  "hex_val c = (let n = of_char (lower_char c) :: nat in
     if 48 \<le> n \<and> n \<le> 57 then Some (n - 48) else if 97 \<le> n \<and> n \<le> 102 then Some (n - 87) else None)"

fun digits_of :: "nat \<Rightarrow> nat \<Rightarrow> bool \<Rightarrow> string \<Rightarrow> nat option" where
  "digits_of b acc after_digit [] = (if after_digit then Some acc else None)"
| "digits_of b acc after_digit (c # s) =
     (if c = CHR ''_'' then (if after_digit then digits_of b acc False s else None)
      else (case hex_val c of
          Some d \<Rightarrow> if d < b then digits_of b (b * acc + d) True s else None
        | None \<Rightarrow> None))"

definition unsign :: "string \<Rightarrow> bool \<times> string" where
  "unsign s = (case s of
       [] \<Rightarrow> (False, [])
     | c # t \<Rightarrow> if c = CHR ''-'' then (True, t) else if c = CHR ''+'' then (False, t) else (False, s))"

text \<open>\<open>int(s, 16)\<close>\<close>

definition int_hex :: "string \<Rightarrow> int option" where
  "int_hex s =
     (let (neg, t) = unsign (py_strip s);
          n = (if lower (take 2 t) = ''0x'' then digits_of 16 0 True (drop 2 t) else digits_of 16 0 False t)
      in if lower (take 2 t) = ''0x'' \<and> length t = 2 then None
         else map_option (\<lambda>n. if neg then - int n else int n) n)"

text \<open>
  \<open>float(s)\<close>: a decimal with optional fraction and exponent, or the names of the non-finite values.
  A value beyond the largest double is infinite; the rounding to a double is not modelled.
\<close>

definition mantissa :: "string \<Rightarrow> (nat \<times> nat) option" where
  "mantissa s =
     (let whole = takeWhile (\<lambda>c. c \<noteq> CHR ''.'') s; rest = drop (length whole) s; frac = drop 1 rest in
      if rest = [] then map_option (\<lambda>n. (n, 0)) (digits_of 10 0 False whole)
      else if whole = [] \<and> frac = [] then None
      else (case (if whole = [] then Some 0 else digits_of 10 0 False whole,
                  if frac = [] then Some 0 else digits_of 10 0 False frac) of
          (Some n, Some m) \<Rightarrow> (let k = length (filter (\<lambda>c. c \<noteq> CHR ''_'') frac) in Some (n * 10 ^ k + m, k))
        | _ \<Rightarrow> None))"

definition float_limit :: rat where
  "float_limit = 2 ^ 1024 - 2 ^ 970"

definition float_of_rat :: "rat \<Rightarrow> pyfloat" where
  "float_of_rat q = (if q \<ge> float_limit then PosInf else if q \<le> - float_limit then NegInf else Fin q)"

definition scale10 :: "rat \<Rightarrow> int \<Rightarrow> rat" where
  "scale10 q e = (if e \<ge> 0 then q * 10 ^ nat e else q / 10 ^ nat (- e))"

definition float_of_str :: "string \<Rightarrow> pyfloat option" where
  "float_of_str s =
     (let (neg, t) = unsign (py_strip s); name = lower t in
      if name = ''inf'' \<or> name = ''infinity'' then Some (if neg then NegInf else PosInf)
      else if name = ''nan'' then Some NaN
      else (let body = takeWhile (\<lambda>c. c \<noteq> CHR ''e'') name; tail = drop (length body) name;
                (eneg, edigits) = unsign (drop 1 tail)
            in (case (mantissa body, if tail = [] then Some 0 else digits_of 10 0 False edigits) of
                 (Some (n, k), Some e) \<Rightarrow>
                   Some (float_of_rat ((if neg then - 1 else 1) *
                     scale10 (of_nat n) ((if eneg then - int e else int e) - int k)))
               | _ \<Rightarrow> None)))"

text \<open>\<open>float(v)\<close>; \<open>TypeError\<close> and \<open>ValueError\<close> are caught together by every caller here.\<close>

fun py_float :: "pyval \<Rightarrow> pyfloat option" where
  "py_float (PBool b) = Some (Fin (if b then 1 else 0))"
| "py_float (PInt i) = Some (Fin (of_int i))"
| "py_float (PFloat f) = Some f"
| "py_float (PStr s) = float_of_str s"
| "py_float _ = None"

section \<open>Orders\<close>

definition STANDARD_ORDER :: "string list" where
  "STANDARD_ORDER = [''chainstack'', ''helius'', ''alchemy'', ''drpc'', ''publicnode'']"

definition HISTORY_ORDER :: "string list" where
  "HISTORY_ORDER = [''alchemy'', ''helius'']"

definition BALANCE_ORDER :: "string list" where
  "BALANCE_ORDER = [''helius'', ''alchemy'', ''drpc'', ''publicnode'', ''chainstack'']"

definition METHOD_ORDERS :: "(string \<times> string list) list" where
  "METHOD_ORDERS =
     [(''getTransaction'', STANDARD_ORDER), (''getMultipleAccounts'', STANDARD_ORDER),
      (''getTokenSupply'', STANDARD_ORDER), (''getAccountInfo'', STANDARD_ORDER), (''getSlot'', STANDARD_ORDER),
      (''getSignaturesForAddress'', [''helius'', ''alchemy'', ''drpc'', ''publicnode'', ''chainstack'']),
      (''getTokenLargestAccounts'', [''alchemy'', ''helius'', ''drpc'', ''publicnode'', ''chainstack'']),
      (''getTransactionsForAddress'', HISTORY_ORDER), (''getTokenAccountsByOwner'', BALANCE_ORDER)]"

text \<open>
  \<open>history_page_params\<close> on an integer limit (all callers pass one): the provider's cap applies.
\<close>

definition page_cap :: "string \<Rightarrow> int" where
  "page_cap provider = (if provider = ''helius'' then 1000 else 100)"

definition history_page_params :: "string \<Rightarrow> pyval list \<Rightarrow> pyval list res" where
  "history_page_params provider params =
     (case params of
        [address, PDict options] \<Rightarrow>
          (case map_of options ''limit'' of
             None \<Rightarrow> Inr [address, PDict (AList.update ''limit'' (PInt 100) options)]
           | Some (PInt n) \<Rightarrow> Inr [address, PDict (AList.update ''limit'' (PInt (min (page_cap provider) (max 1 n))) options)]
           | _ \<Rightarrow> Inl TypeError)
      | [_, _] \<Rightarrow> Inl TypeError
      | _ \<Rightarrow> Inl (ValueError ''not enough values to unpack''))"

section \<open>EVM routes\<close>

definition evm_endpoint_provider :: "string option \<Rightarrow> string" where
  "evm_endpoint_provider hostname =
     (let host = lower (case hostname of None \<Rightarrow> [] | Some h \<Rightarrow> h) in
      if host = ''alchemy.com'' \<or> ends_with ''.alchemy.com'' host then ''alchemy''
      else if host = ''robinhood-rpc.publicnode.com'' then ''publicnode''
      else if host = ''rpc.mainnet.chain.robinhood.com'' then ''robinhood_public''
      else if host = ''rpc.ordofi.network'' then ''ordo''
      else ''configured'')"

definition block_number :: "pyval \<Rightarrow> int option" where
  "block_number v = (case v of PStr s \<Rightarrow> int_hex s | _ \<Rightarrow> None)"

definition getd_default :: "pyval \<Rightarrow> string \<Rightarrow> pyval \<Rightarrow> pyval" where
  "getd_default d k v = (if has_key d k then getd d k else v)"

definition evm_route_supports :: "string \<Rightarrow> string \<Rightarrow> pyval list \<Rightarrow> bool res" where
  "evm_route_supports provider method params =
     (if method \<noteq> ''eth_getLogs'' then Inr True
      else if provider = ''publicnode'' then Inr False
      else if provider \<noteq> ''alchemy'' then Inr True
      else (case params of
          [] \<Rightarrow> Inr False
        | query # _ \<Rightarrow>
            if \<not> is_dict query then Inr False
            else if truthy (getd query ''blockHash'') then Inr True
            else (let start = getd_default query ''fromBlock'' (PStr ''latest'');
                      end' = getd_default query ''toBlock'' (PStr ''latest'') in
              bindR (if py_eq start end' then py_in_strs start [''latest'', ''pending'', ''safe'', ''finalized''] else Inr False)
                (\<lambda>tag. if tag then Inr True
                  else Inr (case (block_number end', block_number start) of
                      (Some e, Some s) \<Rightarrow> 1 \<le> e - s + 1 \<and> e - s + 1 \<le> 10
                    | _ \<Rightarrow> False)))))"

section \<open>Read results\<close>

definition invalid :: "string \<Rightarrow> unit res" where
  "invalid m = Inl (ValueError m)"

text \<open>\<open>str(raw)\<close> is a decimal number exactly for a decimal string and a non-negative integer.\<close>

definition raw_digits :: "pyval \<Rightarrow> bool" where
  "raw_digits v = (case v of PStr s \<Rightarrow> isdigit s | PInt i \<Rightarrow> 0 \<le> i | _ \<Rightarrow> False)"

definition validate_amount :: "pyval \<Rightarrow> unit res" where
  "validate_amount v =
     bindR (dget v ''amount'') (\<lambda>raw.
       if raw \<noteq> PNone then
         (if \<not> raw_digits raw \<or> \<not> (case getd v ''decimals'' of PInt d \<Rightarrow> 0 \<le> d \<and> d \<le> 255 | _ \<Rightarrow> False)
          then invalid ''invalid raw token amount'' else Inr ())
       else (let amount = (if has_key v ''uiAmountString'' then getd v ''uiAmountString'' else getd v ''uiAmount'') in
         if amount = PNone \<or> is_bool amount then invalid ''invalid token amount''
         else (case py_float amount of
             Some (Fin q) \<Rightarrow> if q < 0 then invalid ''invalid token amount'' else Inr ()
           | _ \<Rightarrow> invalid ''invalid token amount'')))"

definition get_or_empty :: "pyval \<Rightarrow> string \<Rightarrow> pyval res" where
  "get_or_empty v k = bindR (dget v k) (\<lambda>x. Inr (py_or x (PDict [])))"

text \<open>\<open>info\<close> of one token account row, by the chain of \<open>or {}\<close> and \<open>get\<close>.\<close>

definition account_info :: "pyval \<Rightarrow> pyval res" where
  "account_info row =
     bindR (get_or_empty (py_or row (PDict [])) ''account'') (\<lambda>account.
     bindR (get_or_empty account ''data'') (\<lambda>data.
     bindR (dget_default data ''parsed'' (PDict [])) (\<lambda>parsed. dget_default parsed ''info'' (PDict []))))"

definition validate_balance_row :: "pyval \<Rightarrow> unit \<Rightarrow> pyval \<Rightarrow> unit res" where
  "validate_balance_row mint u row =
     bindR (account_info row) (\<lambda>info.
       if \<not> is_dict info \<or> \<not> is_dict (getd info ''tokenAmount'') then invalid ''unparsed token balance''
       else if truthy (getd info ''mint'') \<and> truthy mint \<and> \<not> py_eq (getd info ''mint'') mint
       then invalid ''token balance mint mismatch''
       else validate_amount (getd info ''tokenAmount''))"

definition validate_largest_row :: "string list \<Rightarrow> pyval \<Rightarrow> string list res" where
  "validate_largest_row seen row =
     (if \<not> is_dict row then Inl (ValueError ''invalid largest token account'')
      else (case getd row ''address'' of
          PStr a \<Rightarrow>
            if py_strip a = [] \<or> a \<noteq> py_strip a then Inl (ValueError ''missing largest token account address'')
            else if a \<in> set seen then Inl (ValueError ''duplicate largest token account'')
            else bindR (validate_amount row) (\<lambda>_. Inr (seen @ [a]))
        | _ \<Rightarrow> Inl (ValueError ''missing largest token account address'')))"

definition signature_row_ok :: "pyval \<Rightarrow> bool" where
  "signature_row_ok row \<longleftrightarrow> is_dict row \<and> truthy (getd row ''signature'')"

fun py_len :: "pyval \<Rightarrow> nat res" where
  "py_len (PStr s) = Inr (length s)"
| "py_len (PList xs) = Inr (length xs)"
| "py_len (PDict d) = Inr (length d)"
| "py_len _ = Inl TypeError"

definition validate_account_list :: "string \<Rightarrow> pyval list \<Rightarrow> pyval list \<Rightarrow> unit res" where
  "validate_account_list method params rows =
     (if method = ''getMultipleAccounts'' then
        bindR (list_item params 0) (\<lambda>p. bindR (py_len p) (\<lambda>n.
          if length rows \<noteq> n then invalid ''incomplete account batch'' else Inr ()))
      else if method = ''getTokenAccountsByOwner'' then
        bindR (list_item params 1) (\<lambda>p. bindR (dget p ''mint'') (\<lambda>mint. foldR (validate_balance_row mint) () rows))
      else bindR (foldR validate_largest_row [] rows) (\<lambda>_. Inr ()))"

definition validate_result :: "string \<Rightarrow> pyval list \<Rightarrow> pyval \<Rightarrow> unit res" where
  "validate_result method params result =
     (if method = ''getTransaction'' then
        (if result \<noteq> PNone \<and> \<not> is_dict result then invalid ''invalid transaction response'' else Inr ())
      else if method = ''getSignaturesForAddress'' then
        (if \<not> is_list result \<or> \<not> list_all signature_row_ok (as_list result) then invalid ''invalid signature list'' else Inr ())
      else if method = ''getTransactionsForAddress'' then
        (if \<not> is_dict result \<or> \<not> is_list (getd result ''data'') then invalid ''invalid indexed history response'' else Inr ())
      else if method \<in> {''getTokenAccountsByOwner'', ''getTokenLargestAccounts'', ''getMultipleAccounts''} then
        (if \<not> is_dict result \<or> \<not> is_list (getd result ''value'') then invalid ''missing account list''
         else validate_account_list method params (as_list (getd result ''value'')))
      else if method = ''getTokenSupply'' then
        (if \<not> is_dict result \<or> \<not> is_dict (getd result ''value'') then invalid ''missing token supply''
         else validate_amount (getd result ''value''))
      else Inr ())"

section \<open>Laws\<close>

text \<open>A stated amount: raw digits with decimals, or a finite number that is not negative.\<close>

definition amount_stated :: "pyval \<Rightarrow> bool" where
  "amount_stated v \<longleftrightarrow>
     (raw_digits (getd v ''amount'') \<and> (\<exists>d. getd v ''decimals'' = PInt d \<and> 0 \<le> d \<and> d \<le> 255)) \<or>
     (\<exists>q \<ge> 0. py_float (getd_default v ''uiAmountString'' (getd v ''uiAmount'')) = Some (Fin q))"

lemma validate_amount_stated: "validate_amount v = Inr u \<Longrightarrow> amount_stated v"
proof -
  assume v: "validate_amount v = Inr u"
  then obtain d where d: "v = PDict d" by (cases v) (simp_all add: validate_amount_def dget_def)
  show ?thesis
  proof (cases "getd v ''amount'' = PNone")
    case True
    with v d show ?thesis
      by (auto simp: validate_amount_def amount_stated_def invalid_def getd_default_def Let_def simp del: getd.simps has_key.simps
          split: if_splits option.splits pyfloat.splits)
  next
    case False
    with v d show ?thesis
      by (auto simp: validate_amount_def amount_stated_def invalid_def simp del: getd.simps split: if_splits pyval.splits)
  qed
qed

lemma foldR_all:
  assumes "foldR f s xs = Inr s'" and "\<And>s x s'. x \<in> set xs \<Longrightarrow> f s x = Inr s' \<Longrightarrow> P x"
  shows "\<forall>x \<in> set xs. P x"
  using assms by (induction xs arbitrary: s) (auto simp: bindR_eq_Inr)

lemma validate_balance_row_stated:
  "validate_balance_row mint u row = Inr u' \<Longrightarrow>
     \<exists>info. account_info row = Inr info \<and> is_dict info \<and> amount_stated (getd info ''tokenAmount'')"
  by (auto simp: validate_balance_row_def bindR_eq_Inr invalid_def split: if_splits dest: validate_amount_stated)

text \<open>
  An absent balance is never zero.  An answer to a balance question that passes validation states
  an amount for every row: nothing in it can be read as an empty account by default.
\<close>

theorem validated_balances_stated:
  assumes "validate_result ''getTokenAccountsByOwner'' params result = Inr u"
  shows "\<forall>row \<in> set (as_list (getd result ''value'')). \<exists>info. account_info row = Inr info \<and> is_dict info \<and>
    amount_stated (getd info ''tokenAmount'')"
proof -
  from assms obtain p mint where "foldR (validate_balance_row mint) () (as_list (getd result ''value'')) = Inr ()"
    by (auto simp: validate_result_def validate_account_list_def bindR_eq_Inr invalid_def split: if_splits)
  then show ?thesis by (rule foldR_all) (rule validate_balance_row_stated)
qed

definition demo_balances :: pyval where
  "demo_balances = PDict [(''value'', PList [PDict [(''account'', PDict [(''data'', PDict [(''parsed'',
     PDict [(''info'', PDict [(''mint'', PStr ''M''), (''tokenAmount'', PDict [(''amount'', PStr ''7''),
       (''decimals'', PInt 6)])])])])])]])]"

theorem validated_balances_stated_witness:
  "\<exists>row info. as_list (getd demo_balances ''value'') = [row] \<and> account_info row = Inr info \<and> is_dict info \<and>
    amount_stated (getd info ''tokenAmount'')"
proof -
  obtain row where row: "as_list (getd demo_balances ''value'') = [row]" by (simp add: demo_balances_def)
  have "validate_result ''getTokenAccountsByOwner'' [PStr ''O'', PDict [(''mint'', PStr ''M'')]] demo_balances = Inr ()"
    by code_simp
  from validated_balances_stated [OF this] show ?thesis by (simp add: row)
qed

text \<open>
  Bounded log ranges.  A log query by number is sent to the Alchemy route only when it names a
  range of one to ten blocks.
\<close>

theorem alchemy_log_range_bounded:
  assumes "evm_route_supports ''alchemy'' ''eth_getLogs'' (query # rest) = Inr True"
    and "\<not> truthy (getd query ''blockHash'')"
    and "getd_default query ''fromBlock'' (PStr ''latest'') = PStr a" "a \<notin> {''latest'', ''pending'', ''safe'', ''finalized''}"
  shows "\<exists>b s e. getd_default query ''toBlock'' (PStr ''latest'') = PStr b \<and> int_hex a = Some s \<and> int_hex b = Some e \<and>
    s \<le> e \<and> e < s + 10"
  using assms
  by (auto simp: evm_route_supports_def Let_def block_number_def split: if_splits option.splits pyval.splits)

theorem alchemy_log_range_bounded_witness:
  "\<exists>b s e. PStr ''0x1B'' = PStr b \<and> int_hex ''0x12'' = Some s \<and> int_hex b = Some e \<and> s \<le> e \<and> e < s + 10"
proof -
  let ?q = "PDict [(''fromBlock'', PStr ''0x12''), (''toBlock'', PStr ''0x1B'')]"
  have "evm_route_supports ''alchemy'' ''eth_getLogs'' [?q] = Inr True" by code_simp
  from alchemy_log_range_bounded [OF this, of "''0x12''"] show ?thesis
    by (simp add: getd_default_def)
qed

lemma history_page_params_limit:
  assumes "history_page_params provider params = Inr ps"
  shows "\<exists>a opts n. ps = [a, PDict opts] \<and> map_of opts ''limit'' = Some (PInt n) \<and> 1 \<le> n \<and> n \<le> page_cap provider"
  using assms by (auto simp: history_page_params_def page_cap_def split: list.splits pyval.splits option.splits)

end
