(* ===== verification/Balance_Batch.thy ===== *)
theory Balance_Batch
  imports Rpc_Routing "HOL-Library.Sublist"
begin

text \<open>
  \<^verbatim>\<open>src/balance_batch.py\<close>: token balances read in batches of known token accounts, with a full
  enumeration required of every owner whose inventory is not validated.

  A stored enumeration is the JSON value the program persists.  The inventory of an owner that passes
  the checks of \<open>prime_known_balances\<close> is read once into the record \<open>inventory\<close>; what the loop
  writes back goes to the stored value.  The remote call is a parameter that acts on a state of its own.
\<close>

section \<open>Reading a token account\<close>

definition amount_int :: "pyval \<Rightarrow> int res" where
  "amount_int v = (case v of
      PStr s \<Rightarrow> if isdigit s then Inr (int (int_of_dec s)) else Inl (ValueError ''missing or invalid raw amount'')
    | _ \<Rightarrow> Inl (ValueError ''missing or invalid raw amount''))"

definition slot_of :: "pyval \<Rightarrow> int res" where
  "slot_of result = (case getd (getd result ''context'') ''slot'' of
      PInt slot \<Rightarrow> if slot < 0 then Inl (ValueError ''missing or invalid context slot'') else Inr slot
    | _ \<Rightarrow> Inl (ValueError ''missing or invalid context slot''))"

fun scale_ok :: "pyval \<Rightarrow> bool" where
  "scale_ok (PInt n) = (0 \<le> n \<and> n \<le> 255)"
| "scale_ok _ = False"

fun nonempty_str :: "pyval \<Rightarrow> bool" where
  "nonempty_str (PStr s) = (s \<noteq> [])"
| "nonempty_str _ = False"

fun the_str :: "pyval \<Rightarrow> string" where
  "the_str (PStr s) = s"
| "the_str _ = []"

fun the_int :: "pyval \<Rightarrow> int" where
  "the_int (PInt n) = n"
| "the_int _ = 0"

definition account_of :: "pyval \<Rightarrow> string \<Rightarrow> string \<Rightarrow> (int \<times> int \<times> string) res" where
  "account_of account owner mint =
     (let program = getd account ''owner'';
          parsed = getd (getd account ''data'') ''parsed'';
          info = getd parsed ''info'';
          amount = getd info ''tokenAmount'';
          decimals = getd amount ''decimals''
      in bindR (guardR (is_dict account \<and> getd account ''executable'' \<noteq> PBool True)
                  (ValueError ''missing or invalid token account'')) (\<lambda>_.
         bindR (guardR (nonempty_str program \<and> is_dict parsed)
                  (ValueError ''missing token account program or parsed data'')) (\<lambda>_.
         bindR (guardR (getd parsed ''type'' = PStr ''account'') (ValueError ''not a parsed token account'')) (\<lambda>_.
         bindR (guardR (is_dict info \<and> getd info ''mint'' = PStr mint \<and> getd info ''owner'' = PStr owner)
                  (ValueError ''token account owner/mint mismatch'')) (\<lambda>_.
         bindR (guardR (scale_ok decimals) (ValueError ''invalid token decimals'')) (\<lambda>_.
         bindR (amount_int (getd amount ''amount'')) (\<lambda>raw. Inr (raw, the_int decimals, the_str program))))))))"

text \<open>\<open>raw / 10 ** decimals\<close>: a quotient a float cannot hold raises \<open>OverflowError\<close>.\<close>

definition total_of :: "int \<Rightarrow> int option \<Rightarrow> rat res" where
  "total_of raw decimals =
     (let q = of_int raw / 10 ^ nat (case decimals of None \<Rightarrow> 0 | Some d \<Rightarrow> d)
      in if q \<ge> float_limit then Inl OverflowError else Inr q)"

section \<open>The stored enumerations\<close>

type_synonym jdict = "(string \<times> pyval) list"

text \<open>\<open>store["token_account_enumerations"]\<close>: by mint, then by owner.\<close>

type_synonym enumerations = "(string \<times> jdict) list"

definition entries_of :: "enumerations \<Rightarrow> string \<Rightarrow> jdict" where
  "entries_of store mint = (case map_of store mint of None \<Rightarrow> [] | Some d \<Rightarrow> d)"

text \<open>A number of the language as a finite float, where \<open>math.isfinite\<close> accepts it; a bool is refused.\<close>

fun finite_num :: "pyval \<Rightarrow> rat option" where
  "finite_num (PInt i) = (if of_int \<bar>i\<bar> < float_limit then Some (of_int i) else None)"
| "finite_num (PFloat (Fin q)) = Some q"
| "finite_num _ = None"

text \<open>\<open>slot < v\<close> for an integer slot: \<open>None\<close> is the \<open>TypeError\<close> of a value that is no number.\<close>

fun int_less :: "int \<Rightarrow> pyval \<Rightarrow> bool option" where
  "int_less i (PFloat PosInf) = Some True"
| "int_less i (PFloat NegInf) = Some False"
| "int_less i (PFloat NaN) = Some False"
| "int_less i v = map_option (\<lambda>q. of_int i < q) (py_num v)"

definition close_to :: "rat \<Rightarrow> rat \<Rightarrow> bool" where
  "close_to a b \<longleftrightarrow> \<bar>a - b\<bar> \<le> max (max \<bar>a\<bar> \<bar>b\<bar> / 10 ^ 12) (1 / 10 ^ 12)"

text \<open>\<open>previous and slot < previous.get("checked_slot", previous.get("slot", 0))\<close>\<close>

definition older_enumeration :: "int \<Rightarrow> pyval option \<Rightarrow> bool res" where
  "older_enumeration slot previous = (case previous of
      None \<Rightarrow> Inr False
    | Some p \<Rightarrow> if \<not> truthy p then Inr False
        else bindR (dget_default p ''slot'' (PInt 0)) (\<lambda>s. bindR (dget_default p ''checked_slot'' s) (\<lambda>c.
          case int_less slot c of None \<Rightarrow> Inl TypeError | Some b \<Rightarrow> Inr b)))"

record found =
  fd_accounts :: "pyval list"
  fd_seen :: "string list"
  fd_total :: int
  fd_decimals :: "int option"

definition enumerate_row :: "string \<Rightarrow> string \<Rightarrow> found \<Rightarrow> pyval \<Rightarrow> found res" where
  "enumerate_row owner mint f row =
     (let pubkey = getd row ''pubkey'' in
      bindR (guardR (is_dict row) (ValueError ''invalid enumeration row'')) (\<lambda>_.
      bindR (guardR (nonempty_str pubkey \<and> the_str pubkey \<notin> set (fd_seen f))
               (ValueError ''missing or duplicate token account pubkey'')) (\<lambda>_.
      bindR (account_of (getd row ''account'') owner mint) (\<lambda>(raw, scale, program).
      bindR (guardR (fd_decimals f = None \<or> fd_decimals f = Some scale)
               (ValueError ''inconsistent token decimals'')) (\<lambda>_.
        Inr \<lparr>fd_accounts = fd_accounts f @ [PDict [(''pubkey'', pubkey), (''program'', PStr program),
                                                    (''amount_raw'', PStr (str_of_int raw))]],
             fd_seen = the_str pubkey # fd_seen f, fd_total = fd_total f + raw, fd_decimals = Some scale\<rparr>)))))"

definition read_enumeration :: "string \<Rightarrow> string \<Rightarrow> pyval \<Rightarrow> found res" where
  "read_enumeration owner mint result =
     bindR (guardR (is_list (getd result ''value'')) (ValueError ''missing complete enumeration'')) (\<lambda>_.
       foldR (enumerate_row owner mint) \<lparr>fd_accounts = [], fd_seen = [], fd_total = 0, fd_decimals = None\<rparr>
         (as_list (getd result ''value'')))"

definition fresh_entry :: "string \<Rightarrow> string \<Rightarrow> int \<Rightarrow> pyval \<Rightarrow> found \<Rightarrow> rat \<Rightarrow> pyval" where
  "fresh_entry owner mint slot now f actual = PDict
     [(''schema_version'', PInt 1), (''owner'', PStr owner), (''mint'', PStr mint),
      (''slot'', PInt slot), (''checked_slot'', PInt slot), (''enumerated_at'', now),
      (''checked_at'', now), (''decimals'', case fd_decimals f of None \<Rightarrow> PNone | Some d \<Rightarrow> PInt d),
      (''total_raw'', PStr (str_of_int (fd_total f))), (''total'', PFloat (Fin actual)),
      (''accounts'', PList (fd_accounts f))]"

text \<open>The body of the \<open>try\<close>: the entry to store.\<close>

definition enumeration_entry ::
    "pyval option \<Rightarrow> string \<Rightarrow> string \<Rightarrow> pyval \<Rightarrow> pyval \<Rightarrow> pyval \<Rightarrow> pyval res" where
  "enumeration_entry previous owner mint result tot now =
     bindR (slot_of result) (\<lambda>slot.
     case finite_num tot of
       None \<Rightarrow> Inl (ValueError ''invalid enumeration identity, time or total'')
     | Some t \<Rightarrow>
       bindR (guardR (owner \<noteq> [] \<and> mint \<noteq> [] \<and> t \<ge> 0 \<and> finite_num now \<noteq> None)
                (ValueError ''invalid enumeration identity, time or total'')) (\<lambda>_.
       bindR (older_enumeration slot previous) (\<lambda>older.
       bindR (guardR (\<not> older) (ValueError ''enumeration older than validated inventory'')) (\<lambda>_.
       bindR (read_enumeration owner mint result) (\<lambda>f.
       bindR (total_of (fd_total f) (fd_decimals f)) (\<lambda>actual.
       bindR (guardR (close_to actual t) (ValueError ''enumeration total mismatch'')) (\<lambda>_.
         Inr (fresh_entry owner mint slot now f actual))))))))"

fun flag_entry :: "pyval \<Rightarrow> pyval" where
  "flag_entry (PDict d) = PDict (AList.update ''needs_enumeration'' (PBool True) d)"
| "flag_entry v = v"

definition flag_owner :: "jdict \<Rightarrow> string \<Rightarrow> jdict" where
  "flag_owner entries owner = (case map_of entries owner of
      Some (PDict d) \<Rightarrow> AList.update owner (flag_entry (PDict d)) entries
    | _ \<Rightarrow> entries)"

definition remember_enumeration ::
    "enumerations \<Rightarrow> string \<Rightarrow> string \<Rightarrow> pyval \<Rightarrow> pyval \<Rightarrow> pyval \<Rightarrow> bool \<times> enumerations" where
  "remember_enumeration store owner mint result tot now =
     (let entries = entries_of store mint in
      case enumeration_entry (map_of entries owner) owner mint result tot now of
        Inr entry \<Rightarrow> (True, AList.update mint (AList.update owner entry entries) store)
      | Inl e \<Rightarrow> (False, AList.update mint (flag_owner entries owner) store))"

section \<open>Eligible inventories\<close>

definition batch_limit :: "jdict \<Rightarrow> string \<Rightarrow> int \<Rightarrow> int \<Rightarrow> int res" where
  "batch_limit config key fallback maximum =
     (case map_of config key of
        None \<Rightarrow> Inr (min fallback maximum)
      | Some (PInt v) \<Rightarrow> if v < 0 then Inl (ValueError ''invalid balance batch limit'') else Inr (min v maximum)
      | Some _ \<Rightarrow> Inl (ValueError ''invalid balance batch limit''))"

record known_account =
  kn_pubkey :: string
  kn_program :: string
  kn_raw :: int

record inventory =
  iv_known :: "known_account list"
  iv_decimals :: int
  iv_total :: int
  iv_minimum :: int  \<comment> \<open>the later of the enumeration's and the validated slot\<close>

text \<open>
  \<open>max(entry["slot"], entry["checked_slot"])\<close>, where the result is an integer; any other result, and
  values that do not compare, make the inventory ineligible.
\<close>

fun minimum_slot :: "pyval \<Rightarrow> pyval \<Rightarrow> int option" where
  "minimum_slot (PInt a) (PInt b) = Some (max a b)"
| "minimum_slot (PInt a) v = (case int_less a v of Some False \<Rightarrow> Some a | _ \<Rightarrow> None)"
| "minimum_slot (PFloat NegInf) (PInt b) = Some b"
| "minimum_slot v (PInt b) = (case py_num v of Some q \<Rightarrow> if q < of_int b then Some b else None | None \<Rightarrow> None)"
| "minimum_slot v w = None"

definition read_known :: "pyval \<Rightarrow> known_account option" where
  "read_known row = (case amount_int (getd row ''amount_raw'') of
      Inl e \<Rightarrow> None
    | Inr raw \<Rightarrow> if nonempty_str (getd row ''pubkey'') \<and> nonempty_str (getd row ''program'')
        then Some \<lparr>kn_pubkey = the_str (getd row ''pubkey''), kn_program = the_str (getd row ''program''), kn_raw = raw\<rparr>
        else None)"

fun read_all :: "pyval list \<Rightarrow> known_account list option" where
  "read_all [] = Some []"
| "read_all (row # rows) = (case read_known row of None \<Rightarrow> None | Some k \<Rightarrow> map_option ((#) k) (read_all rows))"

text \<open>The body of the \<open>try\<close> of an owner: \<open>None\<close> where any exception is raised, all of them caught alike.\<close>

definition entry_current :: "rat \<Rightarrow> int \<Rightarrow> string \<Rightarrow> string \<Rightarrow> pyval \<Rightarrow> bool" where
  "entry_current now interval owner mint entry \<longleftrightarrow>
     is_dict entry \<and> py_eq (PInt 1) (getd entry ''schema_version'') \<and> getd entry ''owner'' = PStr owner \<and>
     getd entry ''mint'' = PStr mint \<and> \<not> truthy (getd entry ''needs_enumeration'') \<and>
     (case py_num (getd entry ''enumerated_at'') of
        None \<Rightarrow> False
      | Some at_time \<Rightarrow> 0 \<le> now - at_time \<and> now - at_time < of_int interval)"

definition read_inventory :: "nat \<Rightarrow> nat \<Rightarrow> pyval \<Rightarrow> inventory option" where
  "read_inventory used max_accounts entry =
     (let rows = as_list (getd entry ''accounts''); decimals = getd entry ''decimals'' in
      if is_list (getd entry ''accounts'') \<and> rows \<noteq> [] \<and> used + length rows \<le> max_accounts \<and> scale_ok decimals
      then (case (read_all rows, amount_int (getd entry ''total_raw''),
                  minimum_slot (getd entry ''slot'') (getd entry ''checked_slot'')) of
          (Some ks, Inr tot, Some slot) \<Rightarrow>
            if distinct (map kn_pubkey ks) \<and> sum_list (map kn_raw ks) = tot \<and> 0 \<le> slot
            then Some \<lparr>iv_known = ks, iv_decimals = the_int decimals, iv_total = tot, iv_minimum = slot\<rparr>
            else None
        | _ \<Rightarrow> None)
      else None)"

type_synonym flat_row = "string \<times> known_account \<times> int"

record picking =
  pk_eligible :: "(string \<times> inventory) list"
  pk_flat :: "flat_row list"
  pk_invalid :: "string list"

definition pick_owner :: "rat \<Rightarrow> int \<Rightarrow> nat \<Rightarrow> jdict \<Rightarrow> string \<Rightarrow> picking \<Rightarrow> string \<Rightarrow> picking" where
  "pick_owner now interval max_accounts entries mint st owner =
     (case (case map_of entries owner of
              None \<Rightarrow> None
            | Some entry \<Rightarrow> if entry_current now interval owner mint entry
                then read_inventory (length (pk_flat st)) max_accounts entry else None) of
        None \<Rightarrow> st\<lparr>pk_invalid := insert_new owner (pk_invalid st)\<rparr>
      | Some iv \<Rightarrow> st\<lparr>pk_eligible := AList.update owner iv (pk_eligible st),
                      pk_flat := pk_flat st @ map (\<lambda>k. (owner, k, iv_minimum iv)) (iv_known iv)\<rparr>)"

section \<open>The batched reads\<close>

text \<open>\<open>rpc.call("getMultipleAccounts", params)\<close>, on the state of the outside.\<close>

type_synonym 'w call = "pyval list \<Rightarrow> 'w \<Rightarrow> pyval res \<times> 'w"

type_synonym reading = "known_account \<times> int \<times> int"  \<comment> \<open>the known account, the raw amount and the context slot\<close>

record batching =
  bt_results :: "(string \<times> reading list) list"
  bt_invalid :: "string list"
  bt_requests :: nat
  bt_failures :: nat

fun groups_of :: "nat \<Rightarrow> 'a list \<Rightarrow> 'a list list" where
  "groups_of n [] = []"
| "groups_of n (x # xs) = (if n = 0 then [] else take n (x # xs) # groups_of n (drop n (x # xs)))"

definition batch_params :: "flat_row list \<Rightarrow> pyval list" where
  "batch_params g =
     [PList (map (\<lambda>(owner, k, slot). PStr (kn_pubkey k)) g),
      PDict [(''encoding'', PStr ''jsonParsed''),
             (''minContextSlot'', PInt (Max (set (map (\<lambda>(owner, k, slot). slot) g))))]]"

definition group_minimum :: "flat_row list \<Rightarrow> int" where
  "group_minimum g = Max (set (map (\<lambda>(owner, k, slot). slot) g))"

text \<open>The slot and the rows of an answer that fits the group.\<close>

definition batch_rows :: "flat_row list \<Rightarrow> pyval \<Rightarrow> (int \<times> pyval list) res" where
  "batch_rows g response =
     bindR (slot_of response) (\<lambda>slot.
       (let rows = getd response ''value'' in
        bindR (guardR (group_minimum g \<le> slot \<and> is_list rows \<and> length (as_list rows) = length g)
                 (ValueError ''stale or incomplete account batch'')) (\<lambda>_. Inr (slot, as_list rows))))"

definition results_of :: "(string \<times> reading list) list \<Rightarrow> string \<Rightarrow> reading list" where
  "results_of results owner = (case map_of results owner of None \<Rightarrow> [] | Some rs \<Rightarrow> rs)"

text \<open>One row of an answer: an account that dropped, changed or does not read makes its owner invalid.\<close>

definition judge_row ::
    "(string \<times> inventory) list \<Rightarrow> string \<Rightarrow> int \<Rightarrow> batching \<Rightarrow> flat_row \<times> pyval \<Rightarrow> batching" where
  "judge_row eligible mint slot st = (\<lambda>((owner, k, old_slot), account).
     case account_of account owner mint of
       Inl e \<Rightarrow> st\<lparr>bt_invalid := insert_new owner (bt_invalid st)\<rparr>
     | Inr (raw, decimals, program) \<Rightarrow>
         if map_option iv_decimals (map_of eligible owner) = Some decimals \<and> program = kn_program k \<and> kn_raw k \<le> raw
         then st\<lparr>bt_results := AList.update owner (results_of (bt_results st) owner @ [(k, raw, slot)]) (bt_results st)\<rparr>
         else st\<lparr>bt_invalid := insert_new owner (bt_invalid st)\<rparr>)"

definition fail_group :: "flat_row list \<Rightarrow> batching \<Rightarrow> batching" where
  "fail_group g st = st\<lparr>bt_failures := bt_failures st + 1,
     bt_invalid := foldl (\<lambda>xs (owner, k, slot). insert_new owner xs) (bt_invalid st) g\<rparr>"

definition run_group ::
    "'w call \<Rightarrow> (string \<times> inventory) list \<Rightarrow> string \<Rightarrow> batching \<times> 'w \<Rightarrow> flat_row list \<Rightarrow> batching \<times> 'w" where
  "run_group call eligible mint = (\<lambda>(st, w) g.
     let (answer, w') = call (batch_params g) w;
         st1 = st\<lparr>bt_requests := bt_requests st + 1\<rparr>
     in case bindR answer (batch_rows g) of
          Inl e \<Rightarrow> (fail_group g st1, w')
        | Inr (slot, rows) \<Rightarrow> (foldl (judge_row eligible mint slot) st1 (zip g rows), w'))"

section \<open>Priming the cache\<close>

type_synonym cache = "((string \<times> string) \<times> rat) list"

record priming =
  pr_cache :: cache
  pr_entries :: jdict
  pr_invalid :: "string list"
  pr_primed :: nat

fun refresh_row :: "reading list \<Rightarrow> pyval \<Rightarrow> pyval" where
  "refresh_row rs (PDict d) =
     (case find (\<lambda>(k, raw, slot). getd (PDict d) ''pubkey'' = PStr (kn_pubkey k)) rs of
        None \<Rightarrow> PDict d
      | Some (k, raw, slot) \<Rightarrow> PDict (AList.update ''amount_raw'' (PStr (str_of_int raw)) d))"
| "refresh_row rs v = v"

text \<open>\<open>known["amount_raw"] = ...\<close> on the rows of the entry, then \<open>entry.update(...)\<close>.\<close>

fun refresh_entry :: "rat \<Rightarrow> rat \<Rightarrow> reading list \<Rightarrow> pyval \<Rightarrow> pyval" where
  "refresh_entry now tot rs (PDict d) = PDict
     (AList.update ''checked_at'' (PFloat (Fin now))
     (AList.update ''checked_slot'' (PInt (Max (set (map (\<lambda>(k, raw, slot). slot) rs))))
     (AList.update ''total'' (PFloat (Fin tot))
     (AList.update ''total_raw'' (PStr (str_of_int (\<Sum>(k, raw, slot)\<leftarrow>rs. raw)))
     (AList.update ''accounts'' (PList (map (refresh_row rs) (as_list (getd (PDict d) ''accounts'')))) d)))))"
| "refresh_entry now tot rs v = v"

definition finish_owner ::
    "rat \<Rightarrow> string \<Rightarrow> (string \<times> reading list) list \<Rightarrow> priming \<Rightarrow> string \<times> inventory \<Rightarrow> priming" where
  "finish_owner now mint results st = (\<lambda>(owner, iv).
     let rs = results_of results owner; raw = (\<Sum>(k, raw, slot)\<leftarrow>rs. raw) in
     if owner \<in> set (pr_invalid st) \<or> length rs \<noteq> length (iv_known iv)
     then st\<lparr>pr_invalid := insert_new owner (pr_invalid st)\<rparr>
     else case bindR (guardR (iv_total iv \<le> raw) (ValueError ''inventory decreased''))
                 (\<lambda>_. total_of raw (Some (iv_decimals iv))) of
            Inl e \<Rightarrow> st\<lparr>pr_cache := AList.delete (owner, mint) (pr_cache st),
                        pr_invalid := insert_new owner (pr_invalid st)\<rparr>
          | Inr tot \<Rightarrow> st\<lparr>pr_cache := AList.update (owner, mint) tot (pr_cache st),
                          pr_entries := (case map_of (pr_entries st) owner of
                              None \<Rightarrow> pr_entries st
                            | Some entry \<Rightarrow> AList.update owner (refresh_entry now tot rs entry) (pr_entries st)),
                          pr_primed := pr_primed st + 1\<rparr>)"

record batch_stats =
  bs_status :: string
  bs_primed :: nat
  bs_requests :: nat
  bs_required :: "string list"
  bs_failures :: nat

text \<open>The distinct owners in order, each evicted from the cache; those beyond the limit enumerate.\<close>

definition evict_all :: "string \<Rightarrow> string list \<Rightarrow> cache \<Rightarrow> cache" where
  "evict_all mint owners cache = foldl (\<lambda>c owner. AList.delete (owner, mint) c) cache owners"

definition distinct_owners :: "string list \<Rightarrow> string list" where
  "distinct_owners owners = foldl (\<lambda>seen owner. insert_new owner seen) [] owners"

definition prime_selected ::
    "'w call \<Rightarrow> string list \<Rightarrow> string \<Rightarrow> jdict \<Rightarrow> nat \<Rightarrow> int \<Rightarrow> rat \<Rightarrow> cache \<Rightarrow> 'w \<Rightarrow> priming \<times> batching \<times> 'w" where
  "prime_selected call selected mint entries max_accounts interval now cache w =
     (let picked = foldl (pick_owner now interval max_accounts entries mint)
                     \<lparr>pk_eligible = [], pk_flat = [], pk_invalid = []\<rparr> selected;
          start = \<lparr>bt_results = [], bt_invalid = pk_invalid picked, bt_requests = 0, bt_failures = 0\<rparr>;
          (batched, w') = foldl (run_group call (pk_eligible picked) mint) (start, w) (groups_of 100 (pk_flat picked));
          primed = foldl (finish_owner now mint (bt_results batched))
                     \<lparr>pr_cache = cache, pr_entries = entries, pr_invalid = bt_invalid batched, pr_primed = 0\<rparr>
                     (pk_eligible picked)
      in (primed, batched, w'))"

definition prime_owners ::
    "'w call \<Rightarrow> string list \<Rightarrow> string \<Rightarrow> nat \<Rightarrow> nat \<Rightarrow> int \<Rightarrow> rat \<Rightarrow> enumerations \<Rightarrow> cache \<Rightarrow> 'w
      \<Rightarrow> batch_stats \<times> enumerations \<times> cache \<times> 'w" where
  "prime_owners call owners mint max_owners max_accounts interval now store cache w =
     (let wanted = distinct_owners owners; selected = take max_owners wanted; entries = entries_of store mint;
          (primed, batched, w') = prime_selected call selected mint entries max_accounts interval now
                                    (evict_all mint owners cache) w;
          refused = filter (\<lambda>owner. owner \<in> set (pr_invalid primed)) selected;
          required = drop max_owners wanted @ refused
      in (\<lparr>bs_status = (if required \<noteq> [] then ''partial'' else ''ok''), bs_primed = pr_primed primed,
           bs_requests = bt_requests batched, bs_required = required, bs_failures = bt_failures batched\<rparr>,
          AList.update mint (foldl flag_owner (pr_entries primed) refused) store, pr_cache primed, w'))"

definition batch_limits :: "jdict \<Rightarrow> (nat \<times> nat \<times> int) res" where
  "batch_limits config =
     bindR (batch_limit config ''balance_batch_max_owners'' 256 4096) (\<lambda>max_owners.
     bindR (batch_limit config ''balance_batch_max_accounts'' 1000 10000) (\<lambda>max_accounts.
     bindR (batch_limit config ''balance_batch_enumeration_seconds'' 21600 21600) (\<lambda>interval.
       Inr (nat max_owners, nat max_accounts, interval))))"

definition prime_known_balances ::
    "'w call \<Rightarrow> string list \<Rightarrow> string \<Rightarrow> jdict \<Rightarrow> rat \<Rightarrow> enumerations \<Rightarrow> cache \<Rightarrow> 'w
      \<Rightarrow> batch_stats res \<times> enumerations \<times> cache \<times> 'w" where
  "prime_known_balances call owners mint config now store cache w =
     (if \<not> truthy (case map_of config ''balance_batch_enabled'' of None \<Rightarrow> PBool True | Some v \<Rightarrow> v)
      then (Inr \<lparr>bs_status = ''disabled'', bs_primed = 0, bs_requests = 0, bs_required = [], bs_failures = 0\<rparr>, store, cache, w)
      else case batch_limits config of
          Inl e \<Rightarrow> (Inl e, store, cache, w)
        | Inr (max_owners, max_accounts, interval) \<Rightarrow>
            (let (stats, store', cache', w') = prime_owners call owners mint max_owners max_accounts interval now store cache w
             in (Inr stats, store', cache', w')))"

section \<open>What a batch leaves\<close>

lemma distinct_owners_aux:
  "distinct seen \<Longrightarrow> distinct (foldl (\<lambda>seen owner. insert_new owner seen) seen owners) \<and>
     set (foldl (\<lambda>seen owner. insert_new owner seen) seen owners) = set seen \<union> set owners"
  by (induction owners arbitrary: seen) auto

lemma distinct_owners_laws: "distinct (distinct_owners owners)" "set (distinct_owners owners) = set owners"
  using distinct_owners_aux [of "[]" owners] by (simp_all add: distinct_owners_def)

lemma map_of_evict_all:
  "map_of (evict_all mint owners cache) k =
     (if \<exists>owner \<in> set owners. k = (owner, mint) then None else map_of cache k)"
  unfolding evict_all_def by (induction owners arbitrary: cache) auto

subsection \<open>The inventories picked\<close>

definition flat_of :: "string \<times> inventory \<Rightarrow> flat_row list" where
  "flat_of = (\<lambda>(owner, iv). map (\<lambda>k. (owner, k, iv_minimum iv)) (iv_known iv))"

text \<open>An owner's inventory as stored: current and read without a fault.\<close>

definition tracked_inventory :: "rat \<Rightarrow> int \<Rightarrow> jdict \<Rightarrow> string \<Rightarrow> string \<Rightarrow> inventory \<Rightarrow> bool" where
  "tracked_inventory now interval entries mint owner iv \<longleftrightarrow>
     (\<exists>entry used max_accounts. map_of entries owner = Some entry \<and> entry_current now interval owner mint entry \<and>
        read_inventory used max_accounts entry = Some iv)"

definition picking_ok :: "rat \<Rightarrow> int \<Rightarrow> jdict \<Rightarrow> string \<Rightarrow> string set \<Rightarrow> picking \<Rightarrow> bool" where
  "picking_ok now interval entries mint seen st \<longleftrightarrow>
     distinct (keys (pk_eligible st)) \<and> set (keys (pk_eligible st)) \<inter> set (pk_invalid st) = {} \<and>
     set (keys (pk_eligible st)) \<union> set (pk_invalid st) = seen \<and>
     pk_flat st = concat (map flat_of (pk_eligible st)) \<and>
     (\<forall>(owner, iv) \<in> set (pk_eligible st). tracked_inventory now interval entries mint owner iv)"

lemma picking_ok_step:
  assumes ok: "picking_ok now interval entries mint seen st" and fresh: "owner \<notin> seen"
  shows "picking_ok now interval entries mint (insert owner seen)
           (pick_owner now interval max_accounts entries mint st owner)"
proof (cases "case map_of entries owner of None \<Rightarrow> None
   | Some entry \<Rightarrow> if entry_current now interval owner mint entry
        then read_inventory (length (pk_flat st)) max_accounts entry else None")
  case None
  with ok fresh show ?thesis by (auto simp: pick_owner_def picking_ok_def)
next
  case (Some iv)
  then have "tracked_inventory now interval entries mint owner iv"
    by (auto simp: tracked_inventory_def split: option.splits if_splits)
  moreover have "map_of (pk_eligible st) owner = None"
    using ok fresh unfolding picking_ok_def map_of_None_keys by blast
  ultimately show ?thesis
    using ok fresh Some by (auto simp: pick_owner_def picking_ok_def update_fresh flat_of_def)
qed

lemma picking_ok_fold:
  assumes "picking_ok now interval entries mint seen st" "distinct selected" "set selected \<inter> seen = {}"
  shows "picking_ok now interval entries mint (seen \<union> set selected)
           (foldl (pick_owner now interval max_accounts entries mint) st selected)"
  using assms
proof (induction selected arbitrary: seen st)
  case Nil
  then show ?case by simp
next
  case (Cons owner selected)
  have "picking_ok now interval entries mint (insert owner seen)
          (pick_owner now interval max_accounts entries mint st owner)"
    by (rule picking_ok_step) (use Cons.prems in auto)
  from Cons.IH [OF this] Cons.prems show ?case by simp
qed

lemma picking_ok_start:
  "picking_ok now interval entries mint {} \<lparr>pk_eligible = [], pk_flat = [], pk_invalid = []\<rparr>"
  by (simp add: picking_ok_def)

subsection \<open>The answers read\<close>

text \<open>A reading that an answer of the remote call reported, at a slot not before the group's.\<close>

definition reported :: "'w call \<Rightarrow> string \<Rightarrow> string \<Rightarrow> int \<Rightarrow> reading \<Rightarrow> bool" where
  "reported call owner mint decimals = (\<lambda>(k, raw, slot).
     \<exists>g v answer account. fst (call (batch_params g) v) = Inr answer \<and> slot_of answer = Inr slot \<and>
       group_minimum g \<le> slot \<and> ((owner, k), account) \<in> set (zip (map (\<lambda>(owner, k, m). (owner, k)) g) (as_list (getd answer ''value''))) \<and>
       account_of account owner mint = Inr (raw, decimals, kn_program k))"

definition reading_ok ::
    "'w call \<Rightarrow> (string \<times> inventory) list \<Rightarrow> string \<Rightarrow> flat_row list \<Rightarrow> string \<Rightarrow> reading \<Rightarrow> bool" where
  "reading_ok call eligible mint seen owner = (\<lambda>(k, raw, slot).
     (\<exists>m \<le> slot. (owner, k, m) \<in> set seen) \<and>
     (\<exists>iv. map_of eligible owner = Some iv \<and> kn_raw k \<le> raw \<and> reported call owner mint (iv_decimals iv) (k, raw, slot)))"

lemma reading_ok_more: "reading_ok call eligible mint seen owner r \<Longrightarrow> reading_ok call eligible mint (seen @ more_rows) owner r"
  by (cases r) (auto simp: reading_ok_def)

text \<open>After the rows of \<open>done\<close>: an owner's readings are reported ones, of its known accounts in order.\<close>

definition batching_ok ::
    "'w call \<Rightarrow> (string \<times> inventory) list \<Rightarrow> string \<Rightarrow> flat_row list \<Rightarrow> batching \<Rightarrow> bool" where
  "batching_ok call eligible mint seen st \<longleftrightarrow>
     (\<forall>owner. (\<forall>r \<in> set (results_of (bt_results st) owner). reading_ok call eligible mint seen owner r) \<and>
        subseq (map fst (results_of (bt_results st) owner)) (map (fst \<circ> snd) (filter (\<lambda>f. fst f = owner) seen)))"

lemma results_of_update:
  "results_of (AList.update owner rs results) owner' = (if owner' = owner then rs else results_of results owner')"
  by (simp add: results_of_def)

lemma batching_ok_weaken:
  "batching_ok call eligible mint seen st \<Longrightarrow> bt_results st' = bt_results st \<Longrightarrow>
     batching_ok call eligible mint (seen @ more_rows) st'"
  unfolding batching_ok_def by (auto intro: list_emb_append2 subseq_rev_drop_many reading_ok_more)

lemma group_minimum_le: "(owner, k, m) \<in> set g \<Longrightarrow> m \<le> group_minimum g"
  unfolding group_minimum_def by (rule Max_ge) (auto intro!: image_eqI)

lemma judge_row_cases:
  obtains (invalid) "judge_row eligible mint slot st ((owner, k, m), account) =
        st\<lparr>bt_invalid := insert_new owner (bt_invalid st)\<rparr>"
  | (read) raw iv where "account_of account owner mint = Inr (raw, iv_decimals iv, kn_program k)"
      "map_of eligible owner = Some iv" "kn_raw k \<le> raw"
      "judge_row eligible mint slot st ((owner, k, m), account) =
         st\<lparr>bt_results := AList.update owner (results_of (bt_results st) owner @ [(k, raw, slot)]) (bt_results st)\<rparr>"
proof (cases "account_of account owner mint")
  case (Inl e)
  show thesis by (rule invalid) (simp add: judge_row_def Inl)
next
  case (Inr fields)
  obtain raw decimals program where fields: "fields = (raw, decimals, program)" by (cases fields)
  show thesis
  proof (cases "map_option iv_decimals (map_of eligible owner) = Some decimals \<and> program = kn_program k \<and> kn_raw k \<le> raw")
    case True
    then obtain iv where "map_of eligible owner = Some iv" "iv_decimals iv = decimals" by auto
    with True show thesis by (intro read) (simp_all add: judge_row_def Inr fields)
  next
    case False
    show thesis by (rule invalid) (use False in \<open>auto simp: judge_row_def Inr fields\<close>)
  qed
qed

lemma batching_ok_judge:
  assumes ok: "batching_ok call eligible mint seen st"
    and answer: "fst (call (batch_params g) v) = Inr answer" "slot_of answer = Inr slot" "group_minimum g \<le> slot"
    and row: "((owner, k, m), account) \<in> set (zip g (as_list (getd answer ''value'')))"
  shows "batching_ok call eligible mint (seen @ [(owner, k, m)]) (judge_row eligible mint slot st ((owner, k, m), account))"
proof (cases rule: judge_row_cases [of eligible mint slot st owner k m account])
  case invalid
  with ok show ?thesis by (simp add: batching_ok_weaken)
next
  case (read raw iv)
  have "((owner, k), account) \<in> set (zip (map (\<lambda>(owner, k, m). (owner, k)) g) (as_list (getd answer ''value'')))"
    using row by (force simp: zip_map1)
  then have "reported call owner mint (iv_decimals iv) (k, raw, slot)"
    using answer read by (auto simp: reported_def)
  moreover have "m \<le> slot" by (rule order_trans [OF group_minimum_le [OF set_zip_leftD [OF row]] answer(3)])
  ultimately have rep: "reading_ok call eligible mint (seen @ [(owner, k, m)]) owner (k, raw, slot)"
    using read by (auto simp: reading_ok_def)
  have sub: "subseq (map fst (results_of (bt_results st) o'))
               (map (fst \<circ> snd) (filter (\<lambda>f. fst f = o') seen))" for o'
    using ok by (auto simp: batching_ok_def)
  show ?thesis
    using ok rep read(4) list_emb_append_mono [OF sub [of owner], of "[k]" "[k]"]
    by (auto simp: batching_ok_def results_of_update intro: reading_ok_more)
qed

lemma batching_ok_rows:
  assumes "batching_ok call eligible mint seen st"
    and "fst (call (batch_params g) v) = Inr answer" "slot_of answer = Inr slot" "group_minimum g \<le> slot"
    and "set (zip part rows) \<subseteq> set (zip g (as_list (getd answer ''value'')))" and "length rows = length part"
  shows "batching_ok call eligible mint (seen @ part) (foldl (judge_row eligible mint slot) st (zip part rows))"
  using assms
proof (induction part arbitrary: seen st rows)
  case Nil
  then show ?case by simp
next
  case (Cons f part)
  obtain owner k m where f: "f = (owner, k, m)" by (cases f)
  obtain account rows' where rows: "rows = account # rows'" using Cons.prems(6) by (cases rows) auto
  have "batching_ok call eligible mint (seen @ [f]) (judge_row eligible mint slot st (f, account))"
    unfolding f by (rule batching_ok_judge [OF Cons.prems(1-4)]) (use Cons.prems(5) f rows in auto)
  from Cons.IH [OF this Cons.prems(2-4), of rows'] Cons.prems(5,6) rows show ?case by simp
qed

lemma batching_ok_group:
  assumes ok: "batching_ok call eligible mint seen st"
  shows "batching_ok call eligible mint (seen @ g) (fst (run_group call eligible mint (st, w) g))"
proof -
  let ?st1 = "st\<lparr>bt_requests := bt_requests st + 1\<rparr>"
  obtain answer w' where call: "call (batch_params g) w = (answer, w')" by (metis prod.exhaust)
  show ?thesis
  proof (cases "bindR answer (batch_rows g)")
    case (Inl e)
    then show ?thesis using ok by (simp add: run_group_def call fail_group_def batching_ok_weaken)
  next
    case (Inr sr)
    then obtain slot rows a where a: "sr = (slot, rows)" "answer = Inr a" "slot_of a = Inr slot" "group_minimum g \<le> slot"
        "rows = as_list (getd a ''value'')" "length rows = length g"
      by (auto simp: bindR_eq_Inr batch_rows_def Let_def)
    have "batching_ok call eligible mint (seen @ g) (foldl (judge_row eligible mint slot) ?st1 (zip g rows))"
      by (rule batching_ok_rows [where g = g and v = w and answer = a])
        (use ok a call in \<open>auto simp: batching_ok_def\<close>)
    with Inr a(1) show ?thesis by (simp add: run_group_def call)
  qed
qed

lemma batching_ok_groups:
  "batching_ok call eligible mint seen st \<Longrightarrow>
     batching_ok call eligible mint (seen @ concat gs) (fst (foldl (run_group call eligible mint) (st, w) gs))"
proof (induction gs arbitrary: seen st w)
  case Nil
  then show ?case by simp
next
  case (Cons g gs)
  obtain st' w' where step: "run_group call eligible mint (st, w) g = (st', w')" by (metis prod.exhaust)
  have "batching_ok call eligible mint (seen @ g) st'"
    using batching_ok_group [OF Cons.prems, of g w] by (simp add: step)
  from Cons.IH [OF this, of w'] show ?case by (simp add: step)
qed

lemma concat_groups_of: "0 < n \<Longrightarrow> concat (groups_of n xs) = xs"
  by (induction n xs rule: groups_of.induct) (auto simp del: take.simps drop.simps)

lemma groups_of_bounded: "g \<in> set (groups_of n xs) \<Longrightarrow> g \<noteq> [] \<and> length g \<le> n"
  by (induction n xs rule: groups_of.induct) (auto split: if_splits simp: take_Cons')

subsection \<open>The owners primed\<close>

text \<open>What priming an owner establishes: its total is the sum of readings of all its known accounts.\<close>

definition primed_by :: "inventory \<Rightarrow> reading list \<Rightarrow> rat \<Rightarrow> bool" where
  "primed_by iv rs tot \<longleftrightarrow> length rs = length (iv_known iv) \<and>
     iv_total iv \<le> (\<Sum>(k, raw, slot)\<leftarrow>rs. raw) \<and>
     total_of (\<Sum>(k, raw, slot)\<leftarrow>rs. raw) (Some (iv_decimals iv)) = Inr tot"

definition settled :: "string \<Rightarrow> (string \<times> reading list) list \<Rightarrow> priming \<Rightarrow> string \<Rightarrow> inventory \<Rightarrow> bool" where
  "settled mint results st owner iv = (case map_of (pr_cache st) (owner, mint) of
        None \<Rightarrow> owner \<in> set (pr_invalid st)
      | Some tot \<Rightarrow> owner \<notin> set (pr_invalid st) \<and> primed_by iv (results_of results owner) tot)"

lemma settled_cong:
  "map_of (pr_cache st') (owner, mint) = map_of (pr_cache st) (owner, mint) \<Longrightarrow>
   owner \<in> set (pr_invalid st') \<longleftrightarrow> owner \<in> set (pr_invalid st) \<Longrightarrow>
   settled mint results st' owner iv = settled mint results st owner iv"
  by (simp add: settled_def split: option.splits)

definition priming_ok ::
    "string \<Rightarrow> (string \<times> reading list) list \<Rightarrow> cache \<Rightarrow> string set \<Rightarrow> (string \<times> inventory) list \<Rightarrow> priming \<Rightarrow> bool" where
  "priming_ok mint results cache refused seen st \<longleftrightarrow>
     refused \<subseteq> set (pr_invalid st) \<and> set (pr_invalid st) \<subseteq> refused \<union> set (keys seen) \<and>
     pr_primed st = card (set (keys seen) - set (pr_invalid st)) \<and>
     (\<forall>k. k \<notin> (\<lambda>owner. (owner, mint)) ` set (keys seen) \<longrightarrow> map_of (pr_cache st) k = map_of cache k) \<and>
     (\<forall>(owner, iv) \<in> set seen. settled mint results st owner iv)"

lemma finish_owner_cases:
  obtains (refused) "finish_owner now mint results st (owner, iv) = st\<lparr>pr_invalid := insert_new owner (pr_invalid st)\<rparr>"
  | (overflow) "finish_owner now mint results st (owner, iv) = st\<lparr>pr_cache := AList.delete (owner, mint) (pr_cache st),
        pr_invalid := insert_new owner (pr_invalid st)\<rparr>"
  | (primed) tot entries where "owner \<notin> set (pr_invalid st)" "primed_by iv (results_of results owner) tot"
      "finish_owner now mint results st (owner, iv) = st\<lparr>pr_cache := AList.update (owner, mint) tot (pr_cache st),
        pr_entries := entries, pr_primed := pr_primed st + 1\<rparr>"
proof (cases "owner \<in> set (pr_invalid st) \<or> length (results_of results owner) \<noteq> length (iv_known iv)")
  case True
  show thesis by (rule refused) (use True in \<open>auto simp: finish_owner_def Let_def\<close>)
next
  case False
  let ?raw = "\<Sum>(k, raw, slot)\<leftarrow>results_of results owner. raw"
  show thesis
  proof (cases "bindR (guardR (iv_total iv \<le> ?raw) (ValueError ''inventory decreased''))
                 (\<lambda>_. total_of ?raw (Some (iv_decimals iv)))")
    case (Inl e)
    show thesis by (rule overflow) (use False Inl in \<open>simp add: finish_owner_def Let_def\<close>)
  next
    case (Inr tot)
    show thesis
    proof (rule primed)
      show "owner \<notin> set (pr_invalid st)" using False by simp
      show "primed_by iv (results_of results owner) tot"
        using Inr False by (auto simp: primed_by_def bindR_guard split: if_splits)
    qed (use False Inr in \<open>simp add: finish_owner_def Let_def\<close>)
  qed
qed

lemma priming_ok_step:
  assumes ok: "priming_ok mint results cache refused seen st" and fresh: "owner \<notin> set (keys seen)"
    and evicted: "map_of cache (owner, mint) = None"
  shows "priming_ok mint results cache refused (seen @ [(owner, iv)]) (finish_owner now mint results st (owner, iv))"
proof -
  have other: "map_of (pr_cache st) (owner, mint) = None"
  proof -
    have "(owner, mint) \<notin> (\<lambda>owner. (owner, mint)) ` set (keys seen)" using fresh by blast
    with ok have "map_of (pr_cache st) (owner, mint) = map_of cache (owner, mint)" unfolding priming_ok_def by blast
    with evicted show ?thesis by simp
  qed
  let ?st = "finish_owner now mint results st (owner, iv)"
  have card: "card (set (keys seen) - insert owner (set (pr_invalid st))) = card (set (keys seen) - set (pr_invalid st))"
    using fresh by (intro arg_cong [where f = card]) auto
  have same: "map_of (pr_cache ?st) k = map_of (pr_cache st) k" if "k \<noteq> (owner, mint)" for k
    by (cases rule: finish_owner_cases [of now mint results st owner iv]) (simp_all add: that)
  have inv: "o' \<in> set (pr_invalid ?st) \<longleftrightarrow> o' \<in> set (pr_invalid st)" if "o' \<noteq> owner" for o'
    by (cases rule: finish_owner_cases [of now mint results st owner iv]) (simp_all add: that)
  have rest: "settled mint results ?st o' iv'" if o': "(o', iv') \<in> set seen" for o' iv'
  proof -
    have "o' \<noteq> owner" using o' fresh by force
    then show ?thesis using o' ok settled_cong [of ?st o' mint st] same inv by (auto simp: priming_ok_def)
  qed
  have cache: "\<forall>k. k \<notin> (\<lambda>owner. (owner, mint)) ` set (keys (seen @ [(owner, iv)])) \<longrightarrow>
      map_of (pr_cache ?st) k = map_of cache k"
    using ok same by (auto simp: priming_ok_def)
  show ?thesis
  proof (cases rule: finish_owner_cases [of now mint results st owner iv])
    case refused
    have "settled mint results ?st owner iv" by (simp add: refused settled_def other)
    with ok cache rest show ?thesis by (auto simp: priming_ok_def refused insert_Diff_if card [unfolded set_map, symmetric])
  next
    case overflow
    have "settled mint results ?st owner iv" by (simp add: overflow settled_def)
    with ok cache rest show ?thesis by (auto simp: priming_ok_def overflow insert_Diff_if card [unfolded set_map, symmetric])
  next
    case (primed tot entries)
    have "settled mint results ?st owner iv" by (simp add: primed settled_def)
    with ok cache rest primed fresh show ?thesis by (auto simp: priming_ok_def insert_Diff_if)
  qed
qed

lemma priming_ok_fold:
  assumes "priming_ok mint results cache refused seen st" "distinct (keys (seen @ els))"
    and "\<forall>owner \<in> set (keys els). map_of cache (owner, mint) = None"
  shows "priming_ok mint results cache refused (seen @ els) (foldl (finish_owner now mint results) st els)"
  using assms
proof (induction els arbitrary: seen st)
  case Nil
  then show ?case by simp
next
  case (Cons el els)
  obtain owner iv where el: "el = (owner, iv)" by (cases el)
  have "priming_ok mint results cache refused (seen @ [el]) (finish_owner now mint results st el)"
    unfolding el by (rule priming_ok_step) (use Cons.prems el in auto)
  from Cons.IH [OF this] Cons.prems show ?case by simp
qed

lemma judge_row_invalid:
  "set (bt_invalid st) \<subseteq> set (bt_invalid (judge_row eligible mint slot st (f, account))) \<and>
   set (bt_invalid (judge_row eligible mint slot st (f, account))) \<subseteq> insert (fst f) (set (bt_invalid st))"
  by (cases f) (auto simp: judge_row_def split: sum.splits)

lemma judge_rows_invalid:
  "set (bt_invalid st) \<subseteq> set (bt_invalid (foldl (judge_row eligible mint slot) st rows)) \<and>
   set (bt_invalid (foldl (judge_row eligible mint slot) st rows)) \<subseteq> set (bt_invalid st) \<union> (\<lambda>r. fst (fst r)) ` set rows"
proof (induction rows arbitrary: st)
  case Nil
  then show ?case by simp
next
  case (Cons r rows)
  from Cons.IH [of "judge_row eligible mint slot st r"] judge_row_invalid [of st eligible mint slot "fst r" "snd r"]
  show ?case by (simp add: subset_iff) blast
qed

lemma fail_group_invalid: "set (bt_invalid (fail_group g st)) = set (bt_invalid st) \<union> fst ` set g"
proof -
  have "set (foldl (\<lambda>xs (owner, k, slot). insert_new owner xs) xs g) = set xs \<union> fst ` set g" for xs
    by (induction g arbitrary: xs) (auto split: prod.splits)
  then show ?thesis by (simp add: fail_group_def)
qed

lemma run_group_invalid:
  "set (bt_invalid st) \<subseteq> set (bt_invalid (fst (run_group call eligible mint (st, w) g))) \<and>
   set (bt_invalid (fst (run_group call eligible mint (st, w) g))) \<subseteq> set (bt_invalid st) \<union> fst ` set g"
proof -
  let ?st1 = "st\<lparr>bt_requests := bt_requests st + 1\<rparr>"
  obtain answer w' where call: "call (batch_params g) w = (answer, w')" by (metis prod.exhaust)
  show ?thesis
  proof (cases "bindR answer (batch_rows g)")
    case (Inl e)
    then show ?thesis by (auto simp: run_group_def call fail_group_invalid)
  next
    case (Inr sr)
    obtain slot rows where sr: "sr = (slot, rows)" by (cases sr)
    have "(\<lambda>r. fst (fst r)) ` set (zip g rows) \<subseteq> fst ` set g" by (auto dest!: set_zip_leftD simp: rev_image_eqI)
    with judge_rows_invalid [of ?st1 eligible mint slot "zip g rows"]
    show ?thesis by (simp add: run_group_def call Inr sr) blast
  qed
qed

lemma run_groups_invalid:
  "set (bt_invalid st) \<subseteq> set (bt_invalid (fst (foldl (run_group call eligible mint) (st, w) gs))) \<and>
   set (bt_invalid (fst (foldl (run_group call eligible mint) (st, w) gs))) \<subseteq> set (bt_invalid st) \<union> fst ` set (concat gs)"
proof (induction gs arbitrary: st w)
  case Nil
  then show ?case by simp
next
  case (Cons g gs)
  obtain st' w' where step: "run_group call eligible mint (st, w) g = (st', w')" by (metis prod.exhaust)
  from Cons.IH [of st' w'] run_group_invalid [of st call eligible mint w g] step
  show ?case by (simp add: image_Un) blast
qed

text \<open>The sum of a priming, for an owner: the stored inventory, one reading per known account, each reported.\<close>

definition total_witnessed ::
    "'w call \<Rightarrow> rat \<Rightarrow> int \<Rightarrow> jdict \<Rightarrow> string \<Rightarrow> string \<Rightarrow> rat \<Rightarrow> bool" where
  "total_witnessed call now interval entries mint owner tot \<longleftrightarrow>
     (\<exists>iv rs. tracked_inventory now interval entries mint owner iv \<and> map fst rs = iv_known iv \<and>
        total_of (\<Sum>(k, raw, slot)\<leftarrow>rs. raw) (Some (iv_decimals iv)) = Inr tot \<and>
        (\<forall>(k, raw, slot) \<in> set rs. kn_raw k \<le> raw \<and> iv_minimum iv \<le> slot \<and>
           reported call owner mint (iv_decimals iv) (k, raw, slot)))"

lemma flat_of_owner:
  "distinct (keys eligible) \<Longrightarrow> map_of eligible owner = Some iv \<Longrightarrow>
     filter (\<lambda>f. fst f = owner) (concat (map flat_of eligible)) = flat_of (owner, iv)"
proof (induction eligible)
  case Nil
  then show ?case by simp
next
  case (Cons el eligible)
  obtain o' iv' where el: "el = (o', iv')" by (cases el)
  have own: "filter (\<lambda>f. fst f = owner) (flat_of (o', iv')) = (if o' = owner then flat_of (o', iv') else [])"
    by (simp add: flat_of_def comp_def filter_empty_conv)
  have none: "filter (\<lambda>f. fst f = owner) (concat (map flat_of eligible)) = []" if "owner \<notin> set (keys eligible)"
    using that by (force simp: filter_empty_conv flat_of_def)
  from Cons el own none show ?case by auto
qed

lemma total_witnessed_if_primed:
  assumes picked: "picking_ok now interval entries mint seen st" and el: "(owner, iv) \<in> set (pk_eligible st)"
    and batched: "batching_ok call (pk_eligible st) mint (pk_flat st) bt"
    and primed: "primed_by iv (results_of (bt_results bt) owner) tot"
  shows "total_witnessed call now interval entries mint owner tot"
proof -
  let ?rs = "results_of (bt_results bt) owner"
  have iv: "map_of (pk_eligible st) owner = Some iv" using picked el by (simp add: picking_ok_def)
  have flat: "filter (\<lambda>f. fst f = owner) (pk_flat st) = flat_of (owner, iv)"
    using picked iv by (simp add: picking_ok_def flat_of_owner)
  have "subseq (map fst ?rs) (iv_known iv)"
    using batched flat by (auto simp: batching_ok_def flat_of_def comp_def dest: spec [of _ owner])
  moreover have "length (map fst ?rs) = length (iv_known iv)" using primed by (simp add: primed_by_def)
  ultimately have known: "map fst ?rs = iv_known iv" by (simp add: subseq_same_length)
  have rows: "kn_raw k \<le> raw \<and> iv_minimum iv \<le> slot \<and> reported call owner mint (iv_decimals iv) (k, raw, slot)"
    if "(k, raw, slot) \<in> set ?rs" for k raw slot
  proof -
    from that batched have "reading_ok call (pk_eligible st) mint (pk_flat st) owner (k, raw, slot)"
      by (auto simp: batching_ok_def)
    then obtain m where m: "m \<le> slot" "(owner, k, m) \<in> set (pk_flat st)" and "kn_raw k \<le> raw"
        "reported call owner mint (iv_decimals iv) (k, raw, slot)" using iv by (auto simp: reading_ok_def)
    moreover from m(2) have "(owner, k, m) \<in> set (flat_of (owner, iv))" unfolding flat [symmetric] by simp
    then have "m = iv_minimum iv" by (auto simp: flat_of_def)
    ultimately show ?thesis by simp
  qed
  have "tracked_inventory now interval entries mint owner iv" using picked el by (auto simp: picking_ok_def)
  with known primed rows show ?thesis unfolding total_witnessed_def primed_by_def by blast
qed

definition selection_primed ::
    "'w call \<Rightarrow> rat \<Rightarrow> int \<Rightarrow> jdict \<Rightarrow> string \<Rightarrow> string list \<Rightarrow> cache \<Rightarrow> priming \<Rightarrow> bool" where
  "selection_primed call now interval entries mint selected cache primed \<longleftrightarrow>
     set (pr_invalid primed) \<subseteq> set selected \<and>
     pr_primed primed = card (set selected - set (pr_invalid primed)) \<and>
     (\<forall>k. k \<notin> (\<lambda>owner. (owner, mint)) ` set selected \<longrightarrow> map_of (pr_cache primed) k = map_of cache k) \<and>
     (\<forall>owner \<in> set selected. case map_of (pr_cache primed) (owner, mint) of
        None \<Rightarrow> owner \<in> set (pr_invalid primed)
      | Some tot \<Rightarrow> owner \<notin> set (pr_invalid primed) \<and> total_witnessed call now interval entries mint owner tot)"

lemma selected_owner_settled:
  assumes picked: "picking_ok now interval entries mint (set selected) picked"
    and batched: "batching_ok call (pk_eligible picked) mint (pk_flat picked) bt"
    and primed: "priming_ok mint (bt_results bt) cache (set (bt_invalid bt)) (pk_eligible picked) primed"
    and refused: "set (pk_invalid picked) \<subseteq> set (bt_invalid bt)"
    and evicted: "map_of cache (owner, mint) = None" and owner: "owner \<in> set selected"
  shows "case map_of (pr_cache primed) (owner, mint) of
        None \<Rightarrow> owner \<in> set (pr_invalid primed)
      | Some tot \<Rightarrow> owner \<notin> set (pr_invalid primed) \<and> total_witnessed call now interval entries mint owner tot"
proof (cases "owner \<in> set (keys (pk_eligible picked))")
  case True
  then obtain iv where iv: "(owner, iv) \<in> set (pk_eligible picked)" by auto
  with primed have "settled mint (bt_results bt) primed owner iv" by (auto simp: priming_ok_def)
  then show ?thesis using total_witnessed_if_primed [OF picked iv batched]
    by (auto simp: settled_def split: option.splits)
next
  case False
  then have "owner \<in> set (pk_invalid picked)" using owner picked by (auto simp: picking_ok_def)
  then have "owner \<in> set (pr_invalid primed)" using refused primed by (auto simp: priming_ok_def)
  moreover have "(owner, mint) \<notin> (\<lambda>owner. (owner, mint)) ` set (keys (pk_eligible picked))" using False by blast
  then have "map_of (pr_cache primed) (owner, mint) = None"
    using primed evicted unfolding priming_ok_def by metis
  ultimately show ?thesis by simp
qed

lemma prime_selected_primed:
  assumes run: "prime_selected call selected mint entries max_accounts interval now cache w = (primed, batched, w')"
    and distinct: "distinct selected" and evicted: "\<forall>owner \<in> set selected. map_of cache (owner, mint) = None"
  shows "selection_primed call now interval entries mint selected cache primed"
proof -
  define picked where "picked = foldl (pick_owner now interval max_accounts entries mint)
    \<lparr>pk_eligible = [], pk_flat = [], pk_invalid = []\<rparr> selected"
  let ?start = "\<lparr>bt_results = [], bt_invalid = pk_invalid picked, bt_requests = 0, bt_failures = 0\<rparr>"
  let ?gs = "groups_of 100 (pk_flat picked)"
  obtain bt w1 where bt: "foldl (run_group call (pk_eligible picked) mint) (?start, w) ?gs = (bt, w1)"
    by (metis prod.exhaust)
  have res: "batched = bt" "primed = foldl (finish_owner now mint (bt_results bt))
      \<lparr>pr_cache = cache, pr_entries = entries, pr_invalid = bt_invalid bt, pr_primed = 0\<rparr> (pk_eligible picked)"
    using run by (auto simp: prime_selected_def picked_def [symmetric] bt)
  have picked: "picking_ok now interval entries mint (set selected) picked"
    using picking_ok_fold [OF picking_ok_start distinct] by (simp add: picked_def)
  have flat: "concat ?gs = pk_flat picked" by (simp add: concat_groups_of)
  have "batching_ok call (pk_eligible picked) mint [] ?start" by (simp add: batching_ok_def results_of_def)
  from batching_ok_groups [OF this, of ?gs w]
  have batched: "batching_ok call (pk_eligible picked) mint (pk_flat picked) bt" by (simp add: bt flat)
  have refused: "set (pk_invalid picked) \<subseteq> set (bt_invalid bt)"
    and invalid: "set (bt_invalid bt) \<subseteq> set (pk_invalid picked) \<union> fst ` set (pk_flat picked)"
    using run_groups_invalid [of ?start call "pk_eligible picked" mint w ?gs] by (simp_all add: bt flat)
  have "fst ` set (pk_flat picked) \<subseteq> set (keys (pk_eligible picked))"
  proof -
    have el: "fst ` set (flat_of el) \<subseteq> {fst el}" for el by (cases el) (auto simp: flat_of_def)
    have "pk_flat picked = concat (map flat_of (pk_eligible picked))" using picked by (simp add: picking_ok_def)
    then have "fst ` set (pk_flat picked) = (\<Union>el \<in> set (pk_eligible picked). fst ` set (flat_of el))"
      by (simp add: image_UN)
    moreover have "fst ` set (flat_of e) \<subseteq> set (keys (pk_eligible picked))" if "e \<in> set (pk_eligible picked)" for e
      by (rule order_trans [OF el]) (simp add: that)
    ultimately show ?thesis by blast
  qed
  moreover have "set (keys (pk_eligible picked)) \<union> set (pk_invalid picked) = set selected"
    using picked by (simp add: picking_ok_def)
  ultimately have bound: "set (bt_invalid bt) \<subseteq> set selected" using invalid by blast
  have start: "priming_ok mint (bt_results bt) cache (set (bt_invalid bt)) []
      \<lparr>pr_cache = cache, pr_entries = entries, pr_invalid = bt_invalid bt, pr_primed = 0\<rparr>"
    by (simp add: priming_ok_def)
  have sub: "set (keys (pk_eligible picked)) \<subseteq> set selected" using picked by (auto simp: picking_ok_def)
  have primed: "priming_ok mint (bt_results bt) cache (set (bt_invalid bt)) (pk_eligible picked) primed"
    unfolding res(2) using priming_ok_fold [OF start, of "pk_eligible picked" now] picked evicted sub
    by (auto simp: picking_ok_def)
  have "set (keys (pk_eligible picked)) - set (pr_invalid primed) = set selected - set (pr_invalid primed)"
  proof -
    have "set selected \<subseteq> set (keys (pk_eligible picked)) \<union> set (pr_invalid primed)"
      using picked refused primed unfolding picking_ok_def priming_ok_def by blast
    with sub show ?thesis by blast
  qed
  then have "pr_primed primed = card (set selected - set (pr_invalid primed))"
    using primed by (simp add: priming_ok_def)
  moreover have "set (pr_invalid primed) \<subseteq> set selected" using primed bound sub unfolding priming_ok_def by blast
  moreover have "(\<lambda>owner. (owner, mint)) ` set (keys (pk_eligible picked)) \<subseteq> (\<lambda>owner. (owner, mint)) ` set selected"
    using sub by (rule image_mono)
  then have "\<forall>k. k \<notin> (\<lambda>owner. (owner, mint)) ` set selected \<longrightarrow> map_of (pr_cache primed) k = map_of cache k"
    using primed unfolding priming_ok_def by blast
  moreover have "\<forall>owner \<in> set selected. case map_of (pr_cache primed) (owner, mint) of
        None \<Rightarrow> owner \<in> set (pr_invalid primed)
      | Some tot \<Rightarrow> owner \<notin> set (pr_invalid primed) \<and> total_witnessed call now interval entries mint owner tot"
    using selected_owner_settled [OF picked batched primed refused] evicted by simp
  ultimately show ?thesis by (simp add: selection_primed_def)
qed

lemma prime_known_balances_run:
  assumes "prime_known_balances call owners mint config now store cache w = (Inr stats, store', cache', w')"
    and "bs_status stats \<noteq> ''disabled''"
  obtains max_owners max_accounts interval primed batched where
    "batch_limit config ''balance_batch_enumeration_seconds'' 21600 21600 = Inr interval"
    "prime_selected call (take max_owners (distinct_owners owners)) mint (entries_of store mint) max_accounts interval now
       (evict_all mint owners cache) w = (primed, batched, w')"
    "bs_required stats = drop max_owners (distinct_owners owners) @
       filter (\<lambda>owner. owner \<in> set (pr_invalid primed)) (take max_owners (distinct_owners owners))"
    "bs_primed stats = pr_primed primed" "cache' = pr_cache primed"
    "store' = AList.update mint (foldl flag_owner (pr_entries primed)
       (filter (\<lambda>owner. owner \<in> set (pr_invalid primed)) (take max_owners (distinct_owners owners)))) store"
proof -
  from assms obtain max_owners max_accounts interval where limits: "batch_limits config = Inr (max_owners, max_accounts, interval)"
      and run: "prime_owners call owners mint max_owners max_accounts interval now store cache w = (stats, store', cache', w')"
    by (auto simp: prime_known_balances_def split: if_splits sum.splits prod.splits)
  obtain primed batched w1 where sel: "prime_selected call (take max_owners (distinct_owners owners)) mint (entries_of store mint)
      max_accounts interval now (evict_all mint owners cache) w = (primed, batched, w1)"
    by (metis prod.exhaust)
  have secs: "batch_limit config ''balance_batch_enumeration_seconds'' 21600 21600 = Inr interval"
    using limits by (auto simp: batch_limits_def bindR_eq_Inr)
  have "w1 = w'" using run by (simp add: prime_owners_def sel Let_def)
  note sel' = sel [unfolded this]
  show thesis by (rule that [OF secs sel']) (use run in \<open>auto simp: prime_owners_def sel Let_def\<close>)
qed

text \<open>
  Primed or enumerated, never both.  After a batch, an owner has a cached balance exactly when it is
  not in the list of required full enumerations; the primed ones are counted, and no other entry of the
  cache is touched.
\<close>

theorem owner_primed_or_required:
  assumes run: "prime_known_balances call owners mint config now store cache w = (Inr stats, store', cache', w')"
    and enabled: "bs_status stats \<noteq> ''disabled''"
  shows "distinct (bs_required stats) \<and> set (bs_required stats) \<subseteq> set owners \<and>
    (\<forall>owner \<in> set owners. owner \<in> set (bs_required stats) \<longleftrightarrow> map_of cache' (owner, mint) = None) \<and>
    bs_primed stats = card (set owners - set (bs_required stats)) \<and>
    (\<forall>owner m. owner \<notin> set owners \<or> m \<noteq> mint \<longrightarrow> map_of cache' (owner, m) = map_of cache (owner, m))"
proof -
  from prime_known_balances_run [OF run enabled] obtain n k interval primed batched where
    sel: "prime_selected call (take n (distinct_owners owners)) mint (entries_of store mint) k interval now
       (evict_all mint owners cache) w = (primed, batched, w')"
    and required: "bs_required stats = drop n (distinct_owners owners) @
       filter (\<lambda>owner. owner \<in> set (pr_invalid primed)) (take n (distinct_owners owners))"
    and count: "bs_primed stats = pr_primed primed" and cache': "cache' = pr_cache primed" by metis
  let ?sel = "take n (distinct_owners owners)" let ?rest = "drop n (distinct_owners owners)"
  have split: "set ?sel \<union> set ?rest = set owners"
    by (metis append_take_drop_id set_append distinct_owners_laws(2))
  have "distinct (?sel @ ?rest)" by (simp add: distinct_owners_laws)
  then have dist: "distinct ?sel" "distinct ?rest" "set ?sel \<inter> set ?rest = {}"
    by (simp_all only: distinct_append)
  have evicted: "\<forall>owner \<in> set ?sel. map_of (evict_all mint owners cache) (owner, mint) = None"
    using split by (auto simp: map_of_evict_all)
  note primed = prime_selected_primed [OF sel dist(1) evicted, unfolded selection_primed_def]
  have other: "map_of cache' k = map_of (evict_all mint owners cache) k" if "k \<notin> (\<lambda>owner. (owner, mint)) ` set ?sel" for k
    using primed that unfolding cache' by blast
  have set_req: "set (bs_required stats) = set ?rest \<union> set (pr_invalid primed)"
    using primed by (auto simp: required)
  have "owner \<in> set (bs_required stats) \<longleftrightarrow> map_of cache' (owner, mint) = None" if owner: "owner \<in> set owners" for owner
  proof (cases "owner \<in> set ?sel")
    case True
    then have "owner \<notin> set ?rest" using dist(3) by blast
    moreover have "owner \<in> set (pr_invalid primed) \<longleftrightarrow> map_of cache' (owner, mint) = None"
      using primed True by (auto simp: cache' split: option.splits)
    ultimately show ?thesis by (simp add: set_req)
  next
    case False
    then have "owner \<in> set ?rest" using owner split by blast
    moreover have "map_of cache' (owner, mint) = None"
      using other [of "(owner, mint)"] False owner by (auto simp: map_of_evict_all)
    ultimately show ?thesis by (simp add: set_req)
  qed
  moreover have "set owners - set (bs_required stats) = set ?sel - set (pr_invalid primed)"
    using split dist(3) unfolding set_req by blast
  moreover have "map_of cache' (owner, m) = map_of cache (owner, m)" if "owner \<notin> set owners \<or> m \<noteq> mint" for owner m
  proof -
    have "(owner, m) \<notin> (\<lambda>owner. (owner, mint)) ` set ?sel" using that split by auto
    from other [OF this] that show ?thesis by (auto simp: map_of_evict_all)
  qed
  moreover have "distinct (bs_required stats)" using dist by (auto simp: required)
  moreover have "set (bs_required stats) \<subseteq> set owners" using primed split unfolding set_req by blast
  ultimately show ?thesis using primed by (simp add: count)
qed

text \<open>
  C32: A primed balance is witnessed.  A cached total of an owner of the batch is the sum of one reading for
  every known account of its stored inventory: an answer of the remote call reported each, for that owner
  and mint with the stored decimals and program, at a slot not before the inventory's, and no amount is
  below the stored one.
\<close>

theorem primed_balance_witnessed:
  assumes run: "prime_known_balances call owners mint config now store cache w = (Inr stats, store', cache', w')"
    and enabled: "bs_status stats \<noteq> ''disabled''" and owner: "owner \<in> set owners"
    and cached: "map_of cache' (owner, mint) = Some tot"
  shows "\<exists>interval \<le> 21600. total_witnessed call now interval (entries_of store mint) mint owner tot"
proof -
  from prime_known_balances_run [OF run enabled] obtain n k interval primed batched where
    interval: "batch_limit config ''balance_batch_enumeration_seconds'' 21600 21600 = Inr interval"
    and sel: "prime_selected call (take n (distinct_owners owners)) mint (entries_of store mint) k interval now
       (evict_all mint owners cache) w = (primed, batched, w')"
    and cache': "cache' = pr_cache primed" by metis
  let ?sel = "take n (distinct_owners owners)"
  have sub: "set ?sel \<subseteq> set owners" using set_take_subset [of n "distinct_owners owners"] by (simp add: distinct_owners_laws)
  have dist: "distinct ?sel" by (simp add: distinct_owners_laws)
  have evicted: "\<forall>owner \<in> set ?sel. map_of (evict_all mint owners cache) (owner, mint) = None"
    using sub by (auto simp: map_of_evict_all)
  note primed = prime_selected_primed [OF sel dist evicted, unfolded selection_primed_def]
  have "owner \<in> set ?sel"
  proof (rule ccontr)
    assume "owner \<notin> set ?sel"
    then have "(owner, mint) \<notin> (\<lambda>owner. (owner, mint)) ` set ?sel" by blast
    with primed have "map_of cache' (owner, mint) = map_of (evict_all mint owners cache) (owner, mint)" unfolding cache' by blast
    with cached owner show False by (simp add: map_of_evict_all)
  qed
  with primed cached have "total_witnessed call now interval (entries_of store mint) mint owner tot"
    by (auto simp: cache' split: option.splits)
  moreover have "interval \<le> 21600" using interval by (auto simp: batch_limit_def split: option.splits pyval.splits if_splits)
  ultimately show ?thesis by blast
qed

section \<open>A remembered enumeration\<close>

lemma enumeration_entry_remembered:
  assumes "enumeration_entry previous owner mint result tot now = Inr entry"
  obtains slot f actual where "slot_of result = Inr slot" "finite_num now \<noteq> None"
    "read_enumeration owner mint result = Inr f" "total_of (fd_total f) (fd_decimals f) = Inr actual"
    "entry = fresh_entry owner mint slot now f actual"
  using assms
  by (auto simp: enumeration_entry_def bindR_eq_Inr split: option.splits)

text \<open>The rows found read back as known accounts.\<close>

definition found_ok :: "found \<Rightarrow> known_account list \<Rightarrow> bool" where
  "found_ok f ks \<longleftrightarrow> read_all (fd_accounts f) = Some ks \<and> set (fd_seen f) = kn_pubkey ` set ks \<and>
     distinct (map kn_pubkey ks) \<and> fd_total f = sum_list (map kn_raw ks) \<and>
     (\<forall>k \<in> set ks. 0 \<le> kn_raw k) \<and> length (fd_accounts f) = length ks \<and>
     (ks \<noteq> [] \<longrightarrow> (\<exists>d. fd_decimals f = Some d \<and> 0 \<le> d \<and> d \<le> 255))"

lemma read_all_append:
  "read_all (rows @ [row]) = (case (read_all rows, read_known row) of (Some ks, Some k) \<Rightarrow> Some (ks @ [k]) | _ \<Rightarrow> None)"
  by (induction rows) (auto split: option.splits)

lemma str_of_nonneg: "0 \<le> n \<Longrightarrow> str_of_int n = str_of_nat (nat n)"
  by (simp add: str_of_int_def)

lemma account_of_Inr:
  assumes "account_of account owner mint = Inr (raw, decimals, program)"
  shows "0 \<le> raw" "0 \<le> decimals" "decimals \<le> 255" "program \<noteq> []"
  using assms
  by (auto simp: account_of_def Let_def bindR_eq_Inr amount_int_def split: pyval.splits if_splits
      elim!: scale_ok.elims nonempty_str.elims)

lemma enumerate_row_found:
  assumes "found_ok f ks" "enumerate_row owner mint f row = Inr f'"
  shows "\<exists>k. found_ok f' (ks @ [k])"
proof -
  from assms(2) obtain pubkey raw scale program where row:
      "getd row ''pubkey'' = PStr pubkey" "pubkey \<noteq> []" "pubkey \<notin> set (fd_seen f)"
      "account_of (getd row ''account'') owner mint = Inr (raw, scale, program)"
      "f' = \<lparr>fd_accounts = fd_accounts f @ [PDict [(''pubkey'', PStr pubkey), (''program'', PStr program),
                (''amount_raw'', PStr (str_of_int raw))]],
             fd_seen = pubkey # fd_seen f, fd_total = fd_total f + raw, fd_decimals = Some scale\<rparr>"
    by (auto simp: enumerate_row_def Let_def bindR_eq_Inr elim!: nonempty_str.elims)
  note amount = account_of_Inr [OF row(4)]
  have "read_known (PDict [(''pubkey'', PStr pubkey), (''program'', PStr program), (''amount_raw'', PStr (str_of_int raw))])
      = Some \<lparr>kn_pubkey = pubkey, kn_program = program, kn_raw = raw\<rparr>"
    using row(2) amount by (simp add: read_known_def amount_int_def str_of_nonneg)
  with assms(1) row amount have "found_ok f' (ks @ [\<lparr>kn_pubkey = pubkey, kn_program = program, kn_raw = raw\<rparr>])"
    by (auto simp: found_ok_def read_all_append)
  then show ?thesis ..
qed

lemma read_enumeration_found:
  assumes "read_enumeration owner mint result = Inr f"
  shows "\<exists>ks. found_ok f ks"
proof -
  from assms have "foldR (enumerate_row owner mint) \<lparr>fd_accounts = [], fd_seen = [], fd_total = 0, fd_decimals = None\<rparr>
      (as_list (getd result ''value'')) = Inr f"
    by (auto simp: read_enumeration_def bindR_eq_Inr)
  then show ?thesis
  proof (rule foldR_invariant [where P = "\<lambda>f. \<exists>ks. found_ok f ks"])
    show "\<exists>ks. found_ok \<lparr>fd_accounts = [], fd_seen = [], fd_total = 0, fd_decimals = None\<rparr> ks"
      by (rule exI [of _ "[]"]) (simp add: found_ok_def)
  qed (use enumerate_row_found in blast)
qed

lemma enumerated_length:
  "foldR (enumerate_row owner mint) f rows = Inr f' \<Longrightarrow> length (fd_accounts f') = length (fd_accounts f) + length rows"
  by (induction rows arbitrary: f) (auto simp: enumerate_row_def Let_def bindR_eq_Inr)


text \<open>
  C39: A failed enumeration is never used.  When \<open>remember_enumeration\<close> refuses an answer, the next
  batch accepts no inventory of that owner, and every other owner's entry is unchanged.
\<close>

theorem refused_enumeration_blocks:
  assumes "remember_enumeration store owner mint result tot start = (False, store')"
  shows "(\<forall>entry. map_of (entries_of store' mint) owner = Some entry \<longrightarrow> \<not> entry_current now interval owner mint entry) \<and>
    (\<forall>o' m. o' \<noteq> owner \<or> m \<noteq> mint \<longrightarrow> map_of (entries_of store' m) o' = map_of (entries_of store m) o')"
proof -
  have store': "store' = AList.update mint (flag_owner (entries_of store mint) owner) store"
    using assms by (auto simp: remember_enumeration_def Let_def split: sum.splits)
  then have entries: "entries_of store' m = (if m = mint then flag_owner (entries_of store mint) owner else entries_of store m)" for m
    by (simp add: entries_of_def)
  have flagged: "map_of (flag_owner d owner) o' = (if o' = owner then map_option flag_entry (map_of d owner) else map_of d o')" for d o'
    by (auto simp: flag_owner_def split: option.splits pyval.splits)
  have "\<not> entry_current now interval owner mint (flag_entry v)" for v
    by (cases v) (simp_all add: entry_current_def)
  then show ?thesis by (auto simp: entries flagged)
qed

section \<open>A sample inventory\<close>

text \<open>Small amounts are told from the float limit without computing it.\<close>

lemma of_small_int: "i < 10 ^ 18 \<Longrightarrow> of_int i < (10 ^ 18 :: rat)"
  using of_int_less_iff [of i "10 ^ 18", where 'a = rat] by simp

lemma small_float: "(10 ^ 18 :: rat) < float_limit"
  by (simp add: float_limit_def)

lemma total_of_code [code]:
  "total_of raw decimals =
     (if raw < 10 ^ 18 then Inr (of_int raw / 10 ^ nat (case decimals of None \<Rightarrow> 0 | Some d \<Rightarrow> d))
      else let q = of_int raw / 10 ^ nat (case decimals of None \<Rightarrow> 0 | Some d \<Rightarrow> d)
           in if q \<ge> float_limit then Inl OverflowError else Inr q)"
proof (cases "raw < 10 ^ 18")
  case True
  let ?p = "10 ^ nat (case decimals of None \<Rightarrow> 0 | Some d \<Rightarrow> d) :: rat"
  have "of_int raw / ?p < 10 ^ 18"
  proof (cases "raw \<ge> 0")
    case True
    have "of_int raw / ?p \<le> of_int raw / 1" using True by (intro divide_left_mono) auto
    also have "of_int raw / 1 < (10 ^ 18 :: rat)" using of_small_int [OF \<open>raw < 10 ^ 18\<close>] by simp
    finally show ?thesis .
  next
    case False
    then have "of_int raw / ?p \<le> 0" by (simp add: divide_le_0_iff)
    then show ?thesis by (rule order.strict_trans1) simp
  qed
  also have "(10 ^ 18 :: rat) < float_limit" by (rule small_float)
  finally show ?thesis using True by (simp add: total_of_def Let_def not_le)
qed (simp add: total_of_def)

lemma finite_num_code [code]:
  "finite_num (PInt i) = (if \<bar>i\<bar> < 10 ^ 18 then Some (of_int i) else if of_int \<bar>i\<bar> < float_limit then Some (of_int i) else None)"
  "finite_num (PFloat (Fin q)) = Some q"
  "finite_num (PFloat PosInf) = None" "finite_num (PFloat NegInf) = None" "finite_num (PFloat NaN) = None"
  "finite_num PNone = None" "finite_num (PBool b) = None" "finite_num (PStr s) = None" "finite_num (PList xs) = None"
  "finite_num (PDict d) = None"
proof -
  have "of_int \<bar>i\<bar> < float_limit" if "\<bar>i\<bar> < 10 ^ 18"
  proof -
    show ?thesis by (rule order.strict_trans [OF of_small_int [OF that] small_float])
  qed
  then show "finite_num (PInt i) = (if \<bar>i\<bar> < 10 ^ 18 then Some (of_int i) else if of_int \<bar>i\<bar> < float_limit then Some (of_int i) else None)"
    by simp
qed simp_all

definition demo_account :: "string \<Rightarrow> string \<Rightarrow> pyval" where
  "demo_account owner raw = PDict [(''owner'', PStr ''P''), (''data'', PDict [(''parsed'', PDict [(''type'', PStr ''account''),
     (''info'', PDict [(''mint'', PStr ''M''), (''owner'', PStr owner),
        (''tokenAmount'', PDict [(''amount'', PStr raw), (''decimals'', PInt 1)])])])])]"

definition demo_answer :: pyval where
  "demo_answer = PDict [(''context'', PDict [(''slot'', PInt 7)]),
     (''value'', PList [PDict [(''pubkey'', PStr ''K1''), (''account'', demo_account ''O'' ''20'')],
                        PDict [(''pubkey'', PStr ''K2''), (''account'', demo_account ''O'' ''30'')]])]"

definition demo_store :: enumerations where
  "demo_store = snd (remember_enumeration [] ''O'' ''M'' demo_answer (PInt 5) (PInt 100))"

text \<open>An outside that answers at slot 9 with 25 and 30 for the two accounts.\<close>

definition demo_call :: "nat call" where
  "demo_call params n = (Inr (PDict [(''context'', PDict [(''slot'', PInt 9)]),
     (''value'', PList [demo_account ''O'' ''25'', demo_account ''O'' ''30''])]), n + 1)"

definition demo_batch :: "batch_stats res \<times> enumerations \<times> cache \<times> nat" where
  "demo_batch = prime_known_balances demo_call [''O'', ''Q''] ''M'' [] 200 demo_store [((''Q'', ''M''), 3), ((''O'', ''X''), 4)] 0"

definition demo_stats :: batch_stats where
  "demo_stats = \<lparr>bs_status = ''partial'', bs_primed = 1, bs_requests = 1, bs_required = [''Q''], bs_failures = 0\<rparr>"

lemma demo_batch_eval: "fst demo_batch = Inr demo_stats" "map_of (fst (snd (snd demo_batch))) (''O'', ''M'') = Some (11 / 2)"
  by code_simp+

lemma demo_batch_run: "demo_batch = (Inr demo_stats, fst (snd demo_batch), fst (snd (snd demo_batch)), snd (snd (snd demo_batch)))"
  by (simp add: prod_eq_iff demo_batch_eval)

lemma demo_enabled: "bs_status demo_stats \<noteq> ''disabled''"
  by (simp add: demo_stats_def)

theorem owner_primed_or_required_witness:
  "bs_primed demo_stats = card ({''O'', ''Q''} - set (bs_required demo_stats)) \<and> map_of (fst (snd (snd demo_batch))) (''Q'', ''M'') = None"
  using owner_primed_or_required [OF trans [OF demo_batch_def [symmetric] demo_batch_run] demo_enabled]
  by (simp add: demo_stats_def)

theorem primed_balance_witnessed_witness:
  "\<exists>interval \<le> 21600. total_witnessed demo_call 200 interval (entries_of demo_store ''M'') ''M'' ''O'' (11 / 2)"
  by (rule primed_balance_witnessed [OF trans [OF demo_batch_def [symmetric] demo_batch_run] demo_enabled])
    (simp_all add: demo_batch_eval)


theorem refused_enumeration_blocks_witness:
  "\<exists>entry. map_of (entries_of (snd (remember_enumeration demo_store ''O'' ''M'' PNone (PInt 5) (PInt 300))) ''M'') ''O'' = Some entry \<and>
     \<not> entry_current 300 21600 ''O'' ''M'' entry"
proof -
  let ?store = "snd (remember_enumeration demo_store ''O'' ''M'' PNone (PInt 5) (PInt 300))"
  have "\<not> fst (remember_enumeration demo_store ''O'' ''M'' PNone (PInt 5) (PInt 300))" by code_simp
  then have run: "remember_enumeration demo_store ''O'' ''M'' PNone (PInt 5) (PInt 300) = (False, ?store)"
    by (simp add: prod_eq_iff)
  have "map_of (entries_of ?store ''M'') ''O'' \<noteq> None" by code_simp
  with refused_enumeration_blocks [OF run, of 300 21600] show ?thesis by blast
qed

end
