(* ===== verification/Position_Evidence.thy ===== *)
theory Position_Evidence
  imports Prelude "HOL-Library.Product_Lexorder"
begin

text \<open>
  \<^verbatim>\<open>src/position_evidence.py\<close>: where a cohort's purchased tokens are now, as far as the transfers seen prove
  it; cross-chain and funding summaries.

  The program keeps amounts as decimal texts; they are the integers those texts denote.  Percentages are
  exact rationals.
\<close>

section \<open>The attributed position\<close>

record holding =
  hd_balance :: int
  hd_known :: int   \<comment> \<open>the part proved to come from the attributed purchases\<close>
  hd_depth :: int

record provenance =
  pn_from_block :: int
  pn_block :: int
  pn_block_hash :: string
  pn_supply :: int
  pn_bought :: int
  pn_sold :: int
  pn_originals :: "string list"
  pn_nodes :: "(string \<times> holding) list"

record cohort_wallet =
  cw_address :: string
  cw_bought :: int
  cw_balance :: int
  cw_retained :: int

definition seed_position :: "cohort_wallet list \<Rightarrow> int \<Rightarrow> string \<Rightarrow> int \<Rightarrow> provenance" where
  "seed_position wallets block block_hash supply =
     \<lparr>pn_from_block = block, pn_block = block, pn_block_hash = block_hash, pn_supply = supply,
      pn_bought = sum_list (map cw_bought wallets), pn_sold = 0, pn_originals = map cw_address wallets,
      pn_nodes = foldl (\<lambda>nodes w. AList.update (cw_address w)
        \<lparr>hd_balance = cw_balance w, hd_known = cw_retained w, hd_depth = 0\<rparr> nodes) [] wallets\<rparr>"

record summary_row =
  sr_address :: string
  sr_held :: int
  sr_pct :: rat
  sr_depth :: int

record position_report =
  pq_original :: int
  pq_transferred :: int
  pq_sold :: int
  pq_unknown :: int
  pq_pct :: "rat list"
  pq_recipients :: "summary_row list"

definition known_of :: "(string \<times> holding) list \<Rightarrow> int" where
  "known_of nodes = (\<Sum>(w, n)\<leftarrow>nodes. hd_known n)"

definition pct_of :: "int \<Rightarrow> int \<Rightarrow> rat res" where
  "pct_of v supply = (if supply = 0 then Inl ZeroDivisionError else Inr (100 * of_int v / of_int supply))"

definition position_summary :: "provenance \<Rightarrow> position_report res" where
  "position_summary s =
     (let mine = filter (\<lambda>(w, n). w \<in> set (pn_originals s)) (pn_nodes s);
          others = filter (\<lambda>(w, n). w \<notin> set (pn_originals s)) (pn_nodes s);
          original = known_of mine; moved = known_of others; sold = pn_sold s;
          unknown = pn_bought s - original - moved - sold
      in if min (min original moved) (min sold unknown) < 0
         then Inl (ValueError ''Position accounting exceeds attributed purchases'')
         else bindR (mapR (\<lambda>v. pct_of v (pn_supply s)) [original, moved, sold, unknown]) (\<lambda>pcts.
              bindR (mapR (\<lambda>(w, n). bindR (pct_of (hd_known n) (pn_supply s)) (\<lambda>p.
                       Inr \<lparr>sr_address = w, sr_held = hd_known n, sr_pct = p, sr_depth = hd_depth n\<rparr>))
                     (filter (\<lambda>(w, n). hd_known n > 0) others)) (\<lambda>rows.
                Inr \<lparr>pq_original = original, pq_transferred = moved, pq_sold = sold, pq_unknown = unknown,
                     pq_pct = pcts, pq_recipients = rows\<rparr>)))"

section \<open>Replaying transfers\<close>

record transfer_event =
  te_block :: int
  te_index :: int
  te_tx :: string
  te_sender :: string
  te_recipient :: string
  te_amount :: int

definition event_key :: "transfer_event \<Rightarrow> string \<times> int" where
  "event_key e = (te_tx e, te_index e)"

record replay_state =
  rs_nodes :: "(string \<times> holding) list"
  rs_sold :: int
  rs_seen :: "(string \<times> int) list"

text \<open>The debit of a tracked sender: the attributable part of the amount, and the nodes after it.\<close>

definition debit_sender :: "transfer_event \<Rightarrow> (string \<times> holding) list \<Rightarrow> (int \<times> (string \<times> holding) list) res" where
  "debit_sender e nodes = (case map_of nodes (te_sender e) of
      None \<Rightarrow> Inr (0, nodes)
    | Some n \<Rightarrow> if te_amount e > hd_balance n then Inl (ValueError ''Transfer ledger does not reconcile'')
        else Inr (max 0 (te_amount e - (hd_balance n - hd_known n)),
                  AList.update (te_sender e)
                    (n\<lparr>hd_balance := hd_balance n - te_amount e, hd_known := max 0 (hd_known n - te_amount e)\<rparr>) nodes))"

definition credit_recipient ::
    "(string \<times> int) list \<Rightarrow> transfer_event \<Rightarrow> int \<Rightarrow> (string \<times> holding) list \<Rightarrow> int \<Rightarrow> (string \<times> holding) list \<times> int" where
  "credit_recipient sold_events e part nodes sold = (case map_of nodes (te_recipient e) of
      Some n \<Rightarrow> (AList.update (te_recipient e)
         (n\<lparr>hd_balance := hd_balance n + te_amount e, hd_known := hd_known n + part\<rparr>) nodes, sold)
    | None \<Rightarrow> (nodes, if event_key e \<in> set sold_events then sold + part else sold))"

definition move_event :: "(string \<times> int) list \<Rightarrow> (string \<times> holding) list \<times> int \<Rightarrow> transfer_event \<Rightarrow> ((string \<times> holding) list \<times> int) res" where
  "move_event sold_events = (\<lambda>(nodes, sold) e.
     if te_sender e = te_recipient e then Inr (nodes, sold)
     else bindR (debit_sender e nodes) (\<lambda>(part, nodes'). Inr (credit_recipient sold_events e part nodes' sold)))"

definition replay_event :: "(string \<times> int) list \<Rightarrow> replay_state \<Rightarrow> transfer_event \<Rightarrow> replay_state res" where
  "replay_event sold_events st e =
     (if event_key e \<in> set (rs_seen st) then Inr st
      else bindR (move_event sold_events (rs_nodes st, rs_sold st) e) (\<lambda>(nodes, sold).
        Inr \<lparr>rs_nodes = nodes, rs_sold = sold, rs_seen = event_key e # rs_seen st\<rparr>))"

definition ordered_events :: "transfer_event list \<Rightarrow> transfer_event list" where
  "ordered_events transfers = sort_key (\<lambda>e. (te_block e, te_index e)) transfers"

definition check_balances :: "(string \<times> int) list \<Rightarrow> (string \<times> holding) list \<Rightarrow> unit res" where
  "check_balances balances nodes = foldR (\<lambda>u (w, n). case map_of balances w of
      None \<Rightarrow> Inl KeyError
    | Some b \<Rightarrow> guardR (hd_balance n = b) (ValueError ''End balance does not reconcile'')) () nodes"

definition replay_position ::
    "provenance \<Rightarrow> transfer_event list \<Rightarrow> (string \<times> holding) list \<Rightarrow> (string \<times> int) list \<Rightarrow> (string \<times> int) list
      \<Rightarrow> int \<Rightarrow> string \<Rightarrow> provenance res" where
  "replay_position previous transfers nodes balances sold_events block block_hash =
     bindR (foldR (replay_event sold_events) \<lparr>rs_nodes = nodes, rs_sold = pn_sold previous, rs_seen = []\<rparr>
              (ordered_events transfers)) (\<lambda>st.
     bindR (check_balances balances (rs_nodes st)) (\<lambda>_.
       (let result = previous\<lparr>pn_nodes := rs_nodes st, pn_sold := rs_sold st, pn_block := block, pn_block_hash := block_hash\<rparr>
        in bindR (position_summary result) (\<lambda>_. Inr result))))"

section \<open>Cross-chain purchases\<close>

record cross_event =
  ce_transaction :: string
  ce_source_chain :: "int option"   \<comment> \<open>where it is an integer\<close>
  ce_source_address :: string
  ce_recipient :: string
  ce_bought :: int
  ce_service :: "string option"

record cross_report =
  cr_verified_buys :: nat
  cr_recipients :: nat
  cr_source_wallets :: nat
  cr_source_chains :: "int list"
  cr_gross_pct :: rat
  cr_services :: "string list"

definition cross_events :: "int \<Rightarrow> cross_event list \<Rightarrow> cross_event list" where
  "cross_events chain_id events =
     filter (\<lambda>e. ce_source_chain e \<noteq> None \<and> ce_source_chain e \<noteq> Some chain_id)
       (map snd (foldl (\<lambda>unique e. AList.update (ce_transaction e) e unique) [] events))"

definition cross_chain_summary :: "cross_event list \<Rightarrow> int \<Rightarrow> int \<Rightarrow> cross_report res" where
  "cross_chain_summary events chain_id supply =
     (let cross = cross_events chain_id events in
      bindR (pct_of (sum_list (map ce_bought cross)) supply) (\<lambda>pct.
        Inr \<lparr>cr_verified_buys = length cross, cr_recipients = length (remdups (map ce_recipient cross)),
             cr_source_wallets = length (remdups (map (\<lambda>e. (ce_source_chain e, ce_source_address e)) cross)),
             cr_source_chains = sorted_set (map (\<lambda>e. the (ce_source_chain e)) cross), cr_gross_pct = pct,
             cr_services = sorted_set (map (\<lambda>e. case ce_service e of None \<Rightarrow> ''Relay'' | Some s \<Rightarrow> s) cross)\<rparr>))"

section \<open>Funding before purchases\<close>

record buy_event =
  be_recipient :: string
  be_block :: int
  be_time :: int

record funding_event =
  fe_sender :: string
  fe_recipient :: string
  fe_amount :: int
  fe_block :: int
  fe_time :: int
  fe_tx :: string

record funding_match =
  fm_source :: string
  fm_wallets :: "string list"
  fm_transactions :: "string list"
  fm_funding_span :: int
  fm_buy_span :: int

definition first_buys :: "buy_event list \<Rightarrow> (string \<times> buy_event) list" where
  "first_buys buys = foldl (\<lambda>first b. case map_of first (be_recipient b) of
      None \<Rightarrow> AList.update (be_recipient b) b first
    | Some f \<Rightarrow> if be_block b < be_block f then AList.update (be_recipient b) b first else first) [] buys"

definition funds_buy :: "(string \<times> buy_event) list \<Rightarrow> string list \<Rightarrow> funding_event \<Rightarrow> bool" where
  "funds_buy first excluded e = (case map_of first (fe_recipient e) of
      None \<Rightarrow> False
    | Some b \<Rightarrow> fe_sender e \<notin> set excluded \<and> map_of first (fe_sender e) = None \<and> fe_amount e > 0 \<and>
        fe_block e < be_block b \<and> 0 < be_time b - fe_time e \<and> be_time b - fe_time e \<le> 3600)"

definition funding_groups ::
    "(string \<times> buy_event) list \<Rightarrow> string list \<Rightarrow> funding_event list \<Rightarrow> (string \<times> (string \<times> funding_event) list) list" where
  "funding_groups first excluded funding = foldl (\<lambda>groups e.
     if funds_buy first excluded e
     then AList.update (fe_sender e)
            (AList.update (fe_recipient e) e (case map_of groups (fe_sender e) of None \<Rightarrow> [] | Some ws \<Rightarrow> ws)) groups
     else groups) [] funding"

definition window_match :: "(string \<times> buy_event) list \<Rightarrow> string \<Rightarrow> (string \<times> funding_event) list \<Rightarrow> int \<Rightarrow> funding_match option" where
  "window_match first sender wallets stop =
     (let selected = filter (\<lambda>(w, e). stop - 900 < fe_time e \<and> fe_time e \<le> stop) wallets;
          buy_times = map (\<lambda>(w, e). case map_of first w of None \<Rightarrow> 0 | Some b \<Rightarrow> be_time b) selected;
          span = Max (set buy_times) - Min (set buy_times)
      in if length selected < 3 then None
         else if span > 900 then None
         else Some \<lparr>fm_source = sender, fm_wallets = sort (map fst selected),
                    fm_transactions = sorted_set (map (\<lambda>(w, e). fe_tx e) selected),
                    fm_funding_span = stop - Min (set (map (\<lambda>(w, e). fe_time e) selected)), fm_buy_span = span\<rparr>)"

fun first_match :: "('a \<Rightarrow> 'b option) \<Rightarrow> 'a list \<Rightarrow> 'b option" where
  "first_match f [] = None"
| "first_match f (x # xs) = (case f x of None \<Rightarrow> first_match f xs | Some y \<Rightarrow> Some y)"

definition preparation_summary :: "buy_event list \<Rightarrow> funding_event list \<Rightarrow> string list \<Rightarrow> string \<times> funding_match list" where
  "preparation_summary buys funding excluded =
     (let first = first_buys buys;
          matches = List.map_filter (\<lambda>(sender, wallets). first_match (window_match first sender wallets)
                      (sorted_set (map (\<lambda>(w, e). fe_time e) wallets))) (funding_groups first excluded funding)
      in (if matches \<noteq> [] then ''coincidences'' else ''no_match_in_checked_subset'', matches))"

section \<open>The replay counts an event once\<close>

fun once :: "(string \<times> int) list \<Rightarrow> transfer_event list \<Rightarrow> transfer_event list" where
  "once seen [] = []"
| "once seen (e # es) = (if event_key e \<in> set seen then once seen es else e # once (event_key e # seen) es)"

lemma once_distinct: "distinct (map event_key (once seen es)) \<and> set (map event_key (once seen es)) \<inter> set seen = {}"
  by (induction seen es rule: once.induct) auto

lemma replay_events_once:
  "bindR (foldR (replay_event sold_events) st es) (\<lambda>st'. f (rs_nodes st') (rs_sold st')) =
     bindR (foldR (move_event sold_events) (rs_nodes st, rs_sold st) (once (rs_seen st) es)) (\<lambda>(nodes, sold). f nodes sold)"
proof (induction es arbitrary: st)
  case Nil
  then show ?case by simp
next
  case (Cons e es)
  show ?case
  proof (cases "event_key e \<in> set (rs_seen st)")
    case True
    then show ?thesis using Cons.IH [of st] by (simp add: replay_event_def)
  next
    case False
    show ?thesis
    proof (cases "move_event sold_events (rs_nodes st, rs_sold st) e")
      case (Inl err)
      then show ?thesis using False by (simp add: replay_event_def)
    next
      case (Inr fields)
      obtain nodes sold where fields: "fields = (nodes, sold)" by (cases fields)
      show ?thesis
        using False Cons.IH [of "\<lparr>rs_nodes = nodes, rs_sold = sold, rs_seen = event_key e # rs_seen st\<rparr>"]
        by (simp add: replay_event_def Inr fields)
    qed
  qed
qed

text \<open>The replay with the duplicates taken out first.\<close>

definition replay_distinct ::
    "provenance \<Rightarrow> transfer_event list \<Rightarrow> (string \<times> holding) list \<Rightarrow> (string \<times> int) list \<Rightarrow> (string \<times> int) list
      \<Rightarrow> int \<Rightarrow> string \<Rightarrow> provenance res" where
  "replay_distinct previous transfers nodes balances sold_events block block_hash =
     bindR (foldR (move_event sold_events) (nodes, pn_sold previous) (once [] (ordered_events transfers))) (\<lambda>(nodes', sold).
     bindR (check_balances balances nodes') (\<lambda>_.
       (let result = previous\<lparr>pn_nodes := nodes', pn_sold := sold, pn_block := block, pn_block_hash := block_hash\<rparr>
        in bindR (position_summary result) (\<lambda>_. Inr result))))"


lemma replay_distinct_run:
  assumes "replay_position previous transfers nodes balances sold_events block block_hash = Inr result"
  obtains "foldR (move_event sold_events) (nodes, pn_sold previous) (once [] (ordered_events transfers)) =
      Inr (pn_nodes result, pn_sold result)" "check_balances balances (pn_nodes result) = Inr ()"
    "pn_bought result = pn_bought previous" "\<exists>report. position_summary result = Inr report"
proof -
  from replay_events_once [of sold_events "\<lparr>rs_nodes = nodes, rs_sold = pn_sold previous, rs_seen = []\<rparr>"
      "ordered_events transfers"
      "\<lambda>nodes' sold. bindR (check_balances balances nodes') (\<lambda>_.
         let result = previous\<lparr>pn_nodes := nodes', pn_sold := sold, pn_block := block, pn_block_hash := block_hash\<rparr>
         in bindR (position_summary result) (\<lambda>_. Inr result))"] assms
  have "replay_distinct previous transfers nodes balances sold_events block block_hash = Inr result"
    by (simp add: replay_position_def replay_distinct_def)
  then show thesis by (intro that) (auto simp: replay_distinct_def bindR_eq_Inr Let_def)
qed

section \<open>Soundness of the attribution\<close>

text \<open>
  The ledger that knows which tokens are the attributed ones: the balance and the attributed part of every
  wallet, and the attributed tokens that sale events took to untracked wallets.  A transfer of an amount
  moves any split of it that both parts of the sender's balance can supply.
\<close>

record ledger =
  lg_balance :: "string \<Rightarrow> int"
  lg_mine :: "string \<Rightarrow> int"
  lg_sold :: int

definition transfer_true :: "(string \<times> int) list \<Rightarrow> string set \<Rightarrow> transfer_event \<Rightarrow> int \<Rightarrow> ledger \<Rightarrow> ledger" where
  "transfer_true sold_events tracked e c L =
     L\<lparr>lg_balance := (\<lambda>w. lg_balance L w - (if w = te_sender e then te_amount e else 0) + (if w = te_recipient e then te_amount e else 0)),
       lg_mine := (\<lambda>w. lg_mine L w - (if w = te_sender e then c else 0) + (if w = te_recipient e then c else 0)),
       lg_sold := lg_sold L + (if te_sender e \<noteq> te_recipient e \<and> te_recipient e \<notin> tracked \<and> event_key e \<in> set sold_events then c else 0)\<rparr>"

inductive true_history :: "(string \<times> int) list \<Rightarrow> string set \<Rightarrow> ledger \<Rightarrow> transfer_event list \<Rightarrow> ledger \<Rightarrow> bool"
  for sold_events tracked where
  stop: "true_history sold_events tracked L [] L"
| move: "0 \<le> c \<Longrightarrow> c \<le> te_amount e \<Longrightarrow> c \<le> lg_mine L (te_sender e) \<Longrightarrow>
    te_amount e - c \<le> lg_balance L (te_sender e) - lg_mine L (te_sender e) \<Longrightarrow>
    true_history sold_events tracked (transfer_true sold_events tracked e c L) es L' \<Longrightarrow>
    true_history sold_events tracked L (e # es) L'"

inductive_cases true_historyE: "true_history sold_events tracked L (e # es) L'"
inductive_cases true_history_NilE: "true_history sold_events tracked L [] L'"

definition below :: "(string \<times> holding) list \<times> int \<Rightarrow> ledger \<Rightarrow> bool" where
  "below = (\<lambda>(nodes, sold) L. sold \<le> lg_sold L \<and>
     (\<forall>w n. map_of nodes w = Some n \<longrightarrow> hd_balance n = lg_balance L w \<and> hd_known n \<le> lg_mine L w))"

lemma move_event_keys:
  "move_event sold_events (nodes, sold) e = Inr (nodes', sold') \<Longrightarrow> dom (map_of nodes') = dom (map_of nodes)"
  by (auto simp: move_event_def bindR_eq_Inr debit_sender_def credit_recipient_def dom_def
      split: if_splits option.splits)

lemma debit_sound:
  assumes "debit_sender e nodes = Inr (part, nodes')" and bel: "below (nodes, sold) L"
    and c: "0 \<le> c" "c \<le> te_amount e" "c \<le> lg_mine L (te_sender e)"
      "te_amount e - c \<le> lg_balance L (te_sender e) - lg_mine L (te_sender e)"
  shows "part \<le> c" "map_of nodes' w = Some n \<Longrightarrow> hd_balance n = lg_balance L w - (if w = te_sender e then te_amount e else 0) \<and>
     hd_known n \<le> lg_mine L w - (if w = te_sender e then c else 0)"
    "dom (map_of nodes') = dom (map_of nodes)"
proof -
  show "part \<le> c"
  proof (cases "map_of nodes (te_sender e)")
    case None
    then show ?thesis using assms(1) c(1) by (simp add: debit_sender_def)
  next
    case (Some m)
    then have "hd_balance m = lg_balance L (te_sender e)" "hd_known m \<le> lg_mine L (te_sender e)"
      using bel by (auto simp: below_def)
    then show ?thesis using assms(1) Some c by (auto simp: debit_sender_def max_def split: if_splits)
  qed
  show "dom (map_of nodes') = dom (map_of nodes)"
    using assms(1) by (auto simp: debit_sender_def dom_def split: option.splits if_splits)
  assume n: "map_of nodes' w = Some n"
  show "hd_balance n = lg_balance L w - (if w = te_sender e then te_amount e else 0) \<and>
     hd_known n \<le> lg_mine L w - (if w = te_sender e then c else 0)"
  proof (cases "map_of nodes (te_sender e)")
    case None
    then show ?thesis using assms(1) bel n by (auto simp: debit_sender_def below_def)
  next
    case (Some m)
    then have m: "hd_balance m = lg_balance L (te_sender e)" "hd_known m \<le> lg_mine L (te_sender e)"
      using bel by (auto simp: below_def)
    then have "hd_known m - te_amount e \<le> lg_mine L (te_sender e) - c" using c(2) by linarith
    moreover have "nodes' = AList.update (te_sender e)
        (m\<lparr>hd_balance := hd_balance m - te_amount e, hd_known := max 0 (hd_known m - te_amount e)\<rparr>) nodes"
      using assms(1) Some by (simp add: debit_sender_def split: if_splits)
    ultimately show ?thesis
    proof (cases "w = te_sender e")
      case True
      with n \<open>nodes' = _\<close> have "n = m\<lparr>hd_balance := hd_balance m - te_amount e, hd_known := max 0 (hd_known m - te_amount e)\<rparr>"
        by simp
      with m \<open>hd_known m - te_amount e \<le> _\<close> c(3) True show ?thesis by simp
    next
      case False
      with n \<open>nodes' = _\<close> bel show ?thesis by (simp add: below_def)
    qed
  qed
qed

lemma move_event_sound:
  assumes move: "move_event sold_events (nodes, sold) e = Inr (nodes', sold')" and bel: "below (nodes, sold) L"
    and c: "0 \<le> c" "c \<le> te_amount e" "c \<le> lg_mine L (te_sender e)"
      "te_amount e - c \<le> lg_balance L (te_sender e) - lg_mine L (te_sender e)"
    and tracked: "dom (map_of nodes) = tracked"
  shows "below (nodes', sold') (transfer_true sold_events tracked e c L)"
proof (cases "te_sender e = te_recipient e")
  case True
  then show ?thesis using move bel by (auto simp: move_event_def below_def transfer_true_def)
next
  case False
  then obtain part nodes1 where debit: "debit_sender e nodes = Inr (part, nodes1)"
      and credit: "credit_recipient sold_events e part nodes1 sold = (nodes', sold')"
    using move by (auto simp: move_event_def bindR_eq_Inr)
  note sound = debit_sound [OF debit bel c]
  show ?thesis
  proof (cases "map_of nodes1 (te_recipient e)")
    case None
    then have "te_recipient e \<notin> tracked" using sound(3) tracked by auto
    with None credit sound(1,2) bel False show ?thesis
      by (auto simp: credit_recipient_def below_def transfer_true_def c(1) split: if_splits)
  next
    case (Some m)
    then have "te_recipient e \<in> tracked" using sound(3) tracked by auto
    moreover have res: "nodes' = AList.update (te_recipient e)
        (m\<lparr>hd_balance := hd_balance m + te_amount e, hd_known := hd_known m + part\<rparr>) nodes1" "sold' = sold"
      using Some credit by (auto simp: credit_recipient_def)
    ultimately show ?thesis
      using sound(2) sound(2) [OF Some] sound(1) bel False by (auto simp: below_def transfer_true_def)
  qed
qed

lemma moves_sound:
  assumes "true_history sold_events tracked L es L'"
    and "foldR (move_event sold_events) (nodes, sold) es = Inr (nodes', sold')"
    and "below (nodes, sold) L" and "dom (map_of nodes) = tracked"
  shows "below (nodes', sold') L'"
  using assms
proof (induction es arbitrary: nodes sold L)
  case Nil
  then show ?case by (auto elim: true_history_NilE)
next
  case (Cons e es)
  from Cons.prems(1) obtain c where c: "0 \<le> c" "c \<le> te_amount e" "c \<le> lg_mine L (te_sender e)"
      "te_amount e - c \<le> lg_balance L (te_sender e) - lg_mine L (te_sender e)"
    and rest: "true_history sold_events tracked (transfer_true sold_events tracked e c L) es L'"
    by (rule true_historyE)
  from Cons.prems(2) obtain nodes1 sold1 where move: "move_event sold_events (nodes, sold) e = Inr (nodes1, sold1)"
      and run: "foldR (move_event sold_events) (nodes1, sold1) es = Inr (nodes', sold')"
    by (auto simp: bindR_eq_Inr)
  from Cons.IH [OF rest run move_event_sound [OF move Cons.prems(3) c Cons.prems(4)]] move_event_keys [OF move] Cons.prems(4)
  show ?case by simp
qed

text \<open>
  C34: The attribution is sound.  Whatever the true distribution of the attributed tokens is, if the replay
  starts below it, then after the transfers every known amount is at most what the wallet really holds of
  them, every balance is the real one, and the sold amount is at most what sale events really took out.
\<close>

theorem replay_attribution_sound:
  assumes "replay_position previous transfers nodes balances sold_events block block_hash = Inr result"
    and "true_history sold_events (dom (map_of nodes)) L (once [] (ordered_events transfers)) L'"
    and "below (nodes, pn_sold previous) L"
  shows "below (pn_nodes result, pn_sold result) L'"
proof -
  from replay_distinct_run [OF assms(1)]
  have "foldR (move_event sold_events) (nodes, pn_sold previous) (once [] (ordered_events transfers)) =
      Inr (pn_nodes result, pn_sold result)" by metis
  from moves_sound [OF assms(2) this assms(3)] show ?thesis by simp
qed

section \<open>Conservation\<close>

definition holdings_ok :: "(string \<times> holding) list \<Rightarrow> bool" where
  "holdings_ok nodes \<longleftrightarrow> distinct (keys nodes) \<and> (\<forall>(w, n) \<in> set nodes. 0 \<le> hd_known n \<and> hd_known n \<le> hd_balance n)"

lemma known_of_update:
  "distinct (keys nodes) \<Longrightarrow> map_of nodes w = Some m \<Longrightarrow>
     known_of (AList.update w n nodes) = known_of nodes + hd_known n - hd_known m"
  using sum_update_old [of nodes w m "\<lambda>_ n. hd_known n" n] by (simp add: known_of_def)

lemma holdings_ok_update:
  assumes "holdings_ok nodes" "0 \<le> hd_known n" "hd_known n \<le> hd_balance n"
  shows "holdings_ok (AList.update w n nodes)"
  using assms set_update_subset [of w n nodes] by (auto simp: holdings_ok_def)

lemma holdings_okD: "holdings_ok nodes \<Longrightarrow> map_of nodes w = Some m \<Longrightarrow> 0 \<le> hd_known m \<and> hd_known m \<le> hd_balance m"
  by (auto simp: holdings_ok_def dest: map_of_SomeD)

lemma debit_conserves:
  assumes "debit_sender e nodes = Inr (part, nodes')" "holdings_ok nodes" "0 \<le> te_amount e"
  shows "holdings_ok nodes' \<and> 0 \<le> part \<and> part \<le> te_amount e \<and> known_of nodes' + part \<le> known_of nodes"
proof (cases "map_of nodes (te_sender e)")
  case None
  then show ?thesis using assms by (simp add: debit_sender_def)
next
  case (Some m)
  let ?m = "m\<lparr>hd_balance := hd_balance m - te_amount e, hd_known := max 0 (hd_known m - te_amount e)\<rparr>"
  have res: "te_amount e \<le> hd_balance m" "part = max 0 (te_amount e - (hd_balance m - hd_known m))"
      "nodes' = AList.update (te_sender e) ?m nodes"
    using assms(1) Some by (auto simp: debit_sender_def split: if_splits)
  note m = holdings_okD [OF assms(2) Some]
  have "holdings_ok nodes'" unfolding res(3) by (rule holdings_ok_update [OF assms(2)]) (use m res(1) assms(3) in auto)
  moreover have "known_of nodes' = known_of nodes + hd_known ?m - hd_known m"
    unfolding res(3) by (rule known_of_update) (use assms(2) Some in \<open>auto simp: holdings_ok_def\<close>)
  ultimately show ?thesis using m res(1,2) assms(3) by (simp add: max_def)
qed

lemma move_conserves:
  assumes "move_event sold_events (nodes, sold) e = Inr (nodes', sold')" "holdings_ok nodes" "0 \<le> te_amount e"
  shows "holdings_ok nodes' \<and> sold \<le> sold' \<and> known_of nodes' + sold' \<le> known_of nodes + sold"
proof (cases "te_sender e = te_recipient e")
  case True
  then show ?thesis using assms by (simp add: move_event_def)
next
  case False
  then obtain part nodes1 where debit: "debit_sender e nodes = Inr (part, nodes1)"
      and credit: "credit_recipient sold_events e part nodes1 sold = (nodes', sold')"
    using assms(1) by (auto simp: move_event_def bindR_eq_Inr)
  note d = debit_conserves [OF debit assms(2,3)]
  show ?thesis
  proof (cases "map_of nodes1 (te_recipient e)")
    case None
    then show ?thesis using d credit by (auto simp: credit_recipient_def split: if_splits)
  next
    case (Some m)
    let ?m = "m\<lparr>hd_balance := hd_balance m + te_amount e, hd_known := hd_known m + part\<rparr>"
    have res: "nodes' = AList.update (te_recipient e) ?m nodes1" "sold' = sold"
      using Some credit by (simp_all add: credit_recipient_def)
    have ok1: "holdings_ok nodes1" using d by simp
    note m = holdings_okD [OF ok1 Some]
    have "holdings_ok nodes'" unfolding res(1) by (rule holdings_ok_update [OF ok1]) (use m d in auto)
    moreover have "known_of nodes' = known_of nodes1 + hd_known ?m - hd_known m"
      unfolding res(1) by (rule known_of_update) (use ok1 Some in \<open>auto simp: holdings_ok_def\<close>)
    ultimately show ?thesis using d res(2) by simp
  qed
qed

lemma moves_conserve:
  assumes "foldR (move_event sold_events) (nodes, sold) es = Inr (nodes', sold')" "holdings_ok nodes"
    and "\<forall>e \<in> set es. 0 \<le> te_amount e"
  shows "holdings_ok nodes' \<and> sold \<le> sold' \<and> known_of nodes' + sold' \<le> known_of nodes + sold"
  using assms
proof (induction es arbitrary: nodes sold)
  case Nil
  then show ?case by simp
next
  case (Cons e es)
  from Cons.prems(1) obtain nodes1 sold1 where move: "move_event sold_events (nodes, sold) e = Inr (nodes1, sold1)"
      and run: "foldR (move_event sold_events) (nodes1, sold1) es = Inr (nodes', sold')"
    by (auto simp: bindR_eq_Inr)
  have "holdings_ok nodes1 \<and> sold \<le> sold1 \<and> known_of nodes1 + sold1 \<le> known_of nodes + sold"
    by (rule move_conserves [OF move Cons.prems(2)]) (use Cons.prems(3) in auto)
  with Cons.IH [OF run] Cons.prems(3) show ?case by auto
qed

lemma set_once: "set (once seen es) \<subseteq> set es"
  by (induction seen es rule: once.induct) auto

text \<open>
  The replay never grows the position.  From holdings whose known part is within the balance, a replay
  of non-negative amounts ends in such holdings, its sold amount only grows, and known and sold amounts
  together do not exceed what they were.
\<close>

theorem replay_conserves:
  assumes "replay_position previous transfers nodes balances sold_events block block_hash = Inr result"
    and "holdings_ok nodes" and "\<forall>e \<in> set transfers. 0 \<le> te_amount e"
  shows "holdings_ok (pn_nodes result) \<and> pn_sold previous \<le> pn_sold result \<and>
    known_of (pn_nodes result) + pn_sold result \<le> known_of nodes + pn_sold previous"
proof -
  from replay_distinct_run [OF assms(1)]
  have run: "foldR (move_event sold_events) (nodes, pn_sold previous) (once [] (ordered_events transfers)) =
      Inr (pn_nodes result, pn_sold result)" by metis
  have "set (once [] (ordered_events transfers)) \<subseteq> set transfers"
    using set_once [of "[]" "ordered_events transfers"] by (simp add: ordered_events_def)
  with assms(3) show ?thesis by (intro moves_conserve [OF run assms(2)]) auto
qed

section \<open>Funding matches\<close>

definition group_ok ::
    "(string \<times> buy_event) list \<Rightarrow> string list \<Rightarrow> funding_event set \<Rightarrow> string \<Rightarrow> (string \<times> funding_event) list \<Rightarrow> bool" where
  "group_ok first excluded funding sender ws \<longleftrightarrow> distinct (keys ws) \<and>
     (\<forall>(w, e) \<in> set ws. e \<in> funding \<and> fe_sender e = sender \<and> fe_recipient e = w \<and> funds_buy first excluded e)"

lemma funding_groups_ok:
  assumes "(sender, ws) \<in> set (funding_groups first excluded funding)"
  shows "group_ok first excluded (set funding) sender ws \<and> ws \<noteq> []"
proof -
  let ?P = "\<lambda>(sender, ws). group_ok first excluded (set funding) sender ws \<and> ws \<noteq> []"
  have "list_all ?P (funding_groups first excluded funding)"
    unfolding funding_groups_def
  proof (rule foldl_invariant [where P = "list_all ?P"])
    fix groups e
    assume ok: "list_all ?P groups" and e: "e \<in> set funding"
    let ?ws = "case map_of groups (fe_sender e) of None \<Rightarrow> [] | Some ws \<Rightarrow> ws"
    have old: "group_ok first excluded (set funding) (fe_sender e) ?ws"
    proof (cases "map_of groups (fe_sender e)")
      case None
      then show ?thesis by (simp add: group_ok_def)
    next
      case (Some ws)
      then show ?thesis using ok map_of_SomeD [OF Some] by (auto simp: list_all_iff)
    qed
    have "?P (fe_sender e, AList.update (fe_recipient e) e ?ws)" if "funds_buy first excluded e"
    proof -
      have "AList.update (fe_recipient e) e ?ws \<noteq> []" by (cases ?ws) auto
      moreover have "group_ok first excluded (set funding) (fe_sender e) (AList.update (fe_recipient e) e ?ws)"
        using old that e set_update_subset [of "fe_recipient e" e ?ws] by (auto simp: group_ok_def)
      ultimately show ?thesis by simp
    qed
    then show "list_all ?P (if funds_buy first excluded e
        then AList.update (fe_sender e) (AList.update (fe_recipient e) e ?ws) groups else groups)"
      using ok by (auto intro: list_all_update)
  qed simp
  with assms show ?thesis by (auto simp: list_all_iff)
qed

lemma first_match_Some: "first_match f xs = Some y \<Longrightarrow> \<exists>x \<in> set xs. f x = Some y"
  by (induction xs) (auto split: option.splits)

definition match_sound :: "buy_event list \<Rightarrow> funding_event list \<Rightarrow> string list \<Rightarrow> funding_match \<Rightarrow> bool" where
  "match_sound buys funding excluded m \<longleftrightarrow>
     distinct (fm_wallets m) \<and> 3 \<le> length (fm_wallets m) \<and> fm_source m \<notin> set excluded \<and>
     map_of (first_buys buys) (fm_source m) = None \<and>
     (\<exists>stop start. \<forall>w \<in> set (fm_wallets m). \<exists>e b. e \<in> set funding \<and> fe_sender e = fm_source m \<and> fe_recipient e = w \<and>
        0 < fe_amount e \<and> map_of (first_buys buys) w = Some b \<and> fe_block e < be_block b \<and>
        0 < be_time b - fe_time e \<and> be_time b - fe_time e \<le> 3600 \<and> stop - 900 < fe_time e \<and> fe_time e \<le> stop \<and>
        start \<le> be_time b \<and> be_time b \<le> start + 900)"

lemma window_match_sound:
  assumes m: "window_match (first_buys buys) sender ws stop = Some m"
    and ok: "group_ok (first_buys buys) excluded (set funding) sender ws"
  shows "match_sound buys funding excluded m"
proof -
  let ?sel = "filter (\<lambda>(w, e). stop - 900 < fe_time e \<and> fe_time e \<le> stop) ws"
  let ?times = "map (\<lambda>(w, e). case map_of (first_buys buys) w of None \<Rightarrow> 0 | Some b \<Rightarrow> be_time b) ?sel"
  from m have len: "3 \<le> length ?sel" and span: "Max (set ?times) - Min (set ?times) \<le> 900"
    and src: "fm_source m = sender" and wallets: "fm_wallets m = sort (map fst ?sel)"
    by (auto simp: window_match_def Let_def split: if_splits)
  have "distinct (fm_wallets m)" using ok by (simp add: wallets group_ok_def distinct_map_filter)
  moreover have row: "\<exists>e b. e \<in> set funding \<and> fe_sender e = sender \<and> fe_recipient e = w \<and>
        0 < fe_amount e \<and> map_of (first_buys buys) w = Some b \<and> fe_block e < be_block b \<and>
        0 < be_time b - fe_time e \<and> be_time b - fe_time e \<le> 3600 \<and> stop - 900 < fe_time e \<and> fe_time e \<le> stop \<and>
        Min (set ?times) \<le> be_time b \<and> be_time b \<le> Min (set ?times) + 900"
    if "w \<in> set (fm_wallets m)" for w
  proof -
    from that obtain e where e: "(w, e) \<in> set ?sel" by (auto simp: wallets)
    then have "funds_buy (first_buys buys) excluded e" "fe_recipient e = w" "fe_sender e = sender" "e \<in> set funding"
      using ok by (auto simp: group_ok_def)
    then obtain b where b: "map_of (first_buys buys) w = Some b" "0 < fe_amount e" "fe_block e < be_block b"
        "0 < be_time b - fe_time e" "be_time b - fe_time e \<le> 3600"
      by (auto simp: funds_buy_def split: option.splits)
    have "be_time b \<in> set ?times" unfolding set_map by (rule image_eqI [OF _ e]) (simp add: b(1))
    then have "Min (set ?times) \<le> be_time b" "be_time b \<le> Max (set ?times)" by (simp_all only: Min_le Max_ge finite_set)
    with span e b \<open>fe_recipient e = w\<close> \<open>fe_sender e = sender\<close> \<open>e \<in> set funding\<close> show ?thesis
      by (intro exI [of _ e] exI [of _ b]) auto
  qed
  moreover have "sender \<notin> set excluded \<and> map_of (first_buys buys) sender = None"
  proof -
    obtain w e where "(w, e) \<in> set ?sel" using len by (cases ?sel) auto
    then have "funds_buy (first_buys buys) excluded e" "fe_sender e = sender" using ok by (auto simp: group_ok_def)
    then show ?thesis by (auto simp: funds_buy_def split: option.splits)
  qed
  moreover have "3 \<le> length (fm_wallets m)" using len by (simp add: wallets)
  ultimately show ?thesis unfolding match_sound_def src by blast
qed

text \<open>
  A funding match is the coincidence it claims.  Every reported group has at least three distinct
  wallets, each funded by its source, which is neither excluded nor a buyer, in a block before and at most
  an hour before the wallet's first purchase; the fundings lie within fifteen minutes, and so do the
  purchases.
\<close>

theorem preparation_matches_sound:
  "list_all (match_sound buys funding excluded) (snd (preparation_summary buys funding excluded))"
proof -
  have "match_sound buys funding excluded m"
    if m: "m \<in> set (snd (preparation_summary buys funding excluded))" for m
  proof -
    from m obtain sender ws where ws: "(sender, ws) \<in> set (funding_groups (first_buys buys) excluded funding)"
        and "first_match (window_match (first_buys buys) sender ws) (sorted_set (map (\<lambda>(w, e). fe_time e) ws)) = Some m"
      by (auto simp: preparation_summary_def Let_def List.map_filter_def)
    then obtain stop where "window_match (first_buys buys) sender ws stop = Some m" using first_match_Some by fastforce
    with funding_groups_ok [OF ws] show ?thesis using window_match_sound by blast
  qed
  then show ?thesis by (simp add: list_all_iff)
qed

section \<open>A sample position\<close>

definition demo_seed :: provenance where
  "demo_seed = seed_position [\<lparr>cw_address = ''A'', cw_bought = 60, cw_balance = 100, cw_retained = 60\<rparr>] 5 ''h5'' 1000"

definition demo_nodes :: "(string \<times> holding) list" where
  "demo_nodes = [(''A'', \<lparr>hd_balance = 100, hd_known = 60, hd_depth = 0\<rparr>), (''B'', \<lparr>hd_balance = 0, hd_known = 0, hd_depth = 1\<rparr>)]"

definition demo_event :: "int \<Rightarrow> string \<Rightarrow> string \<Rightarrow> int \<Rightarrow> transfer_event" where
  "demo_event i s r a = \<lparr>te_block = 6, te_index = i, te_tx = ''t'', te_sender = s, te_recipient = r, te_amount = a\<rparr>"

definition demo_transfers :: "transfer_event list" where
  "demo_transfers = [demo_event 2 ''B'' ''P'' 60, demo_event 1 ''A'' ''B'' 70, demo_event 1 ''A'' ''B'' 70]"

definition demo_result :: provenance where
  "demo_result = demo_seed\<lparr>pn_nodes := [(''A'', \<lparr>hd_balance = 30, hd_known = 0, hd_depth = 0\<rparr>),
     (''B'', \<lparr>hd_balance = 10, hd_known = 0, hd_depth = 1\<rparr>)], pn_sold := 20, pn_block := 6, pn_block_hash := ''h6''\<rparr>"

lemma demo_replayed:
  "replay_position demo_seed demo_transfers demo_nodes [(''A'', 30), (''B'', 10)] [(''t'', 2)] 6 ''h6'' = Inr demo_result"
  by code_simp

text \<open>A truth behind the sample: 60 of A's 100 tokens are attributed, and A moves 50 of them, B 35.\<close>

definition demo_ledger :: ledger where
  "demo_ledger = \<lparr>lg_balance = (\<lambda>w. if w = ''A'' then 100 else 0), lg_mine = (\<lambda>w. if w = ''A'' then 60 else 0), lg_sold = 0\<rparr>"

lemma demo_truth:
  "true_history [(''t'', 2)] {''A'', ''B''} demo_ledger (once [] (ordered_events demo_transfers))
     (transfer_true [(''t'', 2)] {''A'', ''B''} (demo_event 2 ''B'' ''P'' 60) 45
       (transfer_true [(''t'', 2)] {''A'', ''B''} (demo_event 1 ''A'' ''B'' 70) 50 demo_ledger))"
proof -
  have es: "once [] (ordered_events demo_transfers) = [demo_event 1 ''A'' ''B'' 70, demo_event 2 ''B'' ''P'' 60]"
    by code_simp
  show ?thesis unfolding es
    by (rule true_history.move [where c = 50], simp_all add: demo_event_def demo_ledger_def)
      (rule true_history.move [where c = 45], simp_all add: transfer_true_def true_history.stop)
qed

theorem replay_attribution_sound_witness:
  "below (pn_nodes demo_result, pn_sold demo_result)
     (transfer_true [(''t'', 2)] {''A'', ''B''} (demo_event 2 ''B'' ''P'' 60) 45
       (transfer_true [(''t'', 2)] {''A'', ''B''} (demo_event 1 ''A'' ''B'' 70) 50 demo_ledger))"
proof -
  have dom: "dom (map_of demo_nodes) = {''A'', ''B''}" by (auto simp: demo_nodes_def)
  show ?thesis
    by (rule replay_attribution_sound [OF demo_replayed, unfolded dom, OF demo_truth])
      (auto simp: below_def demo_nodes_def demo_ledger_def demo_seed_def seed_position_def)
qed

theorem replay_conserves_witness:
  "holdings_ok (pn_nodes demo_result) \<and> known_of (pn_nodes demo_result) + pn_sold demo_result \<le> known_of demo_nodes"
  using replay_conserves [OF demo_replayed]
  by (simp add: holdings_ok_def demo_nodes_def demo_transfers_def demo_event_def demo_seed_def seed_position_def)
end
