(* ===== verification/Launch_History.thy ===== *)
theory Launch_History
  imports Prelude
begin

text \<open>
  \<^verbatim>\<open>src/launch_history.py\<close>: one step of the bounded investigation of a pool's launch window.

  The provider's answer and the swap parser are parameters.  A transaction row is given by its first
  signature (empty where it has none) and its block time; a swap by the fields this module reads, absent
  numbers being 0.  The task is the record the module keeps between steps.
\<close>

section \<open>The task\<close>

record owner_row =
  or_bought :: rat
  or_sold :: rat
  or_buys :: nat

record launch_task =
  lt_from :: int
  lt_to :: int
  lt_cursor :: "string option"
  lt_provider :: "string option"
  lt_owners :: "(string \<times> owner_row) list"
  lt_transactions :: nat
  lt_parse_errors :: nat
  lt_unresolved :: nat
  lt_seen :: "string list"
  lt_exhausted :: bool
  lt_status :: string
  lt_reason :: string
  lt_checked_at :: rat

record launch_tx =
  lx_signature :: string
  lx_time :: int

record swap =
  sw_kind :: string
  sw_recipient :: string
  sw_recipient_amount :: rat
  sw_token_amount :: rat
  sw_sale_owner :: string
  sw_sale_amount :: rat

record launch_page =
  lp_provider :: "string option"
  lp_data :: "launch_tx list option"   \<comment> \<open>\<open>None\<close> where it is not a list\<close>
  lp_token :: "string option"

record launch_query =
  lq_limit :: nat
  lq_from :: int
  lq_to :: int
  lq_cursor :: "string option"
  lq_provider :: "string option"

record launch_limits =
  ll_window :: int
  ll_transactions :: nat
  ll_owners :: nat

definition fresh_task :: "int \<Rightarrow> int \<Rightarrow> launch_task" where
  "fresh_task start stop = \<lparr>lt_from = start, lt_to = stop, lt_cursor = None, lt_provider = None, lt_owners = [],
     lt_transactions = 0, lt_parse_errors = 0, lt_unresolved = 0, lt_seen = [], lt_exhausted = False,
     lt_status = [], lt_reason = [], lt_checked_at = 0\<rparr>"

definition resume_task :: "launch_task option \<Rightarrow> int \<Rightarrow> int \<Rightarrow> rat \<Rightarrow> launch_task" where
  "resume_task task start stop now =
     (case task of
        Some t \<Rightarrow> if lt_from t = start \<and> lt_to t = stop then t else fresh_task start stop
      | None \<Rightarrow> fresh_task start stop)\<lparr>lt_checked_at := now, lt_status := ''pending''\<rparr>"

section \<open>Booking the swaps\<close>

definition swap_owner :: "swap \<Rightarrow> string" where
  "swap_owner s = (if sw_kind s = ''buy'' then sw_recipient s else sw_sale_owner s)"

definition bought_amount :: "swap \<Rightarrow> rat" where
  "bought_amount s = max 0 (if sw_recipient_amount s \<noteq> 0 then sw_recipient_amount s else sw_token_amount s)"

definition book_swap :: "swap \<Rightarrow> owner_row \<Rightarrow> owner_row" where
  "book_swap s row =
     (if sw_kind s = ''buy'' then row\<lparr>or_bought := or_bought row + bought_amount s, or_buys := or_buys row + 1\<rparr>
      else if sw_kind s = ''sell'' then row\<lparr>or_sold := or_sold row + max 0 (sw_sale_amount s)\<rparr>
      else row)"

definition owner_of :: "launch_task \<Rightarrow> string \<Rightarrow> owner_row" where
  "owner_of t owner = (case map_of (lt_owners t) owner of
      None \<Rightarrow> \<lparr>or_bought = 0, or_sold = 0, or_buys = 0\<rparr> | Some row \<Rightarrow> row)"

text \<open>
  One counted transaction with its parsed swap: \<open>None\<close> where the owner capacity ends the step.  The
  parser's exceptions are caught, so it answers with an \<open>Inl\<close>.
\<close>

definition book_parsed :: "nat \<Rightarrow> swap option res \<Rightarrow> launch_task \<Rightarrow> launch_task option" where
  "book_parsed max_owners parsed t =
     (case parsed of
        Inl e \<Rightarrow> Some (t\<lparr>lt_parse_errors := lt_parse_errors t + 1\<rparr>)
      | Inr None \<Rightarrow> Some t
      | Inr (Some s) \<Rightarrow>
          (let owner = swap_owner s in
           if owner = [] then Some (if sw_kind s = ''sell'' then t\<lparr>lt_unresolved := lt_unresolved t + 1\<rparr> else t)
           else if map_of (lt_owners t) owner = None \<and> max_owners \<le> length (lt_owners t) then None
           else Some (t\<lparr>lt_owners := AList.update owner (book_swap s (owner_of t owner)) (lt_owners t)\<rparr>)))"

text \<open>The loop over a page: the task, the signatures seen and whether the step ended early.\<close>

fun book_page ::
    "(launch_tx \<Rightarrow> swap option res) \<Rightarrow> nat \<Rightarrow> launch_tx list \<Rightarrow> string list \<Rightarrow> launch_task \<Rightarrow> launch_task \<times> string list \<times> bool" where
  "book_page parser max_owners [] seen t = (t, seen, False)"
| "book_page parser max_owners (tx # txs) seen t =
     (if lx_signature tx = [] \<or> \<not> (lt_from t \<le> lx_time tx \<and> lx_time tx \<le> lt_to t)
      then book_page parser max_owners txs seen (t\<lparr>lt_parse_errors := lt_parse_errors t + 1\<rparr>)
      else if lx_signature tx \<in> set seen then book_page parser max_owners txs seen t
      else (let t1 = t\<lparr>lt_transactions := lt_transactions t + 1\<rparr> in
            case book_parsed max_owners (parser tx) t1 of
              None \<Rightarrow> (t1\<lparr>lt_status := ''bounded_partial'', lt_reason := ''owner_capacity_reached''\<rparr>, lx_signature tx # seen, True)
            | Some t2 \<Rightarrow> book_page parser max_owners txs (lx_signature tx # seen) t2))"

section \<open>One step\<close>

definition launch_end :: "launch_limits \<Rightarrow> int \<Rightarrow> int" where
  "launch_end limits start = start + max 60 (ll_window limits)"

definition launch_request :: "launch_limits \<Rightarrow> launch_task \<Rightarrow> launch_query" where
  "launch_request limits t = \<lparr>lq_limit = min 100 (ll_transactions limits - lt_transactions t), lq_from = lt_from t,
     lq_to = lt_to t, lq_cursor = lt_cursor t, lq_provider = lt_provider t\<rparr>"

text \<open>\<open>task.get("cursor")\<close> counts as absent when it is empty.\<close>

definition given :: "string option \<Rightarrow> bool" where
  "given c \<longleftrightarrow> c \<noteq> None \<and> c \<noteq> Some []"

definition close_page :: "launch_page \<Rightarrow> string list \<Rightarrow> launch_task \<Rightarrow> launch_task" where
  "close_page page seen t = t\<lparr>lt_seen := sorted_set seen, lt_cursor := lp_token page, lt_provider := lp_provider page,
     lt_exhausted := (\<not> given (lp_token page)),
     lt_status := (if given (lp_token page) then ''pending''
                   else if 0 < lt_transactions t \<and> lt_parse_errors t = 0 then ''query_exhausted'' else ''partial'')\<rparr>"

definition book_answer ::
    "(launch_tx \<Rightarrow> swap option res) \<Rightarrow> launch_limits \<Rightarrow> launch_task \<Rightarrow> launch_page \<Rightarrow> launch_task res" where
  "book_answer parser limits t page =
     (if given (lt_cursor t) \<and> lp_provider page \<noteq> lt_provider t
      then Inr (t\<lparr>lt_status := ''partial'', lt_reason := ''provider_cursor_mismatch''\<rparr>)
      else case lp_data page of
          None \<Rightarrow> Inl (ValueError ''launch history returned no transaction array'')
        | Some txs \<Rightarrow>
            (let (t', seen, ended) = book_page parser (ll_owners limits) txs (lt_seen t) t
             in Inr (if ended then t' else close_page page seen t')))"

text \<open>A start of 0 is an unknown creation time: no task.\<close>

definition advance_launch_history ::
    "(launch_query \<Rightarrow> launch_page res) \<Rightarrow> (launch_tx \<Rightarrow> swap option res) \<Rightarrow> launch_limits \<Rightarrow> int \<Rightarrow> rat
      \<Rightarrow> launch_task option \<Rightarrow> launch_task option res" where
  "advance_launch_history fetch parser limits start now task =
     (if start = 0 then Inr None
      else (let t = resume_task task start (launch_end limits start) now in
        if ll_transactions limits \<le> lt_transactions t \<or> ll_owners limits \<le> length (lt_owners t)
        then Inr (Some (t\<lparr>lt_status := ''bounded_partial'', lt_reason := ''investigation_capacity_reached''\<rparr>))
        else bindR (fetch (launch_request limits t)) (\<lambda>page. bindR (book_answer parser limits t page) (\<lambda>t'. Inr (Some t')))))"

section \<open>What a task counts\<close>

text \<open>
  The invariant: the counted transactions are the signatures seen, each once, while there is room for
  owners; purchases and unresolved sales are among them; the capacities hold.
\<close>

definition buys_of :: "(string \<times> owner_row) list \<Rightarrow> nat" where
  "buys_of owners = (\<Sum>(w, row)\<leftarrow>owners. or_buys row)"

definition amounts_ok :: "(string \<times> owner_row) list \<Rightarrow> bool" where
  "amounts_ok owners = list_all (\<lambda>(w, row). 0 \<le> or_bought row \<and> 0 \<le> or_sold row) owners"

definition books_ok :: "nat \<Rightarrow> launch_task \<Rightarrow> bool" where
  "books_ok max_owners t \<longleftrightarrow> distinct (keys (lt_owners t)) \<and> length (lt_owners t) \<le> max_owners \<and>
     amounts_ok (lt_owners t) \<and> buys_of (lt_owners t) + lt_unresolved t \<le> lt_transactions t"

definition launch_ok :: "nat \<Rightarrow> launch_task \<Rightarrow> bool" where
  "launch_ok max_owners t \<longleftrightarrow> books_ok max_owners t \<and> distinct (lt_seen t) \<and> length (lt_seen t) \<le> lt_transactions t \<and>
     (length (lt_owners t) < max_owners \<longrightarrow> lt_transactions t = length (lt_seen t))"

lemma buys_of_update:
  "distinct (keys owners) \<Longrightarrow> buys_of (AList.update w row owners) =
     buys_of owners + or_buys row - (case map_of owners w of None \<Rightarrow> 0 | Some old \<Rightarrow> or_buys old)"
proof (induction owners)
  case Nil
  then show ?case by (simp add: buys_of_def)
next
  case (Cons o' owners)
  have "map_of owners w = Some old \<Longrightarrow> or_buys old \<le> buys_of owners" for old
    unfolding buys_of_def by (rule member_le_sum_list) (auto dest!: map_of_SomeD intro!: rev_image_eqI)
  note le = this
  obtain w' old' where o': "o' = (w', old')" by (cases o')
  show ?case
  proof (cases "map_of owners w")
    case None
    with Cons show ?thesis by (simp add: o' buys_of_def split: if_splits)
  next
    case (Some old)
    with Cons le [OF Some] show ?thesis by (auto simp: o' buys_of_def)
  qed
qed

lemma length_update: "length (AList.update k v d) = (if map_of d k = None then length d + 1 else length d)"
  by (induction d) auto

lemma owner_of_amounts: "amounts_ok (lt_owners t) \<Longrightarrow> 0 \<le> or_bought (owner_of t w) \<and> 0 \<le> or_sold (owner_of t w)"
  by (auto simp: owner_of_def amounts_ok_def list_all_iff split: option.splits dest!: map_of_SomeD)

lemma book_parsed_ok:
  assumes ok: "books_ok max_owners t" and res: "book_parsed max_owners parsed (t\<lparr>lt_transactions := lt_transactions t + 1\<rparr>) = Some t'"
  shows "books_ok max_owners t' \<and> lt_transactions t' = lt_transactions t + 1 \<and> lt_seen t' = lt_seen t \<and>
    lt_from t' = lt_from t \<and> lt_to t' = lt_to t \<and> length (lt_owners t) \<le> length (lt_owners t')"
proof (cases "parsed")
  case (Inl e)
  with ok res show ?thesis by (auto simp: book_parsed_def books_ok_def)
next
  case (Inr found)
  show ?thesis
  proof (cases found)
    case None
    with ok res Inr show ?thesis by (auto simp: book_parsed_def books_ok_def)
  next
    case (Some s)
    show ?thesis
    proof (cases "swap_owner s = []")
      case True
      with ok res Inr Some show ?thesis by (auto simp: book_parsed_def books_ok_def split: if_splits)
    next
      case False
      let ?owner = "swap_owner s" let ?row = "book_swap s (owner_of t (swap_owner s))"
      from res False have room: "map_of (lt_owners t) ?owner \<noteq> None \<or> length (lt_owners t) < max_owners"
        and t': "t' = t\<lparr>lt_transactions := lt_transactions t + 1, lt_owners := AList.update ?owner ?row (lt_owners t)\<rparr>"
        by (auto simp: book_parsed_def Inr Some Let_def owner_of_def split: if_splits)
      have "or_buys ?row \<le> 1 + (case map_of (lt_owners t) ?owner of None \<Rightarrow> 0 | Some old \<Rightarrow> or_buys old)"
        by (auto simp: book_swap_def owner_of_def split: option.splits)
      then have "buys_of (AList.update ?owner ?row (lt_owners t)) \<le> buys_of (lt_owners t) + 1"
        using ok by (simp add: buys_of_update books_ok_def)
      moreover have "amounts_ok (AList.update ?owner ?row (lt_owners t))"
        unfolding amounts_ok_def
      proof (rule list_all_update)
        show "list_all (\<lambda>(w, row). 0 \<le> or_bought row \<and> 0 \<le> or_sold row) (lt_owners t)"
          using ok by (simp add: books_ok_def amounts_ok_def)
        show "case (?owner, ?row) of (w, row) \<Rightarrow> 0 \<le> or_bought row \<and> 0 \<le> or_sold row"
          using ok owner_of_amounts [of t ?owner] by (simp add: books_ok_def book_swap_def bought_amount_def)
      qed
      ultimately show ?thesis using ok room by (auto simp: t' books_ok_def length_update)
    qed
  qed
qed

lemma book_page_ok:
  assumes "book_page parser max_owners txs seen t = (t', seen', ended)" "books_ok max_owners t" "distinct seen"
    and "lt_transactions t = length seen"
  shows "books_ok max_owners t' \<and> distinct seen' \<and> lt_transactions t' = length seen' \<and> lt_seen t' = lt_seen t \<and>
    lt_from t' = lt_from t \<and> lt_to t' = lt_to t \<and> length seen' \<le> length seen + length txs \<and> set seen \<subseteq> set seen' \<and>
    length seen \<le> length seen' \<and>
    (ended \<longrightarrow> max_owners \<le> length (lt_owners t'))"
  using assms
proof (induction txs arbitrary: seen t)
  case Nil
  then show ?case by simp
next
  case (Cons tx txs)
  show ?case
  proof (cases "lx_signature tx = [] \<or> \<not> (lt_from t \<le> lx_time tx \<and> lx_time tx \<le> lt_to t)")
    case True
    let ?t = "t\<lparr>lt_parse_errors := lt_parse_errors t + 1\<rparr>"
    from True Cons.prems(1) have "book_page parser max_owners txs seen ?t = (t', seen', ended)" by simp
    from Cons.IH [OF this] Cons.prems show ?thesis by (auto simp: books_ok_def)
  next
    case valid: False
    show ?thesis
    proof (cases "lx_signature tx \<in> set seen")
      case True
      with valid Cons.prems(1) have "book_page parser max_owners txs seen t = (t', seen', ended)" by auto
      from Cons.IH [OF this] Cons.prems show ?thesis by auto
    next
      case fresh: False
      let ?t1 = "t\<lparr>lt_transactions := lt_transactions t + 1\<rparr>"
      show ?thesis
      proof (cases "book_parsed max_owners (parser tx) ?t1")
        case None
        then have "max_owners \<le> length (lt_owners t)"
          by (auto simp: book_parsed_def Let_def split: sum.splits option.splits if_splits)
        with None valid fresh Cons.prems show ?thesis by (auto simp: books_ok_def)
      next
        case (Some t2)
        note step = book_parsed_ok [OF Cons.prems(2) Some]
        from Some valid fresh Cons.prems(1)
        have "book_page parser max_owners txs (lx_signature tx # seen) t2 = (t', seen', ended)" by auto
        from Cons.IH [OF this] step fresh Cons.prems show ?thesis by auto
      qed
    qed
  qed
qed

lemma resume_task_ok:
  assumes "\<And>t. task = Some t \<Longrightarrow> launch_ok (ll_owners limits) t"
  shows "launch_ok (ll_owners limits) (resume_task task start stop now)"
proof (cases task)
  case None
  then show ?thesis by (simp add: resume_task_def fresh_task_def launch_ok_def books_ok_def amounts_ok_def buys_of_def)
next
  case (Some t)
  with assms have "launch_ok (ll_owners limits) t" by simp
  then show ?thesis using Some
    by (simp add: resume_task_def fresh_task_def launch_ok_def books_ok_def amounts_ok_def buys_of_def)
qed

lemma book_answer_ok:
  assumes ok: "launch_ok (ll_owners limits) t" and room: "length (lt_owners t) < ll_owners limits"
    and res: "book_answer parser limits t page = Inr t'"
  shows "launch_ok (ll_owners limits) t' \<and>
    lt_transactions t' \<le> lt_transactions t + (case lp_data page of None \<Rightarrow> 0 | Some txs \<Rightarrow> length txs)"
proof (cases "given (lt_cursor t) \<and> lp_provider page \<noteq> lt_provider t")
  case True
  with ok res show ?thesis by (auto simp: book_answer_def launch_ok_def books_ok_def)
next
  case False
  with res obtain txs where txs: "lp_data page = Some txs" by (auto simp: book_answer_def split: option.splits)
  obtain t1 seen ended where page: "book_page parser (ll_owners limits) txs (lt_seen t) t = (t1, seen, ended)"
    by (metis prod.exhaust)
  from ok room have "books_ok (ll_owners limits) t" "distinct (lt_seen t)" "lt_transactions t = length (lt_seen t)"
    by (auto simp: launch_ok_def)
  note booked = book_page_ok [OF page this]
  have t': "t' = (if ended then t1 else close_page page seen t1)"
    using res False by (auto simp: book_answer_def txs page)
  have "length (sorted_set seen) = length seen"
    using booked distinct_card [of seen] distinct_card [of "sorted_set seen"] by simp
  with booked ok show ?thesis
    by (auto simp: t' txs launch_ok_def close_page_def books_ok_def)
qed

text \<open>
  C36: The investigation counts each transaction once.  Every step keeps the task's books: as long as there
  is room for owners the counted transactions are exactly the distinct signatures seen, the purchases and
  unresolved sales are among them, the owners stay within their capacity and no amount is negative; when
  the provider serves no more rows than asked for, the transactions stay within theirs.
\<close>

theorem launch_step_keeps_books:
  assumes "advance_launch_history fetch parser limits start now task = Inr (Some t')"
    and "\<And>t. task = Some t \<Longrightarrow> launch_ok (ll_owners limits) t"
  shows "launch_ok (ll_owners limits) t' \<and>
    ((\<forall>q page txs. fetch q = Inr page \<longrightarrow> lp_data page = Some txs \<longrightarrow> length txs \<le> lq_limit q) \<longrightarrow>
     lt_transactions t' \<le> max (ll_transactions limits) (case task of None \<Rightarrow> 0 | Some t \<Rightarrow> lt_transactions t))"
proof -
  let ?t = "resume_task task start (launch_end limits start) now"
  have ok: "launch_ok (ll_owners limits) ?t" using assms(2) by (rule resume_task_ok)
  have old: "lt_transactions ?t \<le> (case task of None \<Rightarrow> 0 | Some t \<Rightarrow> lt_transactions t)"
    by (simp add: resume_task_def fresh_task_def split: option.splits)
  show ?thesis
  proof (cases "ll_transactions limits \<le> lt_transactions ?t \<or> ll_owners limits \<le> length (lt_owners ?t)")
    case True
    then have "t' = ?t\<lparr>lt_status := ''bounded_partial'', lt_reason := ''investigation_capacity_reached''\<rparr>"
      using assms(1) by (auto simp: advance_launch_history_def Let_def split: if_splits)
    with ok old show ?thesis by (auto simp: launch_ok_def books_ok_def)
  next
    case False
    then obtain page where page: "fetch (launch_request limits ?t) = Inr page"
        and res: "book_answer parser limits ?t page = Inr t'"
      using assms(1) by (auto simp: advance_launch_history_def Let_def bindR_eq_Inr split: if_splits)
    have room: "length (lt_owners ?t) < ll_owners limits" using False by simp
    note booked = book_answer_ok [OF ok room res]
    have "lt_transactions t' \<le> ll_transactions limits"
      if "\<forall>q page txs. fetch q = Inr page \<longrightarrow> lp_data page = Some txs \<longrightarrow> length txs \<le> lq_limit q"
      using booked that page False by (cases "lp_data page") (force simp: launch_request_def)+
    with booked show ?thesis by (auto simp: max_def)
  qed
qed

text \<open>
  A page of another provider books nothing.  When a step continues at a cursor and another provider
  answers, the counts, owners, signatures and cursor stay as they were and the task is marked partial.
\<close>

theorem launch_cursor_pinned:
  assumes "advance_launch_history fetch parser limits start now (Some t) = Inr (Some t')"
    and "lt_from t = start" "lt_to t = launch_end limits start" "given (lt_cursor t)"
    and "\<And>q page. fetch q = Inr page \<Longrightarrow> lp_provider page \<noteq> lt_provider t"
  shows "\<exists>status reason. t' = t\<lparr>lt_checked_at := now, lt_status := status, lt_reason := reason\<rparr> \<and>
    status \<in> {''partial'', ''bounded_partial''}"
proof -
  let ?t = "resume_task (Some t) start (launch_end limits start) now"
  have t: "?t = t\<lparr>lt_checked_at := now, lt_status := ''pending''\<rparr>" using assms(2,3) by (simp add: resume_task_def)
  show ?thesis
  proof (cases "ll_transactions limits \<le> lt_transactions ?t \<or> ll_owners limits \<le> length (lt_owners ?t)")
    case True
    then have "t' = ?t\<lparr>lt_status := ''bounded_partial'', lt_reason := ''investigation_capacity_reached''\<rparr>"
      using assms(1) by (auto simp: advance_launch_history_def Let_def split: if_splits)
    then show ?thesis unfolding t by (intro exI [of _ "''bounded_partial''"] exI) auto
  next
    case False
    then obtain page where page: "fetch (launch_request limits ?t) = Inr page"
        and res: "book_answer parser limits ?t page = Inr t'"
      using assms(1) by (auto simp: advance_launch_history_def Let_def bindR_eq_Inr split: if_splits)
    have "given (lt_cursor ?t) \<and> lp_provider page \<noteq> lt_provider ?t" using assms(4) assms(5) [OF page] by (simp add: t)
    with res have "t' = ?t\<lparr>lt_status := ''partial'', lt_reason := ''provider_cursor_mismatch''\<rparr>"
      by (simp add: book_answer_def)
    then show ?thesis unfolding t by (intro exI [of _ "''partial''"] exI) auto
  qed
qed

section \<open>A sample launch\<close>

definition demo_limits :: launch_limits where
  "demo_limits = \<lparr>ll_window = 21600, ll_transactions = 2000, ll_owners = 300\<rparr>"

definition demo_fetch :: "launch_query \<Rightarrow> launch_page res" where
  "demo_fetch q = Inr \<lparr>lp_provider = Some ''helius'',
     lp_data = Some (take (lq_limit q) [\<lparr>lx_signature = ''s1'', lx_time = 1000\<rparr>, \<lparr>lx_signature = ''s1'', lx_time = 1000\<rparr>, \<lparr>lx_signature = ''s2'', lx_time = 1005\<rparr>]),
     lp_token = Some ''c''\<rparr>"

definition demo_parser :: "launch_tx \<Rightarrow> swap option res" where
  "demo_parser tx = Inr (Some \<lparr>sw_kind = ''buy'', sw_recipient = ''W'', sw_recipient_amount = 5, sw_token_amount = 9,
     sw_sale_owner = [], sw_sale_amount = 0\<rparr>)"

definition demo_task :: launch_task where
  "demo_task = (fresh_task 1000 22600)\<lparr>lt_checked_at := 7, lt_status := ''pending'', lt_transactions := 2, lt_seen := [''s1'', ''s2''],
     lt_owners := [(''W'', \<lparr>or_bought = 10, or_sold = 0, or_buys = 2\<rparr>)], lt_cursor := Some ''c'', lt_provider := Some ''helius''\<rparr>"

lemma demo_advance: "advance_launch_history demo_fetch demo_parser demo_limits 1000 7 None = Inr (Some demo_task)"
  by code_simp

theorem launch_step_keeps_books_witness:
  "launch_ok 300 demo_task \<and> lt_transactions demo_task = 2"
  using launch_step_keeps_books [OF demo_advance] by (simp add: demo_limits_def demo_task_def)

definition other_fetch :: "launch_query \<Rightarrow> launch_page res" where
  "other_fetch q = Inr \<lparr>lp_provider = Some ''alchemy'', lp_data = Some [], lp_token = None\<rparr>"

theorem launch_cursor_pinned_witness:
  "\<exists>status reason. advance_launch_history other_fetch demo_parser demo_limits 1000 8 (Some demo_task) =
     Inr (Some (demo_task\<lparr>lt_checked_at := 8, lt_status := status, lt_reason := reason\<rparr>)) \<and> status \<in> {''partial'', ''bounded_partial''}"
proof -
  obtain t' where t': "advance_launch_history other_fetch demo_parser demo_limits 1000 8 (Some demo_task) = Inr (Some t')"
  proof
    show "advance_launch_history other_fetch demo_parser demo_limits 1000 8 (Some demo_task) =
        Inr (Some (demo_task\<lparr>lt_checked_at := 8, lt_status := ''partial'', lt_reason := ''provider_cursor_mismatch''\<rparr>))"
      by code_simp
  qed
  have "\<exists>status reason. t' = demo_task\<lparr>lt_checked_at := 8, lt_status := status, lt_reason := reason\<rparr> \<and>
      status \<in> {''partial'', ''bounded_partial''}"
    by (rule launch_cursor_pinned [OF t'])
      (simp_all add: demo_task_def fresh_task_def launch_end_def demo_limits_def given_def other_fetch_def)
  with t' show ?thesis by blast
qed

end
