(* ===== verification/Wallet_Links.thy ===== *)
theory Wallet_Links
  imports Rpc_Routing
begin

text \<open>
  \<^verbatim>\<open>src/wallet_links.py\<close>: when a group of wallets is linked directly and when the shared address only supports
  the evidence.

  Labels, hints and addresses are texts (empty where absent); amounts are exact rationals; lower-casing is
  that of ASCII letters.
\<close>

section \<open>Kinds of a source\<close>

definition SERVICE_KINDS :: "string list" where
  "SERVICE_KINDS = [''service'', ''cex'', ''exchange'', ''bridge'', ''router'', ''relay'', ''lifi'',
     ''terminal'', ''executor'', ''pool'', ''burn'', ''program'']"

definition PRIVATE_KINDS :: "string list" where
  "PRIVATE_KINDS = [''private'', ''wallet'', ''eoa'']"

text \<open>A label is a text, or a dictionary of which the kind counts.\<close>

datatype source_label = PlainLabel string | KindLabel "string option"

record link_config =
  lk_labels :: "(string \<times> source_label) list"
  lk_coordinated :: "string list"     \<comment> \<open>\<open>coordinated_activity_infrastructure_addresses\<close>\<close>
  lk_supply :: "string list"          \<comment> \<open>\<open>supply_integrity_infrastructure_addresses\<close>\<close>
  lk_min_funding :: rat

fun label_text :: "source_label option \<Rightarrow> string" where
  "label_text None = []"
| "label_text (Some (PlainLabel s)) = s"
| "label_text (Some (KindLabel None)) = []"
| "label_text (Some (KindLabel (Some s))) = s"

definition kind_text :: "string \<Rightarrow> string" where
  "kind_text s = filter (\<lambda>c. c \<noteq> CHR ''.'') (lower (py_strip s))"

definition source_kind :: "string \<Rightarrow> link_config \<Rightarrow> string \<Rightarrow> string" where
  "source_kind address config hint =
     (if address \<in> set (lk_coordinated config) \<union> set (lk_supply config) then ''service''
      else (let label = label_text (map_of (lk_labels config) address) in
        kind_text (if label \<noteq> [] then label else if hint \<noteq> [] then hint else ''unknown'')))"

section \<open>Links\<close>

record wallet_group =
  wg_members :: "string list"
  wg_key :: string
  wg_source :: string
  wg_executor :: string
  wg_source_kind :: string
  wg_transfer_verified :: bool
  wg_link_verified :: bool

record wallet_profile =
  wp_source_kind :: string
  wp_funding_source :: string
  wp_funding_verified :: bool
  wp_funding :: rat
  wp_buy :: rat

record wallet_link =
  wl_family :: string
  wl_key :: string
  wl_members :: "string list"
  wl_wallets :: nat
  wl_source_kind :: string
  wl_transfer_verified :: bool
  wl_supporting_only :: bool

definition no_profile :: wallet_profile where
  "no_profile = \<lparr>wp_source_kind = [], wp_funding_source = [], wp_funding_verified = False, wp_funding = 0, wp_buy = 0\<rparr>"

definition profile_of :: "(string \<times> wallet_profile) list \<Rightarrow> string \<Rightarrow> wallet_profile" where
  "profile_of profiles owner = (case map_of profiles owner of None \<Rightarrow> no_profile | Some p \<Rightarrow> p)"

definition group_key :: "wallet_group \<Rightarrow> string" where
  "group_key g = (if wg_key g \<noteq> [] then wg_key g else if wg_source g \<noteq> [] then wg_source g else wg_executor g)"

definition group_members :: "wallet_group \<Rightarrow> string list" where
  "group_members g = sorted_set (filter (\<lambda>owner. owner \<noteq> []) (wg_members g))"

definition funded_from :: "link_config \<Rightarrow> string \<Rightarrow> wallet_profile \<Rightarrow> bool" where
  "funded_from config key p \<longleftrightarrow> wp_funding_source p = key \<and> wp_funding_verified p \<and>
     wp_funding p \<ge> lk_min_funding config \<and> wp_funding p \<ge> wp_buy p / 10"

definition link_kind :: "wallet_group \<Rightarrow> link_config \<Rightarrow> (string \<times> wallet_profile) list \<Rightarrow> string" where
  "link_kind g config profiles =
     (if profiles \<noteq> [] \<and> list_ex (\<lambda>owner. source_kind (group_key g) config (wp_source_kind (profile_of profiles owner))
           \<in> set SERVICE_KINDS) (group_members g)
      then ''service'' else source_kind (group_key g) config (wg_source_kind g))"

definition link_verified :: "wallet_group \<Rightarrow> string \<Rightarrow> link_config \<Rightarrow> (string \<times> wallet_profile) list \<Rightarrow> bool" where
  "link_verified g family config profiles =
     (if family = ''common_funder'' \<and> \<not> wg_transfer_verified g \<and> profiles \<noteq> []
      then group_members g \<noteq> [] \<and> list_all (\<lambda>owner. funded_from config (group_key g) (profile_of profiles owner)) (group_members g)
      else wg_transfer_verified g)"

definition link_direct :: "wallet_group \<Rightarrow> string \<Rightarrow> link_config \<Rightarrow> (string \<times> wallet_profile) list \<Rightarrow> bool" where
  "link_direct g family config profiles =
     (if family = ''common_executor'' then link_kind g config profiles \<in> set PRIVATE_KINDS \<and> wg_link_verified g
      else family = ''common_funder'' \<and> link_verified g family config profiles \<and> group_key g \<noteq> [] \<and>
        2 \<le> length (group_members g) \<and> link_kind g config profiles \<notin> set SERVICE_KINDS)"

definition normalize_link :: "wallet_group \<Rightarrow> string \<Rightarrow> link_config \<Rightarrow> (string \<times> wallet_profile) list \<Rightarrow> wallet_link" where
  "normalize_link g family config profiles =
     \<lparr>wl_family = family, wl_key = group_key g, wl_members = group_members g, wl_wallets = length (group_members g),
      wl_source_kind = link_kind g config profiles, wl_transfer_verified = link_verified g family config profiles,
      wl_supporting_only = (\<not> link_direct g family config profiles)\<rparr>"

definition infrastructure_sources :: "link_config \<Rightarrow> string set" where
  "infrastructure_sources config = set (lk_coordinated config) \<union> set (lk_supply config) \<union>
     set (filter (\<lambda>address. source_kind address config [] \<in> set SERVICE_KINDS) (map fst (lk_labels config)))"

section \<open>Infrastructure never links wallets\<close>

lemma service_not_private: "k \<in> set SERVICE_KINDS \<Longrightarrow> k \<notin> set PRIVATE_KINDS"
  by (auto simp: SERVICE_KINDS_def PRIVATE_KINDS_def)

lemma unknown_not_service: "kind_text ''unknown'' \<notin> set SERVICE_KINDS"
  by code_simp

lemma infrastructure_kind:
  assumes "address \<in> infrastructure_sources config"
  shows "source_kind address config hint \<in> set SERVICE_KINDS"
proof (cases "address \<in> set (lk_coordinated config) \<union> set (lk_supply config)")
  case True
  then show ?thesis by (simp add: source_kind_def SERVICE_KINDS_def)
next
  case False
  with assms have "source_kind address config [] \<in> set SERVICE_KINDS" by (auto simp: infrastructure_sources_def)
  with False unknown_not_service show ?thesis by (auto simp: source_kind_def Let_def split: if_splits)
qed

text \<open>
  C37: Infrastructure never links wallets.  A group whose shared address is infrastructure by list or by
  label is supporting evidence only, whatever its own proof flags, hints and profiles say.
\<close>

theorem infrastructure_never_direct:
  assumes "group_key g \<in> infrastructure_sources config"
  shows "wl_supporting_only (normalize_link g family config profiles)"
proof -
  have "link_kind g config profiles \<in> set SERVICE_KINDS"
    using infrastructure_kind [OF assms] by (simp add: link_kind_def SERVICE_KINDS_def)
  then show ?thesis using service_not_private by (auto simp: normalize_link_def link_direct_def)
qed

text \<open>
  What a direct link rests on.  A direct link is either a verified common funder of at least two
  distinct wallets -- by the group's own proof, or because every member's profile records a verified
  funding from it of the minimum and of a tenth of the purchase -- or a private executor with a verified
  link; it is never of a service kind.
\<close>

theorem direct_link_sound:
  assumes "\<not> wl_supporting_only (normalize_link g family config profiles)"
  shows "wl_source_kind (normalize_link g family config profiles) \<notin> set SERVICE_KINDS \<and>
    (family = ''common_executor'' \<and> wg_link_verified g \<or>
     family = ''common_funder'' \<and> group_key g \<noteq> [] \<and> 2 \<le> card (set (wl_members (normalize_link g family config profiles))) \<and>
       (wg_transfer_verified g \<or>
        (\<forall>owner \<in> set (wl_members (normalize_link g family config profiles)).
           funded_from config (group_key g) (profile_of profiles owner))))"
proof -
  have dist: "card (set (group_members g)) = length (group_members g)"
    by (simp add: group_members_def distinct_card del: set_sorted_set)
  from assms have direct: "link_direct g family config profiles" by (simp add: normalize_link_def)
  show ?thesis
  proof (cases "family = ''common_executor''")
    case True
    with direct show ?thesis using service_not_private by (auto simp: link_direct_def normalize_link_def)
  next
    case False
    with direct show ?thesis
      by (auto simp: link_direct_def normalize_link_def link_verified_def list_all_iff dist split: if_splits)
  qed
qed

section \<open>A sample group\<close>

definition demo_config :: link_config where
  "demo_config = \<lparr>lk_labels = [(''X'', KindLabel (Some '' C.E.X''))], lk_coordinated = [], lk_supply = [''R''], lk_min_funding = 1 / 20\<rparr>"

definition demo_group :: "string \<Rightarrow> wallet_group" where
  "demo_group key = \<lparr>wg_members = [''b'', ''a'', [], ''b''], wg_key = key, wg_source = [], wg_executor = [], wg_source_kind = ''eoa'',
     wg_transfer_verified = False, wg_link_verified = True\<rparr>"

definition demo_profiles :: "(string \<times> wallet_profile) list" where
  "demo_profiles = map (\<lambda>w. (w, \<lparr>wp_source_kind = ''eoa'', wp_funding_source = ''F'', wp_funding_verified = True, wp_funding = 1, wp_buy = 5\<rparr>))
     [''a'', ''b'']"

theorem infrastructure_never_direct_witness:
  "wl_supporting_only (normalize_link (demo_group ''X'') ''common_executor'' demo_config demo_profiles)"
proof (rule infrastructure_never_direct)
  show "group_key (demo_group ''X'') \<in> infrastructure_sources demo_config" by code_simp
qed

theorem direct_link_sound_witness:
  "wl_members (normalize_link (demo_group ''F'') ''common_funder'' demo_config demo_profiles) = [''a'', ''b''] \<and>
   funded_from demo_config ''F'' (profile_of demo_profiles ''a'')"
proof -
  have "\<not> wl_supporting_only (normalize_link (demo_group ''F'') ''common_funder'' demo_config demo_profiles)" by code_simp
  note direct_link_sound [OF this]
  moreover have "wl_members (normalize_link (demo_group ''F'') ''common_funder'' demo_config demo_profiles) = [''a'', ''b'']"
      "group_key (demo_group ''F'') = ''F''" "\<not> wg_transfer_verified (demo_group ''F'')" by code_simp+
  ultimately show ?thesis by simp
qed

end
