(* ===== verification/Position_Parse.thy ===== *)
theory Position_Parse
  imports Prelude
begin

text \<open>
  \<^verbatim>\<open>src/solana_position_lineage.py\<close>, \<open>parse_position_transaction\<close> and \<open>_sale_legs\<close>: from one
  jsonParsed transaction to exact transfers and account balances of the transaction.

  The input is a Python value of any shape.  The result is the record \<open>batch\<close>: the fields are the
  keys of the returned dictionary, and an amount the code keeps as a decimal string (and always
  reads back with \<open>int\<close>) is that integer.
\<close>

named_theorems parse_simps \<open>definitions of the transaction parser\<close>

section \<open>Exact values\<close>

definition TOKEN_PROGRAMS :: "string list" where
  "TOKEN_PROGRAMS =
     [''TokenkegQfeZyiNwAJbNbGKPFXCWuBvf9Ss623VQ5DA'', ''TokenzQdBNbLqP5VEhdkAS6EPFLC1PHnBqCXEpPxuEb'']"

definition raw_error :: pyexc where
  "raw_error = ValueError ''Raw amounts and order fields must be non-negative integers''"

text \<open>\<open>_raw\<close>: a non-negative integer, or its ASCII decimal string.\<close>

fun raw_of :: "pyval \<Rightarrow> int res" where
  "raw_of (PInt i) = (if i \<ge> 0 then Inr i else Inl raw_error)"
| "raw_of (PStr s) = (if isdigit s then Inr (int (int_of_dec s)) else Inl raw_error)"
| "raw_of _ = Inl raw_error"

lemma raw_of_nonneg: "raw_of v = Inr n \<Longrightarrow> 0 \<le> n"
  by (cases v) (auto split: if_splits)

lemma raw_of_Inl: "raw_of v = Inl e \<Longrightarrow> e = raw_error"
  by (cases v) (auto split: if_splits)

text \<open>\<open>_address\<close>: a non-empty string without surrounding white space.\<close>

fun address :: "pyval \<Rightarrow> string option" where
  "address (PStr s) = (if s \<noteq> [] \<and> py_strip s = s then Some s else None)"
| "address _ = None"

lemma address_Some: "address v = Some s \<longleftrightarrow> v = PStr s \<and> s \<noteq> [] \<and> py_strip s = s"
  by (cases v) auto

definition token_instruction :: "pyval \<Rightarrow> bool" where
  "token_instruction entry \<longleftrightarrow>
     (case getd entry ''program'' of PStr s \<Rightarrow> s = ''spl-token'' \<or> s = ''spl-token-2022'' | _ \<Rightarrow> False) \<or>
     (case getd entry ''programId'' of PStr s \<Rightarrow> s \<in> set TOKEN_PROGRAMS | _ \<Rightarrow> False)"

section \<open>The batch\<close>

record account_row =
  ar_owner :: "string option"
  ar_mint :: "string option"
  ar_decimals :: "int option"
  ar_before :: "int option"
  ar_after :: "int option"
  ar_identity :: bool        \<comment> \<open>\<open>identity_resolved\<close>\<close>
  ar_complete :: bool

record leg =
  lg_outer :: nat
  lg_inner :: nat
  lg_src :: string
  lg_dst :: string
  lg_src_owner :: "string option"
  lg_dst_owner :: "string option"
  lg_mint :: string
  lg_amount :: int
  lg_sale :: bool            \<comment> \<open>\<open>kind\<close> is \<open>verified_sale\<close> rather than \<open>transfer\<close>\<close>

record batch =
  b_version :: int
  b_mint :: string
  b_signature :: "string option"
  b_slot :: "int option"
  b_index :: pyval           \<comment> \<open>\<open>transaction_index\<close> as given when it could not be read\<close>
  b_status :: string
  b_accounts :: "(string \<times> account_row) list"
  b_transfers :: "leg list"
  b_issues :: "string list"

definition lineage_version :: int where
  "lineage_version = 1"

definition empty_batch :: "string \<Rightarrow> pyval \<Rightarrow> batch" where
  "empty_batch mint index = \<lparr>b_version = lineage_version, b_mint = mint, b_signature = None, b_slot = None,
     b_index = index, b_status = ''unavailable'', b_accounts = [], b_transfers = [], b_issues = []\<rparr>"

section \<open>Balance snapshots\<close>

type_synonym identity = "string \<times> string \<times> int" \<comment> \<open>owner, mint, decimals\<close>
type_synonym snapshot = "(string \<times> (identity \<times> int) option) list"

text \<open>One row of \<open>preTokenBalances\<close>; \<open>None\<close> is any of the exceptions the loop catches.\<close>

definition token_amount :: "pyval \<Rightarrow> string \<Rightarrow> int res" where
  "token_amount row k =
     bindR (dget row ''uiTokenAmount'') (\<lambda>u. bindR (dget (py_or u (PDict [])) k) raw_of)"

definition snapshot_row :: "pyval list \<Rightarrow> pyval \<Rightarrow> (string \<times> identity \<times> int) option" where
  "snapshot_row ks row =
     (case bindR (dget row ''accountIndex'') (\<lambda>i. bindR (raw_of i) (\<lambda>n. bindR (list_item ks (nat n)) (\<lambda>account.
             bindR (token_amount row ''amount'') (\<lambda>amount. bindR (token_amount row ''decimals'') (\<lambda>decimals.
               Inr (account, amount, decimals)))))) of
        Inl e \<Rightarrow> None
      | Inr (account, amount, decimals) \<Rightarrow>
          (case (address account, address (getd row ''owner''), address (getd row ''mint'')) of
             (Some a, Some owner, Some mint) \<Rightarrow>
               if decimals > 255 then None else Some (a, (owner, mint, decimals), amount)
           | _ \<Rightarrow> None))"

definition snapshot_add :: "pyval list \<Rightarrow> snapshot \<times> string list \<Rightarrow> pyval \<Rightarrow> snapshot \<times> string list" where
  "snapshot_add ks st row =
     (case st of (snap, issues) \<Rightarrow>
       (case snapshot_row ks row of
          None \<Rightarrow> (snap, insert_new ''unresolved_token_account'' issues)
        | Some (a, ident, amount) \<Rightarrow>
            if a \<in> set (map fst snap) then (AList.update a None snap, insert_new ''duplicate_token_account'' issues)
            else (AList.update a (Some (ident, amount)) snap, issues)))"

definition snapshot_side :: "pyval list \<Rightarrow> pyval \<Rightarrow> string list \<Rightarrow> snapshot \<times> string list" where
  "snapshot_side ks field issues =
     foldl (snapshot_add ks) ([], add_if (\<not> is_list field) ''missing_token_balances'' issues) (as_list field)"

definition snapshot_at :: "snapshot \<Rightarrow> string \<Rightarrow> (identity \<times> int) option" where
  "snapshot_at snap a = Option.bind (map_of snap a) (\<lambda>x. x)"

definition merge_row :: "(identity \<times> int) option \<Rightarrow> (identity \<times> int) option \<Rightarrow> account_row" where
  "merge_row before after =
     (let ident = (case before of Some (i, _) \<Rightarrow> Some i | None \<Rightarrow> (case after of Some (i, _) \<Rightarrow> Some i | None \<Rightarrow> None));
          complete = (case (before, after) of (Some (i, _), Some (j, _)) \<Rightarrow> i = j | _ \<Rightarrow> False)
      in \<lparr>ar_owner = map_option fst ident, ar_mint = map_option (fst \<circ> snd) ident,
          ar_decimals = map_option (snd \<circ> snd) ident, ar_before = map_option snd before,
          ar_after = map_option snd after, ar_identity = complete, ar_complete = complete\<rparr>)"

definition merge_accounts :: "snapshot \<Rightarrow> snapshot \<Rightarrow> (string \<times> account_row) list" where
  "merge_accounts pre post =
     map (\<lambda>a. (a, merge_row (snapshot_at pre a) (snapshot_at post a))) (sorted_set (map fst pre @ map fst post))"

section \<open>Instructions\<close>

type_synonym groups = "(nat \<times> pyval list) list"

text \<open>\<open>innerInstructions\<close> by the index of their outer instruction.\<close>

definition group_add :: "nat \<Rightarrow> groups \<times> string list \<Rightarrow> pyval \<Rightarrow> groups \<times> string list" where
  "group_add n st g =
     (case st of (groups, issues) \<Rightarrow>
       (case raw_of (getd g ''index'') of
          Inl e \<Rightarrow> (groups, insert_new ''invalid_instruction_order'' issues)
        | Inr i \<Rightarrow>
            if nat i \<ge> n \<or> nat i \<in> set (map fst groups)
            then (groups, insert_new ''invalid_instruction_order'' issues)
            else (groups @ [(nat i, as_list (py_or (getd g ''instructions'') (PList [])))], issues)))"

definition group_items :: "groups \<Rightarrow> nat \<Rightarrow> pyval list" where
  "group_items groups i = (case map_of groups i of None \<Rightarrow> [] | Some xs \<Rightarrow> xs)"

datatype instruction_result = Ignored | Unsupported | Transfer leg

text \<open>The body of the loop's \<open>try\<close>: exact transfer legs, anything else raises.\<close>

definition transfer_amount :: "pyval \<Rightarrow> int res" where
  "transfer_amount info =
     bindR (dget (py_or (getd info ''tokenAmount'') (PDict [])) ''amount'') (\<lambda>d.
       bindR (dget_default info ''amount'' d) raw_of)"

definition transfer_leg ::
    "(string \<times> account_row) list \<Rightarrow> nat \<Rightarrow> nat \<Rightarrow> bool \<Rightarrow> pyval \<Rightarrow> leg res" where
  "transfer_leg accounts outer inner checked info =
     (case (is_dict info, address (getd info ''source''), address (getd info ''destination'')) of
        (True, Some src, Some dst) \<Rightarrow>
          bindR (transfer_amount info) (\<lambda>amount.
            (case (map_of accounts src, map_of accounts dst) of
               (Some s, Some d) \<Rightarrow>
                 (case ar_mint s of
                    None \<Rightarrow> Inl (ValueError ''Unresolved transfer mint'')
                  | Some mint \<Rightarrow>
                      if ar_mint d \<noteq> Some mint then Inl (ValueError ''Unresolved transfer mint'')
                      else if has_key info ''mint'' \<and> getd info ''mint'' \<noteq> PStr mint
                        then Inl (ValueError ''Transfer mint mismatch'')
                      else bindR (if checked
                             then bindR (dget (py_or (getd info ''tokenAmount'') (PDict [])) ''decimals'') raw_of
                             else Inr (case ar_decimals s of None \<Rightarrow> 0 | Some k \<Rightarrow> k)) (\<lambda>k.
                        if checked \<and> ar_decimals s \<noteq> Some k then Inl (ValueError ''Transfer decimals mismatch'')
                        else if ar_decimals s \<noteq> ar_decimals d then Inl (ValueError ''Account decimals mismatch'')
                        else Inr \<lparr>lg_outer = outer, lg_inner = inner, lg_src = src, lg_dst = dst,
                               lg_src_owner = ar_owner s, lg_dst_owner = ar_owner d, lg_mint = mint,
                               lg_amount = amount, lg_sale = False\<rparr>))
             | _ \<Rightarrow> Inl (ValueError ''Unresolved transfer mint'')))
      | _ \<Rightarrow> Inl (ValueError ''Malformed transfer accounts''))"

definition read_instruction ::
    "(string \<times> account_row) list \<Rightarrow> nat \<Rightarrow> nat \<Rightarrow> pyval \<Rightarrow> instruction_result" where
  "read_instruction accounts outer inner entry =
     (if \<not> is_dict entry then Unsupported
      else if \<not> token_instruction entry then Ignored
      else if getd entry ''programId'' \<noteq> PNone \<and>
              (case getd entry ''programId'' of PStr s \<Rightarrow> s \<notin> set TOKEN_PROGRAMS | _ \<Rightarrow> True) then Unsupported
      else (let parsed = py_or (getd entry ''parsed'') (PDict []) in
        if \<not> is_dict parsed then Unsupported
        else if getd parsed ''type'' \<noteq> PStr ''transfer'' \<and> getd parsed ''type'' \<noteq> PStr ''transferChecked''
        then Unsupported
        else (case transfer_leg accounts outer inner (getd parsed ''type'' = PStr ''transferChecked'')
                     (py_or (getd parsed ''info'') (PDict [])) of
            Inl e \<Rightarrow> Unsupported
          | Inr l \<Rightarrow> if lg_amount l \<noteq> 0 then Transfer l else Ignored)))"

definition read_instructions ::
    "(string \<times> account_row) list \<Rightarrow> pyval list \<Rightarrow> groups \<Rightarrow> instruction_result list" where
  "read_instructions accounts outer groups =
     concat (map (\<lambda>(i, ins). map (\<lambda>(j, entry). read_instruction accounts i j entry)
                               (indexed (ins # group_items groups i))) (indexed outer))"

definition legs_of :: "instruction_result list \<Rightarrow> leg list" where
  "legs_of rs = concat (map (\<lambda>r. case r of Transfer l \<Rightarrow> [l] | _ \<Rightarrow> []) rs)"

section \<open>Reconciliation\<close>

text \<open>\<open>deltas[account]\<close>: what the legs move into an account.\<close>

definition net_delta :: "leg list \<Rightarrow> string \<Rightarrow> int" where
  "net_delta legs a =
     sum_list (map (\<lambda>l. (if lg_dst l = a then lg_amount l else 0) - (if lg_src l = a then lg_amount l else 0)) legs)"

definition unreconciled :: "leg list \<Rightarrow> string \<times> account_row \<Rightarrow> bool" where
  "unreconciled legs p = (case p of (a, row) \<Rightarrow> ar_complete row \<and>
     (case (ar_before row, ar_after row) of (Some b, Some c) \<Rightarrow> b + net_delta legs a \<noteq> c | _ \<Rightarrow> False))"

definition settle_row :: "leg list \<Rightarrow> bool \<Rightarrow> string \<times> account_row \<Rightarrow> string \<times> account_row" where
  "settle_row legs incomplete p =
     (if unreconciled legs p \<or> incomplete then (fst p, snd p\<lparr>ar_complete := False\<rparr>) else p)"

text \<open>
  The running balances: a leg that moves more than the account holds at that moment is an issue.
  An account with no pre-balance is not tracked.
\<close>

definition run_leg ::
    "(string \<times> int) list \<times> (string \<times> account_row) list \<times> string list \<Rightarrow> leg \<Rightarrow>
     (string \<times> int) list \<times> (string \<times> account_row) list \<times> string list" where
  "run_leg st l =
     (case st of (running, accounts, issues) \<Rightarrow>
        if lg_src l = lg_dst l then st
        else
          (let short = (case map_of running (lg_src l) of None \<Rightarrow> False | Some b \<Rightarrow> b < lg_amount l);
               r1 = (case map_of running (lg_src l) of None \<Rightarrow> running
                       | Some b \<Rightarrow> AList.update (lg_src l) (b - lg_amount l) running);
               r2 = (case map_of r1 (lg_dst l) of None \<Rightarrow> r1
                       | Some b \<Rightarrow> AList.update (lg_dst l) (b + lg_amount l) r1)
           in (r2,
               if short then AList.map_entry (lg_src l) (\<lambda>row. row\<lparr>ar_complete := False\<rparr>) accounts else accounts,
               add_if short ''unreconciled_intermediate_balance'' issues)))"

definition start_balances :: "(string \<times> account_row) list \<Rightarrow> (string \<times> int) list" where
  "start_balances accounts =
     concat (map (\<lambda>(a, row). case ar_before row of None \<Rightarrow> [] | Some b \<Rightarrow> [(a, b)]) accounts)"

section \<open>Sale witnesses\<close>

text \<open>\<open>int(row["after_raw"]) - int(row["before_raw"])\<close> of a complete row.\<close>

definition row_delta :: "account_row \<Rightarrow> int" where
  "row_delta row = (case (ar_before row, ar_after row) of (Some b, Some c) \<Rightarrow> c - b | _ \<Rightarrow> 0)"

definition witness_names :: "pyval \<Rightarrow> (string \<times> string \<times> string \<times> string) option" where
  "witness_names w =
     (case (getd w ''input_account'', getd w ''input_vault'', getd w ''output_account'', getd w ''output_vault'') of
        (PStr a, PStr b, PStr c, PStr d) \<Rightarrow> if distinct [a, b, c, d] then Some (a, b, c, d) else None
      | _ \<Rightarrow> None)"

text \<open>
  \<open>_sale_legs\<close>: the indices of the input legs when the witness matches exact legs and account
  deltas.  A name that is not a string cannot be a key of the batch's accounts, so it ends in the
  caught exceptions, like every malformed witness.
\<close>

definition sale_accounts_ok ::
    "string \<Rightarrow> string \<Rightarrow> string \<Rightarrow> int \<Rightarrow> int \<Rightarrow> account_row \<Rightarrow> account_row \<Rightarrow> account_row \<Rightarrow> account_row \<Rightarrow> bool" where
  "sale_accounts_ok mint out_mint owner amount output source vault recipient quote \<longleftrightarrow>
     ar_complete source \<and> ar_complete vault \<and> ar_complete recipient \<and> ar_complete quote \<and>
     ar_owner source = Some owner \<and> ar_owner recipient = Some owner \<and>
     ar_owner vault \<noteq> Some owner \<and> ar_owner quote \<noteq> Some owner \<and>
     ar_mint source = Some mint \<and> ar_mint vault = Some mint \<and>
     ar_mint recipient = Some out_mint \<and> ar_mint quote = Some out_mint \<and>
     - row_delta source = amount \<and> row_delta vault = amount \<and>
     row_delta recipient = output \<and> - row_delta quote = output"

definition sale_legs ::
    "pyval \<Rightarrow> string \<Rightarrow> string \<Rightarrow> (string \<times> account_row) list \<Rightarrow> pyval list \<Rightarrow> leg list \<Rightarrow> string list \<Rightarrow> nat list option" where
  "sale_legs w signature mint accounts outer legs programs =
     (if \<not> is_dict w then None
      else (case (raw_of (getd w ''outer_index''), raw_of (getd w ''input_amount_raw''), raw_of (getd w ''output_amount_raw'')) of
        (Inr index, Inr amount, Inr output) \<Rightarrow>
          (case (getd w ''program_id'', address (getd w ''owner''), address (getd w ''output_mint''), witness_names w) of
             (PStr program, Some owner, Some out_mint, Some (a, b, c, d)) \<Rightarrow>
               if getd w ''signature'' \<noteq> PStr signature \<or> getd w ''mint'' \<noteq> PStr mint \<or> program \<notin> set programs \<or>
                  nat index \<ge> length outer \<or> getd (outer ! nat index) ''programId'' \<noteq> PStr program \<or>
                  amount = 0 \<or> output = 0 \<or> out_mint = mint then None
               else (case (map_of accounts a, map_of accounts b, map_of accounts c, map_of accounts d) of
                   (Some source, Some vault, Some recipient, Some quote) \<Rightarrow>
                     if \<not> sale_accounts_ok mint out_mint owner amount output source vault recipient quote then None
                     else
                       (let inputs = [i. (i, l) \<leftarrow> indexed legs, lg_outer l = nat index \<and> lg_src l = a \<and> lg_dst l = b];
                            outputs = [l. l \<leftarrow> legs, lg_outer l = nat index \<and> lg_src l = d \<and> lg_dst l = c]
                        in if sum_list (map (\<lambda>i. lg_amount (legs ! i)) inputs) \<noteq> amount \<or>
                              sum_list (map lg_amount outputs) \<noteq> output then None
                           else Some inputs)
                 | _ \<Rightarrow> None)
           | _ \<Rightarrow> None)
      | _ \<Rightarrow> None))"

definition claim_sale ::
    "string \<Rightarrow> string \<Rightarrow> (string \<times> account_row) list \<Rightarrow> pyval list \<Rightarrow> string list \<Rightarrow>
     leg list \<times> string list \<Rightarrow> pyval \<Rightarrow> leg list \<times> string list" where
  "claim_sale signature mint accounts outer programs st w =
     (case st of (legs, issues) \<Rightarrow>
       (case sale_legs w signature mint accounts outer legs programs of
          None \<Rightarrow> (legs, insert_new ''unverified_swap_witness'' issues)
        | Some sel \<Rightarrow> (map (\<lambda>(i, l). if i \<in> set sel then l\<lparr>lg_sale := True\<rparr> else l) (indexed legs), issues)))"

section \<open>parse_position_transaction\<close>

record parse_limits =
  pl_instructions :: int
  pl_accounts :: int

definition key_of :: "pyval \<Rightarrow> pyval" where
  "key_of k = (if is_dict k then getd k ''pubkey'' else k)"

text \<open>
  The interpretation of a successful transaction of acceptable shape and size, in four phases: the
  accounts, the transfer legs, their reconciliation, and the sale witnesses.
\<close>

definition account_phase :: "pyval list \<Rightarrow> pyval \<Rightarrow> (string \<times> account_row) list \<times> string list" where
  "account_phase ks meta =
     (let (pre, i1) = snapshot_side ks (getd meta ''preTokenBalances'') [];
          (post, i2) = snapshot_side ks (getd meta ''postTokenBalances'') i1;
          accounts = merge_accounts pre post
      in (accounts, add_if (\<not> list_all (\<lambda>p. ar_complete (snd p)) accounts)
                      ''incomplete_account_lifecycle_or_identity'' i2))"

definition leg_phase ::
    "(string \<times> account_row) list \<Rightarrow> pyval \<Rightarrow> pyval list \<Rightarrow> pyval list \<Rightarrow> string list \<Rightarrow> leg list \<times> bool \<times> string list" where
  "leg_phase accounts meta outer inner issues =
     (let (groups, i1) = foldl (group_add (length outer)) ([], issues) inner;
          covered = is_list (getd meta ''innerInstructions'');
          results = read_instructions accounts outer groups
      in (legs_of results, \<not> covered \<or> Unsupported \<in> set results,
          add_if (\<not> covered) ''missing_inner_instruction_coverage'' i1))"

definition reconcile_phase ::
    "leg list \<Rightarrow> bool \<Rightarrow> (string \<times> account_row) list \<Rightarrow> string list \<Rightarrow> (string \<times> account_row) list \<times> string list" where
  "reconcile_phase legs incomplete accounts issues =
     (let i1 = add_if (list_ex (unreconciled legs) accounts) ''unreconciled_token_account'' issues;
          settled = map (settle_row legs (incomplete \<or> ''invalid_instruction_order'' \<in> set i1 \<or>
                                          ''unresolved_token_account'' \<in> set i1)) accounts;
          (running, final, i2) = foldl run_leg (start_balances settled, settled, i1) legs
      in (final, add_if incomplete ''unsupported_or_unresolved_token_instruction'' i2))"

definition interpret_transaction ::
    "batch \<Rightarrow> string \<Rightarrow> pyval \<Rightarrow> pyval list \<Rightarrow> pyval list \<Rightarrow> pyval list \<Rightarrow> pyval list \<Rightarrow> string list \<Rightarrow> batch" where
  "interpret_transaction b signature meta ks outer inner witnesses programs =
     (let (accounts, i1) = account_phase (map key_of ks) meta;
          (legs, incomplete, i2) = leg_phase accounts meta outer inner i1;
          (final, i3) = reconcile_phase legs incomplete accounts i2;
          (legs', i4) = foldl (claim_sale signature (b_mint b) final outer programs) (legs, i3) witnesses
      in b\<lparr>b_accounts := final, b_transfers := filter (\<lambda>l. lg_mint l = b_mint b) legs',
           b_issues := sorted_set i4, b_status := (if i4 = [] then ''parsed'' else ''partial'')\<rparr>)"

definition list_or_empty :: "pyval \<Rightarrow> pyval" where
  "list_or_empty v = py_or v (PList [])"

definition shape_ok :: "pyval \<Rightarrow> pyval \<Rightarrow> pyval \<Rightarrow> bool" where
  "shape_ok ks outer inner \<longleftrightarrow>
     is_list ks \<and> is_list outer \<and> is_list inner \<and>
     list_all (\<lambda>g. is_dict g \<and> is_list (list_or_empty (getd g ''instructions''))) (as_list inner) \<and>
     list_all is_dict (as_list outer)"

definition over_limit :: "parse_limits \<Rightarrow> pyval \<Rightarrow> pyval list \<Rightarrow> pyval list \<Rightarrow> pyval list \<Rightarrow> pyval list \<Rightarrow> bool" where
  "over_limit lims meta ks outer inner witnesses \<longleftrightarrow>
     int (length ks) > pl_accounts lims \<or>
     int (length outer + sum_list (map (\<lambda>g. length (as_list (list_or_empty (getd g ''instructions'')))) inner))
       > pl_instructions lims \<or>
     int (length witnesses) > pl_instructions lims \<or>
     int (length (as_list (getd meta ''preTokenBalances''))) > pl_accounts lims \<or>
     int (length (as_list (getd meta ''postTokenBalances''))) > pl_accounts lims"

text \<open>
  The early returns, in the order of the code: \<open>Inl\<close> is the batch returned at once, \<open>Inr\<close> the batch
  so far with its signature and the parts of the transaction to interpret.
\<close>

definition failed_with :: "batch \<Rightarrow> string \<Rightarrow> batch" where
  "failed_with b issue = b\<lparr>b_issues := [issue]\<rparr>"

definition read_identity :: "pyval \<Rightarrow> pyval \<Rightarrow> batch \<Rightarrow> batch + batch" where
  "read_identity tx index b =
     (case raw_of (getd tx ''slot'') of
        Inl e \<Rightarrow> Inl (failed_with b ''missing_canonical_order'')
      | Inr slot \<Rightarrow>
          if index = PNone then Inr (b\<lparr>b_slot := Some slot\<rparr>)
          else (case raw_of index of
              Inl e \<Rightarrow> Inl (failed_with (b\<lparr>b_slot := Some slot\<rparr>) ''missing_canonical_order'')
            | Inr i \<Rightarrow> Inr (b\<lparr>b_slot := Some slot, b_index := PInt i\<rparr>)))"

definition read_success ::
    "pyval \<Rightarrow> pyval \<Rightarrow> pyval list \<Rightarrow> parse_limits \<Rightarrow> batch \<Rightarrow> batch + (string \<times> pyval list \<times> pyval list \<times> pyval list)" where
  "read_success meta message witnesses lims b =
     (let ks = list_or_empty (getd message ''accountKeys'');
          outer = list_or_empty (getd message ''instructions'');
          inner = list_or_empty (getd meta ''innerInstructions'')
      in case b_signature b of
           None \<Rightarrow> Inl (failed_with b ''missing_success_metadata_or_signature'')
         | Some signature \<Rightarrow>
             if \<not> is_dict meta \<or> \<not> has_key meta ''err''
             then Inl (failed_with b ''missing_success_metadata_or_signature'')
             else if getd meta ''err'' \<noteq> PNone then Inl (b\<lparr>b_status := ''failed''\<rparr>)
             else if \<not> shape_ok ks outer inner then Inl (failed_with b ''invalid_instruction_shape'')
             else if over_limit lims meta (as_list ks) (as_list outer) (as_list inner) witnesses
             then Inl (failed_with b ''transaction_limit'')
             else Inr (signature, as_list ks, as_list outer, as_list inner))"

definition parse_transaction ::
    "pyval \<Rightarrow> string \<Rightarrow> pyval \<Rightarrow> pyval list \<Rightarrow> string list \<Rightarrow> parse_limits \<Rightarrow> batch" where
  "parse_transaction tx mint index witnesses programs lims =
     (let b0 = empty_batch mint index;
          transaction = py_or (getd tx ''transaction'') (PDict []);
          message = py_or (getd transaction ''message'') (PDict []);
          signatures = list_or_empty (getd transaction ''signatures'')
      in
      if \<not> is_dict tx then failed_with b0 ''missing_transaction''
      else if \<not> is_dict transaction \<or> \<not> is_dict message \<or> \<not> is_list signatures
      then failed_with b0 ''invalid_transaction_shape''
      else (case read_identity tx index
                   (b0\<lparr>b_signature := (case as_list signatures of [] \<Rightarrow> None | s # _ \<Rightarrow> address s)\<rparr>) of
          Inl b \<Rightarrow> b
        | Inr b \<Rightarrow> (case read_success (getd tx ''meta'') message witnesses lims b of
              Inl b \<Rightarrow> b
            | Inr (signature, ks, outer, inner) \<Rightarrow>
                interpret_transaction b signature (getd tx ''meta'') ks outer inner witnesses programs)))"

definition parse_position_transaction ::
    "pyval \<Rightarrow> pyval \<Rightarrow> pyval \<Rightarrow> pyval list \<Rightarrow> string list \<Rightarrow> pyval \<Rightarrow> pyval \<Rightarrow> batch res" where
  "parse_position_transaction tx mint index witnesses programs max_instructions max_accounts =
     (case address mint of
        None \<Rightarrow> Inl (ValueError ''An exact mint is required'')
      | Some m \<Rightarrow>
          if \<not> is_dict tx then Inr (parse_transaction tx m index witnesses programs \<lparr>pl_instructions = 0, pl_accounts = 0\<rparr>)
          else bindR (raw_of max_instructions) (\<lambda>ni. bindR (raw_of max_accounts) (\<lambda>na.
            Inr (parse_transaction tx m index witnesses programs \<lparr>pl_instructions = ni, pl_accounts = na\<rparr>))))"

end
