(* ===== verification/Position_Parse_Laws.thy ===== *)
theory Position_Parse_Laws
  imports Position_Parse
begin

text \<open>
  What a batch of \<open>parse_position_transaction\<close> means: a batch that is \<open>parsed\<close> accounts for every
  token it moves, and a leg called a sale is backed by a witness that matches it exactly.
\<close>

section \<open>Legs\<close>

definition leg_ok :: "(string \<times> account_row) list \<Rightarrow> leg \<Rightarrow> bool" where
  "leg_ok accounts l \<longleftrightarrow> 0 < lg_amount l \<and>
     (\<exists>s d. map_of accounts (lg_src l) = Some s \<and> map_of accounts (lg_dst l) = Some d \<and>
        ar_mint s = Some (lg_mint l) \<and> ar_mint d = Some (lg_mint l) \<and>
        ar_owner s = lg_src_owner l \<and> ar_owner d = lg_dst_owner l)"

lemma transfer_leg_ok:
  assumes "transfer_leg accounts i j checked info = Inr l"
  shows "0 \<le> lg_amount l \<and> \<not> lg_sale l \<and> (lg_amount l \<noteq> 0 \<longrightarrow> leg_ok accounts l)"
proof -
  obtain src dst where 1: "address (getd info ''source'') = Some src" "address (getd info ''destination'') = Some dst" "is_dict info"
    using assms by (auto simp: transfer_leg_def split: bool.splits option.splits)
  with assms obtain amount where 2: "transfer_amount info = Inr amount" 
    by (cases "transfer_amount info") (auto simp: transfer_leg_def)
  have "0 \<le> amount" using 2 by (auto simp: transfer_amount_def bindR_eq_Inr intro: raw_of_nonneg)
  from assms 1 2 obtain s d where 3: "map_of accounts src = Some s" "map_of accounts dst = Some d"
    by (auto simp: transfer_leg_def split: option.splits)
  with assms 1 2 obtain mint where 4: "ar_mint s = Some mint" "ar_mint d = Some mint"
    by (cases "ar_mint s") (auto simp: transfer_leg_def split: if_splits)
  with assms 1 2 3 have "lg_src l = src \<and> lg_dst l = dst \<and> lg_src_owner l = ar_owner s \<and> lg_dst_owner l = ar_owner d \<and>
      lg_mint l = mint \<and> lg_amount l = amount \<and> \<not> lg_sale l"
    by (auto simp: transfer_leg_def bindR_eq_Inr split: if_splits)
  with \<open>0 \<le> amount\<close> 3 4 show ?thesis by (auto simp: leg_ok_def)
qed

lemma read_instruction_leg:
  "read_instruction accounts i j entry = Transfer l \<Longrightarrow> leg_ok accounts l \<and> \<not> lg_sale l"
  using transfer_leg_ok by (fastforce simp: read_instruction_def Let_def split: if_splits sum.splits)

lemma legs_of_ok:
  assumes "l \<in> set (legs_of (read_instructions accounts outer groups))"
  shows "leg_ok accounts l \<and> \<not> lg_sale l"
proof -
  from assms obtain r where "r \<in> set (read_instructions accounts outer groups)" and l: "r = Transfer l"
    by (auto simp: legs_of_def split: instruction_result.splits)
  then obtain i j e where "r = read_instruction accounts i j e"
    by (auto simp: read_instructions_def)
  with l read_instruction_leg show ?thesis by metis
qed

section \<open>Accounts\<close>

lemma merge_row_complete:
  "ar_complete (merge_row before after) \<Longrightarrow>
     \<exists>b c. ar_before (merge_row before after) = Some b \<and> ar_after (merge_row before after) = Some c"
  by (auto simp: merge_row_def Let_def split: option.splits)

lemma account_phase_rows:
  assumes "account_phase ks meta = (accounts, issues)"
  shows "distinct (map fst accounts)"
    and "(a, row) \<in> set accounts \<Longrightarrow> ar_complete row \<Longrightarrow> \<exists>b c. ar_before row = Some b \<and> ar_after row = Some c"
    and "issues = [] \<Longrightarrow> (a, row) \<in> set accounts \<Longrightarrow> ar_complete row"
proof -
  obtain pre i1 post i2 where s: "snapshot_side ks (getd meta ''preTokenBalances'') [] = (pre, i1)"
    "snapshot_side ks (getd meta ''postTokenBalances'') i1 = (post, i2)" by fastforce
  with assms have acc: "accounts = merge_accounts pre post"
    and iss: "issues = add_if (\<not> list_all (\<lambda>p. ar_complete (snd p)) accounts) ''incomplete_account_lifecycle_or_identity'' i2"
    by (auto simp: account_phase_def Let_def)
  show "distinct (map fst accounts)" by (simp add: acc merge_accounts_def comp_def)
  show "(a, row) \<in> set accounts \<Longrightarrow> ar_complete row \<Longrightarrow> \<exists>b c. ar_before row = Some b \<and> ar_after row = Some c"
    by (auto simp: acc merge_accounts_def dest: merge_row_complete)
  assume "issues = []" and mem: "(a, row) \<in> set accounts"
  then have "set (add_if (\<not> list_all (\<lambda>p. ar_complete (snd p)) accounts) ''incomplete_account_lifecycle_or_identity'' i2) = {}"
    using iss by simp
  then have "list_all (\<lambda>p. ar_complete (snd p)) accounts" by (simp split: if_splits)
  with mem show "ar_complete row" by (auto simp: list_all_iff)
qed

section \<open>Reconciliation\<close>

lemma run_leg_clean:
  assumes "foldl run_leg (running, accounts, issues) legs = (running', accounts', issues')"
  shows "set issues \<subseteq> set issues' \<and> (issues' = [] \<longrightarrow> accounts' = accounts)"
  using assms
proof (induction legs arbitrary: running accounts issues)
  case Nil
  then show ?case by simp
next
  case (Cons l legs)
  obtain r a i where st: "run_leg (running, accounts, issues) l = (r, a, i)" by (metis prod_cases3)
  with Cons.prems have rest: "foldl run_leg (r, a, i) legs = (running', accounts', issues')" by simp
  note IH = Cons.IH [OF rest]
  have "set issues \<subseteq> set i \<and> (i = [] \<longrightarrow> a = accounts)"
  proof -
    have "i = issues \<and> a = accounts \<or> i = insert_new ''unreconciled_intermediate_balance'' issues"
      using st by (auto simp: run_leg_def Let_def add_if_def split: if_splits)
    moreover have "insert_new x xs \<noteq> []" for x :: string and xs by (metis set_insert_new insert_not_empty list.set(1))
    ultimately show ?thesis by auto
  qed
  with IH show ?case by (metis list.set(1) subset_empty order.trans set_empty)
qed

lemma reconcile_phase_clean:
  assumes "reconcile_phase legs incomplete accounts issues = (final, [])"
  shows "issues = [] \<and> \<not> incomplete \<and> final = accounts \<and> (\<forall>p \<in> set accounts. \<not> unreconciled legs p)"
proof -
  define i1 where "i1 = add_if (list_ex (unreconciled legs) accounts) ''unreconciled_token_account'' issues"
  define settled where "settled = map (settle_row legs (incomplete \<or> ''invalid_instruction_order'' \<in> set i1 \<or>
                                          ''unresolved_token_account'' \<in> set i1)) accounts"
  obtain running fin i2 where f: "foldl run_leg (start_balances settled, settled, i1) legs = (running, fin, i2)"
    by (metis prod_cases3)
  have out: "final = fin" "add_if incomplete ''unsupported_or_unresolved_token_instruction'' i2 = []"
    using assms f by (auto simp: reconcile_phase_def Let_def i1_def settled_def)
  from out(2) have "set (add_if incomplete ''unsupported_or_unresolved_token_instruction'' i2) = {}" by simp
  then have inc: "\<not> incomplete" "i2 = []" by (simp_all split: if_splits)
  from run_leg_clean [OF f] inc(2) have i1: "i1 = []" "fin = settled" by auto
  from i1(1) have "set (add_if (list_ex (unreconciled legs) accounts) ''unreconciled_token_account'' issues) = {}"
    by (simp add: i1_def)
  then have ne: "\<not> list_ex (unreconciled legs) accounts" "issues = []" by (simp_all split: if_splits)
  then have u: "\<forall>p \<in> set accounts. \<not> unreconciled legs p" by (auto simp: list_ex_iff)
  then have "settled = accounts" using inc(1) i1(1) by (simp add: settled_def settle_row_def map_idI)
  with out(1) i1(2) ne(2) inc(1) u show ?thesis by simp
qed

section \<open>Sale claims\<close>

definition unmark :: "leg \<Rightarrow> leg" where
  "unmark l = l\<lparr>lg_sale := False\<rparr>"

lemma unmark_simps [simp]:
  "lg_src (unmark l) = lg_src l" "lg_dst (unmark l) = lg_dst l" "lg_amount (unmark l) = lg_amount l"
  "lg_mint (unmark l) = lg_mint l" "lg_outer (unmark l) = lg_outer l"
  by (simp_all add: unmark_def)

lemma unmark_cong:
  assumes "map unmark xs = map unmark ys"
  shows "length xs = length ys" and "i < length xs \<Longrightarrow> unmark (xs ! i) = unmark (ys ! i)"
proof -
  show l: "length xs = length ys" using assms by (metis length_map)
  assume "i < length xs"
  then show "unmark (xs ! i) = unmark (ys ! i)" using assms l by (metis nth_map)
qed

lemma net_delta_unmark: "net_delta (map unmark legs) a = net_delta legs a"
  by (induction legs) (auto simp: net_delta_def)

text \<open>What the leg of a matched witness satisfies.\<close>

definition sale_evidence ::
    "string \<Rightarrow> string \<Rightarrow> (string \<times> account_row) list \<Rightarrow> string list \<Rightarrow> pyval \<Rightarrow> leg \<Rightarrow> bool" where
  "sale_evidence signature mint accounts programs w l \<longleftrightarrow>
     getd w ''signature'' = PStr signature \<and> getd w ''mint'' = PStr mint \<and>
     (\<exists>program \<in> set programs. getd w ''program_id'' = PStr program) \<and>
     (\<exists>owner out_mint amount out source vault recipient quote.
        getd w ''input_account'' = PStr (lg_src l) \<and> getd w ''input_vault'' = PStr (lg_dst l) \<and>
        0 < amount \<and> raw_of (getd w ''input_amount_raw'') = Inr amount \<and> out_mint \<noteq> mint \<and>
        map_of accounts (lg_src l) = Some source \<and> map_of accounts (lg_dst l) = Some vault \<and>
        sale_accounts_ok mint out_mint owner amount out source vault recipient quote)"

lemma sale_legs_evidence:
  assumes "sale_legs w signature mint accounts outer legs programs = Some sel" and "i \<in> set sel"
  shows "i < length legs \<and> sale_evidence signature mint accounts programs w (legs ! i)"
proof -
  obtain index amount out where 1: "raw_of (getd w ''outer_index'') = Inr index"
    "raw_of (getd w ''input_amount_raw'') = Inr amount" "raw_of (getd w ''output_amount_raw'') = Inr out" "is_dict w"
    using assms(1) by (auto simp: sale_legs_def split: if_splits sum.splits)
  with assms(1) obtain program owner out_mint a b c d where
    2: "getd w ''program_id'' = PStr program" "address (getd w ''owner'') = Some owner"
      "address (getd w ''output_mint'') = Some out_mint" "witness_names w = Some (a, b, c, d)"
    by (auto simp: sale_legs_def split: pyval.splits option.splits)
  with assms(1) 1 have 3: "getd w ''signature'' = PStr signature" "getd w ''mint'' = PStr mint" "program \<in> set programs"
    "amount \<noteq> 0" "out \<noteq> 0" "out_mint \<noteq> mint"
    by (auto simp: sale_legs_def split: if_splits)
  from assms(1) 1 2 obtain source vault recipient quote where
    4: "map_of accounts a = Some source" "map_of accounts b = Some vault"
      "sale_accounts_ok mint out_mint owner amount out source vault recipient quote"
    and sel: "sel = [i. (i, l) \<leftarrow> indexed legs, lg_outer l = nat index \<and> lg_src l = a \<and> lg_dst l = b]"
    by (auto simp: sale_legs_def Let_def split: if_splits option.splits)
  from assms(2) sel have i: "i < length legs" "lg_src (legs ! i) = a" "lg_dst (legs ! i) = b"
    by (auto simp: in_set_indexed split: if_splits)
  have names: "getd w ''input_account'' = PStr a" "getd w ''input_vault'' = PStr b"
    using 2(4) by (auto simp: witness_names_def split: pyval.splits if_splits)
  have "0 < amount" using raw_of_nonneg [OF 1(2)] 3(4) by simp
  then show ?thesis unfolding sale_evidence_def using 1 2 3 4 i names by (auto intro!: exI)
qed

lemma sale_evidence_unmark: "unmark l = unmark l' \<Longrightarrow> sale_evidence s m acc ps w l \<Longrightarrow> sale_evidence s m acc ps w l'"
  unfolding sale_evidence_def by (metis unmark_simps(1,2))

lemma claim_sale_invariant:
  assumes "foldl (claim_sale signature mint accounts outer programs) (legs, issues) ws = (legs', issues')"
  shows "map unmark legs' = map unmark legs \<and> set issues \<subseteq> set issues' \<and>
    (\<forall>i < length legs'. lg_sale (legs' ! i) \<longrightarrow> lg_sale (legs ! i) \<or>
       (\<exists>w \<in> set ws. sale_evidence signature mint accounts programs w (legs' ! i)))"
  using assms
proof (induction ws arbitrary: legs issues)
  case Nil
  then show ?case by simp
next
  case (Cons w ws)
  obtain ls js where st: "claim_sale signature mint accounts outer programs (legs, issues) w = (ls, js)" by fastforce
  with Cons.prems have rest: "foldl (claim_sale signature mint accounts outer programs) (ls, js) ws = (legs', issues')" by simp
  note IH = Cons.IH [OF rest]
  have step: "map unmark ls = map unmark legs \<and> set issues \<subseteq> set js \<and>
    (\<forall>i < length ls. lg_sale (ls ! i) \<longrightarrow> lg_sale (legs ! i) \<or> sale_evidence signature mint accounts programs w (legs ! i))"
  proof (cases "sale_legs w signature mint accounts outer legs programs")
    case None
    with st show ?thesis by (auto simp: claim_sale_def)
  next
    case (Some sel)
    with st have ls: "ls = map (\<lambda>(i, l). if i \<in> set sel then l\<lparr>lg_sale := True\<rparr> else l) (indexed legs)" and "js = issues"
      by (auto simp: claim_sale_def)
    have nth: "ls ! i = (if i \<in> set sel then (legs ! i)\<lparr>lg_sale := True\<rparr> else legs ! i)" if "i < length legs" for i
      using that by (simp add: ls nth_indexed)
    have len: "length ls = length legs" by (simp add: ls)
    have "map unmark ls = map unmark legs"
      by (rule nth_equalityI) (simp_all add: len nth unmark_def)
    with nth len \<open>js = issues\<close> sale_legs_evidence [OF Some] show ?thesis by auto
  qed
  have len: "length legs' = length ls" "length ls = length legs" using IH step by (metis length_map)+
  have evidence: "\<exists>w' \<in> set (w # ws). sale_evidence signature mint accounts programs w' (legs' ! i)"
    if i: "i < length legs'" "lg_sale (legs' ! i)" "\<not> lg_sale (legs ! i)" for i
  proof (cases "lg_sale (ls ! i)")
    case True
    with step i len have "sale_evidence signature mint accounts programs w (legs ! i)" by auto
    moreover have "unmark (legs ! i) = unmark (legs' ! i)"
      using IH step unmark_cong(2) [of legs' legs i] i(1) by simp
    ultimately have "sale_evidence signature mint accounts programs w (legs' ! i)"
      by (rule sale_evidence_unmark [rotated])
    then show ?thesis by simp
  next
    case False
    with IH i show ?thesis by auto
  qed
  show ?case
  proof (intro conjI)
    show "map unmark legs' = map unmark legs" using IH step by simp
    show "set issues \<subseteq> set issues'" using IH step by blast
    show "\<forall>i < length legs'. lg_sale (legs' ! i) \<longrightarrow> lg_sale (legs ! i) \<or>
       (\<exists>w' \<in> set (w # ws). sale_evidence signature mint accounts programs w' (legs' ! i))"
      using evidence by blast
  qed
qed

section \<open>The whole parser\<close>

text \<open>A batch of a successful transaction, in terms of its phases.\<close>

definition rejected :: "batch \<Rightarrow> bool" where
  "rejected b \<longleftrightarrow> b_status b \<noteq> ''parsed'' \<and> b_status b \<noteq> ''partial'' \<and> b_accounts b = [] \<and> b_transfers b = []"

lemma read_identity_cases:
  assumes "rejected b"
  shows "read_identity tx index b = Inl b' \<Longrightarrow> rejected b'"
    and "read_identity tx index b = Inr b' \<Longrightarrow> rejected b' \<and> b_mint b' = b_mint b"
  using assms by (auto simp: read_identity_def rejected_def failed_with_def split: sum.splits if_splits)

lemma read_success_cases:
  assumes "rejected b"
  shows "read_success meta message witnesses lims b = Inl b' \<Longrightarrow> rejected b'"
    and "read_success meta message witnesses lims b = Inr (signature, ks, outer, inner) \<Longrightarrow> b_signature b = Some signature"
  using assms
  by (auto simp: read_success_def Let_def rejected_def failed_with_def split: option.splits if_splits)

lemma parse_transaction_cases:
  assumes b: "parse_transaction tx mint index witnesses programs lims = b"
  obtains (early) "rejected b"
    | (interpreted) b0 signature ks outer inner where
      "b = interpret_transaction b0 signature (getd tx ''meta'') ks outer inner witnesses programs"
      "b_signature b0 = Some signature" "b_mint b0 = mint"
proof -
  define b0 where "b0 = empty_batch mint index"
  define message where "message = py_or (getd (py_or (getd tx ''transaction'') (PDict [])) ''message'') (PDict [])"
  define b1 where "b1 = b0\<lparr>b_signature := (case as_list (list_or_empty (getd (py_or (getd tx ''transaction'') (PDict []))
      ''signatures'')) of [] \<Rightarrow> None | s # _ \<Rightarrow> address s)\<rparr>"
  have r: "rejected b0" "rejected b1" and m: "b_mint b1 = mint"
    by (simp_all add: b0_def b1_def rejected_def empty_batch_def)
  show thesis
  proof (cases "b = failed_with b0 ''missing_transaction'' \<or> b = failed_with b0 ''invalid_transaction_shape''")
    case True
    with r(1) show ?thesis by (intro early) (auto simp: rejected_def failed_with_def)
  next
    case False
    have run: "b = (case read_identity tx index b1 of
          Inl b \<Rightarrow> b
        | Inr b \<Rightarrow> (case read_success (getd tx ''meta'') message witnesses lims b of
              Inl b \<Rightarrow> b
            | Inr (signature, ks, outer, inner) \<Rightarrow>
                interpret_transaction b signature (getd tx ''meta'') ks outer inner witnesses programs))"
      using b False unfolding parse_transaction_def Let_def b0_def b1_def message_def by (auto split: if_splits)
    show ?thesis
    proof (cases "read_identity tx index b1")
      case (Inl b')
      with run read_identity_cases(1) [OF r(2) Inl] show ?thesis by (intro early) simp
    next
      case (Inr b2)
      note b2 = read_identity_cases(2) [OF r(2) Inr]
      show ?thesis
      proof (cases "read_success (getd tx ''meta'') message witnesses lims b2")
        case (Inl b')
        with run Inr read_success_cases(1) [OF _ Inl] b2 show ?thesis by (intro early) simp
      next
        case inr: (Inr v)
        obtain signature ks outer inner where v: "v = (signature, ks, outer, inner)" by (metis prod_cases4)
        have "b_signature b2 = Some signature" using read_success_cases(2) b2 inr v by blast
        with run Inr inr v b2 m show ?thesis by (intro interpreted [of b2 signature ks outer inner]) auto
      qed
    qed
  qed
qed

lemma net_delta_filter:
  assumes "\<And>l. l \<in> set legs \<Longrightarrow> lg_src l = a \<or> lg_dst l = a \<Longrightarrow> P l"
  shows "net_delta (filter P legs) a = net_delta legs a"
  using assms
proof (induction legs)
  case Nil
  then show ?case by simp
next
  case (Cons l legs)
  have IH: "net_delta (filter P legs) a = net_delta legs a" by (rule Cons.IH) (use Cons.prems in auto)
  show ?case
  proof (cases "P l")
    case True
    with IH show ?thesis by (simp add: net_delta_def)
  next
    case False
    with Cons.prems [of l] have "lg_src l \<noteq> a" "lg_dst l \<noteq> a" by auto
    with False IH show ?thesis by (simp add: net_delta_def)
  qed
qed

lemma net_delta_unmark_cong: "map unmark legs' = map unmark legs \<Longrightarrow> net_delta legs' a = net_delta legs a"
  using net_delta_unmark [of legs a] net_delta_unmark [of legs' a] by simp

lemma leg_ok_unmark: "unmark l = unmark l' \<Longrightarrow> leg_ok accounts l \<Longrightarrow> leg_ok accounts l'"
  by (cases l; cases l') (auto simp: leg_ok_def unmark_def)

lemma unmark_in_set:
  assumes "map unmark legs' = map unmark legs" and "l \<in> set legs'"
  shows "\<exists>l' \<in> set legs. unmark l' = unmark l"
  using assms by (metis imageE imageI list.set_map)

text \<open>What a fully interpreted batch is made of.\<close>

lemma interpret_parsed:
  assumes b: "b = interpret_transaction b0 signature meta ks outer inner witnesses programs"
    and "b_status b = ''parsed''"
  obtains legs legs' where
    "b_transfers b = filter (\<lambda>l. lg_mint l = b_mint b) legs'" "map unmark legs' = map unmark legs"
    "\<forall>l \<in> set legs. leg_ok (b_accounts b) l" "distinct (map fst (b_accounts b))"
    "\<forall>(a, row) \<in> set (b_accounts b). ar_complete row \<and>
       (\<exists>c d. ar_before row = Some c \<and> ar_after row = Some d \<and> d = c + net_delta legs a)"
proof -
  obtain accounts i1 where 1: "account_phase (map key_of ks) meta = (accounts, i1)" by fastforce
  obtain legs inc i2 where 2: "leg_phase accounts meta outer inner i1 = (legs, inc, i2)" by (metis prod_cases3)
  obtain final i3 where 3: "reconcile_phase legs inc accounts i2 = (final, i3)" by fastforce
  obtain legs' i4 where 4: "foldl (claim_sale signature (b_mint b0) final outer programs) (legs, i3) witnesses = (legs', i4)"
    by fastforce
  have bv: "b_accounts b = final" "b_transfers b = filter (\<lambda>l. lg_mint l = b_mint b) legs'"
    "b_status b = (if i4 = [] then ''parsed'' else ''partial'')"
    using 1 2 3 4 unfolding b by (simp_all add: interpret_transaction_def)
  with assms(2) have "i4 = []" by (simp split: if_splits)
  with claim_sale_invariant [OF 4] have un: "map unmark legs' = map unmark legs" and "i3 = []" by auto
  with reconcile_phase_clean [of legs inc accounts i2 final] 3
  have r: "i2 = []" "final = accounts" "\<forall>p \<in> set accounts. \<not> unreconciled legs p" by auto
  obtain groups i where g: "foldl (group_add (length outer)) ([], i1) inner = (groups, i)" by fastforce
  have gi: "set js \<subseteq> set (snd (group_add n (gs, js) x))" for n gs js x
    by (auto simp: group_add_def split: sum.splits)
  have "set i1 \<subseteq> set i"
    using foldl_invariant [of "\<lambda>s. set i1 \<subseteq> set (snd s)" "([], i1)" inner "group_add (length outer)"] g gi
    by (auto simp: subset_iff split: prod.splits)
  moreover have "set i \<subseteq> set i2" and legs: "legs = legs_of (read_instructions accounts outer groups)"
    using 2 g by (auto simp: leg_phase_def Let_def)
  ultimately have "i1 = []" using r(1) by auto
  note rows = account_phase_rows [OF 1]
  have "ar_complete row \<and> (\<exists>c d. ar_before row = Some c \<and> ar_after row = Some d \<and> d = c + net_delta legs a)"
    if "(a, row) \<in> set (b_accounts b)" for a row
  proof -
    have mem: "(a, row) \<in> set accounts" using that bv(1) r(2) by simp
    have c: "ar_complete row" by (rule rows(3) [OF \<open>i1 = []\<close> mem])
    with rows(2) [OF mem] r(3) mem show ?thesis by (fastforce simp: unreconciled_def)
  qed
  then have "\<forall>(a, row) \<in> set (b_accounts b). ar_complete row \<and>
       (\<exists>c d. ar_before row = Some c \<and> ar_after row = Some d \<and> d = c + net_delta legs a)" by auto
  moreover have "\<forall>l \<in> set legs. leg_ok (b_accounts b) l" using legs_of_ok legs bv(1) r(2) by auto
  moreover have "distinct (map fst (b_accounts b))" using rows(1) bv(1) r(2) by simp
  ultimately show thesis by (intro that [of legs' legs, OF bv(2) un])
qed

lemma parsed_batch_reconciles_lemma:
  assumes "parse_transaction tx mint index witnesses programs lims = b" and "b_status b = ''parsed''"
    and "(a, row) \<in> set (b_accounts b)" and "ar_mint row = Some mint"
  shows "\<exists>before after. ar_before row = Some before \<and> ar_after row = Some after \<and>
    after = before + net_delta (b_transfers b) a"
  using assms(1)
proof (cases rule: parse_transaction_cases)
  case early
  with assms(2) show ?thesis by (simp add: rejected_def)
next
  case (interpreted b0 signature ks outer inner)
  have mint: "b_mint b = mint" using interpreted by (simp add: interpret_transaction_def split: prod.splits)
  from interpreted(1) assms(2) obtain legs legs' where
    l: "b_transfers b = filter (\<lambda>l. lg_mint l = b_mint b) legs'" "map unmark legs' = map unmark legs"
    "\<forall>l \<in> set legs. leg_ok (b_accounts b) l" "distinct (map fst (b_accounts b))"
    "\<forall>(a, row) \<in> set (b_accounts b). ar_complete row \<and>
       (\<exists>c d. ar_before row = Some c \<and> ar_after row = Some d \<and> d = c + net_delta legs a)"
    by (rule interpret_parsed)
  have row: "map_of (b_accounts b) a = Some row" using assms(3) l(4) by simp
  have ok: "leg_ok (b_accounts b) x" if x: "x \<in> set legs'" for x
    using unmark_in_set [OF l(2) x] l(3) leg_ok_unmark by blast
  have "net_delta (b_transfers b) a = net_delta legs' a"
    unfolding l(1)
  proof (rule net_delta_filter)
    fix x
    assume x: "x \<in> set legs'" and touch: "lg_src x = a \<or> lg_dst x = a"
    with ok [OF x] row assms(4) show "lg_mint x = b_mint b" by (auto simp: leg_ok_def mint)
  qed
  with net_delta_unmark_cong [OF l(2)] l(5) assms(3) show ?thesis by auto
qed

text \<open>
  C5: A parsed batch reconciles.  Every account of the transaction has both its balances, and for an
  account of the tracked mint the transfers of the batch explain the change exactly.
\<close>

theorem parsed_batch_reconciles:
  assumes "parse_transaction tx mint index witnesses programs lims = b" and "b_status b = ''parsed''"
    and "(a, row) \<in> set (b_accounts b)" and "ar_mint row = Some mint"
  shows "\<exists>before after. ar_before row = Some before \<and> ar_after row = Some after \<and>
    after = before + net_delta (b_transfers b) a"
  using parsed_batch_reconciles_lemma [OF assms] .

lemma sum_net_delta:
  assumes "finite A" and "\<forall>l \<in> set legs. lg_src l \<in> A \<and> lg_dst l \<in> A"
  shows "(\<Sum>a\<in>A. net_delta legs a) = 0"
  using assms(2)
proof (induction legs)
  case Nil
  then show ?case by (simp add: net_delta_def)
next
  case (Cons l legs)
  have "net_delta (l # legs) a = (if lg_dst l = a then lg_amount l else 0) -
      (if lg_src l = a then lg_amount l else 0) + net_delta legs a" for a by (simp add: net_delta_def)
  with Cons assms(1) show ?case by (simp add: sum.distrib sum_subtractf)
qed

text \<open>
  A parsed batch conserves the token: over all accounts of the tracked mint the balance changes
  of the transaction add up to zero, so nothing was minted, burned or moved to an unseen account.
\<close>

theorem parsed_batch_conserves:
  assumes b: "parse_transaction tx mint index witnesses programs lims = b" and st: "b_status b = ''parsed''"
  shows "sum_list (map (\<lambda>(a, row). if ar_mint row = Some mint then row_delta row else 0) (b_accounts b)) = 0"
  using b
proof (cases rule: parse_transaction_cases)
  case early
  with st show ?thesis by (simp add: rejected_def)
next
  case (interpreted b0 signature ks outer inner)
  have mint: "b_mint b = mint" using interpreted by (simp add: interpret_transaction_def split: prod.splits)
  from interpreted(1) st obtain legs legs' where
    l: "b_transfers b = filter (\<lambda>l. lg_mint l = b_mint b) legs'" "map unmark legs' = map unmark legs"
    "\<forall>l \<in> set legs. leg_ok (b_accounts b) l" "distinct (map fst (b_accounts b))"
    by (rule interpret_parsed)
  let ?rows = "filter (\<lambda>p. ar_mint (snd p) = Some mint) (b_accounts b)"
  have delta: "row_delta (snd p) = net_delta (b_transfers b) (fst p)" if "p \<in> set ?rows" for p
    using parsed_batch_reconciles_lemma [OF b st, of "fst p" "snd p"] that by (auto simp: row_delta_def)
  have eq: "map (\<lambda>p. row_delta (snd p)) ?rows = map (net_delta (b_transfers b)) (map fst ?rows)"
    using delta by (simp only: map_map comp_def map_eq_conv) blast
  have "sum_list (map (\<lambda>(a, row). if ar_mint row = Some mint then row_delta row else 0) (b_accounts b)) =
      sum_list (map (\<lambda>p. row_delta (snd p)) ?rows)"
    by (simp add: sum_list_map_filter' case_prod_unfold)
  also have "\<dots> = sum_list (map (net_delta (b_transfers b)) (map fst ?rows))"
    by (simp only: eq)
  also have "\<dots> = (\<Sum>a \<in> fst ` set ?rows. net_delta (b_transfers b) a)"
  proof -
    have "distinct (map fst ?rows)" using l(4) by (simp add: distinct_map_filter)
    then show ?thesis by (subst sum_list_distinct_conv_sum_set) auto
  qed
  also have "\<dots> = 0"
  proof (rule sum_net_delta)
    show "\<forall>x \<in> set (b_transfers b). lg_src x \<in> fst ` set ?rows \<and> lg_dst x \<in> fst ` set ?rows"
    proof
      fix x
      assume x: "x \<in> set (b_transfers b)"
      then obtain y where "y \<in> set legs" "unmark y = unmark x" using unmark_in_set [OF l(2)] l(1) by auto
      with l(3) have "leg_ok (b_accounts b) x" using leg_ok_unmark by blast
      moreover have "lg_mint x = mint" using x l(1) mint by simp
      ultimately show "lg_src x \<in> fst ` set ?rows \<and> lg_dst x \<in> fst ` set ?rows"
        by (force simp: leg_ok_def image_iff dest!: map_of_SomeD)
    qed
  qed simp
  finally show ?thesis .
qed

text \<open>
  C20: No sale without proof.  A transfer is called a verified sale only when a witness of the caller
  names its exact accounts, a trusted swap program, and amounts that equal the account deltas of the
  reconciled input and output legs.
\<close>

theorem sale_needs_witness:
  assumes "parse_transaction tx mint index witnesses programs lims = b"
    and "l \<in> set (b_transfers b)" and "lg_sale l"
  shows "\<exists>signature. \<exists>w \<in> set witnesses. b_signature b = Some signature \<and>
    sale_evidence signature mint (b_accounts b) programs w l"
  using assms(1)
proof (cases rule: parse_transaction_cases)
  case early
  with assms(2) show ?thesis by (simp add: rejected_def)
next
  case (interpreted b0 signature ks outer inner)
  let ?meta = "getd tx ''meta''"
  obtain accounts i1 where 1: "account_phase (map key_of ks) ?meta = (accounts, i1)" by fastforce
  obtain legs inc i2 where 2: "leg_phase accounts ?meta outer inner i1 = (legs, inc, i2)" by (metis prod_cases3)
  obtain final i3 where 3: "reconcile_phase legs inc accounts i2 = (final, i3)" by fastforce
  obtain legs' i4 where 4: "foldl (claim_sale signature (b_mint b0) final outer programs) (legs, i3) witnesses = (legs', i4)"
    by fastforce
  have bv: "b_accounts b = final" "b_transfers b = filter (\<lambda>l. lg_mint l = b_mint b0) legs'" "b_signature b = Some signature"
    using 1 2 3 4 interpreted by (simp_all add: interpret_transaction_def)
  from assms(2) bv(2) obtain i where i: "i < length legs'" "legs' ! i = l" by (auto simp: in_set_conv_nth)
  have len: "length legs' = length legs" using claim_sale_invariant [OF 4] by (metis length_map)
  have "\<not> lg_sale (legs ! i)"
  proof -
    obtain groups where "legs = legs_of (read_instructions accounts outer groups)"
      using 2 by (auto simp: leg_phase_def Let_def split: prod.splits)
    with legs_of_ok i(1) len show ?thesis by (metis nth_mem)
  qed
  with claim_sale_invariant [OF 4] i assms(3) obtain w where
    "w \<in> set witnesses" "sale_evidence signature (b_mint b0) final programs w l" by blast
  with bv interpreted(3) show ?thesis by auto
qed

section \<open>A worked transaction\<close>

text \<open>
  The owner \<open>O\<close> swaps 40 of the mint \<open>M\<close> in account \<open>A\<close> for 7 of the mint \<open>Q\<close> through program \<open>P\<close>;
  the two legs are the inner instructions of the swap.
\<close>

definition demo_balance :: "int \<Rightarrow> string \<Rightarrow> string \<Rightarrow> int \<Rightarrow> pyval" where
  "demo_balance i owner mint amount = PDict [(''accountIndex'', PInt i), (''owner'', PStr owner), (''mint'', PStr mint),
     (''uiTokenAmount'', PDict [(''amount'', PStr (str_of_int amount)), (''decimals'', PInt 6)])]"

definition demo_transfer :: "string \<Rightarrow> string \<Rightarrow> int \<Rightarrow> pyval" where
  "demo_transfer src dst amount = PDict [(''program'', PStr ''spl-token''), (''parsed'', PDict [(''type'', PStr ''transfer''),
     (''info'', PDict [(''source'', PStr src), (''destination'', PStr dst), (''amount'', PInt amount)])])]"

definition demo_swap_tx :: pyval where
  "demo_swap_tx = PDict [(''slot'', PInt 9),
     (''transaction'', PDict [(''signatures'', PList [PStr ''S1'']),
        (''message'', PDict [(''accountKeys'', PList [PStr ''A'', PStr ''V'', PStr ''R'', PStr ''W'']),
           (''instructions'', PList [PDict [(''programId'', PStr ''P'')]])])]),
     (''meta'', PDict [(''err'', PNone),
        (''preTokenBalances'', PList [demo_balance 0 ''O'' ''M'' 100, demo_balance 1 ''L'' ''M'' 500,
           demo_balance 2 ''O'' ''Q'' 0, demo_balance 3 ''L'' ''Q'' 70]),
        (''postTokenBalances'', PList [demo_balance 0 ''O'' ''M'' 60, demo_balance 1 ''L'' ''M'' 540,
           demo_balance 2 ''O'' ''Q'' 7, demo_balance 3 ''L'' ''Q'' 63]),
        (''innerInstructions'', PList [PDict [(''index'', PInt 0),
           (''instructions'', PList [demo_transfer ''A'' ''V'' 40, demo_transfer ''W'' ''R'' 7])]])])]"

definition demo_witness :: pyval where
  "demo_witness = PDict [(''signature'', PStr ''S1''), (''mint'', PStr ''M''), (''program_id'', PStr ''P''),
     (''outer_index'', PInt 0), (''owner'', PStr ''O''), (''input_account'', PStr ''A''), (''input_vault'', PStr ''V''),
     (''input_amount_raw'', PInt 40), (''output_mint'', PStr ''Q''), (''output_account'', PStr ''R''),
     (''output_vault'', PStr ''W''), (''output_amount_raw'', PInt 7)]"

definition demo_limits :: parse_limits where
  "demo_limits = \<lparr>pl_instructions = 512, pl_accounts = 256\<rparr>"

definition demo_batch :: batch where
  "demo_batch = parse_transaction demo_swap_tx ''M'' PNone [demo_witness] [''P''] demo_limits"

definition demo_row :: account_row where
  "demo_row = \<lparr>ar_owner = Some ''O'', ar_mint = Some ''M'', ar_decimals = Some 6, ar_before = Some 100,
     ar_after = Some 60, ar_identity = True, ar_complete = True\<rparr>"

definition demo_leg :: leg where
  "demo_leg = \<lparr>lg_outer = 0, lg_inner = 1, lg_src = ''A'', lg_dst = ''V'', lg_src_owner = Some ''O'',
     lg_dst_owner = Some ''L'', lg_mint = ''M'', lg_amount = 40, lg_sale = True\<rparr>"

lemma demo_batch_values:
  "b_status demo_batch = ''parsed'' \<and> map_of (b_accounts demo_batch) ''A'' = Some demo_row \<and>
   b_transfers demo_batch = [demo_leg]"
  by code_simp

theorem parsed_batch_reconciles_witness:
  "b_status demo_batch = ''parsed'' \<and> (\<exists>before after. ar_before demo_row = Some before \<and>
     ar_after demo_row = Some after \<and> after = before + net_delta (b_transfers demo_batch) ''A'')"
proof -
  have "(''A'', demo_row) \<in> set (b_accounts demo_batch)" using demo_batch_values by (simp add: map_of_SomeD)
  from parsed_batch_reconciles [OF demo_batch_def [symmetric] _ this] demo_batch_values show ?thesis
    by (simp add: demo_row_def)
qed

theorem parsed_batch_conserves_witness:
  "b_status demo_batch = ''parsed'' \<and> sum_list (map (\<lambda>(a, row).
     if ar_mint row = Some ''M'' then row_delta row else 0) (b_accounts demo_batch)) = 0"
  using parsed_batch_conserves [OF demo_batch_def [symmetric]] demo_batch_values by simp

theorem sale_needs_witness_witness:
  "lg_sale demo_leg \<and> sale_evidence ''S1'' ''M'' (b_accounts demo_batch) [''P''] demo_witness demo_leg"
proof -
  have "demo_leg \<in> set (b_transfers demo_batch)" "lg_sale demo_leg"
    using demo_batch_values by (simp_all add: demo_leg_def)
  from sale_needs_witness [OF demo_batch_def [symmetric] this] obtain s where
    "b_signature demo_batch = Some s" "sale_evidence s ''M'' (b_accounts demo_batch) [''P''] demo_witness demo_leg"
    by auto
  moreover have "b_signature demo_batch = Some ''S1''" by code_simp
  ultimately show ?thesis by (simp add: demo_leg_def)
qed

end
