(* ===== verification/Position_Replay.thy ===== *)
theory Position_Replay
  imports Position_Parse_Laws
begin

text \<open>
  \<^verbatim>\<open>src/solana_position_lineage.py\<close>, \<open>analyze_position\<close>: the replay of a frozen position over the
  batches of its transactions.  The state of the replay is the record \<open>replay\<close> (the function's local
  variables); every \<open>gap\<close> drops the guaranteed amounts of all accounts.
\<close>

named_theorems replay_simps \<open>definitions of the replay\<close>

section \<open>State\<close>

record node =
  n_owner :: "string option"
  n_balance :: int
  n_lower :: int
  n_upper :: int
  n_depth :: int
  n_slot :: int             \<comment> \<open>\<open>observed_slot\<close>\<close>

type_synonym nodes = "(string \<times> node) list"

record edge =
  e_signature :: "string option"
  e_slot :: "int option"
  e_outer :: nat
  e_inner :: nat
  e_src :: string
  e_src_owner :: "string option"
  e_dst :: string
  e_dst_owner :: "string option"
  e_amount :: int
  e_lower :: int            \<comment> \<open>\<open>attributed_lower_raw\<close>\<close>
  e_upper :: int
  e_resolution :: string
  e_disposition :: string

record replay =
  rp_nodes :: nodes
  rp_complete :: bool
  rp_issues :: "string list"
  rp_sold_lower :: int
  rp_sold_upper :: int
  rp_sale :: int            \<comment> \<open>\<open>observed_sale\<close>\<close>
  rp_edges :: "edge list"

record replay_options =
  ro_accounts :: "string list"   \<comment> \<open>\<open>service_accounts\<close>\<close>
  ro_owners :: "string list"     \<comment> \<open>\<open>service_owners\<close>\<close>
  ro_max_transactions :: int
  ro_max_events :: int
  ro_max_accounts :: int
  ro_max_depth :: int

definition drop_lower :: "nodes \<Rightarrow> nodes" where
  "drop_lower = map (\<lambda>(a, n). (a, n\<lparr>n_lower := 0\<rparr>))"

definition gap :: "string \<Rightarrow> replay \<Rightarrow> replay" where
  "gap reason s = s\<lparr>rp_issues := insert_new reason (rp_issues s), rp_complete := False,
                    rp_nodes := drop_lower (rp_nodes s)\<rparr>"

definition gap_if :: "bool \<Rightarrow> string \<Rightarrow> replay \<Rightarrow> replay" where
  "gap_if b reason s = (if b then gap reason s else s)"

definition set_node :: "string \<Rightarrow> node \<Rightarrow> replay \<Rightarrow> replay" where
  "set_node a n s = s\<lparr>rp_nodes := AList.update a n (rp_nodes s)\<rparr>"

definition raw_int :: "int \<Rightarrow> int res" where
  "raw_int i = (if i < 0 then Inl raw_error else Inr i)"

definition raw_opt :: "int option \<Rightarrow> int res" where
  "raw_opt x = (case x of None \<Rightarrow> Inl raw_error | Some i \<Rightarrow> raw_int i)"

section \<open>Seeds\<close>

record seeding =
  sd_nodes :: nodes
  sd_originals :: "string option list"
  sd_total :: int
  sd_unverified :: bool      \<comment> \<open>\<open>receipt_boundary_unverified\<close>\<close>

definition receipt_scope :: string where
  "receipt_scope = ''receipt_component_not_entire_cohort''"

definition raw_default :: "pyval \<Rightarrow> string \<Rightarrow> int \<Rightarrow> int res" where
  "raw_default d k v = bindR (dget_default d k (PInt v)) raw_of"

definition seed_scope :: "pyval \<Rightarrow> int \<Rightarrow> bool res" where
  "seed_scope seed start =
     (if getd seed ''scope'' = PStr receipt_scope then
        bindR (raw_of (getd seed ''seed_slot'')) (\<lambda>slot.
          if slot \<noteq> start \<or> address (getd seed ''seed_signature'') = None
          then Inl (ValueError ''Receipt components require their own exact seed slot and signature'')
          else Inr (getd seed ''receipt_slot_boundary_verified'' \<noteq> PBool True))
      else Inr False)"

definition seed_add :: "string \<Rightarrow> replay_options \<Rightarrow> int \<Rightarrow> seeding \<Rightarrow> pyval \<Rightarrow> seeding res" where
  "seed_add mint opt start sd seed =
     (if \<not> is_dict seed then Inl (ValueError ''Seed rows must contain exact token account evidence'')
      else (case (address (getd seed ''account''), address (getd seed ''owner'')) of
        (Some account, Some owner) \<Rightarrow>
          if getd seed ''mint'' \<noteq> PStr mint \<or> account \<in> set (map fst (sd_nodes sd))
          then Inl (ValueError ''Seeds require unique exact mint/account/owner scope'')
          else if account \<in> set (ro_accounts opt) \<or> owner \<in> set (ro_owners opt)
          then Inl (ValueError ''A public service cannot seed an original wallet position'')
          else bindR (seed_scope seed start) (\<lambda>unverified.
               bindR (raw_of (getd seed ''bought_raw'')) (\<lambda>bought.
               bindR (raw_of (getd seed ''balance_raw'')) (\<lambda>balance.
               bindR (raw_default seed ''retained_lower_raw'' 0) (\<lambda>lower.
               bindR (raw_default seed ''retained_upper_raw'' (min balance bought)) (\<lambda>upper.
                 if \<not> (lower \<le> upper \<and> upper \<le> min balance bought)
                 then Inl (ValueError ''Seed bounds exceed frozen purchases or token balance'')
                 else Inr \<lparr>sd_nodes = sd_nodes sd @ [(account, \<lparr>n_owner = Some owner, n_balance = balance, n_lower = lower,
                                          n_upper = upper, n_depth = 0, n_slot = start\<rparr>)],
                           sd_originals = insert_new (Some owner) (sd_originals sd),
                           sd_total = sd_total sd + bought,
                           sd_unverified = (sd_unverified sd \<or> unverified)\<rparr>)))))
      | _ \<Rightarrow> Inl (ValueError ''Seeds require unique exact mint/account/owner scope'')))"

definition read_seeds :: "string \<Rightarrow> replay_options \<Rightarrow> int \<Rightarrow> pyval list \<Rightarrow> seeding res" where
  "read_seeds mint opt start seeds =
     foldR (seed_add mint opt start)
       \<lparr>sd_nodes = [], sd_originals = [], sd_total = 0, sd_unverified = False\<rparr> seeds"

definition start_replay :: "replay_options \<Rightarrow> bool \<Rightarrow> seeding \<Rightarrow> replay" where
  "start_replay opt history_complete sd =
     (let over = int (length (sd_nodes sd)) > ro_max_accounts opt;
          complete = (history_complete \<and> \<not> over);
          s = \<lparr>rp_nodes = (if over then take (nat (ro_max_accounts opt)) (sd_nodes sd) else sd_nodes sd),
               rp_complete = complete,
               rp_issues = add_if over ''account_limit'' (add_if (\<not> history_complete) ''incomplete_history'' []),
               rp_sold_lower = 0, rp_sold_upper = 0, rp_sale = 0, rp_edges = []\<rparr>
      in gap_if (sd_unverified sd) ''receipt_seed_slot_boundary_unverified''
           (gap_if (\<not> complete) ''incomplete_history'' s))"

section \<open>Order of the batches\<close>

text \<open>Duplicates: a second, different batch of a signature is a conflict.\<close>

definition unique_add ::
    "string \<Rightarrow> (string \<times> batch) list \<times> string list \<times> replay \<Rightarrow> batch \<Rightarrow> (string \<times> batch) list \<times> string list \<times> replay" where
  "unique_add mint st b =
     (case st of (unique, conflicts, s) \<Rightarrow>
        if b_version b \<noteq> lineage_version \<or> b_mint b \<noteq> mint then (unique, conflicts, gap ''invalid_batch_scope'' s)
        else (case b_signature b of
            None \<Rightarrow> (unique, conflicts, gap ''missing_transaction_signature'' s)
          | Some sig \<Rightarrow>
              (case map_of unique sig of
                 None \<Rightarrow> (AList.update sig b unique, conflicts, s)
               | Some b' \<Rightarrow>
                   if b' \<noteq> b then (unique, insert_new sig conflicts, gap ''conflicting_duplicate_transaction'' s)
                   else (unique, conflicts, s))))"

definition batch_index :: "batch \<Rightarrow> int option res" where
  "batch_index b = (if b_index b = PNone then Inr None else bindR (raw_of (b_index b)) (\<lambda>i. Inr (Some i)))"

definition slot_add ::
    "int \<Rightarrow> int \<Rightarrow> (int \<times> int option \<times> batch) list \<times> replay \<Rightarrow> batch \<Rightarrow> (int \<times> int option \<times> batch) list \<times> replay" where
  "slot_add start end st b =
     (case st of (rows, s) \<Rightarrow>
       (case raw_opt (b_slot b) of
          Inl e \<Rightarrow> (rows, gap ''missing_canonical_order'' s)
        | Inr slot \<Rightarrow>
            if \<not> (start < slot \<and> slot \<le> end) then (rows, gap ''transaction_outside_horizon'' s)
            else (case batch_index b of
                Inl e \<Rightarrow> (rows, gap ''missing_canonical_order'' s)
              | Inr i \<Rightarrow> (rows @ [(slot, i, b)], s))))"

definition slot_group ::
    "(int \<times> int option \<times> batch) list \<Rightarrow> batch list \<times> replay \<Rightarrow> int \<Rightarrow> batch list \<times> replay" where
  "slot_group rows st slot =
     (case st of (ordered, s) \<Rightarrow>
       (let rowset = filter (\<lambda>r. fst r = slot) rows; indices = map (\<lambda>r. fst (snd r)) rowset in
        if length rowset > 1 \<and> (None \<in> set indices \<or> \<not> distinct indices)
        then (ordered, gap ''ambiguous_same_slot_order'' s)
        else (ordered @ map (\<lambda>r. snd (snd r)) (sort_key (\<lambda>r. case fst (snd r) of None \<Rightarrow> 0 | Some i \<Rightarrow> i) rowset), s)))"

definition order_batches ::
    "string \<Rightarrow> int \<Rightarrow> int \<Rightarrow> replay_options \<Rightarrow> batch list \<Rightarrow> replay \<Rightarrow> batch list \<times> replay" where
  "order_batches mint start end opt batches s =
     (let over = int (length batches) > ro_max_transactions opt;
          (unique, conflicts, s1) = foldl (unique_add mint) ([], [], gap_if over ''transaction_limit'' s)
                                      (if over then [] else batches);
          (rows, s2) = foldl (slot_add start end) ([], s1)
                         (map snd (filter (\<lambda>p. fst p \<notin> set conflicts) unique));
          (ordered, s3) = foldl (slot_group rows) ([], s2) (sorted_set (map fst rows));
          many = int (sum_list (map (\<lambda>b. length (b_transfers b)) ordered)) > ro_max_events opt
      in (if many then [] else ordered, gap_if many ''event_limit'' s3))"

section \<open>One batch\<close>

text \<open>Before the legs: the accounts of the batch against the replayed balances.\<close>

definition check_before :: "string \<Rightarrow> replay \<Rightarrow> string \<times> account_row \<Rightarrow> replay res" where
  "check_before mint s p =
     (case p of (a, row) \<Rightarrow>
       (case map_of (rp_nodes s) a of
          None \<Rightarrow> Inr s
        | Some n \<Rightarrow>
            if ar_mint row \<noteq> Some mint then Inr s
            else if ar_owner row \<noteq> n_owner n
            then Inr (set_node a (n\<lparr>n_lower := 0, n_upper := 0\<rparr>) (gap ''token_account_owner_changed'' s))
            else (case ar_before row of
                None \<Rightarrow> Inr (gap ''missing_pre_balance'' s)
              | Some b \<Rightarrow>
                  if b < 0 then Inl raw_error
                  else if b \<noteq> n_balance n
                  then Inr (set_node a (n\<lparr>n_lower := 0, n_balance := b, n_upper := min (n_upper n) b\<rparr>) (gap ''ledger_gap'' s))
                  else Inr s)))"

text \<open>What a transfer takes from its sender: the part that must be original, and the part that can be.\<close>

definition guaranteed :: "int \<Rightarrow> node \<Rightarrow> int" where
  "guaranteed amount n = max 0 (amount - (n_balance n - n_lower n))"

definition debit :: "int \<Rightarrow> int \<Rightarrow> node \<Rightarrow> node" where
  "debit amount slot n = n\<lparr>n_balance := n_balance n - amount, n_lower := max 0 (n_lower n - amount),
     n_upper := min (n_upper n) (n_balance n - amount), n_slot := slot\<rparr>"

definition send_leg :: "leg \<Rightarrow> bool \<Rightarrow> int \<Rightarrow> replay \<Rightarrow> replay \<times> int \<times> int" where
  "send_leg l valid slot s =
     (case map_of (rp_nodes s) (lg_src l) of
        None \<Rightarrow> (s, 0, 0)
      | Some n \<Rightarrow>
          if lg_src_owner l \<noteq> n_owner n then (s, 0, 0)
          else if lg_amount l > n_balance n
          then (set_node (lg_src l) (n\<lparr>n_lower := 0, n_upper := 0\<rparr>) (gap ''unreconciled_intermediate_balance'' s), 0, 0)
          else (set_node (lg_src l) (debit (lg_amount l) slot n) s,
                if valid then guaranteed (lg_amount l) n else 0, min (lg_amount l) (n_upper n)))"

definition service_leg :: "replay_options \<Rightarrow> leg \<Rightarrow> bool" where
  "service_leg opt l \<longleftrightarrow> lg_dst l \<in> set (ro_accounts opt) \<or>
     (case lg_dst_owner l of None \<Rightarrow> False | Some o' \<Rightarrow> o' \<in> set (ro_owners opt))"

definition sell_leg :: "leg \<Rightarrow> int \<Rightarrow> int \<Rightarrow> replay \<Rightarrow> replay" where
  "sell_leg l lower upper s =
     s\<lparr>rp_sale := rp_sale s + lg_amount l, rp_sold_lower := rp_sold_lower s + lower,
       rp_sold_upper := rp_sold_upper s + upper\<rparr>"

text \<open>A new account reached by a possible flow of the position, within the limits.\<close>

definition discover_leg ::
    "replay_options \<Rightarrow> leg \<Rightarrow> account_row \<Rightarrow> int \<Rightarrow> node \<Rightarrow> replay \<Rightarrow> replay res" where
  "discover_leg opt l drow slot sender s =
     (if int (length (rp_nodes s)) \<ge> ro_max_accounts opt
      then Inr (s\<lparr>rp_issues := insert_new ''account_limit'' (rp_issues s)\<rparr>)
      else if n_depth sender + 1 > ro_max_depth opt
      then Inr (s\<lparr>rp_issues := insert_new ''depth_limit'' (rp_issues s)\<rparr>)
      else bindR (raw_opt (ar_before drow)) (\<lambda>b.
        Inr (set_node (lg_dst l) \<lparr>n_owner = lg_dst_owner l, n_balance = b, n_lower = 0, n_upper = 0,
               n_depth = n_depth sender + 1, n_slot = slot\<rparr> s)))"

definition receive_leg :: "leg \<Rightarrow> bool \<Rightarrow> int \<Rightarrow> int \<Rightarrow> int \<Rightarrow> replay \<Rightarrow> replay" where
  "receive_leg l valid lower upper slot s =
     (case map_of (rp_nodes s) (lg_dst l) of
        None \<Rightarrow> s
      | Some n \<Rightarrow>
          if n_owner n \<noteq> lg_dst_owner l then s
          else set_node (lg_dst l) (n\<lparr>n_balance := n_balance n + lg_amount l,
                 n_lower := n_lower n + (if valid then lower else 0),
                 n_upper := n_upper n + (if valid then upper else 0), n_slot := slot\<rparr>) s)"

definition leg_resolution :: "bool \<Rightarrow> bool \<Rightarrow> bool \<Rightarrow> string \<times> string" where
  "leg_resolution sale service valid =
     (if sale then (''verified_sale'', ''sale'')
      else if service then (''service_destination_unresolved'', ''custody'')
      else if \<not> valid then (''unknown_outflow'', ''unknown'')
      else (''direct_transfer'', ''transfer''))"

definition leg_edge :: "batch \<Rightarrow> leg \<Rightarrow> int \<Rightarrow> int \<Rightarrow> string \<times> string \<Rightarrow> edge" where
  "leg_edge b l lower upper r =
     \<lparr>e_signature = b_signature b, e_slot = b_slot b, e_outer = lg_outer l, e_inner = lg_inner l,
      e_src = lg_src l, e_src_owner = lg_src_owner l, e_dst = lg_dst l, e_dst_owner = lg_dst_owner l,
      e_amount = lg_amount l, e_lower = lower, e_upper = upper,
      e_resolution = fst r, e_disposition = snd r\<rparr>"

text \<open>Where the amount goes: to the sales, to a service, or to a tracked or newly found account.\<close>

definition place_leg ::
    "replay_options \<Rightarrow> leg \<Rightarrow> account_row \<Rightarrow> int \<Rightarrow> bool \<Rightarrow> node option \<Rightarrow> int \<Rightarrow> int \<Rightarrow> replay \<Rightarrow> replay res" where
  "place_leg opt l drow slot valid sender lower upper s =
     (if lg_sale l \<and> valid then Inr (sell_leg l lower upper s)
      else if service_leg opt l then Inr s
      else bindR (if valid \<and> map_of (rp_nodes s) (lg_dst l) = None \<and> sender \<noteq> None \<and> upper \<noteq> 0
                  then discover_leg opt l drow slot (the sender) s else Inr s)
             (\<lambda>s'. Inr (receive_leg l valid lower upper slot s')))"

definition note_edge :: "bool \<Rightarrow> edge \<Rightarrow> replay \<Rightarrow> replay" where
  "note_edge tracked e s = (if tracked then s\<lparr>rp_edges := rp_edges s @ [e]\<rparr> else s)"

definition replay_leg :: "replay_options \<Rightarrow> batch \<Rightarrow> int \<Rightarrow> replay \<Rightarrow> leg \<Rightarrow> replay res" where
  "replay_leg opt b slot s l =
     bindR (raw_int (lg_amount l)) (\<lambda>amount.
       if lg_src l = lg_dst l \<or> amount = 0 then Inr s
       else (case (map_of (b_accounts b) (lg_src l), map_of (b_accounts b) (lg_dst l)) of
           (Some srow, Some drow) \<Rightarrow>
             (let sender = map_of (rp_nodes s) (lg_src l);
                  valid = (ar_complete srow \<and> ar_complete drow);
                  (s1, lower, upper) = send_leg l valid slot s
              in bindR (place_leg opt l drow slot valid sender lower upper s1) (\<lambda>s2.
                   Inr (note_edge (sender \<noteq> None)
                          (leg_edge b l lower upper (leg_resolution (lg_sale l \<and> valid) (service_leg opt l) valid)) s2)))
         | _ \<Rightarrow> Inl KeyError))"

definition check_after :: "string \<Rightarrow> int \<Rightarrow> replay \<Rightarrow> string \<times> account_row \<Rightarrow> replay res" where
  "check_after mint slot s p =
     (case p of (a, row) \<Rightarrow>
       (case (map_of (rp_nodes s) a, ar_after row) of
          (Some n, Some v) \<Rightarrow>
            if ar_mint row \<noteq> Some mint then Inr s
            else if v < 0 then Inl raw_error
            else if n_balance n \<noteq> v
            then Inr (set_node a (n\<lparr>n_lower := 0, n_balance := v, n_upper := min (n_upper n) v, n_slot := slot\<rparr>)
                        (gap ''ledger_gap'' s))
            else Inr (set_node a (n\<lparr>n_slot := slot\<rparr>) s)
        | _ \<Rightarrow> Inr s))"

definition replay_batch :: "string \<Rightarrow> replay_options \<Rightarrow> replay \<Rightarrow> batch \<Rightarrow> replay res" where
  "replay_batch mint opt s b =
     (if b_status b = ''failed'' then Inr s
      else if b_status b \<noteq> ''parsed'' \<and> b_status b \<noteq> ''partial'' then Inr (gap ''unavailable_transaction'' s)
      else
        (let slot = (case b_slot b of None \<Rightarrow> 0 | Some k \<Rightarrow> k);
             s1 = gap_if (b_status b = ''partial'') ''partial_transaction'' s;
             s2 = gap_if (list_ex (\<lambda>p. ar_mint (snd p) = Some mint \<and> \<not> ar_complete (snd p)) (b_accounts b))
                    ''incomplete_transaction_accounts'' s1
         in bindR (foldR (check_before mint) s2 (b_accounts b)) (\<lambda>s3.
            bindR (foldR (replay_leg opt b slot) s3 (b_transfers b)) (\<lambda>s4.
              foldR (check_after mint slot) s4 (b_accounts b)))))"

section \<open>Closing balances and the summary\<close>

definition closing_scope :: "string \<Rightarrow> int \<Rightarrow> nodes \<Rightarrow> pyval \<Rightarrow> (string \<times> node) option res" where
  "closing_scope mint end ns row =
     bindR (dget row ''account'') (\<lambda>acc.
       if getd row ''mint'' \<noteq> PStr mint \<or> \<not> py_eq (PInt end) (getd row ''slot'') then Inr None
       else bindR (py_in_strs acc (map fst ns)) (\<lambda>known.
         if \<not> known then Inr None
         else Inr (case acc of
             PStr a \<Rightarrow> (case map_of ns a of
                None \<Rightarrow> None
              | Some n \<Rightarrow> if getd row ''owner'' \<noteq> (case n_owner n of None \<Rightarrow> PNone | Some o' \<Rightarrow> PStr o')
                          then None else Some (a, n))
           | _ \<Rightarrow> None)))"

definition closing_add ::
    "string \<Rightarrow> int \<Rightarrow> (string \<times> int option) list \<times> replay \<Rightarrow> pyval \<Rightarrow> ((string \<times> int option) list \<times> replay) res" where
  "closing_add mint end st row =
     (case st of (closing, s) \<Rightarrow>
       bindR (closing_scope mint end (rp_nodes s) row) (\<lambda>scope.
         (case scope of
            None \<Rightarrow> Inr (closing, gap ''invalid_closing_balance_scope'' s)
          | Some (a, n) \<Rightarrow>
              (case raw_of (getd row ''balance_raw'') of
                 Inl e \<Rightarrow> Inr (closing, gap ''invalid_closing_balance_amount'' s)
               | Inr amount \<Rightarrow>
                   (case map_of closing a of
                      None \<Rightarrow> Inr (AList.update a (Some amount) closing, s)
                    | Some old \<Rightarrow>
                        if old \<noteq> Some amount
                        then Inr (AList.update a None closing, gap ''conflicting_closing_balance'' s)
                        else Inr (closing, s))))))"

definition closing_apply :: "int \<Rightarrow> replay \<Rightarrow> string \<times> int option \<Rightarrow> replay" where
  "closing_apply end s p =
     (case p of (a, None) \<Rightarrow> s
      | (a, Some amount) \<Rightarrow>
          (let s1 = gap_if (map_option n_balance (map_of (rp_nodes s) a) \<noteq> Some amount) ''closing_balance_mismatch'' s in
           case map_of (rp_nodes s1) a of
             None \<Rightarrow> s1
           | Some n \<Rightarrow> set_node a (n\<lparr>n_balance := amount, n_upper := min (n_upper n) amount, n_slot := end\<rparr>) s1))"

definition sum_nodes :: "(node \<Rightarrow> bool) \<Rightarrow> (node \<Rightarrow> int) \<Rightarrow> nodes \<Rightarrow> int" where
  "sum_nodes P f ns = sum_list (map (\<lambda>(a, n). if P n then f n else 0) ns)"

record location =
  lo_account :: string
  lo_owner :: "string option"
  lo_original :: bool           \<comment> \<open>\<open>role\<close>\<close>
  lo_depth :: int
  lo_current :: "int option"    \<comment> \<open>\<open>current_balance_raw\<close>\<close>
  lo_last :: int                \<comment> \<open>\<open>last_observed_balance_raw\<close>\<close>
  lo_slot :: int
  lo_lower :: int
  lo_upper :: int

record summary =
  su_from :: int
  su_checked :: int
  su_status :: string
  su_complete :: bool
  su_asserted :: bool           \<comment> \<open>\<open>history_basis\<close>\<close>
  su_bought :: int
  su_original :: int
  su_transferred :: int
  su_sold :: int
  su_unknown :: int
  su_upper_original :: int
  su_upper_transferred :: int
  su_upper_sold :: int
  su_observed_sale :: int
  su_locations :: "location list"
  su_edges :: "edge list"
  su_issues :: "string list"

definition summarize ::
    "int \<Rightarrow> int \<Rightarrow> bool \<Rightarrow> seeding \<Rightarrow> (string \<times> int option) list \<Rightarrow> replay \<Rightarrow> summary res" where
  "summarize start end asserted sd closing s =
     (let orig = (\<lambda>n. n_owner n \<in> set (sd_originals sd)); other = (\<lambda>n. n_owner n \<notin> set (sd_originals sd));
          ns = rp_nodes s; total = sd_total sd; complete = rp_complete s;
          original = sum_nodes orig n_lower ns; transferred = sum_nodes other n_lower ns;
          unknown = total - original - transferred - rp_sold_lower s;
          remaining = total - rp_sold_lower s;
          upper_original = (if complete
            then min (remaining - transferred)
                   (min (sum_nodes orig n_balance ns) (unknown + sum_nodes orig n_upper ns)) else remaining);
          upper_transferred = (if complete
            then min (remaining - original) (unknown + sum_nodes other n_upper ns) else remaining);
          current = (\<lambda>a. complete \<or> (case map_of closing a of Some (Some v) \<Rightarrow> True | _ \<Rightarrow> False))
      in if unknown < 0 then Inl (ValueError ''Attribution exceeds the frozen original position'')
         else Inr \<lparr>su_from = start, su_checked = end,
           su_status = (if complete \<and> rp_issues s = [] then ''checked'' else ''partial''),
           su_complete = complete, su_asserted = asserted, su_bought = total,
           su_original = original, su_transferred = transferred, su_sold = rp_sold_lower s, su_unknown = unknown,
           su_upper_original = upper_original, su_upper_transferred = upper_transferred,
           su_upper_sold = min (total - original - transferred) (rp_sold_upper s),
           su_observed_sale = rp_sale s,
           su_locations = map (\<lambda>(a, n). \<lparr>lo_account = a, lo_owner = n_owner n, lo_original = orig n,
             lo_depth = n_depth n, lo_current = (if current a then Some (n_balance n) else None),
             lo_last = n_balance n, lo_slot = n_slot n, lo_lower = n_lower n,
             lo_upper = (if current a then min (if complete then n_upper n + unknown else remaining) (n_balance n)
                         else remaining)\<rparr>) (sort_key fst ns),
           su_edges = rp_edges s, su_issues = sorted_set (rp_issues s)\<rparr>)"

section \<open>analyze_position\<close>

definition analyze ::
    "string \<Rightarrow> pyval list \<Rightarrow> batch list \<Rightarrow> int \<Rightarrow> int \<Rightarrow> bool \<Rightarrow> pyval list \<Rightarrow> replay_options \<Rightarrow> summary res" where
  "analyze mint seeds batches start end history_complete closing_balances opt =
     (if end < start then Inl (ValueError ''Position horizon precedes seed'')
      else bindR (read_seeds mint opt start seeds) (\<lambda>sd.
        case order_batches mint start end opt batches (start_replay opt history_complete sd) of
          (ordered, s1) \<Rightarrow>
            bindR (foldR (replay_batch mint opt) s1 ordered) (\<lambda>s2.
            bindR (foldR (closing_add mint end) ([], s2) closing_balances) (\<lambda>(closing, s3).
              summarize start end history_complete sd closing (foldl (closing_apply end) s3 closing)))))"

text \<open>The arguments as Python values: an inexact mint or a bad bound raises first.\<close>

definition analyze_position ::
    "pyval \<Rightarrow> pyval list \<Rightarrow> batch list \<Rightarrow> pyval \<Rightarrow> pyval \<Rightarrow> bool \<Rightarrow> pyval list \<Rightarrow> string list \<Rightarrow> string list \<Rightarrow>
     pyval \<times> pyval \<times> pyval \<times> pyval \<Rightarrow> summary res" where
  "analyze_position mint seeds batches from_slot to_slot history_complete closing_balances
       service_accounts service_owners limits =
     (case address mint of
        None \<Rightarrow> Inl (ValueError ''Expected exact mint and bounded seed/batch sequences'')
      | Some m \<Rightarrow>
          bindR (raw_of from_slot) (\<lambda>start. bindR (raw_of to_slot) (\<lambda>end.
            if end < start then Inl (ValueError ''Position horizon precedes seed'')
            else (case limits of (lt, le, la, ld) \<Rightarrow>
              bindR (raw_of lt) (\<lambda>mt. bindR (raw_of le) (\<lambda>me. bindR (raw_of la) (\<lambda>ma. bindR (raw_of ld) (\<lambda>md.
                analyze m seeds batches start end history_complete closing_balances
                  \<lparr>ro_accounts = service_accounts, ro_owners = service_owners, ro_max_transactions = mt,
                   ro_max_events = me, ro_max_accounts = ma, ro_max_depth = md\<rparr>))))))))"

end
