(* ===== verification/Position_Replay_Laws.thy ===== *)
theory Position_Replay_Laws
  imports Position_Replay
begin

text \<open>
  What the replay keeps true: an account's guaranteed amount never exceeds what it may hold, nor its
  balance; the guaranteed amounts of all accounts and of the sales never exceed the position; and
  once a gap is seen nothing is guaranteed any more.
\<close>

section \<open>The invariant\<close>

definition node_ok :: "node \<Rightarrow> bool" where
  "node_ok n \<longleftrightarrow> 0 \<le> n_lower n \<and> n_lower n \<le> n_upper n \<and> n_upper n \<le> n_balance n"

definition lower_sum :: "nodes \<Rightarrow> int" where
  "lower_sum ns = sum_list (map (\<lambda>(a, n). n_lower n) ns)"

definition replay_ok :: "int \<Rightarrow> replay \<Rightarrow> bool" where
  "replay_ok pos s \<longleftrightarrow>
     distinct (map fst (rp_nodes s)) \<and> (\<forall>p \<in> set (rp_nodes s). node_ok (snd p)) \<and>
     0 \<le> rp_sold_lower s \<and> rp_sold_lower s \<le> rp_sold_upper s \<and>
     lower_sum (rp_nodes s) + rp_sold_lower s \<le> pos \<and>
     (\<not> rp_complete s \<longrightarrow> (\<forall>p \<in> set (rp_nodes s). n_lower (snd p) = 0))"

lemma replay_okD:
  assumes "replay_ok pos s" "map_of (rp_nodes s) a = Some n"
  shows "node_ok n" "\<not> rp_complete s \<Longrightarrow> n_lower n = 0"
  using assms by (force simp: replay_ok_def dest!: map_of_SomeD)+

lemma lower_sum_nonneg: "\<forall>p \<in> set ns. node_ok (snd p) \<Longrightarrow> 0 \<le> lower_sum ns"
  by (induction ns) (auto simp: lower_sum_def node_ok_def)

lemma lower_sum_zero: "\<forall>p \<in> set ns. n_lower (snd p) = 0 \<Longrightarrow> lower_sum ns = 0"
  by (induction ns) (auto simp: lower_sum_def)

lemma lower_sum_old:
  "distinct (map fst ns) \<Longrightarrow> map_of ns a = Some n' \<Longrightarrow>
     lower_sum (AList.update a n ns) = lower_sum ns + n_lower n - n_lower n'"
  unfolding lower_sum_def by (rule sum_update_old)

lemma lower_sum_new:
  "map_of ns a = None \<Longrightarrow> lower_sum (AList.update a n ns) = lower_sum ns + n_lower n"
  unfolding lower_sum_def by (rule sum_update_new)

lemma drop_lower_facts [simp]:
  "map fst (drop_lower ns) = map fst ns" "lower_sum (drop_lower ns) = 0"
  "map_of (drop_lower ns) a = map_option (\<lambda>n. n\<lparr>n_lower := 0\<rparr>) (map_of ns a)"
proof -
  show "map fst (drop_lower ns) = map fst ns" by (simp add: drop_lower_def case_prod_beta comp_def)
  show "lower_sum (drop_lower ns) = 0"
    by (rule lower_sum_zero) (auto simp: drop_lower_def)
  show "map_of (drop_lower ns) a = map_option (\<lambda>n. n\<lparr>n_lower := 0\<rparr>) (map_of ns a)"
    by (simp add: drop_lower_def map_of_map)
qed

lemma gap_simps [simp]:
  "rp_nodes (gap r s) = drop_lower (rp_nodes s)" "rp_complete (gap r s) = False"
  "rp_sold_lower (gap r s) = rp_sold_lower s" "rp_sold_upper (gap r s) = rp_sold_upper s"
  "rp_sale (gap r s) = rp_sale s" "rp_edges (gap r s) = rp_edges s"
  by (simp_all add: gap_def)

lemma set_node_simps [simp]:
  "rp_nodes (set_node a n s) = AList.update a n (rp_nodes s)" "rp_complete (set_node a n s) = rp_complete s"
  "rp_sold_lower (set_node a n s) = rp_sold_lower s" "rp_sold_upper (set_node a n s) = rp_sold_upper s"
  "rp_issues (set_node a n s) = rp_issues s" "rp_sale (set_node a n s) = rp_sale s"
  by (simp_all add: set_node_def)

lemma gap_ok [intro]: "replay_ok pos s \<Longrightarrow> replay_ok pos (gap r s)"
proof -
  assume ok: "replay_ok pos s"
  then have "0 \<le> lower_sum (rp_nodes s)" by (simp add: replay_ok_def lower_sum_nonneg)
  moreover have "\<forall>p \<in> set (drop_lower (rp_nodes s)). node_ok (snd p) \<and> n_lower (snd p) = 0"
    using ok by (force simp: replay_ok_def drop_lower_def node_ok_def)
  ultimately show ?thesis using ok by (simp add: replay_ok_def)
qed

lemma gap_if_ok [intro]: "replay_ok pos s \<Longrightarrow> replay_ok pos (gap_if b r s)"
  by (auto simp: gap_if_def)

lemma node_update_ok:
  assumes ok: "replay_ok pos s" and n: "map_of (rp_nodes s) a = Some n'" "node_ok n" "n_lower n \<le> n_lower n'"
  shows "replay_ok pos (set_node a n s)"
proof -
  have d: "distinct (map fst (rp_nodes s))" using ok by (simp add: replay_ok_def)
  have "lower_sum (AList.update a n (rp_nodes s)) \<le> lower_sum (rp_nodes s)"
    using lower_sum_old [OF d n(1), of n] n(3) by simp
  moreover have "\<not> rp_complete s \<Longrightarrow> n_lower n = 0" using replay_okD(2) [OF ok n(1)] n(2,3) by (simp add: node_ok_def)
  ultimately show ?thesis
    using ok n(2) set_update_subset [of a n "rp_nodes s"] by (force simp: replay_ok_def)
qed

lemma issues_ok [simp]: "replay_ok pos (s\<lparr>rp_issues := i\<rparr>) = replay_ok pos s"
  "replay_ok pos (s\<lparr>rp_edges := e\<rparr>) = replay_ok pos s"
  by (simp_all add: replay_ok_def)

text \<open>An account reset after a gap.\<close>

lemma reset_ok:
  assumes "replay_ok pos s" "map_of (rp_nodes s) a = Some n" "n_lower m = 0" "0 \<le> n_upper m" "n_upper m \<le> n_balance m"
  shows "replay_ok pos (set_node a m (gap r s))"
  by (rule node_update_ok [where n' = "n\<lparr>n_lower := 0\<rparr>"]) (use assms in \<open>auto simp: node_ok_def\<close>)

section \<open>Every step keeps it\<close>

lemma check_before_ok:
  assumes "replay_ok pos s" "check_before mint s p = Inr s'"
  shows "replay_ok pos s'"
proof -
  obtain a row where p: "p = (a, row)" by (cases p)
  show ?thesis
  proof (cases "map_of (rp_nodes s) a")
    case None
    with assms p show ?thesis by (simp add: check_before_def)
  next
    case (Some n)
    have n: "node_ok n" by (rule replay_okD(1) [OF assms(1) Some])
    then have b: "0 \<le> n_upper n" "n_upper n \<le> n_balance n" by (auto simp: node_ok_def)
    show ?thesis
    proof (cases "ar_before row")
      case None
      with Some assms p b show ?thesis
        by (auto simp: check_before_def split: if_splits intro: reset_ok [OF assms(1) Some])
    next
      case b': (Some v)
      with Some assms p b show ?thesis
        by (auto simp: check_before_def split: if_splits intro!: reset_ok [OF assms(1) Some])
    qed
  qed
qed

lemma check_after_ok:
  assumes ok: "replay_ok pos s" and run: "check_after mint slot s p = Inr s'"
  shows "replay_ok pos s'"
proof -
  obtain a row where p: "p = (a, row)" by (cases p)
  show ?thesis
  proof (cases "map_of (rp_nodes s) a")
    case None
    with run p ok show ?thesis by (auto simp: check_after_def)
  next
    case (Some n)
    have n: "node_ok n" by (rule replay_okD(1) [OF ok Some])
    have reset: "replay_ok pos (set_node a (n\<lparr>n_lower := 0, n_balance := v, n_upper := min (n_upper n) v, n_slot := slot\<rparr>)
        (gap ''ledger_gap'' s))" if "0 \<le> v" for v
      by (rule reset_ok [OF ok Some]) (use n that in \<open>auto simp: node_ok_def\<close>)
    have keep: "replay_ok pos (set_node a (n\<lparr>n_slot := slot\<rparr>) s)"
      by (rule node_update_ok [OF ok Some]) (use n in \<open>auto simp: node_ok_def\<close>)
    show ?thesis
      using run p Some ok reset keep
      by (cases "ar_after row") (auto simp: check_after_def split: if_splits)
  qed
qed

text \<open>
  Moving an amount: the sender gives up at least the guaranteed part, so what a recipient or a sale
  is credited with never exceeds what the sender lost.
\<close>

definition pending_ok :: "int \<Rightarrow> int \<Rightarrow> int \<Rightarrow> replay \<Rightarrow> bool" where
  "pending_ok pos lower upper s \<longleftrightarrow> replay_ok (pos - lower) s \<and> 0 \<le> lower \<and> lower \<le> upper \<and>
     (\<not> rp_complete s \<longrightarrow> lower = 0)"

lemma guaranteed_bounds:
  assumes "node_ok n" "0 \<le> amount" "amount \<le> n_balance n"
  shows "0 \<le> guaranteed amount n" "guaranteed amount n \<le> min amount (n_upper n)"
    "guaranteed amount n \<le> n_lower n - max 0 (n_lower n - amount)"
  using assms by (auto simp: guaranteed_def node_ok_def)

lemma debit_ok:
  assumes "node_ok n" "0 \<le> amount" "amount \<le> n_balance n"
  shows "node_ok (debit amount slot n)" "n_lower (debit amount slot n) = max 0 (n_lower n - amount)"
  using assms by (auto simp: debit_def node_ok_def)

lemma send_leg_ok:
  assumes ok: "replay_ok pos s" and run: "send_leg l valid slot s = (s', lower, upper)" and "0 \<le> lg_amount l"
  shows "pending_ok pos lower upper s'" "upper \<le> lg_amount l"
proof -
  consider (idle) "s' = s" "lower = 0" "upper = 0"
    | (short) n where "map_of (rp_nodes s) (lg_src l) = Some n" "lower = 0" "upper = 0"
      "s' = set_node (lg_src l) (n\<lparr>n_lower := 0, n_upper := 0\<rparr>) (gap ''unreconciled_intermediate_balance'' s)"
    | (sent) n where "map_of (rp_nodes s) (lg_src l) = Some n" "lg_amount l \<le> n_balance n"
      "s' = set_node (lg_src l) (debit (lg_amount l) slot n) s"
      "lower = (if valid then guaranteed (lg_amount l) n else 0)" "upper = min (lg_amount l) (n_upper n)"
    using run by (auto simp: send_leg_def split: option.splits if_splits)
  then have "pending_ok pos lower upper s' \<and> upper \<le> lg_amount l"
  proof cases
    case idle
    with ok assms(3) show ?thesis by (simp add: pending_ok_def)
  next
    case (short n)
    with replay_okD(1) [OF ok short(1)] assms(3) show ?thesis
      by (auto simp: pending_ok_def node_ok_def intro!: reset_ok [OF ok short(1)])
  next
    case (sent n)
    have n: "node_ok n" by (rule replay_okD(1) [OF ok sent(1)])
    note g = guaranteed_bounds [OF n assms(3) sent(2)]
    note d = debit_ok [OF n assms(3) sent(2), of slot]
    have distinct: "distinct (map fst (rp_nodes s))" using ok by (simp add: replay_ok_def)
    have low: "lower \<le> n_lower n - n_lower (debit (lg_amount l) slot n)" "0 \<le> lower" "lower \<le> upper"
      using g n assms(3) by (auto simp: sent(4,5) d(2) node_ok_def)
    have zero: "\<not> rp_complete s \<Longrightarrow> lower = 0" "\<not> rp_complete s \<Longrightarrow> n_lower (debit (lg_amount l) slot n) = 0"
      using replay_okD(2) [OF ok sent(1)] low n d assms(3) by (auto simp: node_ok_def)
    have "replay_ok (pos - lower) s'"
      using ok d(1) low(1) zero(2) lower_sum_old [OF distinct sent(1), of "debit (lg_amount l) slot n"]
        set_update_subset [of "lg_src l" "debit (lg_amount l) slot n" "rp_nodes s"]
      by (force simp: replay_ok_def sent(3))
    with low zero sent(3,5) show ?thesis by (simp add: pending_ok_def)
  qed
  then show "pending_ok pos lower upper s'" "upper \<le> lg_amount l" by auto
qed

lemma pending_drop: "pending_ok pos lower upper s \<Longrightarrow> replay_ok pos s"
  by (auto simp: pending_ok_def replay_ok_def)

lemma sell_leg_ok: "pending_ok pos lower upper s \<Longrightarrow> replay_ok pos (sell_leg l lower upper s)"
  by (auto simp: pending_ok_def replay_ok_def sell_leg_def)

lemma receive_leg_ok:
  assumes p: "pending_ok pos lower upper s" and amount: "upper \<le> lg_amount l" "0 \<le> lg_amount l"
  shows "replay_ok pos (receive_leg l valid lower upper slot s)"
proof (cases "map_of (rp_nodes s) (lg_dst l)")
  case None
  with pending_drop [OF p] show ?thesis by (simp add: receive_leg_def)
next
  case (Some n)
  let ?m = "n\<lparr>n_balance := n_balance n + lg_amount l, n_lower := n_lower n + (if valid then lower else 0),
                 n_upper := n_upper n + (if valid then upper else 0), n_slot := slot\<rparr>"
  have ok: "replay_ok (pos - lower) s" "0 \<le> lower" "lower \<le> upper" and z: "\<not> rp_complete s \<Longrightarrow> lower = 0"
    using p by (simp_all add: pending_ok_def)
  have n: "node_ok n" by (rule replay_okD(1) [OF ok(1) Some])
  have m: "node_ok ?m" using n ok amount by (auto simp: node_ok_def)
  have mz: "\<not> rp_complete s \<Longrightarrow> n_lower ?m = 0" using z replay_okD(2) [OF ok(1) Some] by simp
  have distinct: "distinct (map fst (rp_nodes s))" using ok by (simp add: replay_ok_def)
  have "replay_ok pos (set_node (lg_dst l) ?m s)"
    using ok m mz lower_sum_old [OF distinct Some, of ?m] set_update_subset [of "lg_dst l" ?m "rp_nodes s"]
    by (force simp: replay_ok_def)
  with Some pending_drop [OF p] show ?thesis by (simp add: receive_leg_def)
qed

lemma discover_leg_ok:
  assumes p: "pending_ok pos lower upper s" and new: "map_of (rp_nodes s) (lg_dst l) = None"
    and run: "discover_leg opt l drow slot sender s = Inr s'"
  shows "pending_ok pos lower upper s'"
proof -
  have issue: "pending_ok pos lower upper (s\<lparr>rp_issues := i\<rparr>)" for i
    using p by (simp add: pending_ok_def)
  have found: "pending_ok pos lower upper (set_node (lg_dst l) \<lparr>n_owner = lg_dst_owner l, n_balance = b,
      n_lower = 0, n_upper = 0, n_depth = n_depth sender + 1, n_slot = slot\<rparr> s)" if "0 \<le> b" for b
  proof -
    let ?m = "\<lparr>n_owner = lg_dst_owner l, n_balance = b, n_lower = 0, n_upper = 0, n_depth = n_depth sender + 1, n_slot = slot\<rparr>"
    have "node_ok ?m" using that by (simp add: node_ok_def)
    with p lower_sum_new [OF new, of ?m] set_update_subset [of "lg_dst l" ?m "rp_nodes s"]
    show ?thesis by (force simp: pending_ok_def replay_ok_def)
  qed
  show ?thesis
    using run issue found
    by (cases "ar_before drow") (auto simp: discover_leg_def raw_opt_def raw_int_def split: if_splits)
qed

lemma place_leg_ok:
  assumes p: "pending_ok pos lower upper s" and amount: "upper \<le> lg_amount l" "0 \<le> lg_amount l"
    and run: "place_leg opt l drow slot valid sender lower upper s = Inr s'"
  shows "replay_ok pos s'"
proof (cases "lg_sale l \<and> valid \<or> service_leg opt l")
  case True
  with run sell_leg_ok [OF p, of l] pending_drop [OF p] show ?thesis by (auto simp: place_leg_def split: if_splits)
next
  case False
  let ?find = "valid \<and> map_of (rp_nodes s) (lg_dst l) = None \<and> sender \<noteq> None \<and> upper \<noteq> 0"
  from False run obtain s3 where
    3: "(if ?find then discover_leg opt l drow slot (the sender) s else Inr s) = Inr s3"
    and s': "s' = receive_leg l valid lower upper slot s3"
    by (auto simp: place_leg_def bindR_eq_Inr)
  have "pending_ok pos lower upper s3"
  proof (cases ?find)
    case True
    with 3 discover_leg_ok [OF p, of l opt drow slot "the sender" s3] show ?thesis by simp
  next
    case False
    with 3 have "s3 = s" by (simp only: if_False sum.inject)
    with p show ?thesis by simp
  qed
  from receive_leg_ok [OF this amount] s' show ?thesis by simp
qed

lemma note_edge_ok [simp]: "replay_ok pos (note_edge b e s) = replay_ok pos s"
  by (simp add: note_edge_def)

lemma replay_leg_cases:
  assumes "replay_leg opt b slot s l = Inr s'"
  obtains (idle) "s' = s" "lg_src l = lg_dst l \<or> lg_amount l = 0"
    | (moved) srow drow valid s1 lower upper s2 e where
      "map_of (b_accounts b) (lg_src l) = Some srow" "map_of (b_accounts b) (lg_dst l) = Some drow"
      "valid = (ar_complete srow \<and> ar_complete drow)" "0 < lg_amount l" "lg_src l \<noteq> lg_dst l"
      "send_leg l valid slot s = (s1, lower, upper)"
      "place_leg opt l drow slot valid (map_of (rp_nodes s) (lg_src l)) lower upper s1 = Inr s2"
      "s' = note_edge (map_of (rp_nodes s) (lg_src l) \<noteq> None) e s2"
proof (cases "lg_src l = lg_dst l \<or> lg_amount l = 0")
  case True
  with assms show ?thesis by (intro idle) (auto simp: replay_leg_def raw_int_def split: if_splits)
next
  case False
  have amount: "0 \<le> lg_amount l" using assms by (auto simp: replay_leg_def raw_int_def split: if_splits)
  from assms False amount obtain srow drow where
    rows: "map_of (b_accounts b) (lg_src l) = Some srow" "map_of (b_accounts b) (lg_dst l) = Some drow"
    by (auto simp: replay_leg_def raw_int_def split: option.splits)
  define valid where "valid = (ar_complete srow \<and> ar_complete drow)"
  obtain s1 lower upper where 1: "send_leg l valid slot s = (s1, lower, upper)" by (metis prod_cases3)
  from assms False amount rows 1 obtain s2 e where
    "place_leg opt l drow slot valid (map_of (rp_nodes s) (lg_src l)) lower upper s1 = Inr s2"
    "s' = note_edge (map_of (rp_nodes s) (lg_src l) \<noteq> None) e s2"
    by (auto simp: replay_leg_def raw_int_def Let_def bindR_eq_Inr valid_def)
  with rows 1 False amount show ?thesis by (intro moved [OF rows valid_def]) auto
qed

lemma replay_leg_ok:
  assumes ok: "replay_ok pos s" and run: "replay_leg opt b slot s l = Inr s'"
  shows "replay_ok pos s'"
  using run
proof (cases rule: replay_leg_cases)
  case idle
  with ok show ?thesis by simp
next
  case (moved srow drow valid s1 lower upper s2 e)
  have amount: "0 \<le> lg_amount l" using moved(4) by simp
  note send = send_leg_ok [OF ok moved(6) amount]
  from place_leg_ok [OF send amount moved(7)] moved(8) show ?thesis by simp
qed

lemma replay_batch_ok:
  assumes ok: "replay_ok pos s" and run: "replay_batch mint opt s b = Inr s'"
  shows "replay_ok pos s'"
proof (cases "b_status b = ''failed'' \<or> b_status b \<noteq> ''parsed'' \<and> b_status b \<noteq> ''partial''")
  case True
  with assms show ?thesis by (auto simp: replay_batch_def split: if_splits)
next
  case False
  with run obtain s2 s3 s4 slot where
    2: "s2 = gap_if (list_ex (\<lambda>p. ar_mint (snd p) = Some mint \<and> \<not> ar_complete (snd p)) (b_accounts b))
         ''incomplete_transaction_accounts'' (gap_if (b_status b = ''partial'') ''partial_transaction'' s)"
    and 3: "foldR (check_before mint) s2 (b_accounts b) = Inr s3"
    and 4: "foldR (replay_leg opt b slot) s3 (b_transfers b) = Inr s4"
    and 5: "foldR (check_after mint slot) s4 (b_accounts b) = Inr s'"
    by (auto simp: replay_batch_def Let_def bindR_eq_Inr split: if_splits)
  have "replay_ok pos s2" unfolding 2 using ok by blast
  then have "replay_ok pos s3" by (rule foldR_invariant [OF 3]) (rule check_before_ok)
  then have "replay_ok pos s4" by (rule foldR_invariant [OF 4]) (rule replay_leg_ok)
  then show ?thesis by (rule foldR_invariant [OF 5]) (rule check_after_ok)
qed

end
