(* ===== verification/Position_Bounds.thy ===== *)
theory Position_Bounds
  imports Position_Replay_Laws
begin

text \<open>
  The report of \<open>analyze_position\<close>: its amounts partition the position, its bounds are ordered, the
  over-attribution error is unreachable, and an incomplete history guarantees nothing.
\<close>

section \<open>From the seeds to the replayed state\<close>

definition seeds_ok :: "seeding \<Rightarrow> bool" where
  "seeds_ok sd \<longleftrightarrow> distinct (map fst (sd_nodes sd)) \<and> (\<forall>p \<in> set (sd_nodes sd). node_ok (snd p)) \<and>
     lower_sum (sd_nodes sd) \<le> sd_total sd"

lemma seed_add_ok:
  assumes ok: "seeds_ok sd" and run: "seed_add mint opt start sd seed = Inr sd'"
  shows "seeds_ok sd'"
proof -
  have "is_dict seed" using run by (auto simp: seed_add_def split: if_splits)
  then obtain account owner where a: "address (getd seed ''account'') = Some account" "address (getd seed ''owner'') = Some owner"
    using run by (auto simp: seed_add_def split: option.splits)
  with run \<open>is_dict seed\<close> obtain unverified bought balance lower upper where
    n: "raw_of (getd seed ''bought_raw'') = Inr bought" "raw_of (getd seed ''balance_raw'') = Inr balance"
      "raw_default seed ''retained_lower_raw'' 0 = Inr lower"
      "lower \<le> upper" "upper \<le> min balance bought" "account \<notin> set (map fst (sd_nodes sd))"
    and sd': "sd' = \<lparr>sd_nodes = sd_nodes sd @ [(account, \<lparr>n_owner = Some owner, n_balance = balance, n_lower = lower,
                                          n_upper = upper, n_depth = 0, n_slot = start\<rparr>)],
                           sd_originals = insert_new (Some owner) (sd_originals sd),
                           sd_total = sd_total sd + bought,
                           sd_unverified = (sd_unverified sd \<or> unverified)\<rparr>"
    by (auto simp: seed_add_def bindR_eq_Inr split: if_splits)
  have "0 \<le> lower" using n(3) by (auto simp: raw_default_def bindR_eq_Inr intro: raw_of_nonneg)
  with ok n sd' show ?thesis by (auto simp: seeds_ok_def node_ok_def lower_sum_def)
qed

lemma read_seeds_ok: "read_seeds mint opt start seeds = Inr sd \<Longrightarrow> seeds_ok sd"
  unfolding read_seeds_def
proof (erule foldR_invariant)
  show "seeds_ok \<lparr>sd_nodes = [], sd_originals = [], sd_total = 0, sd_unverified = False\<rparr>"
    by (simp add: seeds_ok_def lower_sum_def)
qed (rule seed_add_ok)

lemma lower_sum_append: "lower_sum (xs @ ys) = lower_sum xs + lower_sum ys"
  by (simp add: lower_sum_def)

lemma start_replay_ok:
  assumes "seeds_ok sd"
  shows "replay_ok (sd_total sd) (start_replay opt hc sd)" and "rp_complete (start_replay opt hc sd) \<Longrightarrow> hc"
proof -
  let ?ns = "if int (length (sd_nodes sd)) > ro_max_accounts opt then take (nat (ro_max_accounts opt)) (sd_nodes sd) else sd_nodes sd"
  let ?s = "\<lparr>rp_nodes = ?ns, rp_complete = (hc \<and> \<not> int (length (sd_nodes sd)) > ro_max_accounts opt),
     rp_issues = add_if (int (length (sd_nodes sd)) > ro_max_accounts opt) ''account_limit'' (add_if (\<not> hc) ''incomplete_history'' []),
     rp_sold_lower = 0, rp_sold_upper = 0, rp_sale = 0, rp_edges = []\<rparr>"
  let ?pre = "?s\<lparr>rp_complete := True\<rparr>"
  have sub: "set ?ns \<subseteq> set (sd_nodes sd)" by (auto dest: in_set_takeD)
  have d: "distinct (map fst ?ns)" using assms by (auto simp: seeds_ok_def take_map [symmetric] distinct_take)
  have ok: "\<forall>p \<in> set (sd_nodes sd). node_ok (snd p)" using assms by (simp add: seeds_ok_def)
  have "lower_sum ?ns \<le> lower_sum (sd_nodes sd)"
  proof -
    have "lower_sum (sd_nodes sd) = lower_sum (take k (sd_nodes sd)) + lower_sum (drop k (sd_nodes sd))" for k
      by (metis append_take_drop_id lower_sum_append)
    moreover have "0 \<le> lower_sum (drop k (sd_nodes sd))" for k
      by (rule lower_sum_nonneg) (use ok in \<open>auto dest: in_set_dropD\<close>)
    ultimately show ?thesis by (smt (verit))
  qed
  with assms have sum: "lower_sum ?ns \<le> sd_total sd" by (auto simp: seeds_ok_def)
  have okns: "\<forall>p \<in> set ?ns. node_ok (snd p)" using ok sub by blast
  have pre: "replay_ok (sd_total sd) ?pre"
    using d okns sum by (simp only: replay_ok_def replay.simps) simp
  have base: "replay_ok (sd_total sd) (gap_if (\<not> rp_complete ?s) ''incomplete_history'' ?s)"
  proof (cases "rp_complete ?s")
    case True
    then have "?pre = ?s" by simp
    with pre True show ?thesis by (simp add: gap_if_def)
  next
    case False
    then have "gap ''incomplete_history'' ?pre = gap ''incomplete_history'' ?s" by (simp add: gap_def)
    with gap_ok [OF pre, of "''incomplete_history''"] False show ?thesis by (simp add: gap_if_def)
  qed
  have eq: "start_replay opt hc sd = gap_if (sd_unverified sd) ''receipt_seed_slot_boundary_unverified''
      (gap_if (\<not> rp_complete ?s) ''incomplete_history'' ?s)"
    by (simp add: start_replay_def Let_def)
  show "replay_ok (sd_total sd) (start_replay opt hc sd)" unfolding eq by (rule gap_if_ok [OF base])
  show "rp_complete (start_replay opt hc sd) \<Longrightarrow> hc" unfolding eq by (auto simp: gap_if_def split: if_splits)
qed

text \<open>The state only changes by gaps while the batches are ordered.\<close>

definition gaps_only :: "replay \<Rightarrow> replay \<Rightarrow> bool" where
  "gaps_only s s' \<longleftrightarrow> (\<forall>pos. replay_ok pos s \<longrightarrow> replay_ok pos s') \<and> (rp_complete s' \<longrightarrow> rp_complete s)"

lemma gaps_only_intros [intro]:
  "gaps_only s s" "gaps_only s (gap r s)" "gaps_only s (gap_if b r s)"
  "gaps_only s t \<Longrightarrow> gaps_only t u \<Longrightarrow> gaps_only s u"
  by (auto simp: gaps_only_def gap_if_def)

lemma unique_add_gaps: "gaps_only (snd (snd st)) (snd (snd (unique_add mint st b)))"
  by (cases st) (auto simp: unique_add_def split: option.splits)

lemma slot_add_gaps: "gaps_only (snd st) (snd (slot_add start end st b))"
  by (cases st) (auto simp: slot_add_def split: sum.splits)

lemma slot_group_gaps: "gaps_only (snd st) (snd (slot_group rows st slot))"
  by (cases st) (auto simp: slot_group_def Let_def)

lemma foldl_gaps:
  assumes "\<And>st x. gaps_only (f st) (f (g st x))"
  shows "gaps_only (f st) (f (foldl g st xs))"
  by (induction xs arbitrary: st) (use assms in \<open>auto intro: gaps_only_intros(4)\<close>)

lemma order_batches_gaps:
  assumes "order_batches mint start end opt batches s = (ordered, s')"
  shows "gaps_only s s'"
proof -
  let ?over = "int (length batches) > ro_max_transactions opt"
  obtain unique conflicts s1 where 1: "foldl (unique_add mint) ([], [], gap_if ?over ''transaction_limit'' s)
      (if ?over then [] else batches) = (unique, conflicts, s1)" by (metis prod_cases3)
  obtain rows s2 where 2: "foldl (slot_add start end) ([], s1) (map snd (filter (\<lambda>p. fst p \<notin> set conflicts) unique)) = (rows, s2)"
    by fastforce
  obtain ordr s3 where 3: "foldl (slot_group rows) ([], s2) (sorted_set (map fst rows)) = (ordr, s3)" by fastforce
  have "gaps_only (gap_if ?over ''transaction_limit'' s) s1"
    using foldl_gaps [of "\<lambda>st. snd (snd st)" "unique_add mint" "([], [], gap_if ?over ''transaction_limit'' s)"] 1 unique_add_gaps
    by (metis snd_conv)
  moreover have "gaps_only s1 s2" using foldl_gaps [of snd "slot_add start end" "([], s1)"] 2 slot_add_gaps by (metis snd_conv)
  moreover have "gaps_only s2 s3" using foldl_gaps [of snd "slot_group rows" "([], s2)"] 3 slot_group_gaps by (metis snd_conv)
  moreover have "s' = gap_if (int (sum_list (map (\<lambda>b. length (b_transfers b)) ordr)) > ro_max_events opt) ''event_limit'' s3"
    using assms 1 2 3 by (simp add: order_batches_def Let_def)
  ultimately have "gaps_only (gap_if ?over ''transaction_limit'' s) s'" by (blast intro: gaps_only_intros(3,4))
  then show ?thesis by (rule gaps_only_intros(4) [OF gaps_only_intros(3)])
qed

section \<open>Completeness is only lost\<close>

lemma check_before_complete: "check_before mint s p = Inr s' \<Longrightarrow> rp_complete s' \<Longrightarrow> rp_complete s"
  by (auto simp: check_before_def split: prod.splits option.splits if_splits)

lemma check_after_complete: "check_after mint slot s p = Inr s' \<Longrightarrow> rp_complete s' \<Longrightarrow> rp_complete s"
  by (auto simp: check_after_def split: prod.splits option.splits if_splits)

lemma receive_leg_complete [simp]: "rp_complete (receive_leg l v lo up sl t) = rp_complete t"
  by (simp add: receive_leg_def split: option.splits)

lemma discover_leg_complete: "discover_leg opt l drow sl x t = Inr t' \<Longrightarrow> rp_complete t' = rp_complete t"
  by (auto simp: discover_leg_def bindR_eq_Inr split: if_splits)

lemma place_leg_complete:
  assumes "place_leg opt l drow slot valid sender lower upper s = Inr s'" "rp_complete s'"
  shows "rp_complete s"
  using assms by (auto simp: place_leg_def bindR_eq_Inr sell_leg_def dest!: discover_leg_complete split: if_splits)

lemma send_leg_complete: "send_leg l valid slot s = (s', lower, upper) \<Longrightarrow> rp_complete s' \<Longrightarrow> rp_complete s"
  by (auto simp: send_leg_def split: option.splits if_splits)

lemma replay_leg_complete:
  assumes "replay_leg opt b slot s l = Inr s'" "rp_complete s'"
  shows "rp_complete s"
  using assms(1)
  by (cases rule: replay_leg_cases)
    (use assms(2) in \<open>auto simp: note_edge_def dest!: place_leg_complete dest: send_leg_complete split: if_splits\<close>)

lemma replay_batch_complete:
  assumes run: "replay_batch mint opt s b = Inr s'" "rp_complete s'"
  shows "rp_complete s"
proof (cases "b_status b = ''failed'' \<or> b_status b \<noteq> ''parsed'' \<and> b_status b \<noteq> ''partial''")
  case True
  with assms show ?thesis by (auto simp: replay_batch_def split: if_splits)
next
  case False
  with run obtain s2 s3 s4 slot where
    2: "s2 = gap_if (list_ex (\<lambda>p. ar_mint (snd p) = Some mint \<and> \<not> ar_complete (snd p)) (b_accounts b))
         ''incomplete_transaction_accounts'' (gap_if (b_status b = ''partial'') ''partial_transaction'' s)"
    and 3: "foldR (check_before mint) s2 (b_accounts b) = Inr s3"
    and 4: "foldR (replay_leg opt b slot) s3 (b_transfers b) = Inr s4"
    and 5: "foldR (check_after mint slot) s4 (b_accounts b) = Inr s'"
    by (auto simp: replay_batch_def Let_def bindR_eq_Inr split: if_splits)
  have "rp_complete s' \<longrightarrow> rp_complete s4"
    by (rule foldR_invariant [OF 5]) (auto dest: check_after_complete)
  moreover have "rp_complete s4 \<longrightarrow> rp_complete s3"
    by (rule foldR_invariant [OF 4]) (auto dest: replay_leg_complete)
  moreover have "rp_complete s3 \<longrightarrow> rp_complete s2"
    by (rule foldR_invariant [OF 3]) (auto dest: check_before_complete)
  ultimately show ?thesis using run(2) 2 by (auto simp: gap_if_def split: if_splits)
qed

section \<open>Closing balances\<close>

definition closing_ok :: "(string \<times> int option) list \<Rightarrow> bool" where
  "closing_ok closing \<longleftrightarrow> list_all (\<lambda>p. case snd p of None \<Rightarrow> True | Some v \<Rightarrow> 0 \<le> v) closing"

lemma closing_ok_update [simp]:
  "closing_ok closing \<Longrightarrow> closing_ok (AList.update a None closing)"
  "closing_ok closing \<Longrightarrow> 0 \<le> k \<Longrightarrow> closing_ok (AList.update a (Some k) closing)"
  unfolding closing_ok_def by (rule list_all_update; simp)+

lemma closing_add_ok:
  assumes ok: "replay_ok pos (snd st) \<and> (rp_complete (snd st) \<longrightarrow> hc) \<and> closing_ok (fst st)"
    and run: "closing_add mint end st row = Inr st'"
  shows "replay_ok pos (snd st') \<and> (rp_complete (snd st') \<longrightarrow> hc) \<and> closing_ok (fst st')"
proof -
  obtain closing s where st: "st = (closing, s)" by (cases st)
  have ok': "replay_ok pos (gap r s)" for r using ok st by auto
  from run st obtain scope where scope: "closing_scope mint end (rp_nodes s) row = Inr scope"
    by (auto simp: closing_add_def bindR_eq_Inr)
  show ?thesis
  proof (cases scope)
    case None
    with run st scope ok ok' show ?thesis by (auto simp: closing_add_def)
  next
    case (Some p)
    obtain a n where p: "p = (a, n)" by (cases p)
    show ?thesis
    proof (cases "raw_of (getd row ''balance_raw'')")
      case (Inl e)
      with run st scope Some p ok ok' show ?thesis by (auto simp: closing_add_def)
    next
      case (Inr amount)
      have "0 \<le> amount" by (rule raw_of_nonneg [OF Inr])
      with run st scope Some p Inr ok ok'
      show ?thesis by (auto simp: closing_add_def split: option.splits if_splits)
    qed
  qed
qed

lemma closing_apply_ok:
  assumes ok: "replay_ok pos s" and "\<And>amount. snd p = Some amount \<Longrightarrow> 0 \<le> amount"
  shows "replay_ok pos (closing_apply end s p) \<and> (rp_complete (closing_apply end s p) \<longrightarrow> rp_complete s)"
proof -
  obtain a v where p: "p = (a, v)" by (cases p)
  show ?thesis
  proof (cases v)
    case None
    with p ok show ?thesis by (simp add: closing_apply_def)
  next
    case (Some k)
    show ?thesis
    proof (cases "map_of (rp_nodes s) a")
      case None
      with p Some ok show ?thesis by (auto simp: closing_apply_def Let_def gap_if_def)
    next
      case n: (Some n)
      have nok: "node_ok n" by (rule replay_okD(1) [OF ok n])
      show ?thesis
      proof (cases "n_balance n = k")
        case True
        with p Some n nok show ?thesis
          by (auto simp: closing_apply_def Let_def gap_if_def node_ok_def intro!: node_update_ok [OF ok n])
      next
        case False
        with p Some n nok assms(2) show ?thesis
          by (auto simp: closing_apply_def Let_def gap_if_def node_ok_def intro!: reset_ok [OF ok n])
      qed
    qed
  qed
qed

lemma closing_apply_all_ok:
  assumes "replay_ok pos s" and "closing_ok closing"
  shows "replay_ok pos (foldl (closing_apply end) s closing) \<and>
    (rp_complete (foldl (closing_apply end) s closing) \<longrightarrow> rp_complete s)"
  using assms
proof (induction closing arbitrary: s)
  case Nil
  then show ?case by simp
next
  case (Cons p closing)
  have "\<And>v. snd p = Some v \<Longrightarrow> 0 \<le> v" using Cons.prems(2) by (simp add: closing_ok_def)
  from closing_apply_ok [OF Cons.prems(1) this] have 1: "replay_ok pos (closing_apply end s p)"
    "rp_complete (closing_apply end s p) \<longrightarrow> rp_complete s" by auto
  have "closing_ok closing" using Cons.prems(2) by (simp add: closing_ok_def)
  from Cons.IH [OF 1(1) this] 1(2) show ?case by auto
qed

text \<open>The state a report is made of.\<close>

lemma analyze_phases:
  assumes "analyze mint seeds batches start end hc closing_balances opt = Inr r"
  obtains sd closing s where "summarize start end hc sd closing s = Inr r" "replay_ok (sd_total sd) s" "rp_complete s \<Longrightarrow> hc"
proof -
  have "\<not> end < start" using assms by (auto simp: analyze_def split: if_splits)
  with assms obtain sd where 1: "read_seeds mint opt start seeds = Inr sd"
    by (auto simp: analyze_def bindR_eq_Inr)
  obtain ordered s1 where 2: "order_batches mint start end opt batches (start_replay opt hc sd) = (ordered, s1)"
    by fastforce
  from assms \<open>\<not> end < start\<close> 1 2 obtain s2 closing s3 where
    3: "foldR (replay_batch mint opt) s1 ordered = Inr s2"
    and 4: "foldR (closing_add mint end) ([], s2) closing_balances = Inr (closing, s3)"
    and 5: "summarize start end hc sd closing (foldl (closing_apply end) s3 closing) = Inr r"
    by (auto simp: analyze_def bindR_eq_Inr)
  note sd = read_seeds_ok [OF 1]
  from order_batches_gaps [OF 2] start_replay_ok [OF sd, of opt hc]
  have s1: "replay_ok (sd_total sd) s1" "rp_complete s1 \<longrightarrow> hc" by (auto simp: gaps_only_def)
  have s2: "replay_ok (sd_total sd) s2 \<and> (rp_complete s2 \<longrightarrow> hc)"
  proof (rule foldR_invariant [OF 3])
    show "replay_ok (sd_total sd) s1 \<and> (rp_complete s1 \<longrightarrow> hc)" using s1 by blast
  qed (use replay_batch_ok replay_batch_complete in blast)
  have "replay_ok (sd_total sd) (snd (closing, s3)) \<and> (rp_complete (snd (closing, s3)) \<longrightarrow> hc) \<and>
      closing_ok (fst (closing, s3))"
  proof (rule foldR_invariant [OF 4])
    show "replay_ok (sd_total sd) (snd ([], s2)) \<and> (rp_complete (snd ([], s2)) \<longrightarrow> hc) \<and> closing_ok (fst ([], s2))"
      using s2 by (simp add: closing_ok_def)
  qed (rule closing_add_ok)
  then have s3: "replay_ok (sd_total sd) s3" "rp_complete s3 \<longrightarrow> hc" "closing_ok closing" by auto
  from closing_apply_all_ok [OF s3(1,3)] s3(2) show thesis by (intro that [OF 5]) auto
qed

section \<open>The report\<close>

lemma sum_nodes_bounds:
  assumes "\<forall>p \<in> set ns. node_ok (snd p)"
  shows "0 \<le> sum_nodes P n_lower ns" "sum_nodes P n_lower ns \<le> sum_nodes P n_upper ns"
    "sum_nodes P n_upper ns \<le> sum_nodes P n_balance ns"
  using assms by (induction ns) (auto simp: sum_nodes_def node_ok_def)

lemma sum_nodes_split: "sum_nodes P f ns + sum_nodes (\<lambda>n. \<not> P n) f ns = sum_list (map (\<lambda>(a, n). f n) ns)"
  by (induction ns) (auto simp: sum_nodes_def)

lemma sum_nodes_zero: "\<forall>p \<in> set ns. n_lower (snd p) = 0 \<Longrightarrow> sum_nodes P n_lower ns = 0"
  by (induction ns) (auto simp: sum_nodes_def)

lemma attributed_le:
  assumes "replay_ok (sd_total sd) s"
  shows "sum_nodes (\<lambda>n. n_owner n \<in> os) n_lower (rp_nodes s) + sum_nodes (\<lambda>n. n_owner n \<notin> os) n_lower (rp_nodes s) +
    rp_sold_lower s \<le> sd_total sd"
  using assms sum_nodes_split [of "\<lambda>n. n_owner n \<in> os" n_lower "rp_nodes s"]
  by (simp add: replay_ok_def lower_sum_def)


text \<open>
  The bounds are ordered.  Each guaranteed amount is at most the upper bound reported for it, and
  the same holds of every location.
\<close>

theorem position_bounds_ordered:
  assumes "analyze mint seeds batches start end hc closing_balances opt = Inr r"
  shows "su_original r \<le> su_upper_original r \<and> su_transferred r \<le> su_upper_transferred r \<and>
    su_sold r \<le> su_upper_sold r \<and> list_all (\<lambda>lo. 0 \<le> lo_lower lo \<and> lo_lower lo \<le> lo_upper lo) (su_locations r)"
  using assms
proof (rule analyze_phases)
  fix sd closing s
  assume r: "summarize start end hc sd closing s = Inr r" and ok: "replay_ok (sd_total sd) s"
  let ?orig = "sum_nodes (\<lambda>n. n_owner n \<in> set (sd_originals sd))"
  let ?other = "sum_nodes (\<lambda>n. n_owner n \<notin> set (sd_originals sd))"
  let ?unknown = "sd_total sd - ?orig n_lower (rp_nodes s) - ?other n_lower (rp_nodes s) - rp_sold_lower s"
  from ok have nodes: "\<forall>p \<in> set (rp_nodes s). node_ok (snd p)" and sold: "rp_sold_lower s \<le> rp_sold_upper s"
    "0 \<le> rp_sold_lower s" and zero: "\<not> rp_complete s \<Longrightarrow> \<forall>p \<in> set (rp_nodes s). n_lower (snd p) = 0"
    by (auto simp: replay_ok_def)
  note b = sum_nodes_bounds [OF nodes]
  have u: "0 \<le> ?unknown" using attributed_le [OF ok, of "set (sd_originals sd)"] by simp
  have "su_original r \<le> su_upper_original r \<and> su_transferred r \<le> su_upper_transferred r \<and> su_sold r \<le> su_upper_sold r"
    using r u sold b [of "\<lambda>n. n_owner n \<in> set (sd_originals sd)"] b [of "\<lambda>n. n_owner n \<notin> set (sd_originals sd)"]
    by (auto simp: summarize_def Let_def split: if_splits)
  moreover have "0 \<le> n_lower n \<and> n_lower n \<le> (if c then min (if rp_complete s then n_upper n + ?unknown
      else sd_total sd - rp_sold_lower s) (n_balance n) else sd_total sd - rp_sold_lower s)"
    if "(a, n) \<in> set (rp_nodes s)" "rp_complete s \<longrightarrow> c" for a n c
  proof -
    have n: "node_ok n" using nodes that(1) by force
    show ?thesis
    proof (cases "rp_complete s")
      case True
      with that(2) n u show ?thesis by (auto simp: node_ok_def)
    next
      case False
      with zero that(1) have "n_lower n = 0" by force
      moreover have "0 \<le> sd_total sd - rp_sold_lower s"
        using u b(1) [of "\<lambda>n. n_owner n \<in> set (sd_originals sd)"] b(1) [of "\<lambda>n. n_owner n \<notin> set (sd_originals sd)"] by linarith
      ultimately show ?thesis using n False by (auto simp: node_ok_def)
    qed
  qed
  then have "list_all (\<lambda>lo. 0 \<le> lo_lower lo \<and> lo_lower lo \<le> lo_upper lo) (su_locations r)"
    using r unfolding summarize_def Let_def
    by (auto simp: list_all_iff split: if_splits)
  ultimately show ?thesis by blast
qed

text \<open>
  Fail closed.  A report whose history is not complete guarantees no current holding: the
  guaranteed original and transferred amounts are zero, at every location; and it is never complete
  unless the caller asserted the whole account history.
\<close>

theorem position_fails_closed:
  assumes "analyze mint seeds batches start end hc closing_balances opt = Inr r"
  shows "(su_complete r \<longrightarrow> hc) \<and> (\<not> su_complete r \<longrightarrow> su_original r = 0 \<and> su_transferred r = 0 \<and>
    su_status r = ''partial'' \<and> list_all (\<lambda>lo. lo_lower lo = 0) (su_locations r))"
  using assms
proof (rule analyze_phases)
  fix sd closing s
  assume r: "summarize start end hc sd closing s = Inr r" and ok: "replay_ok (sd_total sd) s" and hc: "rp_complete s \<Longrightarrow> hc"
  from ok have zero: "\<not> rp_complete s \<Longrightarrow> \<forall>p \<in> set (rp_nodes s). n_lower (snd p) = 0" by (simp add: replay_ok_def)
  show ?thesis
  proof (cases "rp_complete s")
    case True
    with r hc show ?thesis by (auto simp: summarize_def Let_def split: if_splits)
  next
    case False
    note z = zero [OF False]
    have "n_lower n = 0" if "(a, n) \<in> set (rp_nodes s)" for a n using z that by force
    with r False sum_nodes_zero [OF z] show ?thesis
      by (auto simp: summarize_def Let_def list_all_iff split: if_splits)
  qed
qed

section \<open>A worked position\<close>

text \<open>The position of 100 in account \<open>A\<close>, and the sale of 40 of it in the worked transaction.\<close>

definition demo_seed :: pyval where
  "demo_seed = PDict [(''mint'', PStr ''M''), (''account'', PStr ''A''), (''owner'', PStr ''O''),
     (''bought_raw'', PInt 100), (''balance_raw'', PInt 100), (''retained_lower_raw'', PInt 100)]"

definition demo_replay_options :: replay_options where
  "demo_replay_options = \<lparr>ro_accounts = [], ro_owners = [], ro_max_transactions = 256, ro_max_events = 1024,
     ro_max_accounts = 32, ro_max_depth = 2\<rparr>"

definition demo_report :: "bool \<Rightarrow> summary res" where
  "demo_report hc = analyze ''M'' [demo_seed] [demo_batch] 5 10 hc [] demo_replay_options"

definition report_amounts :: "summary res \<Rightarrow> (int \<times> int \<times> int \<times> int \<times> bool) option" where
  "report_amounts r = (case r of Inl e \<Rightarrow> None
     | Inr v \<Rightarrow> Some (su_original v, su_transferred v, su_sold v, su_unknown v, su_complete v))"

lemma demo_report_values:
  "report_amounts (demo_report True) = Some (60, 0, 40, 0, True)"
  "report_amounts (demo_report False) = Some (0, 0, 0, 100, False)"
  by code_simp+

lemma demo_reports:
  obtains r r' where
    "analyze ''M'' [demo_seed] [demo_batch] 5 10 True [] demo_replay_options = Inr r" "su_sold r = 40" "su_original r = 60"
    "analyze ''M'' [demo_seed] [demo_batch] 5 10 False [] demo_replay_options = Inr r'" "\<not> su_complete r'"
  using demo_report_values unfolding demo_report_def
  by (auto simp: report_amounts_def split: sum.splits)


theorem position_bounds_ordered_witness:
  "\<exists>r. analyze ''M'' [demo_seed] [demo_batch] 5 10 True [] demo_replay_options = Inr r \<and> su_original r = 60 \<and>
     su_original r \<le> su_upper_original r"
proof (rule demo_reports)
  fix r
  assume "analyze ''M'' [demo_seed] [demo_batch] 5 10 True [] demo_replay_options = Inr r" "su_original r = 60"
  with position_bounds_ordered [OF this(1)] show ?thesis by blast
qed

theorem position_fails_closed_witness:
  "\<exists>r. analyze ''M'' [demo_seed] [demo_batch] 5 10 False [] demo_replay_options = Inr r \<and> \<not> su_complete r \<and>
     su_original r = 0 \<and> su_transferred r = 0"
proof (rule demo_reports)
  fix r'
  assume "analyze ''M'' [demo_seed] [demo_batch] 5 10 False [] demo_replay_options = Inr r'" "\<not> su_complete r'"
  with position_fails_closed [OF this(1)] show ?thesis by blast
qed

end
