(* ===== verification/Position_Seeds.thy ===== *)
theory Position_Seeds
  imports Position_Bounds
begin

text \<open>
  \<^verbatim>\<open>src/solana_position_lineage.py\<close>, \<open>freeze_receipt_seeds\<close>: one explicit, latest pool-buy receipt per
  owner, frozen as the seed rows of \<open>analyze_position\<close>.

  The grouping dictionaries \<open>receipts\<close> and \<open>swaps\<close> are the filters that define their entries.  The
  arguments are sequences (the \<open>isinstance\<close> check of the first lines is the type of the model).
\<close>

section \<open>Data\<close>

record frozen_seed =
  fs_mint :: string
  fs_account :: string
  fs_owner :: string
  fs_decimals :: "int option"
  fs_bought :: int           \<comment> \<open>also both retained bounds\<close>
  fs_balance :: int
  fs_slot :: int
  fs_signature :: string

record receipt_entry =
  en_status :: string
  en_seeds :: "frozen_seed list"
  en_issues :: "string list"
  en_slot :: "int option"
  en_signature :: "string option"
  en_bought :: "int option"
  en_pool :: "string option"
  en_capture :: "string option"  \<comment> \<open>\<open>capture_key\<close>\<close>

record capture =
  cp_status :: string
  cp_entries :: "(string \<times> receipt_entry) list"
  cp_issues :: "string list"
  cp_supplied :: int         \<comment> \<open>\<open>supplied_owner_count\<close>\<close>
  cp_selected :: int         \<comment> \<open>\<open>selected_owner_count\<close>\<close>

record freeze_options =
  fo_owners :: "string list"     \<comment> \<open>\<open>service_owners\<close>\<close>
  fo_accounts :: "string list"   \<comment> \<open>\<open>service_accounts\<close>\<close>
  fo_limits :: parse_limits

definition empty_entry :: receipt_entry where
  "empty_entry = \<lparr>en_status = ''unavailable'', en_seeds = [], en_issues = [], en_slot = None, en_signature = None,
     en_bought = None, en_pool = None, en_capture = None\<rparr>"

text \<open>A seed row as the dictionary handed to \<open>analyze_position\<close>.\<close>

definition seed_value :: "frozen_seed \<Rightarrow> pyval" where
  "seed_value s = PDict [(''mint'', PStr (fs_mint s)), (''account'', PStr (fs_account s)), (''owner'', PStr (fs_owner s)),
     (''decimals'', (case fs_decimals s of None \<Rightarrow> PNone | Some d \<Rightarrow> PInt d)),
     (''bought_raw'', PStr (str_of_int (fs_bought s))), (''balance_raw'', PStr (str_of_int (fs_balance s))),
     (''retained_lower_raw'', PStr (str_of_int (fs_bought s))),
     (''retained_upper_raw'', PStr (str_of_int (fs_bought s))), (''scope'', PStr receipt_scope),
     (''seed_slot'', PInt (fs_slot s)), (''seed_signature'', PStr (fs_signature s)),
     (''seed_boundary'', PStr ''immediately_after_receipt'')]"

section \<open>Receipts and nominations\<close>

text \<open>\<open>tx["transaction"]["signatures"][0]\<close> when it is an exact signature.\<close>

definition tx_signature :: "pyval \<Rightarrow> string option" where
  "tx_signature tx =
     (case getd (getd tx ''transaction'') ''signatures'' of
        PList (s # _) \<Rightarrow> address s
      | _ \<Rightarrow> None)"

definition receipts_of :: "pyval list \<Rightarrow> string \<Rightarrow> pyval list" where
  "receipts_of txs sig = filter (\<lambda>tx. tx_signature tx = Some sig) txs"

definition swap_rows :: "string \<Rightarrow> pyval list \<Rightarrow> string \<Rightarrow> pyval list" where
  "swap_rows mint swaps sig =
     filter (\<lambda>sw. getd sw ''token_address'' = PStr mint \<and> address (getd sw ''signature'') = Some sig) swaps"

definition swap_signatures :: "string \<Rightarrow> pyval list \<Rightarrow> string list" where
  "swap_signatures mint swaps =
     foldl (\<lambda>acc sw. case address (getd sw ''signature'') of
                       Some sig \<Rightarrow> if getd sw ''token_address'' = PStr mint then insert_new sig acc else acc
                     | None \<Rightarrow> acc) [] swaps"

definition swap_pools :: "pyval list \<Rightarrow> string list" where
  "swap_pools swaps = concat (map (\<lambda>sw. case address (getd sw ''pool_address'') of None \<Rightarrow> [] | Some p \<Rightarrow> [p]) swaps)"

definition unsigned_buy :: "string \<Rightarrow> string \<Rightarrow> pyval \<Rightarrow> bool" where
  "unsigned_buy mint owner sw \<longleftrightarrow> getd sw ''token_address'' = PStr mint \<and> address (getd sw ''signature'') = None \<and>
     getd sw ''kind'' = PStr ''buy'' \<and> address (getd sw ''token_recipient'') = Some owner"

record candidate =
  ca_slot :: int
  ca_signature :: string
  ca_swap :: pyval
  ca_tx :: pyval
  ca_count :: nat            \<comment> \<open>swap rows of the signature\<close>

definition is_buy_of :: "string \<Rightarrow> pyval \<Rightarrow> bool" where
  "is_buy_of owner row \<longleftrightarrow> getd row ''kind'' = PStr ''buy'' \<and> getd row ''token_recipient'' = PStr owner"

definition nominate ::
    "string \<Rightarrow> pyval list \<Rightarrow> pyval list \<Rightarrow> string \<Rightarrow> candidate list \<times> string list \<Rightarrow> string \<Rightarrow>
     candidate list \<times> string list" where
  "nominate mint txs swaps owner st sig =
     (case st of (candidates, problems) \<Rightarrow>
       (case filter (is_buy_of owner) (swap_rows mint swaps sig) of
          [] \<Rightarrow> st
        | swap # _ \<Rightarrow>
            (case receipts_of txs sig of
               [tx] \<Rightarrow>
                 (if \<not> is_dict (getd tx ''meta'') \<or> \<not> has_key (getd tx ''meta'') ''err''
                  then (candidates, insert_new ''missing_receipt_success_metadata'' problems)
                  else if getd (getd tx ''meta'') ''err'' \<noteq> PNone then st
                  else (case raw_of (getd tx ''slot'') of
                      Inl e \<Rightarrow> (candidates, insert_new ''missing_receipt_slot'' problems)
                    | Inr slot \<Rightarrow> (candidates @ [\<lparr>ca_slot = slot, ca_signature = sig, ca_swap = swap, ca_tx = tx,
                                                 ca_count = length (swap_rows mint swaps sig)\<rparr>], problems)))
             | [] \<Rightarrow> (candidates, insert_new ''missing_buy_receipt'' problems)
             | _ \<Rightarrow> (candidates, insert_new ''duplicate_receipt_signature'' problems))))"

section \<open>One receipt\<close>

text \<open>The swap row: one row, an exact pool, and the slot of the receipt.\<close>

definition buy_pool :: "candidate \<Rightarrow> string list + string" where
  "buy_pool c =
     (if ca_count c \<noteq> 1 then Inl [''duplicate_or_conflicting_pool_swap_rows'']
      else (case address (getd (ca_swap c) ''pool_address'') of
          None \<Rightarrow> Inl [''unresolved_pool_buy_identity'']
        | Some pool \<Rightarrow>
            if getd (ca_swap c) ''owner_resolution'' = PStr ''unresolved'' then Inl [''unresolved_pool_buy_identity'']
            else if has_key (ca_swap c) ''slot'' \<and> raw_of (getd (ca_swap c) ''slot'') \<noteq> Inr (ca_slot c)
            then Inl [''pool_buy_slot_mismatch'']
            else Inr pool))"

definition mint_rows :: "string \<Rightarrow> batch \<Rightarrow> (string \<times> account_row) list" where
  "mint_rows mint b = filter (\<lambda>p. ar_mint (snd p) = Some mint) (b_accounts b)"

definition positive_rows :: "string \<Rightarrow> (string \<times> account_row) list \<Rightarrow> (string \<times> account_row) list" where
  "positive_rows owner rows = filter (\<lambda>p. row_delta (snd p) > 0 \<and> ar_owner (snd p) = Some owner) rows"

definition delta_sum :: "(string \<times> account_row) list \<Rightarrow> int" where
  "delta_sum rows = sum_list (map (\<lambda>p. row_delta (snd p)) rows)"

text \<open>\<open>credits\<close>: what the legs pay into each destination; \<open>dict(credits) == positive\<close>.\<close>

definition credit :: "leg list \<Rightarrow> string \<Rightarrow> int" where
  "credit legs a = sum_list (map lg_amount (filter (\<lambda>l. lg_dst l = a) legs))"

definition credits_match :: "leg list \<Rightarrow> (string \<times> account_row) list \<Rightarrow> bool" where
  "credits_match legs positive \<longleftrightarrow>
     list_all (\<lambda>l. lg_dst l \<in> set (map fst positive)) legs \<and>
     list_all (\<lambda>(a, row). a \<in> set (map lg_dst legs) \<and> credit legs a = row_delta row) positive"

text \<open>The checks on the parsed receipt; \<open>None\<close> is a receipt that passes them all.\<close>

definition receipt_issue :: "freeze_options \<Rightarrow> string \<Rightarrow> string \<Rightarrow> string \<Rightarrow> batch \<Rightarrow> string list option" where
  "receipt_issue opt mint owner pool b =
     (let rows = mint_rows mint b; positive = positive_rows owner rows; legs = b_transfers b in
      if b_status b \<noteq> ''parsed'' then Some (sorted_set (''incomplete_buy_receipt'' # b_issues b))
      else if length (remdups (map (\<lambda>p. ar_decimals (snd p)) rows)) \<noteq> 1 then Some [''inconsistent_mint_decimals'']
      else if delta_sum positive = 0 \<or> list_ex (\<lambda>p. row_delta (snd p) < 0 \<and> ar_owner (snd p) = Some owner) rows
      then Some [''non_positive_or_mixed_recipient_delta'']
      else if list_ex (\<lambda>p. ar_owner (snd p) \<notin> {Some owner, Some pool} \<and> row_delta (snd p) \<noteq> 0) rows
      then Some [''ambiguous_receipt_participants'']
      else if list_ex (\<lambda>p. fst p \<in> set (fo_accounts opt)) positive then Some [''public_service_seed_account'']
      else if legs = [] \<or> list_ex (\<lambda>l. lg_src_owner l \<noteq> Some pool \<or> lg_dst_owner l \<noteq> Some owner) legs
      then Some [''ambiguous_or_unverified_pool_receipt_flow'']
      else if \<not> credits_match legs positive \<or>
              delta_sum (filter (\<lambda>p. ar_owner (snd p) = Some pool) rows) \<noteq> - delta_sum positive
      then Some [''pool_receipt_delta_mismatch'']
      else None)"

text \<open>Another transaction of the seed slot that may touch the seed accounts.\<close>

definition slot_rival :: "freeze_options \<Rightarrow> string \<Rightarrow> int \<Rightarrow> string list \<Rightarrow> pyval \<Rightarrow> bool" where
  "slot_rival opt sig slot accounts other \<longleftrightarrow>
     (let t = getd other ''transaction''; meta = getd other ''meta''; ks = getd (getd t ''message'') ''accountKeys'' in
      is_dict other \<and> is_dict t \<and>
      \<not> (case getd t ''signatures'' of PList (s # _) \<Rightarrow> s = PStr sig | _ \<Rightarrow> False) \<and>
      raw_of (getd other ''slot'') = Inr slot \<and>
      \<not> (is_dict meta \<and> has_key meta ''err'' \<and> getd meta ''err'' \<noteq> PNone) \<and>
      is_list ks \<and>
      (int (length (as_list ks)) > pl_accounts (fo_limits opt) \<or>
       list_ex (\<lambda>k. case address (key_of k) of None \<Rightarrow> False | Some a \<Rightarrow> a \<in> set accounts) (as_list ks)))"

definition frozen_seed_of :: "string \<Rightarrow> string \<Rightarrow> candidate \<Rightarrow> string \<times> account_row \<Rightarrow> frozen_seed" where
  "frozen_seed_of mint owner c p =
     (case p of (a, row) \<Rightarrow>
        \<lparr>fs_mint = mint, fs_account = a, fs_owner = owner, fs_decimals = ar_decimals row, fs_bought = row_delta row,
         fs_balance = (case ar_after row of None \<Rightarrow> 0 | Some v \<Rightarrow> v), fs_slot = ca_slot c, fs_signature = ca_signature c\<rparr>)"

definition freeze_candidate ::
    "freeze_options \<Rightarrow> string \<Rightarrow> pyval list \<Rightarrow> string \<Rightarrow> candidate \<Rightarrow> receipt_entry \<Rightarrow> receipt_entry" where
  "freeze_candidate opt mint txs owner c e =
     (let e1 = e\<lparr>en_slot := Some (ca_slot c), en_signature := Some (ca_signature c)\<rparr> in
      (case buy_pool c of
         Inl is \<Rightarrow> e1\<lparr>en_issues := is\<rparr>
       | Inr pool \<Rightarrow>
           (let b = parse_transaction (ca_tx c) mint PNone [] [] (fo_limits opt);
                positive = positive_rows owner (mint_rows mint b) in
            (case receipt_issue opt mint owner pool b of
               Some is \<Rightarrow> e1\<lparr>en_issues := is\<rparr>
             | None \<Rightarrow>
                 if list_ex (slot_rival opt (ca_signature c) (ca_slot c) (map fst positive)) txs
                 then e1\<lparr>en_issues := [''ambiguous_seed_slot_activity'']\<rparr>
                 else e1\<lparr>en_status := ''frozen_receipt_component'', en_pool := Some pool,
                         en_bought := Some (delta_sum positive),
                         en_capture := Some (mint @ '':'' @ owner @ '':'' @ ca_signature c),
                         en_seeds := map (frozen_seed_of mint owner c) (sort_key fst positive)\<rparr>))))"

section \<open>freeze_receipt_seeds\<close>

definition freeze_owner ::
    "freeze_options \<Rightarrow> string \<Rightarrow> pyval list \<Rightarrow> pyval list \<Rightarrow> string list \<Rightarrow> string \<Rightarrow> receipt_entry" where
  "freeze_owner opt mint txs swaps issues owner =
     (let e = empty_entry\<lparr>en_issues := issues\<rparr> in
      if owner \<in> set (fo_owners opt) \<or> owner \<in> set (swap_pools swaps)
      then e\<lparr>en_issues := [''public_service_seed_owner'']\<rparr>
      else
        (let p0 = add_if (list_ex (unsigned_buy mint owner) swaps) ''missing_buy_receipt_signature'' issues;
             (candidates, problems) = foldl (nominate mint txs swaps owner) ([], p0) (swap_signatures mint swaps) in
         if problems \<noteq> [] \<or> candidates = []
         then e\<lparr>en_issues := (if problems \<noteq> [] then sorted_set problems else [''no_successful_pool_buy_receipt''])\<rparr>
         else (case filter (\<lambda>c. ca_slot c = Max (ca_slot ` set candidates)) candidates of
             [c] \<Rightarrow> freeze_candidate opt mint txs owner c e
           | _ \<Rightarrow> e\<lparr>en_issues := [''ambiguous_latest_buy_slot'']\<rparr>)))"

definition read_owners :: "pyval list \<Rightarrow> int \<Rightarrow> string list res" where
  "read_owners cohort limit =
     (let owners = map address (take (nat limit) cohort) in
      if None \<in> set owners \<or> \<not> distinct owners
      then Inl (ValueError ''Selected cohort owners must be unique exact addresses'')
      else Inr (map the owners))"

definition freeze_receipt_seeds ::
    "pyval \<Rightarrow> pyval list \<Rightarrow> pyval list \<Rightarrow> pyval list \<Rightarrow> string list \<Rightarrow> string list \<Rightarrow>
     pyval \<Rightarrow> pyval \<Rightarrow> pyval \<Rightarrow> pyval \<Rightarrow> pyval \<Rightarrow> capture res" where
  "freeze_receipt_seeds mint txs swaps cohort service_owners service_accounts
       max_owners max_transactions max_swaps max_instructions max_accounts =
     (case address mint of
        None \<Rightarrow> Inl (ValueError ''Expected exact mint and bounded receipt/swap/owner sequences'')
      | Some m \<Rightarrow>
          bindR (raw_of max_owners) (\<lambda>no. bindR (raw_of max_transactions) (\<lambda>nt. bindR (raw_of max_swaps) (\<lambda>ns.
          bindR (raw_of max_instructions) (\<lambda>ni. bindR (raw_of max_accounts) (\<lambda>na.
          bindR (read_owners cohort no) (\<lambda>owners.
            let over = int (length txs) > nt \<or> int (length swaps) > ns;
                opt = \<lparr>fo_owners = service_owners, fo_accounts = service_accounts,
                       fo_limits = \<lparr>pl_instructions = ni, pl_accounts = na\<rparr>\<rparr>;
                entries = map (\<lambda>o'. (o', freeze_owner opt m (if over then [] else txs) (if over then [] else swaps)
                                          (add_if over ''receipt_observation_limit'' []) o')) owners
            in Inr \<lparr>cp_status = (if list_ex (\<lambda>p. en_seeds (snd p) \<noteq> []) entries then ''partial'' else ''unavailable''),
                    cp_entries = entries,
                    cp_issues = sorted_set (add_if (int (length cohort) > no) ''owner_limit''
                       (add_if over ''receipt_observation_limit'' (concat (map (\<lambda>p. en_issues (snd p)) entries)))),
                    cp_supplied = int (length cohort), cp_selected = int (length entries)\<rparr>)))))))"

end
