(* ===== verification/Position_Resolve.thy ===== *)
theory Position_Resolve
  imports Position_Seeds
begin

text \<open>
  \<^verbatim>\<open>src/solana_position_lineage.py\<close>, \<open>resolve_position_history\<close>: the bounded walk over the histories
  of exact token accounts, and the replay of what they show.

  The caller's \<open>history_fetcher\<close> is a parameter: given the account, the cursor and the limit it
  returns a page or raises, in a world \<open>'w\<close> of its own.  So is the optional decoder.  The page budget
  \<open>max_pages - calls\<close> is kept as the natural number of pages left.
\<close>

type_synonym 'w fetcher = "string \<Rightarrow> string option \<Rightarrow> int \<Rightarrow> 'w \<Rightarrow> pyval res \<times> 'w"

section \<open>State\<close>

record history =
  hy_owner :: "string option"
  hy_depth :: int
  hy_provider :: "string option"
  hy_providers :: "string list"
  hy_commitment :: "string option"
  hy_floor :: "int option"        \<comment> \<open>\<open>available_from_slot\<close>\<close>
  hy_gap_pages :: int             \<comment> \<open>\<open>reported_gap_pages\<close>\<close>
  hy_complete :: bool             \<comment> \<open>\<open>history_complete\<close>\<close>
  hy_provider_complete :: bool
  hy_boundary :: "bool option"    \<comment> \<open>\<open>receipt_boundary_verified\<close>\<close>
  hy_exhausted :: bool            \<comment> \<open>\<open>cursor_exhausted\<close>\<close>
  hy_pages :: int
  hy_received :: int
  hy_status :: string
  hy_issues :: "string list"

record query =
  q_mint :: string
  q_start :: int
  q_end :: int
  q_transactions :: int
  q_size :: int
  q_limits :: parse_limits        \<comment> \<open>\<open>max_instructions\<close>, \<open>max_transaction_accounts\<close>\<close>
  q_programs :: "string list"
  q_decode :: "(pyval \<Rightarrow> pyval res) option"
  q_receipts :: "(string \<times> pyval) list"  \<comment> \<open>\<open>receipt_seeds\<close>\<close>

text \<open>What the pages of all accounts brought.\<close>

record store =
  st_collected :: "(string \<times> batch) list"
  st_raw :: "(string \<times> pyval) list"     \<comment> \<open>\<open>raw_transactions\<close>\<close>
  st_conflicts :: "string list"
  st_records :: int
  st_closing :: "pyval list"

text \<open>The local variables of one account's pagination.\<close>

record scan =
  sc_history :: history
  sc_issues :: "string list"
  sc_cursor :: "string option"
  sc_seen :: "string list"

record resolver =
  rv_store :: store
  rv_histories :: "(string \<times> history) list"
  rv_queue :: "string list"
  rv_issues :: "string list"
  rv_pages :: nat                 \<comment> \<open>pages left\<close>

section \<open>The envelope of a page\<close>

definition note_provider :: "pyval \<Rightarrow> history \<times> string list \<Rightarrow> history \<times> string list" where
  "note_provider coverage st =
     (case st of (h, issues) \<Rightarrow>
       (case address (getd coverage ''provider'') of
          None \<Rightarrow> (h, insert_new ''missing_provider_identity'' issues)
        | Some p \<Rightarrow>
            (let h1 = h\<lparr>hy_providers := insert_new p (hy_providers h)\<rparr> in
             case hy_provider h of
               None \<Rightarrow> (h1\<lparr>hy_provider := Some p\<rparr>, issues)
             | Some q \<Rightarrow> (h1, add_if (q \<noteq> p) ''history_provider_changed'' issues))))"

definition coverage_scope_ok :: "query \<Rightarrow> string \<Rightarrow> pyval \<Rightarrow> bool" where
  "coverage_scope_ok q account coverage \<longleftrightarrow>
     getd coverage ''account'' = PStr account \<and> getd coverage ''mint'' = PStr (q_mint q) \<and>
     raw_of (getd coverage ''from_slot'') = Inr (q_start q) \<and> raw_of (getd coverage ''to_slot'') = Inr (q_end q) \<and>
     getd coverage ''scope'' = PStr ''all_token_account_activity''"

definition note_floor :: "query \<Rightarrow> pyval \<Rightarrow> history \<times> string list \<Rightarrow> history \<times> string list" where
  "note_floor q coverage st =
     (case st of (h, issues) \<Rightarrow>
        if \<not> has_key coverage ''available_from_slot'' then st
        else (case raw_of (getd coverage ''available_from_slot'') of
            Inl e \<Rightarrow> (h, insert_new ''invalid_provider_history_floor'' issues)
          | Inr floor' \<Rightarrow>
              (h\<lparr>hy_floor := Some (max floor' (case hy_floor h of None \<Rightarrow> 0 | Some f \<Rightarrow> f))\<rparr>,
               add_if (q_start q < q_end q \<and> floor' > q_start q + 1) ''provider_history_pruned'' issues)))"

definition note_commitment :: "pyval \<Rightarrow> history \<times> string list \<Rightarrow> history \<times> string list" where
  "note_commitment coverage st =
     (case st of (h, issues) \<Rightarrow>
        (h\<lparr>hy_gap_pages := hy_gap_pages h + (if truthy (getd coverage ''gaps'') then 1 else 0),
           hy_commitment := (case getd coverage ''commitment'' of PStr s \<Rightarrow> Some s | _ \<Rightarrow> None)\<rparr>,
         add_if (getd coverage ''commitment'' \<noteq> PStr ''finalized'') ''unfinalized_history''
           (add_if (truthy (getd coverage ''gaps'')) ''provider_reported_history_gaps'' issues)))"

text \<open>The seed boundary proof: every field matches the frozen receipt, at a finalized page.\<close>

definition same_raw :: "pyval \<Rightarrow> pyval \<Rightarrow> bool" where
  "same_raw v w \<longleftrightarrow> (case (raw_of v, raw_of w) of (Inr m, Inr n) \<Rightarrow> m = n | _ \<Rightarrow> False)"

definition boundary_ok :: "query \<Rightarrow> string \<Rightarrow> pyval \<Rightarrow> pyval \<Rightarrow> pyval \<Rightarrow> bool" where
  "boundary_ok q account seed coverage proof' \<longleftrightarrow>
     is_dict proof' \<and> getd proof' ''account'' = PStr account \<and> raw_of (getd proof' ''slot'') = Inr (q_start q) \<and>
     py_eq (getd proof' ''signature'') (getd seed ''seed_signature'') \<and>
     py_eq (getd proof' ''owner'') (getd seed ''owner'') \<and> getd proof' ''mint'' = PStr (q_mint q) \<and>
     same_raw (getd proof' ''decimals'') (getd seed ''decimals'') \<and>
     same_raw (getd proof' ''balance_raw'') (getd seed ''balance_raw'') \<and>
     same_raw (getd proof' ''bought_raw'') (getd seed ''bought_raw'') \<and>
     getd proof' ''no_later_successful_activity'' = PBool True \<and> getd coverage ''commitment'' = PStr ''finalized''"

definition boundary_issue :: string where
  "boundary_issue = ''receipt_seed_slot_boundary_unverified''"

definition note_boundary :: "query \<Rightarrow> string \<Rightarrow> pyval \<Rightarrow> history \<times> string list \<Rightarrow> history \<times> string list" where
  "note_boundary q account coverage st =
     (case st of (h, issues) \<Rightarrow>
       (case map_of (q_receipts q) account of
          None \<Rightarrow> st
        | Some seed \<Rightarrow>
            if \<not> has_key coverage ''seed_boundary'' then st
            else if boundary_ok q account seed coverage (getd coverage ''seed_boundary'')
            then (h\<lparr>hy_boundary := Some (boundary_issue \<notin> set issues)\<rparr>, issues)
            else (h\<lparr>hy_boundary := Some False\<rparr>, insert_new boundary_issue issues)))"

definition page_scope :: "query \<Rightarrow> string \<Rightarrow> pyval \<Rightarrow> history \<times> string list \<Rightarrow> history \<times> string list" where
  "page_scope q account coverage st =
     (case note_provider coverage st of (h, issues) \<Rightarrow>
        note_boundary q account coverage (note_commitment coverage (note_floor q coverage
          (h, add_if (\<not> coverage_scope_ok q account coverage) ''invalid_history_coverage_scope'' issues))))"

definition note_closing :: "string \<Rightarrow> pyval \<Rightarrow> pyval list \<times> string list \<Rightarrow> pyval list \<times> string list" where
  "note_closing account balance st =
     (case st of (closing, issues) \<Rightarrow>
        if balance = PNone then st
        else if is_dict balance \<and> getd balance ''account'' = PStr account then (closing @ [balance], issues)
        else (closing, insert_new ''invalid_closing_balance_scope'' issues))"

section \<open>The transactions of a page\<close>

definition mentions_account :: "query \<Rightarrow> string \<Rightarrow> pyval \<Rightarrow> bool" where
  "mentions_account q account tx \<longleftrightarrow>
     (let ks = getd (getd (getd tx ''transaction'') ''message'') ''accountKeys'' in
      is_list ks \<and> int (length (as_list ks)) \<le> pl_accounts (q_limits q) \<and>
      list_ex (\<lambda>k. key_of k = PStr account) (as_list ks))"

definition decode_issue :: "query \<Rightarrow> pyval \<Rightarrow> pyval \<times> string list" where
  "decode_issue q tx =
     (case q_decode q of
        None \<Rightarrow> (PDict [], [])
      | Some f \<Rightarrow>
          (case f tx of
             Inr m \<Rightarrow> if is_dict m then (m, []) else (PDict [], [''transaction_decode_error''])
           | Inl e \<Rightarrow> (PDict [], [''transaction_decode_error''])))"

definition decode_batch :: "query \<Rightarrow> pyval \<Rightarrow> batch \<times> string list" where
  "decode_batch q tx =
     (let (metadata, i1) = decode_issue q tx;
          witnesses = (if has_key metadata ''swap_witnesses'' then getd metadata ''swap_witnesses'' else PList []);
          bad = (\<not> is_list witnesses \<or> int (length (as_list witnesses)) > pl_instructions (q_limits q));
          issue = (if bad then [''invalid_swap_witnesses''] else i1);
          b = parse_transaction tx (q_mint q) (getd metadata ''transaction_index'')
                (if bad then [] else as_list witnesses) (q_programs q) (q_limits q)
      in (if issue \<noteq> [] \<and> b_status b = ''parsed''
          then b\<lparr>b_status := ''partial'', b_issues := sorted_set (b_issues b @ issue)\<rparr> else b,
          i1 @ (if bad then [''invalid_swap_witnesses''] else [])))"

definition settled_batch :: "batch \<Rightarrow> bool" where
  "settled_batch b \<longleftrightarrow> b_status b = ''parsed'' \<or> b_status b = ''failed''"

definition in_horizon :: "query \<Rightarrow> batch \<Rightarrow> bool" where
  "in_horizon q b \<longleftrightarrow> (case b_slot b of None \<Rightarrow> False | Some slot \<Rightarrow> q_start q < slot \<and> slot \<le> q_end q)"

definition collect_tx :: "query \<Rightarrow> string \<Rightarrow> store \<times> string list \<Rightarrow> pyval \<Rightarrow> store \<times> string list" where
  "collect_tx q account st tx =
     (case st of (s, issues) \<Rightarrow>
       (case tx_signature tx of
          None \<Rightarrow> (s, insert_new ''unavailable_transaction'' issues)
        | Some sig \<Rightarrow>
            (let i1 = add_if (\<not> mentions_account q account tx) ''transaction_missing_queried_account'' issues in
             case (map_of (st_raw s) sig, map_of (st_collected s) sig) of
               (Some old, Some b) \<Rightarrow>
                 (let clash = \<not> py_eq tx old in
                  (s\<lparr>st_conflicts := add_if clash sig (st_conflicts s)\<rparr>,
                   add_if (\<not> settled_batch b) ''incomplete_transaction_data''
                     (add_if clash ''conflicting_duplicate_transaction'' i1)))
             | _ \<Rightarrow>
                 (let (b, ds) = decode_batch q tx in
                  (s\<lparr>st_raw := AList.update sig tx (st_raw s), st_collected := AList.update sig b (st_collected s)\<rparr>,
                   add_if (\<not> in_horizon q b) ''transaction_outside_horizon''
                     (add_if (\<not> settled_batch b) ''incomplete_transaction_data'' (foldl (\<lambda>is d. insert_new d is) i1 ds)))))))"

section \<open>The pages of one account\<close>

definition interpretation_issues :: "string list" where
  "interpretation_issues = [''incomplete_transaction_data'', ''transaction_decode_error'', ''invalid_swap_witnesses'']"

definition finish_scan :: "query \<Rightarrow> string \<Rightarrow> pyval \<Rightarrow> history \<Rightarrow> string list \<Rightarrow> history \<times> string list" where
  "finish_scan q account coverage h issues =
     (let i1 = add_if (getd coverage ''complete'' \<noteq> PBool True) ''incomplete_account_history'' issues;
          i2 = add_if (map_of (q_receipts q) account \<noteq> None \<and> hy_boundary h \<noteq> Some True) boundary_issue i1
      in (h\<lparr>hy_exhausted := True, hy_complete := (i2 = []),
            hy_provider_complete := list_all (\<lambda>i. i \<in> set interpretation_issues) i2\<rparr>, i2))"

definition read_page :: "query \<Rightarrow> string \<Rightarrow> scan \<Rightarrow> store \<Rightarrow> pyval \<Rightarrow> bool \<times> scan \<times> store" where
  "read_page q account sc st page =
     (let rows = as_list (getd page ''transactions'');
          coverage = (if is_dict (getd page ''coverage'') then getd page ''coverage'' else PDict []);
          next' = getd page ''next_cursor'';
          (h1, i1) = page_scope q account coverage (sc_history sc, sc_issues sc)
      in
      if next' \<noteq> PNone \<and> address next' = None
      then (True, sc\<lparr>sc_history := h1, sc_issues := insert_new ''invalid_history_cursor'' i1\<rparr>, st)
      else
        (let i2 = add_if (next' \<noteq> PNone \<and> getd coverage ''complete'' = PBool True) ''premature_history_complete'' i1;
             (closing, i3) = note_closing account (getd page ''closing_balance'') (st_closing st, i2);
             (st', i4) = foldl (collect_tx q account)
                (st\<lparr>st_closing := closing, st_records := st_records st + int (length rows)\<rparr>, i3) rows;
             h2 = h1\<lparr>hy_received := hy_received h1 + int (length rows)\<rparr>
         in (case address next' of
               None \<Rightarrow> (case finish_scan q account coverage h2 i4 of
                   (h3, i5) \<Rightarrow> (True, sc\<lparr>sc_history := h3, sc_issues := i5\<rparr>, st'))
             | Some c \<Rightarrow>
                 if c \<in> set (sc_seen sc)
                 then (True, sc\<lparr>sc_history := h2, sc_issues := insert_new ''history_cursor_cycle'' i4\<rparr>, st')
                 else (False, sc\<lparr>sc_history := h2, sc_issues := i4, sc_cursor := Some c,
                                 sc_seen := sc_seen sc @ [c]\<rparr>, st'))))"

definition page_step ::
    "query \<Rightarrow> 'w fetcher \<Rightarrow> string \<Rightarrow> scan \<Rightarrow> store \<Rightarrow> 'w \<Rightarrow> (bool \<times> scan \<times> store) \<times> 'w" where
  "page_step q fetch account sc st w =
     (let limit = min (q_size q) (q_transactions q - st_records st);
          sc0 = sc\<lparr>sc_history := (sc_history sc)\<lparr>hy_pages := hy_pages (sc_history sc) + 1\<rparr>\<rparr>;
          stop = (\<lambda>issue. (True, sc0\<lparr>sc_issues := insert_new issue (sc_issues sc)\<rparr>, st))
      in (case fetch account (sc_cursor sc) limit w of
            (Inl e, w') \<Rightarrow> (stop ''history_fetch_error'', w')
          | (Inr page, w') \<Rightarrow>
              (if \<not> is_dict page \<or> \<not> is_list (getd page ''transactions'') then (stop ''invalid_history_page'', w')
               else if int (length (as_list (getd page ''transactions''))) > limit
               then (stop ''history_page_transaction_limit'', w')
               else (read_page q account sc0 st page, w'))))"

fun page_loop ::
    "nat \<Rightarrow> query \<Rightarrow> 'w fetcher \<Rightarrow> string \<Rightarrow> scan \<Rightarrow> store \<Rightarrow> 'w \<Rightarrow> nat \<times> scan \<times> store \<times> 'w" where
  "page_loop n q fetch account sc st w =
     (if n = 0 \<or> st_records st \<ge> q_transactions q
      then (n, sc\<lparr>sc_issues := insert_new (if n = 0 then ''page_limit'' else ''transaction_limit'') (sc_issues sc)\<rparr>, st, w)
      else (case page_step q fetch account sc st w of
          ((True, sc', st'), w') \<Rightarrow> (n - 1, sc', st', w')
        | ((False, sc', st'), w') \<Rightarrow> page_loop (n - 1) q fetch account sc' st' w'))"

declare page_loop.simps [simp del]

section \<open>Discovery\<close>

definition batches_of :: "store \<Rightarrow> batch list" where
  "batches_of st = map (\<lambda>(sig, b). if sig \<in> set (st_conflicts st) then b\<lparr>b_status := ''unavailable'', b_transfers := []\<rparr> else b)
                     (st_collected st)"

definition new_history :: "query \<Rightarrow> location \<Rightarrow> history" where
  "new_history q lo = \<lparr>hy_owner = lo_owner lo, hy_depth = lo_depth lo, hy_provider = None, hy_providers = [],
     hy_commitment = None, hy_floor = None, hy_gap_pages = 0, hy_complete = False, hy_provider_complete = False,
     hy_boundary = (if map_of (q_receipts q) (lo_account lo) = None then None else Some False),
     hy_exhausted = False, hy_pages = 0, hy_received = 0, hy_status = ''unavailable'', hy_issues = []\<rparr>"

definition discover_location :: "query \<Rightarrow> resolver \<Rightarrow> location \<Rightarrow> resolver" where
  "discover_location q rv lo =
     (if lo_account lo \<in> set (map fst (rv_histories rv)) then rv
      else rv\<lparr>rv_histories := rv_histories rv @ [(lo_account lo, new_history q lo)],
              rv_queue := rv_queue rv @ [lo_account lo]\<rparr>)"

definition discover :: "query \<Rightarrow> summary \<Rightarrow> resolver \<Rightarrow> resolver" where
  "discover q su rv =
     foldl (discover_location q)
       (rv\<lparr>rv_issues := foldl (\<lambda>is i. insert_new i is) (rv_issues rv)
             (filter (\<lambda>i. i \<in> set [''account_limit'', ''depth_limit'', ''event_limit'']) (su_issues su))\<rparr>)
       (sort_key (\<lambda>lo. lo_depth lo) (sort_key lo_account (su_locations su)))"

definition close_history :: "scan \<Rightarrow> history" where
  "close_history sc = (sc_history sc)\<lparr>hy_issues := sorted_set (sc_issues sc),
     hy_status := (if hy_complete (sc_history sc) then ''complete''
                   else if hy_pages (sc_history sc) \<noteq> 0 then ''partial'' else ''unavailable'')\<rparr>"

definition resolve_step ::
    "query \<Rightarrow> 'w fetcher \<Rightarrow> pyval list \<Rightarrow> replay_options \<Rightarrow> string \<Rightarrow> resolver \<Rightarrow> 'w \<Rightarrow> (resolver \<times> 'w) res" where
  "resolve_step q fetch seeds opt account rv w =
     (case map_of (rv_histories rv) account of
        None \<Rightarrow> Inl KeyError
      | Some h \<Rightarrow>
          (case page_loop (rv_pages rv) q fetch account \<lparr>sc_history = h, sc_issues = [], sc_cursor = None, sc_seen = []\<rparr>
                  (rv_store rv) w of
             (n, sc, st, w') \<Rightarrow>
               bindR (analyze (q_mint q) seeds (batches_of st) (q_start q) (q_end q) False [] opt) (\<lambda>su.
                 Inr (discover q su
                        (rv\<lparr>rv_store := st, rv_pages := n,
                            rv_histories := AList.update account (close_history sc) (rv_histories rv),
                            rv_issues := foldl (\<lambda>is i. insert_new i is) (rv_issues rv) (sc_issues sc)\<rparr>), w'))))"

text \<open>The queue: \<open>None\<close> when the fuel runs out.\<close>

fun resolve_loop ::
    "nat \<Rightarrow> query \<Rightarrow> 'w fetcher \<Rightarrow> pyval list \<Rightarrow> replay_options \<Rightarrow> resolver \<Rightarrow> 'w \<Rightarrow> (resolver \<times> 'w) res option" where
  "resolve_loop fuel q fetch seeds opt rv w =
     (case rv_queue rv of
        [] \<Rightarrow> Some (Inr (rv, w))
      | account # rest \<Rightarrow>
          (case fuel of
             0 \<Rightarrow> None
           | Suc k \<Rightarrow>
               (case resolve_step q fetch seeds opt account (rv\<lparr>rv_queue := rest\<rparr>) w of
                  Inl e \<Rightarrow> Some (Inl e)
                | Inr (rv', w') \<Rightarrow> resolve_loop k q fetch seeds opt rv' w')))"

declare resolve_loop.simps [simp del]

section \<open>The report\<close>

record resolution =
  re_summary :: summary
  re_basis :: string              \<comment> \<open>\<open>history_basis\<close>\<close>
  re_receipts :: bool             \<comment> \<open>\<open>scope\<close> is a receipt component\<close>
  re_provider_complete :: bool
  re_complete :: bool             \<comment> \<open>\<open>coverage.complete\<close>\<close>
  re_providers :: "string list"
  re_histories :: "(string \<times> history) list"
  re_requested :: nat             \<comment> \<open>\<open>addresses_requested\<close>\<close>
  re_pages :: int                 \<comment> \<open>\<open>pages_requested\<close>\<close>
  re_records :: int               \<comment> \<open>\<open>transactions_received\<close>\<close>
  re_unique :: nat
  re_conflicts :: "string list"
  re_transaction_issues :: "(string option \<times> int option \<times> string \<times> string list) list"
  re_limits_reached :: "string list"
  re_bounds :: "(string \<times> int \<times> int) list"
  re_follow :: "string list"      \<comment> \<open>\<open>follow_status\<close> of each edge\<close>

definition coverage_complete :: "resolver \<Rightarrow> bool" where
  "coverage_complete rv \<longleftrightarrow> rv_histories rv \<noteq> [] \<and> list_all (\<lambda>i. i \<in> set interpretation_issues) (rv_issues rv) \<and>
     list_all (\<lambda>p. hy_provider_complete (snd p)) (rv_histories rv)"

fun seed_account :: "pyval \<Rightarrow> string" where
  "seed_account seed = (case getd seed ''account'' of PStr a \<Rightarrow> a | _ \<Rightarrow> '''')"

fun with_key :: "string \<Rightarrow> pyval \<Rightarrow> pyval \<Rightarrow> pyval" where
  "with_key k v (PDict d) = PDict (AList.update k v d)"
| "with_key k v w = w"

definition replay_seed :: "query \<Rightarrow> resolver \<Rightarrow> pyval \<Rightarrow> pyval" where
  "replay_seed q rv seed =
     (if map_of (q_receipts q) (seed_account seed) = None then seed
      else with_key ''receipt_slot_boundary_verified''
             (PBool (coverage_complete rv \<and>
                (case map_of (rv_histories rv) (seed_account seed) of None \<Rightarrow> False | Some h \<Rightarrow> hy_boundary h = Some True)))
             seed)"

definition follow_status :: "(string \<times> history) list \<Rightarrow> edge \<Rightarrow> string" where
  "follow_status hs e =
     (if e_disposition e = ''sale'' then ''sale_terminal''
      else if e_disposition e = ''custody'' then ''public_service_terminal_beneficiary_unresolved''
      else if e_disposition e = ''unknown'' then ''unsupported_flow''
      else (case map_of hs (e_dst e) of
          Some h \<Rightarrow> ''account_history_'' @ hy_status h
        | None \<Rightarrow> ''outside_bounded_lineage''))"

definition limit_issues :: "string list" where
  "limit_issues = [''account_limit'', ''depth_limit'', ''event_limit'', ''transaction_limit'', ''page_limit'',
                   ''history_page_transaction_limit'']"

definition report :: "query \<Rightarrow> nat \<Rightarrow> resolver \<Rightarrow> summary \<Rightarrow> resolution" where
  "report q pages rv su =
     (let issues = sorted_set (su_issues su @ rv_issues rv); complete = coverage_complete rv; hs = rv_histories rv;
          su' = su\<lparr>su_issues := issues, su_status := (if issues \<noteq> [] then ''partial'' else su_status su)\<rparr>
      in \<lparr>re_summary = su',
          re_basis = (if complete then ''provider_asserted_token_account_history'' else ''bounded_partial_account_history''),
          re_receipts = (q_receipts q \<noteq> []), re_provider_complete = complete,
          re_complete = (su_complete su \<and> issues = []),
          re_providers = sorted_set (concat (map (\<lambda>p. hy_providers (snd p)) hs)), re_histories = hs,
          re_requested = length (filter (\<lambda>p. hy_pages (snd p) > 0) hs), re_pages = int pages - int (rv_pages rv),
          re_records = st_records (rv_store rv), re_unique = length (st_collected (rv_store rv)),
          re_conflicts = sorted_set (st_conflicts (rv_store rv)),
          re_transaction_issues = map (\<lambda>b. (b_signature b, b_slot b, b_status b, b_issues b))
             (filter (\<lambda>b. b_issues b \<noteq> []) (map snd (st_collected (rv_store rv)))),
          re_limits_reached = filter (\<lambda>i. i \<in> set limit_issues) issues,
          re_bounds = [(''original'', su_original su, su_upper_original su),
             (''transferred'', su_transferred su, su_upper_transferred su),
             (''sold'', su_sold su, su_upper_sold su), (''unknown'', su_unknown su, su_unknown su)],
          re_follow = map (follow_status hs) (su_edges su)\<rparr>)"

definition receipt_seed_add :: "int \<Rightarrow> (string \<times> pyval) list \<Rightarrow> pyval \<Rightarrow> (string \<times> pyval) list res" where
  "receipt_seed_add start acc seed =
     (if getd seed ''scope'' \<noteq> PStr receipt_scope then Inr acc
      else bindR (raw_of (getd seed ''seed_slot'')) (\<lambda>slot.
        if slot \<noteq> start \<or> address (getd seed ''seed_signature'') = None
        then Inl (ValueError ''Receipt components require their own exact seed slot and signature'')
        else Inr (AList.update (seed_account seed) seed acc)))"

definition start_resolver :: "nat \<Rightarrow> resolver" where
  "start_resolver pages = \<lparr>rv_store = \<lparr>st_collected = [], st_raw = [], st_conflicts = [], st_records = 0, st_closing = []\<rparr>,
     rv_histories = [], rv_queue = [], rv_issues = [], rv_pages = pages\<rparr>"

text \<open>Enough fuel: every account popped takes a page or shortens the queue.\<close>

definition resolve_fuel :: "nat \<Rightarrow> nat \<Rightarrow> nat" where
  "resolve_fuel pages addresses = (pages + 1) * (addresses + 1)"

definition resolve ::
    "query \<Rightarrow> 'w fetcher \<Rightarrow> pyval list \<Rightarrow> replay_options \<Rightarrow> nat \<Rightarrow> 'w \<Rightarrow> (resolution \<times> 'w) res option" where
  "resolve q fetch seeds opt pages w =
     (case analyze (q_mint q) seeds [] (q_start q) (q_end q) False [] opt of
        Inl e \<Rightarrow> Some (Inl e)
      | Inr initial \<Rightarrow>
          (case foldR (receipt_seed_add (q_start q)) [] seeds of
             Inl e \<Rightarrow> Some (Inl e)
           | Inr receipts \<Rightarrow>
               (let q' = q\<lparr>q_receipts := receipts\<rparr> in
                case resolve_loop (resolve_fuel pages (nat (ro_max_accounts opt))) q' fetch seeds opt
                       (discover q' initial (start_resolver pages)) w of
                  None \<Rightarrow> None
                | Some (Inl e) \<Rightarrow> Some (Inl e)
                | Some (Inr (rv, w')) \<Rightarrow>
                    Some (bindR (analyze (q_mint q) (map (replay_seed q' rv) seeds) (batches_of (rv_store rv)) (q_start q)
                       (q_end q) (coverage_complete rv) (st_closing (rv_store rv)) opt) (\<lambda>su.
                      Inr (report q' pages rv su, w'))))))"

text \<open>The arguments as Python values.\<close>

record bounds =
  bo_depth :: pyval
  bo_addresses :: pyval
  bo_transactions :: pyval
  bo_events :: pyval
  bo_pages :: pyval
  bo_size :: pyval
  bo_instructions :: pyval
  bo_accounts :: pyval

definition resolve_arguments ::
    "pyval \<Rightarrow> pyval \<Rightarrow> pyval \<Rightarrow> (pyval \<Rightarrow> pyval res) option \<Rightarrow> string list \<Rightarrow> string list \<Rightarrow> string list \<Rightarrow> bounds \<Rightarrow>
     (query \<times> replay_options \<times> nat) res" where
  "resolve_arguments mint from_slot to_slot decode programs service_accounts service_owners bo =
     bindR (raw_of from_slot) (\<lambda>start. bindR (raw_of to_slot) (\<lambda>end.
     bindR (raw_of (bo_depth bo)) (\<lambda>depth. bindR (raw_of (bo_addresses bo)) (\<lambda>addresses.
     bindR (raw_of (bo_transactions bo)) (\<lambda>transactions. bindR (raw_of (bo_events bo)) (\<lambda>events.
     bindR (raw_of (bo_pages bo)) (\<lambda>pages. bindR (raw_of (bo_size bo)) (\<lambda>page_size.
     bindR (raw_of (bo_instructions bo)) (\<lambda>instructions. bindR (raw_of (bo_accounts bo)) (\<lambda>accounts.
       if page_size = 0 then Inl (ValueError ''page_size must be positive'')
       else (case address mint of
           None \<Rightarrow> Inl (ValueError ''Expected exact mint and bounded seed/batch sequences'')
         | Some m \<Rightarrow> Inr
             (\<lparr>q_mint = m, q_start = start, q_end = end, q_transactions = transactions, q_size = page_size,
               q_limits = \<lparr>pl_instructions = instructions, pl_accounts = accounts\<rparr>, q_programs = programs,
               q_decode = decode, q_receipts = []\<rparr>,
              \<lparr>ro_accounts = service_accounts, ro_owners = service_owners, ro_max_transactions = transactions,
               ro_max_events = events, ro_max_accounts = addresses, ro_max_depth = depth\<rparr>,
              nat pages))))))))))))"

definition resolve_position_history ::
    "pyval \<Rightarrow> pyval list \<Rightarrow> 'w fetcher \<Rightarrow> pyval \<Rightarrow> pyval \<Rightarrow> (pyval \<Rightarrow> pyval res) option \<Rightarrow> string list \<Rightarrow>
     string list \<Rightarrow> string list \<Rightarrow> bounds \<Rightarrow> 'w \<Rightarrow> (resolution \<times> 'w) res option" where
  "resolve_position_history mint seeds fetch from_slot to_slot decode programs service_accounts service_owners bo w =
     (if seeds = [] then Some (Inl (ValueError ''At least one frozen token-account seed is required''))
      else (case resolve_arguments mint from_slot to_slot decode programs service_accounts service_owners bo of
          Inl e \<Rightarrow> Some (Inl e)
        | Inr (q, opt, pages) \<Rightarrow> resolve q fetch seeds opt pages w))"

end
