(* ===== verification/Position_Size.thy ===== *)
theory Position_Size
  imports Position_Bounds
begin

text \<open>
  The size of a replay: only the discovery of a recipient adds an account, so the tracked accounts
  and their depths stay within the caller's limits.
\<close>

definition skeleton :: "replay \<Rightarrow> (string \<times> int) list" where
  "skeleton s = map (\<lambda>(a, n). (a, n_depth n)) (rp_nodes s)"

definition sized :: "replay_options \<Rightarrow> (string \<times> int) list \<Rightarrow> bool" where
  "sized opt sk \<longleftrightarrow> length sk \<le> nat (ro_max_accounts opt) \<and> (\<forall>p \<in> set sk. snd p \<le> ro_max_depth opt)"

lemma skeleton_gap [simp]: "skeleton (gap r s) = skeleton s" "skeleton (gap_if b r s) = skeleton s"
  by (auto simp: skeleton_def drop_lower_def gap_if_def)

lemma skeleton_frame [simp]:
  "skeleton (s\<lparr>rp_issues := i\<rparr>) = skeleton s" "skeleton (s\<lparr>rp_edges := es\<rparr>) = skeleton s"
  "skeleton (sell_leg l lower upper s) = skeleton s" "skeleton (note_edge b e s) = skeleton s"
  by (auto simp: skeleton_def sell_leg_def note_edge_def)

lemma skeleton_update: "map_of ns a = Some n \<Longrightarrow> n_depth m = n_depth n \<Longrightarrow>
    map (\<lambda>(a, n). (a, n_depth n)) (AList.update a m ns) = map (\<lambda>(a, n). (a, n_depth n)) ns"
  by (induction ns) (auto split: if_splits)

lemma skeleton_set_node:
  "map_of (rp_nodes s) a = Some n \<Longrightarrow> n_depth m = n_depth n \<Longrightarrow> skeleton (set_node a m s) = skeleton s"
  by (simp add: skeleton_def skeleton_update)

lemma skeleton_set_node_gap:
  "map_of (rp_nodes s) a = Some n \<Longrightarrow> n_depth m = n_depth n \<Longrightarrow> skeleton (set_node a m (gap r s)) = skeleton s"
  using skeleton_set_node [of "gap r s" a "n\<lparr>n_lower := 0\<rparr>" m] by simp

lemmas skeleton_simps = skeleton_set_node skeleton_set_node_gap

lemma skeleton_order:
  assumes "order_batches mint start end opt batches s = (ordered, s')"
  shows "skeleton s' = skeleton s"
proof -
  have u: "skeleton (snd (snd (unique_add mint st b))) = skeleton (snd (snd st))" for st b
    by (auto simp: unique_add_def split: prod.splits option.splits)
  have r: "skeleton (snd (slot_add start end st b)) = skeleton (snd st)" for st b
    by (auto simp: slot_add_def split: prod.splits sum.splits)
  have g: "skeleton (snd (slot_group rows st slot)) = skeleton (snd st)" for rows st slot
    by (auto simp: slot_group_def Let_def split: prod.splits)
  have fold: "skeleton (f (foldl h st xs)) = skeleton (f st)" if "\<And>st x. skeleton (f (h st x)) = skeleton (f st)"
    for f :: "'s \<Rightarrow> replay" and h :: "'s \<Rightarrow> 'x \<Rightarrow> 's" and st xs
    using that by (induction xs arbitrary: st) auto
  obtain unique conflicts s1 where 1: "foldl (unique_add mint) ([], [], gap_if (int (length batches) > ro_max_transactions opt)
      ''transaction_limit'' s) (if int (length batches) > ro_max_transactions opt then [] else batches) = (unique, conflicts, s1)"
    by (metis prod_cases3)
  obtain rows s2 where 2: "foldl (slot_add start end) ([], s1) (map snd (filter (\<lambda>p. fst p \<notin> set conflicts) unique)) = (rows, s2)"
    by fastforce
  obtain ord s3 where 3: "foldl (slot_group rows) ([], s2) (sorted_set (map fst rows)) = (ord, s3)" by fastforce
  have "skeleton s1 = skeleton s"
    using fold [of "\<lambda>st. snd (snd st)" "unique_add mint", OF u] 1 by (metis skeleton_gap(2) snd_conv)
  moreover have "skeleton s2 = skeleton s1" using fold [of snd "slot_add start end", OF r] 2 by (metis snd_conv)
  moreover have "skeleton s3 = skeleton s2" using fold [of snd "slot_group rows", OF g] 3 by (metis snd_conv)
  moreover have "skeleton s' = skeleton s3"
    using assms unfolding order_batches_def Let_def 1 prod.case 2 3 by auto
  ultimately show ?thesis by simp
qed

lemma skeleton_before: "check_before mint s p = Inr s' \<Longrightarrow> skeleton s' = skeleton s"
  by (auto simp: check_before_def skeleton_simps split: prod.splits option.splits if_splits)

lemma skeleton_after: "check_after mint slot s p = Inr s' \<Longrightarrow> skeleton s' = skeleton s"
  by (auto simp: check_after_def skeleton_simps split: prod.splits option.splits if_splits)

lemma skeleton_send: "send_leg l valid slot s = (s', lower, upper) \<Longrightarrow> skeleton s' = skeleton s"
  by (auto simp: send_leg_def debit_def skeleton_simps split: option.splits if_splits)

lemma skeleton_receive [simp]: "skeleton (receive_leg l valid lower upper slot s) = skeleton s"
  by (auto simp: receive_leg_def skeleton_simps split: option.splits)

lemma within_discover:
  assumes "discover_leg opt l drow slot sender s = Inr s'" and "sized opt (skeleton s)"
    and new: "map_of (rp_nodes s) (lg_dst l) = None"
  shows "sized opt (skeleton s')"
proof -
  from assms(1) consider "skeleton s' = skeleton s"
    | n where "s' = set_node (lg_dst l) n s" "n_depth n \<le> ro_max_depth opt" "int (length (rp_nodes s)) < ro_max_accounts opt"
    by (auto simp: discover_leg_def bindR_eq_Inr split: if_splits)
  then show ?thesis
  proof cases
    case 2
    have "AList.update (lg_dst l) n (rp_nodes s) = rp_nodes s @ [(lg_dst l, n)]"
      using new by (rule update_fresh)
    with 2 assms(2) show ?thesis by (auto simp: sized_def skeleton_def)
  qed (use assms(2) in simp)
qed

lemma within_leg:
  assumes "replay_leg opt b slot s l = Inr s'" and "sized opt (skeleton s)"
  shows "sized opt (skeleton s')"
  using assms(1)
proof (cases rule: replay_leg_cases)
  case (moved srow drow valid s1 lower upper s2 e)
  have s1: "skeleton s1 = skeleton s" by (rule skeleton_send [OF moved(6)])
  from moved(7) consider "skeleton s2 = skeleton s1"
    | t where "discover_leg opt l drow slot (the (map_of (rp_nodes s) (lg_src l))) s1 = Inr t"
      "map_of (rp_nodes s1) (lg_dst l) = None" "skeleton s2 = skeleton t"
    by (auto simp: place_leg_def bindR_eq_Inr split: if_splits)
  then have "sized opt (skeleton s2)" using within_discover s1 assms(2) by cases auto
  with moved(8) show ?thesis by simp
qed (use assms(2) in simp)

lemma within_batch:
  assumes "replay_batch mint opt s b = Inr s'" and "sized opt (skeleton s)"
  shows "sized opt (skeleton s')"
proof -
  have before: "sized opt (skeleton t')" if "foldR (check_before mint) t xs = Inr t'" "sized opt (skeleton t)" for t t' xs
    by (rule foldR_invariant [OF that(1), of "\<lambda>s. sized opt (skeleton s)"]) (use that(2) skeleton_before in fastforce)+
  have after: "sized opt (skeleton t')" if "foldR (check_after mint slot) t xs = Inr t'" "sized opt (skeleton t)" for t t' xs slot
    by (rule foldR_invariant [OF that(1), of "\<lambda>s. sized opt (skeleton s)"]) (use that(2) skeleton_after in fastforce)+
  have legs: "sized opt (skeleton t')" if "foldR (replay_leg opt b slot) t xs = Inr t'" "sized opt (skeleton t)" for t t' xs slot
    by (rule foldR_invariant [OF that(1), of "\<lambda>s. sized opt (skeleton s)"]) (use that(2) within_leg in blast)+
  from assms show ?thesis
    by (auto simp: replay_batch_def Let_def bindR_eq_Inr split: if_splits dest!: before legs after)
qed

lemma skeleton_closing:
  assumes "closing_add mint end st row = Inr st'"
  shows "skeleton (snd st') = skeleton (snd st)"
proof -
  obtain closing s where st: "st = (closing, s)" by (cases st)
  with assms obtain scope where scope: "closing_scope mint end (rp_nodes s) row = Inr scope"
    by (auto simp: closing_add_def bindR_eq_Inr)
  show ?thesis
  proof (cases scope)
    case None
    with assms st scope show ?thesis by (auto simp: closing_add_def)
  next
    case (Some p)
    obtain a n where p: "p = (a, n)" by (cases p)
    show ?thesis
      by (cases "raw_of (getd row ''balance_raw'')")
        (use assms st scope Some p in \<open>auto simp: closing_add_def split: option.splits if_splits\<close>)
  qed
qed

lemma skeleton_apply: "skeleton (closing_apply end s p) = skeleton s"
  by (auto simp: closing_apply_def Let_def skeleton_simps gap_if_def split: prod.splits option.splits if_splits)

lemma start_within:
  assumes "read_seeds mint opt start seeds = Inr sd" and "0 \<le> ro_max_depth opt"
  shows "sized opt (skeleton (start_replay opt hc sd))"
proof -
  have "\<forall>p \<in> set (sd_nodes sd). n_depth (snd p) = 0"
    using assms(1) unfolding read_seeds_def
  proof (rule foldR_invariant)
    fix sd seed sd'
    assume "\<forall>p \<in> set (sd_nodes sd). n_depth (snd p) = 0" "seed_add mint opt start sd seed = Inr sd'"
    then show "\<forall>p \<in> set (sd_nodes sd'). n_depth (snd p) = 0"
      by (auto simp: seed_add_def bindR_eq_Inr split: if_splits option.splits)
  qed simp
  then have "\<forall>p \<in> set (take k (sd_nodes sd)). n_depth (snd p) = 0" for k by (meson in_set_takeD)
  with assms(2) show ?thesis
    unfolding start_replay_def Let_def
    by (auto simp: sized_def skeleton_def gap_if_def drop_lower_def split: if_splits)
      (use \<open>\<forall>p \<in> set (sd_nodes sd). n_depth (snd p) = 0\<close> in fastforce)+
qed

lemma summarize_locations:
  assumes "summarize start end hc sd closing s = Inr r"
  shows "map (\<lambda>lo. (lo_account lo, lo_depth lo)) (su_locations r) = map (\<lambda>(a, n). (a, n_depth n)) (sort_key fst (rp_nodes s))"
  using assms
  by (cases "sd_total sd - sum_nodes (\<lambda>n. n_owner n \<in> set (sd_originals sd)) n_lower (rp_nodes s) -
      sum_nodes (\<lambda>n. n_owner n \<notin> set (sd_originals sd)) n_lower (rp_nodes s) - rp_sold_lower s < 0")
    (auto simp: summarize_def Let_def comp_def split_def simp del: if_split)

lemma analyze_sized:
  assumes "analyze mint seeds batches start end hc closing_balances opt = Inr r" and "0 \<le> ro_max_depth opt"
  shows "length (su_locations r) \<le> nat (ro_max_accounts opt) \<and>
    (\<forall>lo \<in> set (su_locations r). lo_depth lo \<le> ro_max_depth opt)"
proof -
  have "\<not> end < start" using assms by (auto simp: analyze_def split: if_splits)
  with assms obtain sd where 1: "read_seeds mint opt start seeds = Inr sd"
    by (auto simp: analyze_def bindR_eq_Inr)
  obtain ordered s1 where 2: "order_batches mint start end opt batches (start_replay opt hc sd) = (ordered, s1)"
    by fastforce
  from assms \<open>\<not> end < start\<close> 1 2 obtain s2 closing s3 where
    3: "foldR (replay_batch mint opt) s1 ordered = Inr s2"
    and 4: "foldR (closing_add mint end) ([], s2) closing_balances = Inr (closing, s3)"
    and 5: "summarize start end hc sd closing (foldl (closing_apply end) s3 closing) = Inr r"
    by (auto simp: analyze_def bindR_eq_Inr)
  have "sized opt (skeleton s1)" using skeleton_order [OF 2] start_within [OF 1 assms(2)] by simp
  then have s2: "sized opt (skeleton s2)" by (rule foldR_invariant [OF 3]) (rule within_batch)
  define sf where "sf = foldl (closing_apply end) s3 closing"
  have "skeleton (snd (closing, s3)) = skeleton s2"
    by (rule foldR_invariant [OF 4]) (auto dest: skeleton_closing)
  moreover have "skeleton sf = skeleton s3"
    unfolding sf_def by (rule foldl_invariant) (auto simp: skeleton_apply)
  ultimately have "sized opt (skeleton sf)" using s2 by simp
  then have w: "sized opt (map (\<lambda>(a, n). (a, n_depth n)) (sort_key fst (rp_nodes sf)))"
    by (auto simp: sized_def skeleton_def)
  have m: "map (\<lambda>lo. (lo_account lo, lo_depth lo)) (su_locations r) =
      map (\<lambda>(a, n). (a, n_depth n)) (sort_key fst (rp_nodes sf))"
    using 5 unfolding sf_def [symmetric] by (rule summarize_locations)
  have "length (su_locations r) \<le> nat (ro_max_accounts opt)" 
    using w arg_cong [OF m, of length] by (simp add: sized_def)
  moreover have "\<forall>p \<in> set (map (\<lambda>lo. (lo_account lo, lo_depth lo)) (su_locations r)). snd p \<le> ro_max_depth opt"
    using w unfolding m sized_def by blast
  then have "\<forall>lo \<in> set (su_locations r). lo_depth lo \<le> ro_max_depth opt" by simp
  ultimately show ?thesis by blast
qed

text \<open>
  Bounded tracking.  A report names at most the allowed number of token accounts, none of them
  more transfers away from the seeds than the allowed depth.
\<close>

theorem position_size_bounded:
  assumes "analyze mint seeds batches start end hc closing_balances opt = Inr r" and "0 \<le> ro_max_depth opt"
  shows "length (su_locations r) \<le> nat (ro_max_accounts opt) \<and>
    (\<forall>lo \<in> set (su_locations r). lo_depth lo \<le> ro_max_depth opt)"
  using assms by (rule analyze_sized)

theorem position_size_bounded_witness:
  "\<exists>r. analyze ''M'' [demo_seed] [demo_batch] 5 10 True [] demo_replay_options = Inr r \<and> length (su_locations r) \<le> 32"
proof (rule demo_reports)
  fix r
  assume "analyze ''M'' [demo_seed] [demo_batch] 5 10 True [] demo_replay_options = Inr r"
  with position_size_bounded [OF this] show ?thesis by (auto simp: demo_replay_options_def)
qed

end
