(* ===== verification/Position_Resolve_Laws.thy ===== *)
theory Position_Resolve_Laws
  imports Position_Resolve Position_Size
begin

text \<open>
  What the walk over account histories promises: it ends, it stays within its bounds, and a report
  that guarantees holdings rests on a complete history of every account it found.
\<close>

section \<open>One page\<close>

lemma page_scope_facts:
  assumes "page_scope q account coverage (h, issues) = (h', issues')"
  shows "set issues \<subseteq> set issues'" "hy_provider_complete h' = hy_provider_complete h" "hy_exhausted h' = hy_exhausted h"
    "hy_pages h' = hy_pages h" "hy_commitment h' = Some ''finalized'' \<or> ''unfinalized_history'' \<in> set issues'"
proof -
  obtain h1 i1 where 1: "note_provider coverage (h, issues) = (h1, i1)" by fastforce
  define i2 where "i2 = add_if (\<not> coverage_scope_ok q account coverage) ''invalid_history_coverage_scope'' i1"
  obtain h3 i3 where 3: "note_floor q coverage (h1, i2) = (h3, i3)" by fastforce
  obtain h4 i4 where 4: "note_commitment coverage (h3, i3) = (h4, i4)" by fastforce
  have 5: "note_boundary q account coverage (h4, i4) = (h', issues')" using assms 1 3 4 by (simp add: page_scope_def i2_def)
  have a1: "set issues \<subseteq> set i1" "hy_provider_complete h1 = hy_provider_complete h" "hy_exhausted h1 = hy_exhausted h"
    "hy_pages h1 = hy_pages h"
    using 1 by (auto simp: note_provider_def Let_def split: option.splits)
  have a2: "set i1 \<subseteq> set i2" by (auto simp: i2_def)
  have a3: "set i2 \<subseteq> set i3" "hy_provider_complete h3 = hy_provider_complete h1" "hy_exhausted h3 = hy_exhausted h1"
    "hy_pages h3 = hy_pages h1"
    using 3 by (auto simp: note_floor_def split: if_splits sum.splits)
  have a4: "set i3 \<subseteq> set i4" "hy_provider_complete h4 = hy_provider_complete h3" "hy_exhausted h4 = hy_exhausted h3"
    "hy_pages h4 = hy_pages h3" "hy_commitment h4 = Some ''finalized'' \<or> ''unfinalized_history'' \<in> set i4"
    using 4 by (auto simp: note_commitment_def split: if_splits)
  have a5: "set i4 \<subseteq> set issues'" "hy_provider_complete h' = hy_provider_complete h4" "hy_exhausted h' = hy_exhausted h4"
    "hy_pages h' = hy_pages h4" "hy_commitment h' = hy_commitment h4"
    using 5 by (auto simp: note_boundary_def split: option.splits if_splits)
  show "set issues \<subseteq> set issues'" using a1(1) a2 a3(1) a4(1) a5(1) by blast
  show "hy_provider_complete h' = hy_provider_complete h" "hy_exhausted h' = hy_exhausted h" "hy_pages h' = hy_pages h"
    using a1 a3 a4 a5 by simp_all
  show "hy_commitment h' = Some ''finalized'' \<or> ''unfinalized_history'' \<in> set issues'"
    using a4(5) a5 by auto
qed

lemma collect_tx_facts:
  assumes "collect_tx q account (s, issues) tx = (s', issues')"
  shows "set issues \<subseteq> set issues'" "st_records s' = st_records s" "st_closing s' = st_closing s"
proof -
  have g: "x \<in> set js \<Longrightarrow> x \<in> set (foldl (\<lambda>js d. insert_new d js) js ds)" for x and js ds :: "string list"
    by (induction ds arbitrary: js) auto
  show "set issues \<subseteq> set issues'" "st_records s' = st_records s" "st_closing s' = st_closing s"
    using assms by (auto simp: collect_tx_def Let_def g split: option.splits prod.splits)
qed

lemma collect_all_facts:
  assumes "foldl (collect_tx q account) (s, issues) rows = (s', issues')"
  shows "set issues \<subseteq> set issues' \<and> st_records s' = st_records s \<and> st_closing s' = st_closing s"
  using assms
proof (induction rows arbitrary: s issues)
  case (Cons tx rows)
  obtain s1 i1 where s: "collect_tx q account (s, issues) tx = (s1, i1)" by fastforce
  from Cons.IH [of s1 i1] Cons.prems s collect_tx_facts [OF s] show ?case by auto
qed simp

text \<open>A history the provider asserts complete: read to its end, finalized, with its receipt verified.\<close>

definition assured :: "query \<Rightarrow> string \<Rightarrow> history \<Rightarrow> bool" where
  "assured q account h \<longleftrightarrow> hy_exhausted h \<and> hy_commitment h = Some ''finalized'' \<and> 0 < hy_pages h \<and>
     (map_of (q_receipts q) account \<noteq> None \<longrightarrow> hy_boundary h = Some True)"

definition scan_ok :: "query \<Rightarrow> string \<Rightarrow> scan \<Rightarrow> bool" where
  "scan_ok q account sc \<longleftrightarrow> 0 \<le> hy_pages (sc_history sc) \<and>
     (hy_provider_complete (sc_history sc) \<longrightarrow> assured q account (sc_history sc) \<and>
        set (sc_issues sc) \<subseteq> set interpretation_issues)"

lemma read_page_facts:
  assumes run: "read_page q account sc st page = (d, sc', st')" and fresh: "\<not> hy_provider_complete (sc_history sc)"
    and pages: "0 < hy_pages (sc_history sc)"
  shows "scan_ok q account sc'" "\<not> d \<Longrightarrow> \<not> hy_provider_complete (sc_history sc')"
    "hy_pages (sc_history sc') = hy_pages (sc_history sc)"
    "st_records st \<le> st_records st'" "st_records st' \<le> st_records st + int (length (as_list (getd page ''transactions'')))"
proof -
  define coverage where "coverage = (if is_dict (getd page ''coverage'') then getd page ''coverage'' else PDict [])"
  define rows where "rows = as_list (getd page ''transactions'')"
  define next' where "next' = getd page ''next_cursor''"
  obtain h1 i1 where 1: "page_scope q account coverage (sc_history sc, sc_issues sc) = (h1, i1)" by fastforce
  define i2 where "i2 = add_if (next' \<noteq> PNone \<and> getd coverage ''complete'' = PBool True) ''premature_history_complete'' i1"
  obtain closing i3 where 3: "note_closing account (getd page ''closing_balance'') (st_closing st, i2) = (closing, i3)"
    by fastforce
  obtain st4 i4 where 4: "foldl (collect_tx q account)
      (st\<lparr>st_closing := closing, st_records := st_records st + int (length rows)\<rparr>, i3) rows = (st4, i4)" by fastforce
  define h2 where "h2 = h1\<lparr>hy_received := hy_received h1 + int (length rows)\<rparr>"
  obtain h3 i5 where 5: "finish_scan q account coverage h2 i4 = (h3, i5)" by fastforce
  note s = page_scope_facts [OF 1] and c = collect_all_facts [OF 4, simplified]
  have i3: "set i2 \<subseteq> set i3" using 3 by (auto simp: note_closing_def split: if_splits)
  have grow: "set i1 \<subseteq> set i4" using i3 c by (auto simp: i2_def)
  have eq: "read_page q account sc st page =
    (if next' \<noteq> PNone \<and> address next' = None
     then (True, sc\<lparr>sc_history := h1, sc_issues := insert_new ''invalid_history_cursor'' i1\<rparr>, st)
     else case address next' of None \<Rightarrow> (True, sc\<lparr>sc_history := h3, sc_issues := i5\<rparr>, st4)
       | Some c \<Rightarrow> if c \<in> set (sc_seen sc) then (True, sc\<lparr>sc_history := h2, sc_issues := insert_new ''history_cursor_cycle'' i4\<rparr>, st4)
                   else (False, sc\<lparr>sc_history := h2, sc_issues := i4, sc_cursor := Some c, sc_seen := sc_seen sc @ [c]\<rparr>, st4))"
    unfolding read_page_def Let_def coverage_def [symmetric] rows_def [symmetric] next'_def [symmetric] 1 prod.case
      i2_def [symmetric] 3 4 h2_def [symmetric] 5
    by simp
  have fin: "hy_pages h3 = hy_pages h2" "hy_provider_complete h3 \<longrightarrow> assured q account h3 \<and> set i5 \<subseteq> set interpretation_issues"
  proof -
    show "hy_pages h3 = hy_pages h2" using 5 by (auto simp: finish_scan_def Let_def)
    have sub: "set i4 \<subseteq> set i5" using 5 by (auto simp: finish_scan_def Let_def)
    show "hy_provider_complete h3 \<longrightarrow> assured q account h3 \<and> set i5 \<subseteq> set interpretation_issues"
    proof
      assume p: "hy_provider_complete h3"
      with 5 have i5: "set i5 \<subseteq> set interpretation_issues" by (auto simp: finish_scan_def Let_def list_all_iff)
      have "''unfinalized_history'' \<notin> set i5" "boundary_issue \<notin> set i5"
        using i5 by (auto simp: interpretation_issues_def boundary_issue_def)
      then have "hy_commitment h1 = Some ''finalized''" "map_of (q_receipts q) account = None \<or> hy_boundary h2 = Some True"
        using s(5) grow sub 5 by (auto simp: finish_scan_def Let_def split: if_splits)
      with 5 i5 pages s(4) show "assured q account h3 \<and> set i5 \<subseteq> set interpretation_issues"
        by (auto simp: assured_def finish_scan_def Let_def h2_def)
    qed
  qed
  have h2: "hy_pages h2 = hy_pages (sc_history sc)" "\<not> hy_provider_complete h2" "\<not> hy_provider_complete h1"
    "hy_pages h1 = hy_pages (sc_history sc)"
    using s fresh by (auto simp: h2_def)
  have st4: "st_records st4 = st_records st + int (length rows)" using c by simp
  show "scan_ok q account sc'" using run pages h2 fin unfolding eq scan_ok_def by (auto split: if_splits option.splits)
  show "\<not> d \<Longrightarrow> \<not> hy_provider_complete (sc_history sc')" using run h2 unfolding eq by (auto split: if_splits option.splits)
  show "hy_pages (sc_history sc') = hy_pages (sc_history sc)"
    using run h2 fin unfolding eq by (auto split: if_splits option.splits)
  show "st_records st \<le> st_records st'" "st_records st' \<le> st_records st + int (length (as_list (getd page ''transactions'')))"
    using run st4 unfolding eq rows_def [symmetric] by (auto split: if_splits option.splits)
qed

lemma page_step_facts:
  assumes run: "page_step q fetch account sc st w = ((d, sc', st'), w')" and fresh: "\<not> hy_provider_complete (sc_history sc)"
    and pages: "0 \<le> hy_pages (sc_history sc)" and room: "st_records st < q_transactions q"
  shows "scan_ok q account sc'" "\<not> d \<Longrightarrow> \<not> hy_provider_complete (sc_history sc')"
    "hy_pages (sc_history sc') = hy_pages (sc_history sc) + 1"
    "st_records st \<le> st_records st'" "st_records st' \<le> q_transactions q"
proof -
  define limit where "limit = min (q_size q) (q_transactions q - st_records st)"
  define sc0 where "sc0 = sc\<lparr>sc_history := (sc_history sc)\<lparr>hy_pages := hy_pages (sc_history sc) + 1\<rparr>\<rparr>"
  have sc0: "\<not> hy_provider_complete (sc_history sc0)" "0 < hy_pages (sc_history sc0)"
    "hy_pages (sc_history sc0) = hy_pages (sc_history sc) + 1"
    using fresh pages by (auto simp: sc0_def)
  from run consider issue where "d" "sc' = sc0\<lparr>sc_issues := insert_new issue (sc_issues sc)\<rparr>" "st' = st"
    | page where "read_page q account sc0 st page = (d, sc', st')" "int (length (as_list (getd page ''transactions''))) \<le> limit"
    unfolding page_step_def Let_def limit_def [symmetric] sc0_def [symmetric]
    by (auto split: sum.splits prod.splits if_splits)
  then have "scan_ok q account sc' \<and> (\<not> d \<longrightarrow> \<not> hy_provider_complete (sc_history sc')) \<and>
    hy_pages (sc_history sc') = hy_pages (sc_history sc) + 1 \<and> st_records st \<le> st_records st' \<and>
    st_records st' \<le> q_transactions q"
  proof cases
    case 1
    with sc0 room show ?thesis by (simp add: scan_ok_def)
  next
    case 2
    from read_page_facts [OF 2(1) sc0(1,2)] 2(2) sc0(3) show ?thesis by (auto simp: limit_def)
  qed
  then show "scan_ok q account sc'" "\<not> d \<Longrightarrow> \<not> hy_provider_complete (sc_history sc')"
    "hy_pages (sc_history sc') = hy_pages (sc_history sc) + 1"
    "st_records st \<le> st_records st'" "st_records st' \<le> q_transactions q" by auto
qed

lemma page_loop_facts:
  assumes "page_loop n q fetch account sc st w = (n', sc', st', w')" and "\<not> hy_provider_complete (sc_history sc)"
    and "0 \<le> hy_pages (sc_history sc)"
  shows "scan_ok q account sc' \<and> n' \<le> n \<and> (n' = n \<longrightarrow> st' = st) \<and> st_records st \<le> st_records st' \<and>
    (st_records st \<le> q_transactions q \<longrightarrow> st_records st' \<le> q_transactions q) \<and>
    int n - int n' = hy_pages (sc_history sc') - hy_pages (sc_history sc)"
  using assms
proof (induction n q fetch account sc st w rule: page_loop.induct)
  case (1 n q fetch account sc st w)
  show ?case
  proof (cases "n = 0 \<or> st_records st \<ge> q_transactions q")
    case True
    with "1.prems" show ?thesis by (auto simp: page_loop.simps [of n] scan_ok_def)
  next
    case False
    obtain d sc1 st1 w1 where step: "page_step q fetch account sc st w = ((d, sc1, st1), w1)" by (metis prod.exhaust)
    note f = page_step_facts [OF step "1.prems"(2,3)]
    show ?thesis
    proof (cases d)
      case True
      with False "1.prems"(1) step have "n' = n - 1" "sc' = sc1" "st' = st1" by (auto simp: page_loop.simps [of n])
      with f False show ?thesis by auto
    next
      case no: False
      with False "1.prems"(1) step have rest: "page_loop (n - 1) q fetch account sc1 st1 w1 = (n', sc', st', w')"
        by (auto simp: page_loop.simps [of n])
      have "scan_ok q account sc' \<and> n' \<le> n - 1 \<and> (n' = n - 1 \<longrightarrow> st' = st1) \<and> st_records st1 \<le> st_records st' \<and>
        (st_records st1 \<le> q_transactions q \<longrightarrow> st_records st' \<le> q_transactions q) \<and>
        int (n - 1) - int n' = hy_pages (sc_history sc') - hy_pages (sc_history sc1)"
        using "1.IH" [OF False step [symmetric] refl _ refl rest] no f False "1.prems" by auto
      with f False show ?thesis by auto
    qed
  qed
qed

section \<open>Discovery\<close>

lemma discover_frame:
  assumes "rv' = discover q su rv"
  shows "rv_store rv' = rv_store rv" "rv_pages rv' = rv_pages rv"
    and "set (map fst (rv_histories rv')) = set (map fst (rv_histories rv)) \<union> lo_account ` set (su_locations su)"
    and "length (rv_queue rv') \<le> length (rv_queue rv) + length (su_locations su)"
    and "lo_account ` set (su_locations su) \<subseteq> set (map fst (rv_histories rv)) \<Longrightarrow> rv_queue rv' = rv_queue rv"
proof -
  have f: "rv_store (foldl (discover_location q) r los) = rv_store r \<and> rv_pages (foldl (discover_location q) r los) = rv_pages r \<and>
    set (map fst (rv_histories (foldl (discover_location q) r los))) = set (map fst (rv_histories r)) \<union> lo_account ` set los \<and>
    length (rv_queue (foldl (discover_location q) r los)) \<le> length (rv_queue r) + length los \<and>
    (lo_account ` set los \<subseteq> set (map fst (rv_histories r)) \<longrightarrow> rv_queue (foldl (discover_location q) r los) = rv_queue r)" for r los
  proof (induction los arbitrary: r)
    case (Cons lo los)
    define r' where "r' = discover_location q r lo"
    have "rv_store r' = rv_store r" "rv_pages r' = rv_pages r" "length (rv_queue r') \<le> length (rv_queue r) + 1"
      "set (map fst (rv_histories r')) = insert (lo_account lo) (set (map fst (rv_histories r)))"
      "lo_account lo \<in> set (map fst (rv_histories r)) \<Longrightarrow> rv_queue r' = rv_queue r"
      by (auto simp: discover_location_def r'_def)
    with Cons.IH [of r'] show ?case by (intro conjI impI) (auto simp: r'_def [symmetric] subset_insertI2)
  qed simp
  from f [of "rv\<lparr>rv_issues := foldl (\<lambda>is i. insert_new i is) (rv_issues rv)
             (filter (\<lambda>i. i \<in> set [''account_limit'', ''depth_limit'', ''event_limit'']) (su_issues su))\<rparr>"
      "sort_key (\<lambda>lo. lo_depth lo) (sort_key lo_account (su_locations su))"]
  show "rv_store rv' = rv_store rv" "rv_pages rv' = rv_pages rv"
    "set (map fst (rv_histories rv')) = set (map fst (rv_histories rv)) \<union> lo_account ` set (su_locations su)"
    "length (rv_queue rv') \<le> length (rv_queue rv) + length (su_locations su)"
    "lo_account ` set (su_locations su) \<subseteq> set (map fst (rv_histories rv)) \<Longrightarrow> rv_queue rv' = rv_queue rv"
    unfolding assms discover_def by simp_all
qed

section \<open>The walk ends\<close>

definition known :: "query \<Rightarrow> pyval list \<Rightarrow> replay_options \<Rightarrow> resolver \<Rightarrow> bool" where
  "known q seeds opt rv \<longleftrightarrow> (\<forall>su. analyze (q_mint q) seeds (batches_of (rv_store rv)) (q_start q) (q_end q) False [] opt = Inr su
      \<longrightarrow> lo_account ` set (su_locations su) \<subseteq> set (map fst (rv_histories rv)))"

definition fresh :: "resolver \<Rightarrow> bool" where
  "fresh rv \<longleftrightarrow> (\<forall>(a, h) \<in> set (rv_histories rv). 0 \<le> hy_pages h \<and> (a \<in> set (rv_queue rv) \<longrightarrow> \<not> hy_provider_complete h))"

lemma resolve_step_cases:
  assumes "resolve_step q fetch seeds opt account rv w = Inr (rv', w')"
  obtains h n sc st su where "map_of (rv_histories rv) account = Some h"
    "page_loop (rv_pages rv) q fetch account \<lparr>sc_history = h, sc_issues = [], sc_cursor = None, sc_seen = []\<rparr> (rv_store rv) w
       = (n, sc, st, w')"
    "analyze (q_mint q) seeds (batches_of st) (q_start q) (q_end q) False [] opt = Inr su"
    "rv' = discover q su (rv\<lparr>rv_store := st, rv_pages := n,
       rv_histories := AList.update account (close_history sc) (rv_histories rv),
       rv_issues := foldl (\<lambda>is i. insert_new i is) (rv_issues rv) (sc_issues sc)\<rparr>)"
  using assms by (auto simp: resolve_step_def bindR_eq_Inr split: option.splits prod.splits)

definition orderly :: "query \<Rightarrow> resolver \<Rightarrow> bool" where
  "orderly q rv \<longleftrightarrow> distinct (map fst (rv_histories rv)) \<and> distinct (rv_queue rv) \<and>
     set (rv_queue rv) \<subseteq> set (map fst (rv_histories rv)) \<and>
     (\<forall>(a, h) \<in> set (rv_histories rv). 0 \<le> hy_pages h \<and>
        (hy_provider_complete h \<longrightarrow> a \<notin> set (rv_queue rv) \<and> assured q a h \<and> set (hy_issues h) \<subseteq> set interpretation_issues))"

lemma orderly_discover:
  assumes "orderly q rv"
  shows "orderly q (discover q su rv)"
proof -
  have "orderly q (foldl (discover_location q) r los)" if "orderly q r" for r los
    using that
  proof (rule foldl_invariant)
    fix s lo
    assume "orderly q s"
    then show "orderly q (discover_location q s lo)"
      by (auto simp: orderly_def discover_location_def new_history_def) force
  qed
  moreover have "orderly q (rv\<lparr>rv_issues := is\<rparr>)" for "is" using assms by (simp add: orderly_def)
  ultimately show ?thesis unfolding discover_def by blast
qed

lemma orderly_step:
  assumes ok: "orderly q rv" and q: "rv_queue rv = account # rest"
    and step: "resolve_step q fetch seeds opt account (rv\<lparr>rv_queue := rest\<rparr>) w = Inr (rv', w')"
  shows "orderly q rv'"
    and "st_records (rv_store rv) \<le> q_transactions q \<Longrightarrow> st_records (rv_store rv') \<le> q_transactions q"
    and "rv_pages rv' \<le> rv_pages rv"
    and "known q seeds opt rv'"
    and "known q seeds opt rv \<Longrightarrow> 0 \<le> ro_max_depth opt \<Longrightarrow>
      rv_pages rv' * nat (ro_max_accounts opt) + length (rv_queue rv') < rv_pages rv * nat (ro_max_accounts opt) + length (rv_queue rv)"
proof -
  obtain h n sc st su where h: "map_of (rv_histories rv) account = Some h"
    and loop: "page_loop (rv_pages rv) q fetch account \<lparr>sc_history = h, sc_issues = [], sc_cursor = None, sc_seen = []\<rparr>
       (rv_store rv) w = (n, sc, st, w')"
    and an: "analyze (q_mint q) seeds (batches_of st) (q_start q) (q_end q) False [] opt = Inr su"
    and rv': "rv' = discover q su (rv\<lparr>rv_queue := rest, rv_store := st, rv_pages := n,
       rv_histories := AList.update account (close_history sc) (rv_histories rv),
       rv_issues := foldl (\<lambda>is i. insert_new i is) (rv_issues rv) (sc_issues sc)\<rparr>)"
    by (rule resolve_step_cases [OF step, simplified])
  define r where "r = rv\<lparr>rv_queue := rest, rv_store := st, rv_pages := n,
       rv_histories := AList.update account (close_history sc) (rv_histories rv),
       rv_issues := foldl (\<lambda>is i. insert_new i is) (rv_issues rv) (sc_issues sc)\<rparr>"
  have hm: "(account, h) \<in> set (rv_histories rv)" using h by (rule map_of_SomeD)
  have "0 \<le> hy_pages h \<and> (hy_provider_complete h \<longrightarrow> account \<notin> set (rv_queue rv))"
    using ok hm unfolding orderly_def by blast
  with q have h0: "0 \<le> hy_pages h" "\<not> hy_provider_complete h" by auto
  note f = page_loop_facts [OF loop, simplified, OF h0(2,1)]
  have "orderly q r"
  proof -
    have new: "0 \<le> hy_pages (close_history sc) \<and> (hy_provider_complete (close_history sc) \<longrightarrow>
        assured q account (close_history sc) \<and> set (hy_issues (close_history sc)) \<subseteq> set interpretation_issues)"
      using f by (auto simp: scan_ok_def close_history_def assured_def)
    have rest: "set rest \<subseteq> set (map fst (rv_histories rv))" "distinct rest" "account \<notin> set rest"
      "distinct (map fst (rv_histories rv))"
      using ok q by (auto simp: orderly_def)
    have "0 \<le> hy_pages h' \<and> (hy_provider_complete h' \<longrightarrow>
        a \<notin> set rest \<and> assured q a h' \<and> set (hy_issues h') \<subseteq> set interpretation_issues)"
      if "(a, h') \<in> set (AList.update account (close_history sc) (rv_histories rv))" for a h'
    proof -
      from subsetD [OF set_update_subset that]
      consider "a = account" "h' = close_history sc" | "(a, h') \<in> set (rv_histories rv)" by auto
      then show ?thesis
      proof cases
        case 1
        with new rest show ?thesis by simp
      next
        case 2
        with ok have "0 \<le> hy_pages h' \<and> (hy_provider_complete h' \<longrightarrow>
            a \<notin> set (rv_queue rv) \<and> assured q a h' \<and> set (hy_issues h') \<subseteq> set interpretation_issues)"
          unfolding orderly_def by blast
        with q show ?thesis by simp
      qed
    qed
    with rest show ?thesis unfolding orderly_def r_def by (auto simp: dom_update)
  qed
  then show "orderly q rv'" unfolding rv' r_def [symmetric] by (rule orderly_discover)
  note d = discover_frame [OF rv' [folded r_def]]
  show "st_records (rv_store rv) \<le> q_transactions q \<Longrightarrow> st_records (rv_store rv') \<le> q_transactions q"
    using f d(1) by (simp add: r_def)
  show "rv_pages rv' \<le> rv_pages rv" using f d(2) by (simp add: r_def)
  have ks: "set (map fst (rv_histories r)) = set (map fst (rv_histories rv))"
    using imageI [OF hm, of fst] by (auto simp: r_def dom_update)
  show "known q seeds opt rv'"
    using an d(1,3) by (auto simp: known_def r_def)
  assume kn: "known q seeds opt rv" and depth: "0 \<le> ro_max_depth opt"
  let ?A = "nat (ro_max_accounts opt)"
  have size: "length (su_locations su) \<le> ?A" using analyze_sized [OF an depth] by blast
  show "rv_pages rv' * ?A + length (rv_queue rv') < rv_pages rv * ?A + length (rv_queue rv)"
  proof (cases "n = rv_pages rv")
    case True
    with f have "st = rv_store rv" by simp
    with kn an have "lo_account ` set (su_locations su) \<subseteq> set (map fst (rv_histories r))"
      unfolding ks by (auto simp: known_def)
    from d(5) [OF this] True d(2) q show ?thesis by (simp add: r_def)
  next
    case False
    with f have "n + 1 \<le> rv_pages rv" by auto
    then have "(n + 1) * ?A \<le> rv_pages rv * ?A" by (rule mult_le_mono1)
    with d(2,4) size q show ?thesis by (simp add: r_def)
  qed
qed

lemma resolve_loop_ends:
  assumes "orderly q rv" "known q seeds opt rv" "0 \<le> ro_max_depth opt"
    and "rv_pages rv * nat (ro_max_accounts opt) + length (rv_queue rv) \<le> fuel"
  shows "resolve_loop fuel q fetch seeds opt rv w \<noteq> None"
  using assms
proof (induction fuel q fetch seeds opt rv w rule: resolve_loop.induct)
  case (1 fuel q fetch seeds opt rv w)
  show ?case
  proof (cases "rv_queue rv")
    case Nil
    then show ?thesis by (simp add: resolve_loop.simps [of fuel])
  next
    case (Cons account rest)
    then obtain k where k: "fuel = Suc k" using "1.prems"(4) by (cases fuel) auto
    show ?thesis
    proof (cases "resolve_step q fetch seeds opt account (rv\<lparr>rv_queue := rest\<rparr>) w")
      case (Inl e)
      with Cons k show ?thesis by (subst resolve_loop.simps) simp
    next
      case (Inr p)
      obtain rv' w' where p: "p = (rv', w')" by (cases p)
      note s = orderly_step [OF "1.prems"(1) Cons Inr [unfolded p]]
      have "resolve_loop k q fetch seeds opt rv' w' \<noteq> None"
        by (rule "1.IH" [OF Cons k Inr p [symmetric] s(1,4)])
          (use "1.prems" s(5) k in auto)
      with Cons k Inr p show ?thesis by (subst resolve_loop.simps) simp
    qed
  qed
qed

section \<open>The report\<close>

lemma resolve_loop_ok:
  assumes "resolve_loop fuel q fetch seeds opt rv w = Some (Inr (rv', w'))" and "orderly q rv"
    and "st_records (rv_store rv) \<le> q_transactions q"
  shows "orderly q rv' \<and> st_records (rv_store rv') \<le> q_transactions q \<and> rv_pages rv' \<le> rv_pages rv \<and> rv_queue rv' = []"
  using assms
proof (induction fuel q fetch seeds opt rv w rule: resolve_loop.induct)
  case (1 fuel q fetch seeds opt rv w)
  show ?case
  proof (cases "rv_queue rv")
    case Nil
    with "1.prems" show ?thesis by (subst (asm) resolve_loop.simps) simp
  next
    case (Cons account rest)
    with "1.prems"(1) obtain k r w1 where k: "fuel = Suc k"
      and step: "resolve_step q fetch seeds opt account (rv\<lparr>rv_queue := rest\<rparr>) w = Inr (r, w1)"
      and more: "resolve_loop k q fetch seeds opt r w1 = Some (Inr (rv', w'))"
      by (subst (asm) resolve_loop.simps) (auto split: nat.splits sum.splits)
    note s = orderly_step [OF "1.prems"(2) Cons step]
    from "1.IH" [OF Cons k step refl more s(1) s(2) [OF "1.prems"(3)]] s(3) show ?thesis by auto
  qed
qed

lemma discover_start_orderly: "orderly q (discover q su (start_resolver pages))"
  by (rule orderly_discover) (simp add: orderly_def start_resolver_def)

lemma resolve_cases:
  assumes "resolve q fetch seeds opt pages w = Some (Inr (re, w'))" and "0 \<le> q_transactions q"
  obtains receipts rv su where "foldR (receipt_seed_add (q_start q)) [] seeds = Inr receipts"
    "orderly (q\<lparr>q_receipts := receipts\<rparr>) rv" "st_records (rv_store rv) \<le> q_transactions q" "rv_pages rv \<le> pages" "rv_queue rv = []"
    "analyze (q_mint q) (map (replay_seed (q\<lparr>q_receipts := receipts\<rparr>) rv) seeds) (batches_of (rv_store rv)) (q_start q)
       (q_end q) (coverage_complete rv) (st_closing (rv_store rv)) opt = Inr su"
    "re = report (q\<lparr>q_receipts := receipts\<rparr>) pages rv su"
proof -
  from assms(1) obtain initial receipts rv where
    r: "foldR (receipt_seed_add (q_start q)) [] seeds = Inr receipts"
    and loop: "resolve_loop (resolve_fuel pages (nat (ro_max_accounts opt))) (q\<lparr>q_receipts := receipts\<rparr>) fetch seeds opt
       (discover (q\<lparr>q_receipts := receipts\<rparr>) initial (start_resolver pages)) w = Some (Inr (rv, w'))"
    and an: "bindR (analyze (q_mint q) (map (replay_seed (q\<lparr>q_receipts := receipts\<rparr>) rv) seeds) (batches_of (rv_store rv)) (q_start q)
       (q_end q) (coverage_complete rv) (st_closing (rv_store rv)) opt) (\<lambda>su.
          Inr (report (q\<lparr>q_receipts := receipts\<rparr>) pages rv su, w')) = Inr (re, w')"
    by (auto simp: resolve_def Let_def bindR_eq_Inr split: sum.splits option.splits)
  from an obtain su where su: "analyze (q_mint q) (map (replay_seed (q\<lparr>q_receipts := receipts\<rparr>) rv) seeds) (batches_of (rv_store rv))
       (q_start q) (q_end q) (coverage_complete rv) (st_closing (rv_store rv)) opt = Inr su"
    "re = report (q\<lparr>q_receipts := receipts\<rparr>) pages rv su"
    by (auto simp: bindR_eq_Inr)
  have "st_records (rv_store (discover (q\<lparr>q_receipts := receipts\<rparr>) initial (start_resolver pages))) = 0"
    "rv_pages (discover (q\<lparr>q_receipts := receipts\<rparr>) initial (start_resolver pages)) = pages"
    by (simp_all add: discover_frame(1,2) [OF refl] start_resolver_def)
  with resolve_loop_ok [OF loop discover_start_orderly] assms(2) that [OF r _ _ _ _ su] show thesis by simp
qed

lemma resolve_ends:
  assumes "0 \<le> ro_max_depth opt"
  shows "resolve q fetch seeds opt pages w \<noteq> None"
proof (cases "analyze (q_mint q) seeds [] (q_start q) (q_end q) False [] opt")
  case (Inl e)
  then show ?thesis by (simp add: resolve_def)
next
  case (Inr initial)
  show ?thesis
  proof (cases "foldR (receipt_seed_add (q_start q)) [] seeds")
    case (Inl e)
    with Inr show ?thesis by (simp add: resolve_def)
  next
    case r: (Inr receipts)
    define q' where "q' = q\<lparr>q_receipts := receipts\<rparr>"
    define rv where "rv = discover q' initial (start_resolver pages)"
    note d = discover_frame [OF rv_def]
    have "known q' seeds opt rv"
      using d(1,3) Inr by (auto simp: known_def q'_def start_resolver_def batches_of_def)
    moreover have "rv_pages rv * nat (ro_max_accounts opt) + length (rv_queue rv) \<le> resolve_fuel pages (nat (ro_max_accounts opt))"
      using d(2,4) analyze_sized [OF Inr assms] by (simp add: start_resolver_def resolve_fuel_def)
    ultimately have "resolve_loop (resolve_fuel pages (nat (ro_max_accounts opt))) q' fetch seeds opt rv w \<noteq> None"
      unfolding rv_def by (intro resolve_loop_ends [OF discover_start_orderly _ assms])
    with Inr r show ?thesis
      unfolding resolve_def by (auto simp: Let_def q'_def [symmetric] rv_def [symmetric] split: option.splits sum.splits)
  qed
qed

lemma resolve_arguments_limits:
  assumes "resolve_arguments mint from_slot to_slot decode programs so sa bo = Inr (q, opt, n)"
  shows "0 \<le> q_transactions q" "0 \<le> ro_max_depth opt" "raw_of (bo_pages bo) = Inr (int n)"
    "raw_of (bo_transactions bo) = Inr (q_transactions q)"
  using assms by (auto simp: resolve_arguments_def bindR_eq_Inr dest: raw_of_nonneg split: if_splits option.splits)

lemma analyze_complete:
  assumes "analyze mint seeds batches start end hc closing_balances opt = Inr r" and "su_complete r"
  shows "hc"
proof (rule analyze_phases [OF assms(1)])
  fix sd closing s
  assume su: "summarize start end hc sd closing s = Inr r" and c: "rp_complete s \<Longrightarrow> hc"
  from su have "su_complete r = rp_complete s"
    by (cases "sd_total sd - sum_nodes (\<lambda>n. n_owner n \<in> set (sd_originals sd)) n_lower (rp_nodes s) -
        sum_nodes (\<lambda>n. n_owner n \<notin> set (sd_originals sd)) n_lower (rp_nodes s) - rp_sold_lower s < 0")
      (auto simp: summarize_def Let_def simp del: if_split)
  with c assms(2) show "hc" by simp
qed

lemma receipts_complete:
  assumes "foldR (receipt_seed_add start) acc seeds = Inr receipts" and "seed \<in> set seeds" "getd seed ''scope'' = PStr receipt_scope"
  shows "map_of receipts (seed_account seed) \<noteq> None"
proof -
  have mono: "map_of acc' a \<noteq> None" if "foldR (receipt_seed_add start) acc xs = Inr acc'" "map_of acc a \<noteq> None" for acc acc' xs a
    using that(1)
  proof (rule foldR_invariant)
    show "map_of acc a \<noteq> None" by (rule that(2))
    fix s x s'
    assume "map_of s a \<noteq> None" "receipt_seed_add start s x = Inr s'"
    then show "map_of s' a \<noteq> None" by (auto simp: receipt_seed_add_def bindR_eq_Inr split: if_splits)
  qed
  from split_list [OF assms(2)] obtain ys zs where "seeds = ys @ seed # zs" by blast
  with assms(1) obtain s1 s2 where "receipt_seed_add start s1 seed = Inr s2" "foldR (receipt_seed_add start) s2 zs = Inr receipts"
    by (auto simp: foldR_append bindR_eq_Inr)
  moreover from this(1) assms(3) have "map_of s2 (seed_account seed) \<noteq> None"
    by (auto simp: receipt_seed_add_def bindR_eq_Inr split: if_splits)
  ultimately show ?thesis using mono by blast
qed

lemma resolve_returns:
  "resolve_position_history mint seeds fetch from_slot to_slot decode programs service_accounts service_owners bo w \<noteq> None"
  unfolding resolve_position_history_def
  by (auto split: sum.splits prod.splits dest!: resolve_arguments_limits(2) resolve_ends)

text \<open>
  C9: The walk over the account histories always ends: whatever pages the provider serves, and however
  its cursors run, the resolver returns a report or an error.
\<close>

theorem resolve_terminates:
  "resolve_position_history mint seeds fetch from_slot to_slot decode programs service_accounts service_owners bo w \<noteq> None"
  by (rule resolve_returns)

text \<open>
  Within its budget.  The walk never asks for more pages than allowed, never accepts more
  transactions than allowed, and the pages it reports are those of the accounts it lists.
\<close>

theorem resolve_within_budget:
  assumes "resolve_position_history mint seeds fetch from_slot to_slot decode programs so sa bo w = Some (Inr (re, w'))"
    and "raw_of (bo_pages bo) = Inr pages" and "raw_of (bo_transactions bo) = Inr transactions"
  shows "0 \<le> re_pages re \<and> re_pages re \<le> pages \<and> re_records re \<le> transactions"
proof -
  from assms obtain q opt n where a: "resolve_arguments mint from_slot to_slot decode programs so sa bo = Inr (q, opt, n)"
    and r: "resolve q fetch seeds opt n w = Some (Inr (re, w'))"
    by (auto simp: resolve_position_history_def split: if_splits sum.splits)
  note l = resolve_arguments_limits [OF a]
  from l assms(2,3) have n: "int n = pages" "q_transactions q = transactions" by auto
  show ?thesis
  proof (rule resolve_cases [OF r l(1)])
    fix receipts rv su
    assume "st_records (rv_store rv) \<le> q_transactions q" "rv_pages rv \<le> n"
      and "re = report (q\<lparr>q_receipts := receipts\<rparr>) n rv su"
    with n show ?thesis by (auto simp: report_def Let_def)
  qed
qed

text \<open>
  C7: No fabricated history.  A report whose history is complete lists for every account it found a
  history read to its last page, finalized, with no issue but uninterpreted transactions; and a seed
  frozen from a receipt had its slot boundary verified.
\<close>

theorem resolved_history_sound:
  assumes "resolve_position_history mint seeds fetch from_slot to_slot decode programs so sa bo w = Some (Inr (re, w'))"
    and "su_complete (re_summary re)"
  shows "re_histories re \<noteq> [] \<and> (\<forall>(a, h) \<in> set (re_histories re).
    hy_exhausted h \<and> hy_commitment h = Some ''finalized'' \<and> 0 < hy_pages h \<and> set (hy_issues h) \<subseteq> set interpretation_issues \<and>
    (\<forall>seed \<in> set seeds. getd seed ''scope'' = PStr receipt_scope \<longrightarrow> seed_account seed = a \<longrightarrow> hy_boundary h = Some True))"
proof -
  from assms obtain q opt n where a: "resolve_arguments mint from_slot to_slot decode programs so sa bo = Inr (q, opt, n)"
    and r: "resolve q fetch seeds opt n w = Some (Inr (re, w'))"
    by (auto simp: resolve_position_history_def split: if_splits sum.splits)
  note l = resolve_arguments_limits [OF a]
  show ?thesis
  proof (rule resolve_cases [OF r l(1)])
    fix receipts rv su
    let ?q = "q\<lparr>q_receipts := receipts\<rparr>"
    assume rc: "foldR (receipt_seed_add (q_start q)) [] seeds = Inr receipts" and ok: "orderly ?q rv"
      and an: "analyze (q_mint q) (map (replay_seed ?q rv) seeds) (batches_of (rv_store rv)) (q_start q)
       (q_end q) (coverage_complete rv) (st_closing (rv_store rv)) opt = Inr su" and re: "re = report ?q n rv su"
    have "su_complete su" using assms(2) re by (simp add: report_def Let_def)
    then have cc: "coverage_complete rv" using analyze_complete [OF an] by blast
    have hs: "re_histories re = rv_histories rv" by (simp add: re report_def Let_def)
    have "hy_exhausted h \<and> hy_commitment h = Some ''finalized'' \<and> 0 < hy_pages h \<and>
        set (hy_issues h) \<subseteq> set interpretation_issues \<and>
        (\<forall>seed \<in> set seeds. getd seed ''scope'' = PStr receipt_scope \<longrightarrow> seed_account seed = a \<longrightarrow> hy_boundary h = Some True)"
      if m: "(a, h) \<in> set (rv_histories rv)" for a h
    proof -
      have p: "hy_provider_complete h" using cc m by (auto simp: coverage_complete_def list_all_iff)
      with ok m have "assured ?q a h" "set (hy_issues h) \<subseteq> set interpretation_issues" unfolding orderly_def by blast+
      moreover have "map_of receipts a \<noteq> None" if "seed \<in> set seeds" "getd seed ''scope'' = PStr receipt_scope" "seed_account seed = a" for seed
        using receipts_complete [OF rc that(1,2)] that(3) by simp
      ultimately show ?thesis by (auto simp: assured_def)
    qed
    then show ?thesis using cc hs by (auto simp: coverage_complete_def)
  qed
qed

section \<open>A worked walk\<close>

text \<open>A provider that serves the sale of \<open>S1\<close> for account \<open>A\<close> on one finalized, complete page.\<close>

definition demo_page :: "string \<Rightarrow> pyval" where
  "demo_page account = PDict [(''transactions'', PList [demo_swap_tx]), (''next_cursor'', PNone),
     (''coverage'', PDict [(''provider'', PStr ''helius''), (''account'', PStr account), (''mint'', PStr ''M''),
        (''from_slot'', PInt 5), (''to_slot'', PInt 10), (''scope'', PStr ''all_token_account_activity''),
        (''commitment'', PStr ''finalized''), (''complete'', PBool True)])]"

definition demo_fetch :: "nat fetcher" where
  "demo_fetch account cursor limit w = (Inr (demo_page account), w + 1)"

definition demo_bounds :: bounds where
  "demo_bounds = \<lparr>bo_depth = PInt 2, bo_addresses = PInt 32, bo_transactions = PInt 256, bo_events = PInt 1024,
     bo_pages = PInt 128, bo_size = PInt 64, bo_instructions = PInt 512, bo_accounts = PInt 256\<rparr>"

definition demo_decode :: "pyval \<Rightarrow> pyval res" where
  "demo_decode tx = Inr (PDict [(''swap_witnesses'', PList [demo_witness])])"

definition demo_resolution :: "(resolution \<times> nat) res option" where
  "demo_resolution = resolve_position_history (PStr ''M'') [demo_seed] demo_fetch (PInt 5) (PInt 10) (Some demo_decode)
     [''P''] [] [] demo_bounds 0"

lemma demo_resolution_value:
  "case demo_resolution of Some (Inr (re, w')) \<Rightarrow> su_complete (re_summary re) \<and> su_sold (re_summary re) = 40 \<and>
     map fst (re_histories re) = [''A''] \<and> re_pages re = 1 \<and> w' = 1 | _ \<Rightarrow> False"
  by code_simp

lemma demo_resolution_cases:
  obtains re where "demo_resolution = Some (Inr (re, 1))" "su_complete (re_summary re)" "su_sold (re_summary re) = 40"
    "map fst (re_histories re) = [''A'']" "re_pages re = 1"
  using demo_resolution_value by (auto split: option.splits sum.splits)

theorem resolve_within_budget_witness:
  "\<exists>re. demo_resolution = Some (Inr (re, 1)) \<and> re_pages re = 1 \<and> re_pages re \<le> 128 \<and> re_records re \<le> 256"
proof (rule demo_resolution_cases)
  fix re
  assume r: "demo_resolution = Some (Inr (re, 1))" "re_pages re = 1"
  from resolve_within_budget [OF r(1) [unfolded demo_resolution_def], of 128 256] r
  show ?thesis by (intro exI [of _ re]) (simp add: demo_bounds_def)
qed

theorem resolved_history_sound_witness:
  "\<exists>re. demo_resolution = Some (Inr (re, 1)) \<and> su_sold (re_summary re) = 40 \<and> map fst (re_histories re) = [''A''] \<and>
     (\<forall>(a, h) \<in> set (re_histories re). hy_exhausted h)"
proof (rule demo_resolution_cases)
  fix re
  assume r: "demo_resolution = Some (Inr (re, 1))" "su_complete (re_summary re)" "su_sold (re_summary re) = 40"
    "map fst (re_histories re) = [''A'']"
  from resolved_history_sound [OF r(1) [unfolded demo_resolution_def] r(2)] r show ?thesis by auto
qed

end
