(* ===== verification/Py_Numbers.thy ===== *)
theory Py_Numbers
  imports Rpc_Routing
begin

text \<open>The integer conversions of the language that several components share.\<close>

text \<open>\<open>isinstance(v, int)\<close>, which a bool satisfies, and the integer it is.\<close>

fun int_like :: "pyval \<Rightarrow> int option" where
  "int_like (PInt n) = Some n"
| "int_like (PBool b) = Some (if b then 1 else 0)"
| "int_like _ = None"

text \<open>\<open>int(v)\<close>\<close>

definition int_of_text :: "string \<Rightarrow> int option" where
  "int_of_text s = (let (neg, t) = unsign (py_strip s) in
     map_option (\<lambda>n. if neg then - int n else int n) (digits_of 10 0 False t))"

fun py_int :: "pyval \<Rightarrow> int res" where
  "py_int (PInt n) = Inr n"
| "py_int (PBool b) = Inr (if b then 1 else 0)"
| "py_int (PFloat (Fin q)) = Inr (if q \<ge> 0 then \<lfloor>q\<rfloor> else \<lceil>q\<rceil>)"
| "py_int (PFloat NaN) = Inl (ValueError ''cannot convert float NaN to integer'')"
| "py_int (PFloat _) = Inl OverflowError"
| "py_int (PStr s) = (case int_of_text s of None \<Rightarrow> Inl (ValueError ''invalid literal for int()'') | Some n \<Rightarrow> Inr n)"
| "py_int _ = Inl TypeError"

end
