(* ===== verification/Position_History_Rpc.thy ===== *)
theory Position_History_Rpc
  imports Position_Resolve_Laws Py_Numbers "HOL-Library.Product_Lexorder"
begin

text \<open>
  \<^verbatim>\<open>src/position_history_rpc.py\<close>: the bounded, finalized account history behind the position resolver, and the
  check of the positions frozen from receipts.

  The routed call is a parameter: it takes the parameters of the request, the preferred provider and the
  order, and answers with the result and the provider that served it.
\<close>

section \<open>The adapter\<close>

type_synonym 'w route = "pyval list \<Rightarrow> string option \<Rightarrow> string list \<Rightarrow> 'w \<Rightarrow> (pyval \<times> string) res \<times> 'w"

record anchor =
  an_seen :: bool
  an_seed_index :: pyval
  an_other :: "pyval list"     \<comment> \<open>\<open>other_indices\<close>\<close>
  an_unsafe :: bool
  an_proof :: "pyval option"

record position_rpc =
  ph_remaining :: nat
  ph_providers :: "(string \<times> string) list"
  ph_boundaries :: "(string \<times> pyval) list"
  ph_anchors :: "(string \<times> anchor) list"

definition make_position_rpc :: "int \<Rightarrow> position_rpc" where
  "make_position_rpc max_pages = \<lparr>ph_remaining = nat (max 0 max_pages), ph_providers = [], ph_boundaries = [], ph_anchors = []\<rparr>"

definition new_anchor :: anchor where
  "new_anchor = \<lparr>an_seen = False, an_seed_index = PNone, an_other = [], an_unsafe = False, an_proof = None\<rparr>"

definition anchor_of :: "position_rpc \<Rightarrow> string \<Rightarrow> anchor" where
  "anchor_of ad account = (case map_of (ph_anchors ad) account of None \<Rightarrow> new_anchor | Some a \<Rightarrow> a)"

section \<open>Reading rows\<close>

fun index_zero :: "pyval \<Rightarrow> pyval res" where
  "index_zero (PList (x # xs)) = Inr x"
| "index_zero (PList []) = Inl IndexError"
| "index_zero (PStr (c # s)) = Inr (PStr [c])"
| "index_zero (PDict d) = Inl KeyError"
| "index_zero v = Inl TypeError"

text \<open>\<open>((tx.get("transaction") or {}).get("signatures") or [None])[0]\<close>\<close>

definition first_signature :: "pyval \<Rightarrow> pyval res" where
  "first_signature tx = bindR (dget (py_or (getd tx ''transaction'') (PDict [])) ''signatures'')
     (\<lambda>ss. index_zero (py_or ss (PList [PNone])))"

definition readable_row :: "pyval \<Rightarrow> bool" where
  "readable_row tx \<longleftrightarrow> is_dict tx \<and> int_like (getd tx ''slot'') \<noteq> None \<and> is_dict (getd tx ''meta'') \<and> has_key (getd tx ''meta'') ''err''"

definition default_parse_limits :: parse_limits where
  "default_parse_limits = \<lparr>pl_instructions = 512, pl_accounts = 256\<rparr>"

fun opt_int :: "int option \<Rightarrow> int res" where
  "opt_int None = Inl TypeError"
| "opt_int (Some n) = Inr n"

text \<open>
  The proof of a boundary transaction: the parsed account row against the frozen seed.  \<open>Inr None\<close> where it
  does not match; an exception of the conversions is an \<open>Inl\<close>.
\<close>

definition anchor_matches :: "pyval \<Rightarrow> account_row \<Rightarrow> (int \<times> int \<times> int) option res" where
  "anchor_matches boundary raw =
     bindR (opt_int (ar_decimals raw)) (\<lambda>decimals. bindR (dict_item boundary ''decimals'') (\<lambda>v. bindR (py_int v) (\<lambda>d.
     if decimals \<noteq> d then Inr None
     else bindR (opt_int (ar_after raw)) (\<lambda>after. bindR (dict_item boundary ''balance_raw'') (\<lambda>v. bindR (py_int v) (\<lambda>b.
       if after \<noteq> b then Inr None
       else bindR (opt_int (ar_before raw)) (\<lambda>before. bindR (dict_item boundary ''bought_raw'') (\<lambda>v. bindR (py_int v) (\<lambda>g.
         if after - before \<noteq> g then Inr None else Inr (Some (decimals, after, before)))))))))))"

definition anchor_proof :: "string \<Rightarrow> string \<Rightarrow> pyval \<Rightarrow> pyval \<Rightarrow> pyval option res" where
  "anchor_proof mint account boundary tx =
     (let parsed = parse_transaction tx mint PNone [] [] default_parse_limits in
      case map_of (b_accounts parsed) account of
        None \<Rightarrow> Inr None
      | Some raw \<Rightarrow>
          if b_status parsed = ''parsed'' \<and> py_eq (case ar_owner raw of None \<Rightarrow> PNone | Some o' \<Rightarrow> PStr o') (getd boundary ''owner'') \<and>
             ar_mint raw = Some mint
          then bindR (anchor_matches boundary raw) (\<lambda>found. Inr (map_option (\<lambda>(decimals, after, before).
                 PDict [(''owner'', case ar_owner raw of None \<Rightarrow> PNone | Some o' \<Rightarrow> PStr o'), (''mint'', PStr mint),
                        (''decimals'', PInt decimals), (''balance_raw'', PStr (str_of_int after)),
                        (''bought_raw'', PStr (str_of_int (after - before)))]) found))
          else Inr None)"

text \<open>
  The transaction of the boundary's own signature.  \<open>KeyError\<close>, \<open>TypeError\<close> and \<open>ValueError\<close> of the
  conversions are caught; the overflow of an infinite float is not.
\<close>

definition note_seed :: "string \<Rightarrow> string \<Rightarrow> pyval \<Rightarrow> pyval \<Rightarrow> anchor \<Rightarrow> anchor \<times> pyexc option" where
  "note_seed mint account boundary tx a =
     (let a1 = a\<lparr>an_seen := True, an_seed_index := getd tx ''transactionIndex''\<rparr> in
      case anchor_proof mint account boundary tx of
        Inl e \<Rightarrow> if e = OverflowError then (a1, Some e) else (a1\<lparr>an_unsafe := True\<rparr>, None)
      | Inr None \<Rightarrow> (a1, None)
      | Inr (Some p) \<Rightarrow> (a1\<lparr>an_proof := Some p\<rparr>, None))"

text \<open>A successful transaction at the seed's slot.\<close>

definition at_seed_slot :: "int \<Rightarrow> pyval \<Rightarrow> bool" where
  "at_seed_slot from_slot tx \<longleftrightarrow> int_like (getd tx ''slot'') = Some from_slot \<and> getd (getd tx ''meta'') ''err'' = PNone"

definition is_seed :: "pyval option \<Rightarrow> pyval \<Rightarrow> bool" where
  "is_seed boundary sig = (case boundary of None \<Rightarrow> False | Some b \<Rightarrow> py_eq sig (getd b ''signature''))"

definition note_row :: "string \<Rightarrow> string \<Rightarrow> int \<Rightarrow> pyval option \<Rightarrow> anchor \<Rightarrow> pyval \<Rightarrow> anchor \<times> pyexc option" where
  "note_row mint account from_slot boundary a tx =
     (if \<not> readable_row tx then (a\<lparr>an_unsafe := True\<rparr>, None)
      else if \<not> at_seed_slot from_slot tx then (a, None)
      else (case first_signature tx of
          Inl e \<Rightarrow> (a, Some e)
        | Inr sig \<Rightarrow>
            if is_seed boundary sig then note_seed mint account (the boundary) tx a
            else (a\<lparr>an_other := an_other a @ [getd tx ''transactionIndex'']\<rparr>, None)))"

text \<open>The loop over the rows: the anchor as it is left, and the exception that ended the loop.\<close>

fun note_rows :: "string \<Rightarrow> string \<Rightarrow> int \<Rightarrow> pyval option \<Rightarrow> anchor \<Rightarrow> pyval list \<Rightarrow> anchor \<times> pyexc option" where
  "note_rows mint account from_slot boundary a [] = (a, None)"
| "note_rows mint account from_slot boundary a (tx # txs) =
     (case note_row mint account from_slot boundary a tx of
        (a1, Some e) \<Rightarrow> (a1, Some e)
      | (a1, None) \<Rightarrow> note_rows mint account from_slot boundary a1 txs)"

section \<open>A page\<close>

definition page_options :: "int \<Rightarrow> int \<Rightarrow> string option \<Rightarrow> int \<Rightarrow> (string \<times> pyval) list" where
  "page_options from_slot to_slot cursor asked =
     [(''transactionDetails'', PStr ''full''), (''encoding'', PStr ''jsonParsed''), (''maxSupportedTransactionVersion'', PInt 0),
      (''commitment'', PStr ''finalized''), (''sortOrder'', PStr ''asc''), (''limit'', PInt (min 64 asked)),
      (''filters'', PDict [(''status'', PStr ''any''), (''tokenAccounts'', PStr ''none''),
         (''slot'', PDict [(''gte'', PInt from_slot), (''lte'', PInt to_slot)])])] @
     (case cursor of Some c \<Rightarrow> if c \<noteq> [] then [(''paginationToken'', PStr c)] else [] | None \<Rightarrow> [])"

definition ordered_tail :: "anchor \<Rightarrow> bool" where
  "ordered_tail a \<longleftrightarrow> an_other a = [] \<or>
     (case int_like (an_seed_index a) of
        None \<Rightarrow> False
      | Some n \<Rightarrow> list_all (\<lambda>v. case int_like v of None \<Rightarrow> False | Some i \<Rightarrow> i < n) (an_other a))"

definition boundary_verified :: "pyval option \<Rightarrow> anchor \<Rightarrow> pyval \<Rightarrow> bool" where
  "boundary_verified boundary a next_cursor \<longleftrightarrow>
     boundary \<noteq> None \<and> an_proof a \<noteq> None \<and> ordered_tail a \<and> \<not> an_unsafe a \<and> \<not> truthy next_cursor"

fun dict_of :: "pyval \<Rightarrow> (string \<times> pyval) list" where
  "dict_of (PDict d) = d"
| "dict_of _ = []"

definition seed_boundary :: "string \<Rightarrow> int \<Rightarrow> pyval \<Rightarrow> pyval \<Rightarrow> pyval" where
  "seed_boundary account from_slot boundary p = PDict
     (dict_of p @ [(''account'', PStr account), (''slot'', PInt from_slot), (''signature'', getd boundary ''signature''),
                   (''no_later_successful_activity'', PBool True)])"

definition page_coverage ::
    "string \<Rightarrow> string \<Rightarrow> string \<Rightarrow> int \<Rightarrow> int \<Rightarrow> pyval option \<Rightarrow> anchor \<Rightarrow> pyval list \<Rightarrow> pyval \<Rightarrow> (string \<times> pyval) list" where
  "page_coverage used account mint from_slot to_slot boundary a rows next_cursor =
     [(''provider'', PStr used), (''account'', PStr account), (''mint'', PStr mint), (''from_slot'', PInt from_slot),
      (''to_slot'', PInt to_slot), (''scope'', PStr ''all_token_account_activity''), (''commitment'', PStr ''finalized''),
      (''complete'', PBool (\<not> truthy next_cursor \<and> \<not> an_unsafe a \<and> (if boundary \<noteq> None then an_seen a else rows \<noteq> []))),
      (''completeness_basis'', PStr ''finalized_provider_query_with_receipt_anchor_not_independent_archive_audit'')] @
     (if boundary_verified boundary a next_cursor
      then [(''seed_boundary'', seed_boundary account from_slot (the boundary) (the (an_proof a)))] else [])"

definition in_slots :: "int \<Rightarrow> int \<Rightarrow> pyval \<Rightarrow> bool" where
  "in_slots from_slot to_slot tx \<longleftrightarrow> is_dict tx \<and>
     (case int_like (getd tx ''slot'') of None \<Rightarrow> False | Some s \<Rightarrow> from_slot < s \<and> s \<le> to_slot)"

text \<open>The rows of an answer that stays within the page limit.\<close>

definition page_rows :: "int \<Rightarrow> pyval \<Rightarrow> pyval list res" where
  "page_rows asked result = bindR (guardR (is_dict result \<and> is_list (getd result ''data'') \<and>
       int (length (as_list (getd result ''data''))) \<le> min 64 asked) (ValueError ''invalid_position_history_page''))
     (\<lambda>_. Inr (as_list (getd result ''data'')))"

text \<open>What a served page does to the adapter, and the page it returns.\<close>

definition take_page ::
    "string \<Rightarrow> int \<Rightarrow> int \<Rightarrow> string \<Rightarrow> int \<Rightarrow> string \<Rightarrow> pyval \<Rightarrow> position_rpc \<Rightarrow> pyval res \<times> position_rpc" where
  "take_page mint from_slot to_slot account asked used result ad =
     (let boundary = map_of (ph_boundaries ad) account; next_cursor = getd result ''paginationToken'' in
      case page_rows asked result of
        Inl e \<Rightarrow> (Inl e, ad)
      | Inr rows \<Rightarrow>
          (case note_rows mint account from_slot boundary (anchor_of ad account) rows of
             (a, Some e) \<Rightarrow> (Inl e, ad\<lparr>ph_anchors := AList.update account a (ph_anchors ad)\<rparr>)
           | (a, None) \<Rightarrow>
               (Inr (PDict [(''transactions'', PList (filter (in_slots from_slot to_slot) rows)), (''next_cursor'', next_cursor),
                            (''coverage'', PDict (page_coverage used account mint from_slot to_slot boundary a rows next_cursor))]),
                ad\<lparr>ph_anchors := AList.update account a (ph_anchors ad)\<rparr>)))"

definition history_page ::
    "'w route \<Rightarrow> string list \<Rightarrow> string \<Rightarrow> int \<Rightarrow> int \<Rightarrow> (position_rpc \<times> 'w) fetcher" where
  "history_page route archive_order mint from_slot to_slot account cursor asked = (\<lambda>(ad, w).
     if ph_remaining ad = 0 then (Inl (RuntimeError ''position_history_budget_exhausted''), (ad, w))
     else (let ad1 = ad\<lparr>ph_remaining := ph_remaining ad - 1\<rparr>; provider = map_of (ph_providers ad) account in
       case route [PStr account, PDict (page_options from_slot to_slot cursor asked)] provider
              (case provider of Some p \<Rightarrow> if p \<noteq> [] then [p] else archive_order | None \<Rightarrow> archive_order) w of
         (Inl e, w') \<Rightarrow> (Inl e, (ad1, w'))
       | (Inr (result, used), w') \<Rightarrow>
           if (case provider of None \<Rightarrow> False | Some p \<Rightarrow> p \<noteq> [] \<and> used \<noteq> p)
           then (Inl (RuntimeError ''position_history_provider_changed''), (ad1, w'))
           else (case take_page mint from_slot to_slot account asked used result
                        (ad1\<lparr>ph_providers := AList.update account used (ph_providers ad1)\<rparr>) of
                   (answer, ad2) \<Rightarrow> (answer, (ad2, w')))))"

section \<open>Checking the receipt positions\<close>

record frozen_owner =
  fz_seeds :: "pyval list"
  fz_signature :: pyval
  fz_slot :: pyval
  fz_capture :: pyval

record receipt_check =
  rk_checked_at :: string     \<comment> \<open>empty where there is none\<close>
  rk_capture :: pyval
  rk_result :: resolution

record receipt_report =
  rp_status :: string
  rp_selected :: nat
  rp_checked :: nat
  rp_page_calls :: int
  rp_results :: "(string \<times> receipt_check) list"

definition reduced_owners :: "(string \<times> frozen_owner) list \<Rightarrow> string list \<Rightarrow> (string \<times> frozen_owner) list" where
  "reduced_owners frozen reduced = filter (\<lambda>(owner, row). fz_seeds row \<noteq> [] \<and> owner \<in> set reduced) frozen"

definition last_checked :: "(string \<times> receipt_check) list \<Rightarrow> string \<Rightarrow> string" where
  "last_checked prior owner = (case map_of prior owner of None \<Rightarrow> [] | Some c \<Rightarrow> rk_checked_at c)"

definition bind_boundary :: "pyval \<Rightarrow> (string \<times> pyval) list \<Rightarrow> pyval \<Rightarrow> (string \<times> pyval) list res" where
  "bind_boundary signature boundaries seed =
     bindR (dict_item seed ''account'') (\<lambda>account. case account of
         PStr a \<Rightarrow> Inr (AList.update a (PDict (AList.update ''signature'' signature (dict_of seed))) boundaries)
       | _ \<Rightarrow> Inl TypeError)"

definition receipt_bounds :: "nat \<Rightarrow> bounds" where
  "receipt_bounds pages = \<lparr>bo_depth = PInt 2, bo_addresses = PInt 12, bo_transactions = PInt 64, bo_events = PInt 1024,
     bo_pages = PInt (int pages), bo_size = PInt 32, bo_instructions = PInt 512, bo_accounts = PInt 256\<rparr>"

definition index_decoder :: "pyval \<Rightarrow> pyval res" where
  "index_decoder tx = Inr (PDict [(''transaction_index'', getd tx ''transactionIndex'')])"

definition slot_number :: "pyval \<Rightarrow> int" where
  "slot_number v = (case raw_of v of Inr n \<Rightarrow> n | Inl e \<Rightarrow> 0)"

text \<open>The resolution of one owner on the adapter; \<open>None\<close> never arises, the walk ends.\<close>

definition check_owner ::
    "'w route \<Rightarrow> string list \<Rightarrow> string \<Rightarrow> string list \<Rightarrow> pyval \<Rightarrow> frozen_owner \<Rightarrow> position_rpc \<times> 'w
      \<Rightarrow> (resolution \<times> position_rpc \<times> 'w) res option" where
  "check_owner route archive_order mint services slot row = (\<lambda>(ad, w).
     case foldR (bind_boundary (fz_signature row)) (ph_boundaries ad) (fz_seeds row) of
       Inl e \<Rightarrow> Some (Inl e)
     | Inr boundaries \<Rightarrow> resolve_position_history (PStr mint) (fz_seeds row)
         (history_page route archive_order mint (slot_number (fz_slot row)) (slot_number slot))
         (fz_slot row) slot (Some index_decoder) [] [] services (receipt_bounds (ph_remaining ad))
         (ad\<lparr>ph_boundaries := boundaries\<rparr>, w))"

fun check_owners ::
    "'w route \<Rightarrow> string list \<Rightarrow> string \<Rightarrow> string list \<Rightarrow> pyval \<Rightarrow> string \<Rightarrow> (string \<times> frozen_owner) list
      \<Rightarrow> (string \<times> receipt_check) list \<Rightarrow> position_rpc \<times> 'w \<Rightarrow> nat
      \<Rightarrow> (nat \<times> (string \<times> receipt_check) list \<times> position_rpc \<times> 'w) res option" where
  "check_owners route archive_order mint services slot checked_at [] prior st n = Some (Inr (n, prior, st))"
| "check_owners route archive_order mint services slot checked_at ((owner, row) # rows) prior st n =
     (if ph_remaining (fst st) = 0 then Some (Inr (n, prior, st))
      else (case check_owner route archive_order mint services slot row st of
          None \<Rightarrow> None
        | Some (Inl e) \<Rightarrow> Some (Inl e)
        | Some (Inr (re, st')) \<Rightarrow> check_owners route archive_order mint services slot checked_at rows
            (AList.update owner \<lparr>rk_checked_at = checked_at, rk_capture = fz_capture row, rk_result = re\<rparr> prior) st' (n + 1)))"

definition order_owners :: "(string \<times> receipt_check) list \<Rightarrow> (string \<times> frozen_owner) list \<Rightarrow> (string \<times> frozen_owner) list" where
  "order_owners prior owners = sort_key (\<lambda>(owner, row). (last_checked prior owner, owner)) owners"

definition receipt_reported ::
    "(string \<times> frozen_owner) list \<Rightarrow> int \<Rightarrow> nat \<times> (string \<times> receipt_check) list \<times> position_rpc \<times> 'w
      \<Rightarrow> receipt_report \<times> (string \<times> receipt_check) list \<times> 'w" where
  "receipt_reported owners max_pages = (\<lambda>(n, prior, ad, w).
     (\<lparr>rp_status = ''shadow'', rp_selected = length owners, rp_checked = n,
       rp_page_calls = max_pages - int (ph_remaining ad),
       rp_results = List.map_filter (\<lambda>(owner, row). map_option (Pair owner) (map_of prior owner)) owners\<rparr>, prior, w))"

definition check_receipt_positions ::
    "'w route \<Rightarrow> ('w \<Rightarrow> pyval res \<times> 'w) \<Rightarrow> string list \<Rightarrow> (string \<times> frozen_owner) list \<Rightarrow> string list
      \<Rightarrow> (string \<times> receipt_check) list \<Rightarrow> string \<Rightarrow> string list \<Rightarrow> string \<Rightarrow> int \<Rightarrow> nat \<Rightarrow> 'w
      \<Rightarrow> (receipt_report \<times> (string \<times> receipt_check) list \<times> 'w) res option" where
  "check_receipt_positions route get_slot archive_order frozen reduced prior mint services checked_at max_pages max_owners w =
     (let owners = order_owners prior (reduced_owners frozen reduced) in
      if owners = []
      then Some (Inr (\<lparr>rp_status = ''unavailable'', rp_selected = 0, rp_checked = 0, rp_page_calls = 0, rp_results = []\<rparr>, prior, w))
      else (case get_slot w of
          (Inl e, w1) \<Rightarrow> Some (Inl e)
        | (Inr slot, w1) \<Rightarrow>
            map_option (\<lambda>r. bindR r (\<lambda>st. Inr (receipt_reported owners max_pages st)))
              (check_owners route archive_order mint services slot checked_at (take max_owners owners) prior
                 (make_position_rpc max_pages, w1) 0)))"

section \<open>What a verified boundary rests on\<close>

definition seed_row :: "int \<Rightarrow> pyval option \<Rightarrow> pyval \<Rightarrow> bool" where
  "seed_row from_slot boundary tx \<longleftrightarrow> readable_row tx \<and> at_seed_slot from_slot tx \<and>
     (\<exists>sig. first_signature tx = Inr sig \<and> is_seed boundary sig)"

definition other_row :: "int \<Rightarrow> pyval option \<Rightarrow> pyval \<Rightarrow> bool" where
  "other_row from_slot boundary tx \<longleftrightarrow> readable_row tx \<and> at_seed_slot from_slot tx \<and> \<not> seed_row from_slot boundary tx"

definition anchor_sound :: "string \<Rightarrow> string \<Rightarrow> int \<Rightarrow> pyval option \<Rightarrow> pyval list \<Rightarrow> anchor \<Rightarrow> bool" where
  "anchor_sound mint account from_slot boundary rows a \<longleftrightarrow>
     (\<not> an_unsafe a \<longrightarrow> list_all readable_row rows) \<and>
     (\<forall>p. an_proof a = Some p \<longrightarrow>
        (\<exists>tx \<in> set rows. seed_row from_slot boundary tx \<and> anchor_proof mint account (the boundary) tx = Inr (Some p))) \<and>
     (an_seen a \<longrightarrow> (\<exists>tx \<in> set rows. seed_row from_slot boundary tx \<and> an_seed_index a = getd tx ''transactionIndex'')) \<and>
     (an_proof a \<noteq> None \<longrightarrow> an_seen a) \<and>
     an_other a = map (\<lambda>tx. getd tx ''transactionIndex'') (filter (other_row from_slot boundary) rows)"

lemma anchor_sound_row:
  assumes "anchor_sound mint account from_slot boundary rows a" "note_row mint account from_slot boundary a tx = (a', None)"
  shows "anchor_sound mint account from_slot boundary (rows @ [tx]) a'"
proof (cases "readable_row tx")
  case False
  with assms show ?thesis by (auto simp: note_row_def anchor_sound_def other_row_def seed_row_def)
next
  case readable: True
  show ?thesis
  proof (cases "at_seed_slot from_slot tx")
    case False
    with assms readable show ?thesis by (auto simp: note_row_def anchor_sound_def other_row_def seed_row_def)
  next
    case slot: True
    with assms(2) readable obtain sig where sig: "first_signature tx = Inr sig"
      by (auto simp: note_row_def split: sum.splits)
    show ?thesis
    proof (cases "is_seed boundary sig")
      case False
      with assms readable slot sig show ?thesis
        by (auto simp: note_row_def anchor_sound_def other_row_def seed_row_def)
    next
      case True
      then have seed: "seed_row from_slot boundary tx" using readable slot sig by (auto simp: seed_row_def)
      from assms(2) readable slot sig True have "note_seed mint account (the boundary) tx a = (a', None)"
        by (simp add: note_row_def)
      with assms(1) seed show ?thesis
        by (auto simp: note_seed_def Let_def anchor_sound_def other_row_def readable split: sum.splits option.splits if_splits)
    qed
  qed
qed

lemma anchor_sound_rows:
  "note_rows mint account from_slot boundary a txs = (a', None) \<Longrightarrow> anchor_sound mint account from_slot boundary rows a \<Longrightarrow>
     anchor_sound mint account from_slot boundary (rows @ txs) a'"
proof (induction txs arbitrary: rows a)
  case Nil
  then show ?case by simp
next
  case (Cons tx txs)
  obtain a1 e where row: "note_row mint account from_slot boundary a tx = (a1, e)" by (metis prod.exhaust)
  with Cons.prems(1) have e: "e = None" and rest: "note_rows mint account from_slot boundary a1 txs = (a', None)"
    by (auto split: option.splits)
  have "anchor_sound mint account from_slot boundary (rows @ [tx]) a1"
    by (rule anchor_sound_row [OF Cons.prems(2)]) (simp add: row e)
  from Cons.IH [OF rest this] show ?case by simp
qed

lemma note_rows_append:
  "note_rows mint account from_slot boundary a xs = (a1, None) \<Longrightarrow>
     note_rows mint account from_slot boundary a (xs @ ys) = note_rows mint account from_slot boundary a1 ys"
  by (induction xs arbitrary: a) (auto split: prod.splits option.splits)

lemma anchor_sound_new: "anchor_sound mint account from_slot boundary [] new_anchor"
  by (simp add: anchor_sound_def new_anchor_def)

text \<open>A boundary transaction: the frozen receipt, exactly.\<close>

definition receipt_row :: "string \<Rightarrow> string \<Rightarrow> pyval \<Rightarrow> pyval \<Rightarrow> bool" where
  "receipt_row mint account boundary tx \<longleftrightarrow>
     (\<exists>row before after decimals. parse_transaction tx mint PNone [] [] default_parse_limits = row \<and> b_status row = ''parsed'' \<and>
        (\<exists>acc. map_of (b_accounts row) account = Some acc \<and> ar_mint acc = Some mint \<and> ar_decimals acc = Some decimals \<and>
           ar_before acc = Some before \<and> ar_after acc = Some after) \<and>
        py_int (getd boundary ''decimals'') = Inr decimals \<and> py_int (getd boundary ''balance_raw'') = Inr after \<and>
        py_int (getd boundary ''bought_raw'') = Inr (after - before))"

lemma dict_item_getd: "dict_item d k = Inr v \<Longrightarrow> getd d k = v"
  by (cases d) (auto split: option.splits)

lemma opt_int_Inr [simp]: "opt_int v = Inr n \<longleftrightarrow> v = Some n"
  by (cases v) auto

lemma anchor_proof_receipt:
  assumes "anchor_proof mint account boundary tx = Inr (Some p)"
  shows "receipt_row mint account boundary tx"
proof -
  let ?parsed = "parse_transaction tx mint PNone [] [] default_parse_limits"
  from assms obtain raw m where raw: "map_of (b_accounts ?parsed) account = Some raw" "b_status ?parsed = ''parsed''"
      "ar_mint raw = Some mint" "anchor_matches boundary raw = Inr (Some m)"
    by (auto simp: anchor_proof_def Let_def bindR_eq_Inr split: option.splits if_splits)
  then show ?thesis
    by (auto simp: receipt_row_def anchor_matches_def bindR_eq_Inr dest!: dict_item_getd split: if_splits)
qed

text \<open>
  C39: A verified slot boundary is the frozen receipt's.  When a page asserts the boundary of a frozen seed,
  then among all rows served for the account every row is readable, one is a successful transaction at the
  seed's slot with the seed's signature whose parsed account row has exactly the frozen decimals, balance
  and purchase, every other successful transaction at that slot comes before it by index, and the history
  has no further page.
\<close>

theorem seed_boundary_proved:
  assumes page: "history_page route archive mint from_slot to_slot account cursor asked (ad, w) = (Inr page, (ad', w'))"
    and served: "note_rows mint account from_slot (map_of (ph_boundaries ad) account) new_anchor served = (anchor_of ad account, None)"
    and asserted: "has_key (getd page ''coverage'') ''seed_boundary''"
  shows "\<exists>boundary rows tx last. map_of (ph_boundaries ad) account = Some boundary \<and>
    note_rows mint account from_slot (Some boundary) new_anchor (served @ rows) = (anchor_of ad' account, None) \<and>
    list_all readable_row (served @ rows) \<and> tx \<in> set (served @ rows) \<and> seed_row from_slot (Some boundary) tx \<and>
    receipt_row mint account boundary tx \<and> last \<in> set (served @ rows) \<and> seed_row from_slot (Some boundary) last \<and>
    list_all (\<lambda>tx'. other_row from_slot (Some boundary) tx' \<longrightarrow>
      (\<exists>i n. int_like (getd tx' ''transactionIndex'') = Some i \<and> int_like (getd last ''transactionIndex'') = Some n \<and> i < n)) (served @ rows) \<and>
    \<not> truthy (getd page ''next_cursor'')"
proof -
  from page obtain used result ad2 where taken: "take_page mint from_slot to_slot account asked used result ad2 = (Inr page, ad')"
      and ad2: "ph_boundaries ad2 = ph_boundaries ad" "ph_anchors ad2 = ph_anchors ad"
    by (auto simp: history_page_def Let_def split: if_splits prod.splits sum.splits option.splits)
  let ?boundary = "map_of (ph_boundaries ad) account"
  have anchor: "anchor_of ad2 account = anchor_of ad account" by (simp add: anchor_of_def ad2)
  from taken obtain rows a where rows: "note_rows mint account from_slot ?boundary (anchor_of ad account) rows = (a, None)"
      and cov: "getd page ''coverage'' = PDict (page_coverage used account mint from_slot to_slot ?boundary a rows (getd result ''paginationToken''))"
      and next_cursor: "getd page ''next_cursor'' = getd result ''paginationToken''"
      and ad': "anchor_of ad' account = a"
    by (auto simp: take_page_def Let_def ad2 anchor anchor_of_def [of ad'] split: sum.splits prod.splits option.splits)
  from asserted have bv: "boundary_verified ?boundary a (getd page ''next_cursor'')"
    by (auto simp: cov next_cursor page_coverage_def split: if_splits)
  then obtain boundary p where b: "?boundary = Some boundary" and p: "an_proof a = Some p"
      and tail: "ordered_tail a" and safe: "\<not> an_unsafe a" and finished: "\<not> truthy (getd page ''next_cursor'')"
    by (auto simp: boundary_verified_def)
  have all: "note_rows mint account from_slot (Some boundary) new_anchor (served @ rows) = (a, None)"
    using note_rows_append [OF served] rows by (simp add: b)
  have sound: "anchor_sound mint account from_slot (Some boundary) (served @ rows) a"
    using anchor_sound_rows [OF all anchor_sound_new] by simp
  from sound p obtain tx where tx: "tx \<in> set (served @ rows)" "seed_row from_slot (Some boundary) tx"
      "anchor_proof mint account boundary tx = Inr (Some p)"
    unfolding anchor_sound_def by auto
  from sound p obtain last where last: "last \<in> set (served @ rows)" "seed_row from_slot (Some boundary) last"
      "an_seed_index a = getd last ''transactionIndex''"
    unfolding anchor_sound_def by auto
  have other: "an_other a = map (\<lambda>tx. getd tx ''transactionIndex'') (filter (other_row from_slot (Some boundary)) (served @ rows))"
    using sound by (simp add: anchor_sound_def)
  have "\<exists>i n. int_like (getd tx' ''transactionIndex'') = Some i \<and> int_like (getd last ''transactionIndex'') = Some n \<and> i < n"
    if "tx' \<in> set (served @ rows)" "other_row from_slot (Some boundary) tx'" for tx'
  proof -
    have i: "getd tx' ''transactionIndex'' \<in> set (an_other a)" unfolding other using that by auto
    then obtain n where n: "int_like (getd last ''transactionIndex'') = Some n"
        "list_all (\<lambda>v. case int_like v of None \<Rightarrow> False | Some i \<Rightarrow> i < n) (an_other a)"
      using tail by (auto simp: ordered_tail_def last(3) split: option.splits)
    with i show ?thesis by (auto simp: list_all_iff split: option.splits dest!: bspec)
  qed
  then have "list_all (\<lambda>tx'. other_row from_slot (Some boundary) tx' \<longrightarrow>
      (\<exists>i n. int_like (getd tx' ''transactionIndex'') = Some i \<and> int_like (getd last ''transactionIndex'') = Some n \<and> i < n)) (served @ rows)"
    by (simp only: list_all_iff) blast
  moreover have "list_all readable_row (served @ rows)" using sound safe unfolding anchor_sound_def by blast
  ultimately show ?thesis using b all ad' tx last anchor_proof_receipt [OF tx(3)] finished by blast
qed

section \<open>The page budget\<close>

text \<open>What every fetch keeps of the outside, the walk keeps.\<close>

locale fetch_keeps =
  fixes fetch :: "'w fetcher" and P :: "'w \<Rightarrow> bool"
  assumes keeps: "P w \<Longrightarrow> P (snd (fetch account cursor asked w))"
begin

lemma page_step_keeps: "P w \<Longrightarrow> page_step q fetch account sc st w = (res, w') \<Longrightarrow> P w'"
  using keeps [of w account "sc_cursor sc" "min (q_size q) (q_transactions q - st_records st)"]
  by (auto simp: page_step_def Let_def split: prod.splits sum.splits if_splits)

lemma page_loop_keeps: "P w \<Longrightarrow> page_loop n q fetch account sc st w = (n', sc', st', w') \<Longrightarrow> P w'"
proof (induction n arbitrary: sc st w)
  case 0
  then show ?case by (simp add: page_loop.simps [of 0])
next
  case (Suc n)
  show ?case
  proof (cases "st_records st \<ge> q_transactions q")
    case True
    with Suc.prems show ?thesis by (simp add: page_loop.simps [of "Suc n"])
  next
    case False
    obtain stop sc1 st1 w1 where step: "page_step q fetch account sc st w = ((stop, sc1, st1), w1)" by (metis prod.exhaust)
    note w1 = page_step_keeps [OF Suc.prems(1) step]
    show ?thesis
    proof (cases stop)
      case True
      with Suc.prems(2) False step w1 show ?thesis by (simp add: page_loop.simps [of "Suc n"])
    next
      case False
      with Suc.prems(2) \<open>\<not> _ \<le> _\<close> step have "page_loop n q fetch account sc1 st1 w1 = (n', sc', st', w')"
        by (simp add: page_loop.simps [of "Suc n"])
      with Suc.IH [OF w1] show ?thesis .
    qed
  qed
qed

lemma resolve_step_keeps: "P w \<Longrightarrow> resolve_step q fetch seeds opt account rv w = Inr (rv', w') \<Longrightarrow> P w'"
  by (auto simp: resolve_step_def bindR_eq_Inr split: option.splits prod.splits dest: page_loop_keeps)

lemma resolve_loop_keeps: "P w \<Longrightarrow> resolve_loop fuel q fetch seeds opt rv w = Some (Inr (rv', w')) \<Longrightarrow> P w'"
proof (induction fuel arbitrary: rv w)
  case 0
  then show ?case by (simp add: resolve_loop.simps [of 0] split: list.splits)
next
  case (Suc k)
  show ?case
  proof (cases "rv_queue rv")
    case Nil
    with Suc.prems show ?thesis by (simp add: resolve_loop.simps [of "Suc k"])
  next
    case (Cons account rest)
    with Suc.prems(2) obtain rv1 w1 where step: "resolve_step q fetch seeds opt account (rv\<lparr>rv_queue := rest\<rparr>) w = Inr (rv1, w1)"
        and loop: "resolve_loop k q fetch seeds opt rv1 w1 = Some (Inr (rv', w'))"
      by (auto simp: resolve_loop.simps [of "Suc k"] split: sum.splits)
    show ?thesis by (rule Suc.IH [OF resolve_step_keeps [OF Suc.prems(1) step] loop])
  qed
qed

lemma resolve_keeps: "P w \<Longrightarrow> resolve q fetch seeds opt n w = Some (Inr (re, w')) \<Longrightarrow> P w'"
  by (auto simp: resolve_def Let_def bindR_eq_Inr split: sum.splits option.splits dest: resolve_loop_keeps)

lemma history_keeps:
  "P w \<Longrightarrow> resolve_position_history mint seeds fetch from_slot to_slot decode programs so sa bo w = Some (Inr (re, w')) \<Longrightarrow> P w'"
  by (auto simp: resolve_position_history_def split: if_splits sum.splits dest: resolve_keeps)

end

text \<open>A transport that counts its requests.\<close>

definition counted :: "'w route \<Rightarrow> (nat \<times> 'w) route" where
  "counted route params preferred order = (\<lambda>(n, w). case route params preferred order w of (r, w') \<Rightarrow> (r, (n + 1, w')))"

definition uncounted :: "('w \<Rightarrow> pyval res \<times> 'w) \<Rightarrow> nat \<times> 'w \<Rightarrow> pyval res \<times> (nat \<times> 'w)" where
  "uncounted get_slot = (\<lambda>(n, w). case get_slot w of (r, w') \<Rightarrow> (r, (n, w')))"

definition pages_balanced :: "nat \<Rightarrow> nat \<Rightarrow> position_rpc \<times> (nat \<times> 'w) \<Rightarrow> bool" where
  "pages_balanced start K = (\<lambda>(ad, (n, w)). start \<le> n \<and> n + ph_remaining ad = K)"

lemma take_page_remaining: "ph_remaining (snd (take_page mint from_slot to_slot account asked used result ad)) = ph_remaining ad"
  by (auto simp: take_page_def Let_def split: sum.splits prod.splits option.splits)

interpretation paged: fetch_keeps "history_page (counted route) archive mint from_slot to_slot" "pages_balanced start K"
  for route archive mint from_slot to_slot start K
proof
  fix st :: "position_rpc \<times> nat \<times> 'a" and account cursor asked
  assume bal: "pages_balanced start K st"
  obtain ad n w where st: "st = (ad, (n, w))" by (metis prod.exhaust)
  let ?provider = "map_of (ph_providers ad) account"
  let ?order = "case ?provider of Some p \<Rightarrow> if p \<noteq> [] then [p] else archive | None \<Rightarrow> archive"
  obtain r w' where r: "route [PStr account, PDict (page_options from_slot to_slot cursor asked)] ?provider ?order w = (r, w')"
    by (rule prod.exhaust)
  show "pages_balanced start K (snd (history_page (counted route) archive mint from_slot to_slot account cursor asked st))"
  proof (cases "ph_remaining ad = 0")
    case True
    then show ?thesis using bal by (simp add: history_page_def st)
  next
    case False
    let ?ad1 = "ad\<lparr>ph_remaining := ph_remaining ad - 1\<rparr>"
    have count: "start \<le> n" "n + 1 + ph_remaining ?ad1 = K" using bal False by (simp_all add: st pages_balanced_def)
    show ?thesis
    proof (cases r)
      case (Inl e)
      then have "snd (history_page (counted route) archive mint from_slot to_slot account cursor asked st) = (?ad1, (n + 1, w'))"
        using False by (simp add: history_page_def st Let_def counted_def r)
      with count show ?thesis by (simp add: pages_balanced_def)
    next
      case (Inr served)
      obtain result used where served: "served = (result, used)" by (cases served)
      let ?ad2 = "?ad1\<lparr>ph_providers := AList.update account used (ph_providers ?ad1)\<rparr>"
      obtain answer ad3 where taken: "take_page mint from_slot to_slot account asked used result ?ad2 = (answer, ad3)"
        by (metis prod.exhaust)
      have "snd (history_page (counted route) archive mint from_slot to_slot account cursor asked st) \<in>
          {(?ad1, (n + 1, w')), (ad3, (n + 1, w'))}"
        using False taken by (simp add: history_page_def st Let_def counted_def r Inr served)
      moreover have "ph_remaining ad3 = ph_remaining ?ad1"
        using take_page_remaining [of mint from_slot to_slot account asked used result ?ad2] unfolding taken by simp
      ultimately show ?thesis using count by (auto simp: pages_balanced_def)
    qed
  qed
qed

lemma check_owner_balanced:
  assumes "check_owner (counted route) archive mint services slot row st = Some (Inr (re, st'))" "pages_balanced start K st"
  shows "pages_balanced start K st'"
proof -
  obtain ad n w where st: "st = (ad, (n, w))" by (metis prod.exhaust)
  from assms(1) obtain boundaries where r: "resolve_position_history (PStr mint) (fz_seeds row)
      (history_page (counted route) archive mint (slot_number (fz_slot row)) (slot_number slot))
      (fz_slot row) slot (Some index_decoder) [] [] services (receipt_bounds (ph_remaining ad))
      (ad\<lparr>ph_boundaries := boundaries\<rparr>, (n, w)) = Some (Inr (re, st'))"
    by (auto simp: check_owner_def st split: sum.splits)
  show ?thesis by (rule paged.history_keeps [OF _ r]) (use assms(2) st in \<open>simp add: pages_balanced_def\<close>)
qed

lemma check_owners_balanced:
  "check_owners (counted route) archive mint services slot checked_at rows prior st n = Some (Inr (n', prior', st')) \<Longrightarrow>
     pages_balanced start K st \<Longrightarrow> pages_balanced start K st'"
proof (induction rows arbitrary: prior st n)
  case Nil
  then show ?case by simp
next
  case (Cons or rows)
  obtain owner row where or: "or = (owner, row)" by (cases or)
  show ?case
  proof (cases "ph_remaining (fst st) = 0")
    case True
    with Cons.prems or show ?thesis by simp
  next
    case False
    with Cons.prems(1) or obtain re st1 where step: "check_owner (counted route) archive mint services slot row st = Some (Inr (re, st1))"
        and rest: "check_owners (counted route) archive mint services slot checked_at rows
          (AList.update owner \<lparr>rk_checked_at = checked_at, rk_capture = fz_capture row, rk_result = re\<rparr> prior) st1 (n + 1) =
          Some (Inr (n', prior', st'))"
      by (auto split: option.splits sum.splits)
    show ?thesis by (rule Cons.IH [OF rest check_owner_balanced [OF step Cons.prems(2)]])
  qed
qed

text \<open>
  A receipt check stays within its pages.  Counting the routed requests for history pages, a check of
  the receipt positions makes exactly the page calls it reports, and at most the pages allowed.
\<close>

theorem receipt_check_within_pages:
  assumes "check_receipt_positions (counted route) (uncounted get_slot) archive frozen reduced prior mint services checked_at
      max_pages max_owners (n, w) = Some (Inr (checked, prior', (n', w')))"
    and "0 \<le> max_pages"
  shows "int n' = int n + rp_page_calls checked \<and> 0 \<le> rp_page_calls checked \<and> rp_page_calls checked \<le> max_pages"
proof (cases "order_owners prior (reduced_owners frozen reduced) = []")
  case True
  with assms show ?thesis by (auto simp: check_receipt_positions_def)
next
  case False
  obtain r w1 where slot: "get_slot w = (r, w1)" by (metis prod.exhaust)
  from assms(1) False obtain s where r: "r = Inr s"
    by (cases r) (simp_all add: check_receipt_positions_def uncounted_def slot)
  from assms(1) False obtain k ad where run: "check_owners (counted route) archive mint services s checked_at
        (take max_owners (order_owners prior (reduced_owners frozen reduced))) prior (make_position_rpc max_pages, (n, w1)) 0 =
        Some (Inr (k, prior', ad, (n', w')))"
      and rep: "rp_page_calls checked = max_pages - int (ph_remaining ad)"
    by (auto simp: check_receipt_positions_def uncounted_def slot r bindR_eq_Inr receipt_reported_def Let_def)
  have "pages_balanced n (n + nat max_pages) (ad, (n', w'))"
    by (rule check_owners_balanced [OF run]) (simp add: pages_balanced_def make_position_rpc_def assms(2))
  then have "n \<le> n'" "n' + ph_remaining ad = n + nat max_pages" by (simp_all add: pages_balanced_def)
  then have "int n' + int (ph_remaining ad) = int n + max_pages" "int n \<le> int n'" using assms(2) by linarith+
  with rep assms(2) show ?thesis by auto
qed

text \<open>
  A receipt check always returns.  Whatever the provider serves for however many owners, the check
  ends with a report or an error.
\<close>

theorem receipt_check_returns:
  "check_receipt_positions route get_slot archive frozen reduced prior mint services checked_at max_pages max_owners w \<noteq> None"
proof -
  have owner: "check_owner route archive mint services slot row st \<noteq> None" for slot row st
    using resolve_returns by (auto simp: check_owner_def split: prod.splits sum.splits)
  have "check_owners route archive mint services slot checked_at rows prior st n \<noteq> None" for slot rows prior st n
    by (induction rows arbitrary: prior st n) (auto split: option.splits sum.splits simp: owner)
  then show ?thesis by (auto simp: check_receipt_positions_def Let_def split: prod.splits sum.splits)
qed

section \<open>A sample receipt\<close>

text \<open>The owner \<open>L\<close> received 40 in account \<open>V\<close> at slot 9, and no later page exists.\<close>

definition receipt_seed :: pyval where
  "receipt_seed = PDict [(''account'', PStr ''V''), (''owner'', PStr ''L''), (''mint'', PStr ''M''), (''decimals'', PInt 6),
     (''balance_raw'', PStr ''540''), (''bought_raw'', PStr ''40''), (''signature'', PStr ''S1'')]"

definition receipt_route :: "unit route" where
  "receipt_route params preferred order w = (Inr (PDict [(''data'', PList [demo_swap_tx])], ''helius''), w)"

definition receipt_adapter :: position_rpc where
  "receipt_adapter = (make_position_rpc 4)\<lparr>ph_boundaries := [(''V'', receipt_seed)]\<rparr>"

definition receipt_page :: "pyval res \<times> (position_rpc \<times> unit)" where
  "receipt_page = history_page receipt_route [''helius''] ''M'' 9 20 ''V'' None 32 (receipt_adapter, ())"

lemma receipt_page_asserts:
  "case fst receipt_page of Inl e \<Rightarrow> False | Inr page \<Rightarrow> has_key (getd page ''coverage'') ''seed_boundary''"
  by code_simp

theorem seed_boundary_proved_witness:
  "\<exists>tx. receipt_row ''M'' ''V'' receipt_seed tx \<and> seed_row 9 (Some receipt_seed) tx"
proof -
  obtain page where "fst receipt_page = Inr page" and asserted: "has_key (getd page ''coverage'') ''seed_boundary''"
    using receipt_page_asserts by (auto split: sum.splits)
  then obtain ad w where page: "receipt_page = (Inr page, (ad, w))" by (metis prod.collapse)
  have served: "note_rows ''M'' ''V'' 9 (map_of (ph_boundaries receipt_adapter) ''V'') new_anchor [] = (anchor_of receipt_adapter ''V'', None)"
    by (simp add: anchor_of_def receipt_adapter_def make_position_rpc_def)
  have seed: "map_of (ph_boundaries receipt_adapter) ''V'' = Some receipt_seed" by (simp add: receipt_adapter_def)
  show ?thesis using seed_boundary_proved [OF page [unfolded receipt_page_def] served asserted] unfolding seed by blast
qed

definition receipt_run :: "(receipt_report \<times> (string \<times> receipt_check) list \<times> nat \<times> unit) res option" where
  "receipt_run = check_receipt_positions (counted receipt_route) (uncounted (\<lambda>w. (Inr (PInt 20), w))) [''helius'']
     [(''L'', \<lparr>fz_seeds = [receipt_seed], fz_signature = PStr ''S1'', fz_slot = PInt 9, fz_capture = PNone\<rparr>)] [''L''] [] ''M'' []
     ''now'' 4 2 (0, ())"

lemma receipt_run_value: "case receipt_run of Some (Inr (checked, prior, n, w)) \<Rightarrow> n = 1 \<and> rp_checked checked = 1 | _ \<Rightarrow> False"
  by code_simp

theorem receipt_check_within_pages_witness:
  "\<exists>checked prior w. receipt_run = Some (Inr (checked, prior, 1, w)) \<and> rp_page_calls checked = 1 \<and> rp_page_calls checked \<le> 4"
proof -
  obtain checked prior w where r: "receipt_run = Some (Inr (checked, prior, 1, w))"
    using receipt_run_value by (auto split: option.splits sum.splits)
  from receipt_check_within_pages [OF r [unfolded receipt_run_def]] have "rp_page_calls checked = 1" by simp
  with r show ?thesis by (intro exI [of _ checked] exI [of _ prior] exI [of _ w]) simp
qed

end
