(* ===== verification/Noise_Cut.thy ===== *)
theory Noise_Cut
  imports Py_Numbers
begin

text \<open>
  \<^verbatim>\<open>src/noise_cut.py\<close>: coordination as risk evidence, and the gates that take an alert from the candidates.

  Alerts and configurations are the dictionaries of the program; their parts have the shapes the scanner
  writes (a missing part reads as absent).  Codes and labels are texts and amounts are finite.
\<close>

section \<open>Switches and points\<close>

abbreviation switch :: "pyval \<Rightarrow> string \<Rightarrow> bool" where
  "switch config key \<equiv> truthy (getd config key)"

definition coordination_as_risk :: "pyval \<Rightarrow> bool" where
  "coordination_as_risk config = switch config ''noise_cut_coordination_as_risk''"

definition classified_wallets_risk_only :: "pyval \<Rightarrow> bool" where
  "classified_wallets_risk_only config = switch config ''noise_cut_classified_wallets_risk_only''"

definition risk_gates_enabled :: "pyval \<Rightarrow> bool" where
  "risk_gates_enabled config = switch config ''noise_cut_risk_gates_enabled''"

definition gmgn_prefilter_enabled :: "pyval \<Rightarrow> bool" where
  "gmgn_prefilter_enabled config = switch config ''gmgn_prefilter_enabled''"

definition COORDINATION_RISK_POINTS :: "(string \<times> pyval) list" where
  "COORDINATION_RISK_POINTS = [(''common_funder'', PInt 25), (''common_recipient'', PInt 20), (''common_executor'', PInt 15),
     (''hard_wallet_cluster'', PInt 25)]"

text \<open>\<open>max(0.0, float(value or 0))\<close> on the finite amounts of the configuration.\<close>

definition risk_points :: "pyval \<Rightarrow> rat res" where
  "risk_points v = (case py_float (py_or v (PInt 0)) of
      Some (Fin q) \<Rightarrow> Inr (max 0 q)
    | Some _ \<Rightarrow> Inl OverflowError
    | None \<Rightarrow> Inl TypeError)"

definition coordination_risk_points :: "pyval \<Rightarrow> (string \<times> rat) list res" where
  "coordination_risk_points config =
     (let points = (case py_or (getd config ''noise_cut_coordination_risk_points'') (PDict []) of
          PDict d \<Rightarrow> foldl (\<lambda>p (k, v). AList.update k v p) COORDINATION_RISK_POINTS d
        | _ \<Rightarrow> COORDINATION_RISK_POINTS)
      in mapR (\<lambda>(k, v). bindR (risk_points v) (\<lambda>q. Inr (k, q))) points)"

definition points_of :: "(string \<times> rat) list \<Rightarrow> string \<Rightarrow> rat" where
  "points_of points code = (case map_of points code of None \<Rightarrow> 0 | Some q \<Rightarrow> q)"

record risk_entry =
  rk_code :: string
  rk_points :: rat
  rk_groups :: "nat option"

definition classic_coordination_risk :: "bool \<Rightarrow> pyval list \<Rightarrow> pyval list \<Rightarrow> pyval \<Rightarrow> risk_entry list res" where
  "classic_coordination_risk hard_cluster common_funders common_recipients config =
     bindR (coordination_risk_points config) (\<lambda>points. Inr
       ((if hard_cluster then [\<lparr>rk_code = ''hard_wallet_cluster'', rk_points = points_of points ''hard_wallet_cluster'', rk_groups = None\<rparr>] else []) @
        (if common_funders \<noteq> [] then [\<lparr>rk_code = ''common_funder'', rk_points = points_of points ''common_funder'',
           rk_groups = Some (length common_funders)\<rparr>] else []) @
        (if common_recipients \<noteq> [] then [\<lparr>rk_code = ''common_recipient'', rk_points = points_of points ''common_recipient'',
           rk_groups = Some (length common_recipients)\<rparr>] else [])))"

definition wave_coordination_penalty :: "pyval \<Rightarrow> pyval \<Rightarrow> rat res" where
  "wave_coordination_penalty alert config =
     (if \<not> coordination_as_risk config then Inr 0
      else bindR (coordination_risk_points config) (\<lambda>points. Inr
        ((if truthy (getd alert ''common_funders'') then points_of points ''common_funder'' else 0) +
         (if truthy (getd alert ''common_executors'') then points_of points ''common_executor'' else 0))))"

section \<open>Gates\<close>

definition signal_family :: "pyval \<Rightarrow> pyval" where
  "signal_family rec = py_or (getd rec ''signal_family'') (PStr ''classified_wallets'')"

definition coordination_signals :: "pyval \<Rightarrow> pyval \<Rightarrow> pyval list" where
  "coordination_signals rec code = filter (\<lambda>item. is_dict item \<and> py_eq (getd item ''code'') code)
     (as_list (getd (getd rec ''coordinated_activity'') ''signals''))"

text \<open>\<open>v in container\<close>: a list, or the substrings of a text.\<close>

fun py_member :: "pyval \<Rightarrow> pyval \<Rightarrow> bool" where
  "py_member v (PList xs) = list_ex (\<lambda>x. py_eq v x) xs"
| "py_member (PStr p) (PStr s) = py_contains p s"
| "py_member v w = False"

fun show_str :: "pyval \<Rightarrow> string" where
  "show_str (PStr s) = s"
| "show_str _ = []"

definition setting :: "pyval \<Rightarrow> string \<Rightarrow> pyval \<Rightarrow> pyval" where
  "setting config key fallback = (if getd config key = PNone then fallback else getd config key)"

definition gate_reasons :: "pyval \<Rightarrow> pyval \<Rightarrow> string list" where
  "gate_reasons rec config =
     (let family = (if classified_wallets_risk_only config \<and> py_eq (signal_family rec) (PStr ''classified_wallets'')
                    then [''classified_wallets is risk evidence only''] else [])
      in if \<not> risk_gates_enabled config then family
         else (let status = getd (getd rec ''supply_integrity'') ''status'';
                   statuses = setting config ''noise_cut_gate_supply_statuses'' (PList [PStr ''concentrated'', PStr ''unverified'']);
                   codes = setting config ''noise_cut_gate_coordination_codes'' (PList [PStr ''young_low_activity''])
               in family @
                  (if truthy status \<and> py_member status statuses then [''supply integrity '' @ show_str status] else []) @
                  map (\<lambda>code. show_str code @ '' cohort'') (filter (\<lambda>code. coordination_signals rec code \<noteq> []) (as_list codes))))"

section \<open>Classified wallets as evidence\<close>

definition evidence_count :: "pyval \<Rightarrow> string \<Rightarrow> int res" where
  "evidence_count alert key = py_int (py_or (getd alert key) (PInt 0))"

definition amount_of :: "pyval \<Rightarrow> string \<Rightarrow> rat res" where
  "amount_of alert key = (case py_float (py_or (getd alert key) (PInt 0)) of
      Some (Fin q) \<Rightarrow> Inr q | Some _ \<Rightarrow> Inl OverflowError | None \<Rightarrow> Inl TypeError)"

definition classified_wallet_evidence :: "pyval \<Rightarrow> pyval res" where
  "classified_wallet_evidence alert =
     bindR (evidence_count alert ''hard_wallets'') (\<lambda>hard. bindR (evidence_count alert ''support_wallets'') (\<lambda>support.
     bindR (amount_of alert ''hard_sol'') (\<lambda>sol. Inr (PDict
       [(''hard_wallets'', PInt hard), (''support_wallets'', PInt support), (''hard_sol'', PFloat (Fin sol)),
        (''common_funders'', PInt (int (length (as_list (getd alert ''common_funders''))))),
        (''common_recipients'', PInt (int (length (as_list (getd alert ''common_recipients''))))),
        (''window_start'', getd alert ''window_start''), (''window_end'', getd alert ''window_end'')]))))"

definition is_classified :: "pyval \<Rightarrow> bool" where
  "is_classified alert = py_eq (signal_family alert) (PStr ''classified_wallets'')"

definition strength :: "pyval \<Rightarrow> (int \<times> rat) res" where
  "strength alert = bindR (evidence_count alert ''hard_wallets'') (\<lambda>n. bindR (amount_of alert ''hard_sol'') (\<lambda>q. Inr (n, q)))"

definition stronger :: "int \<times> rat \<Rightarrow> int \<times> rat \<Rightarrow> bool" where
  "stronger a b \<longleftrightarrow> fst a > fst b \<or> fst a = fst b \<and> snd a > snd b"

text \<open>\<open>max(classified, key=...)\<close>: the first of the strongest.\<close>

definition strongest_of :: "pyval list \<Rightarrow> (pyval \<times> int \<times> rat) option res" where
  "strongest_of alerts = foldR (\<lambda>best alert. bindR (strength alert) (\<lambda>s. Inr (case best of
       None \<Rightarrow> Some (alert, s)
     | Some (a, t) \<Rightarrow> if stronger s t then Some (alert, s) else Some (a, t)))) None alerts"

fun set_key :: "string \<Rightarrow> pyval \<Rightarrow> pyval \<Rightarrow> pyval" where
  "set_key k v (PDict d) = PDict (AList.update k v d)"
| "set_key k v w = w"

definition attach_classified_wallet_evidence :: "pyval list \<Rightarrow> pyval \<Rightarrow> pyval list res" where
  "attach_classified_wallet_evidence alerts config =
     (if \<not> classified_wallets_risk_only config then Inr alerts
      else bindR (strongest_of (filter is_classified alerts)) (\<lambda>best. case best of
          None \<Rightarrow> Inr alerts
        | Some (strongest, s) \<Rightarrow> mapR (\<lambda>alert. if is_classified alert then Inr alert
              else bindR (classified_wallet_evidence strongest) (\<lambda>e. Inr (set_key ''classified_wallet_evidence'' e alert))) alerts))"

section \<open>The noise cut\<close>

definition RISK_PENALTIES :: "(string \<times> string) list" where
  "RISK_PENALTIES = [(''hard_wallet_cluster'', ''hard wallet cluster (risk)''), (''linked_wallets'', ''linked wallets (risk)''),
     (''synchronous_buys'', ''synchronous buys (risk)''), (''classified_wallet_evidence'', ''fresh-wallet cluster (risk)'')]"

definition risk_code :: "pyval \<Rightarrow> string res" where
  "risk_code item = bindR (dict_item item ''code'') (\<lambda>v. case v of PStr s \<Rightarrow> Inr s | _ \<Rightarrow> Inl TypeError)"

definition coordination_flags :: "pyval \<Rightarrow> pyval \<Rightarrow> string list res" where
  "coordination_flags alert config =
     (if \<not> coordination_as_risk config then Inr []
      else bindR (mapR risk_code (filter is_dict (as_list (getd alert ''coordination_risk'')))) (\<lambda>codes.
           bindR (py_int (if has_key config ''noise_cut_synchronous_buys_min_wallets''
                          then getd config ''noise_cut_synchronous_buys_min_wallets'' else PInt 5)) (\<lambda>minimum.
           bindR (mapR (\<lambda>item. evidence_count item ''wallet_count'') (coordination_signals alert (PStr ''synchronous_buys''))) (\<lambda>counts.
             let synchronous = (if counts = [] then 0 else Max (set counts)) in
             Inr (codes @
               (if truthy (getd alert ''common_funders'') \<or> truthy (getd alert ''common_recipients'') \<or>
                   truthy (getd alert ''common_executors'') then [''linked_wallets''] else []) @
               (if 0 < minimum \<and> minimum \<le> synchronous then [''synchronous_buys''] else []))))))"

definition risk_flags :: "pyval \<Rightarrow> pyval \<Rightarrow> string list res" where
  "risk_flags alert config = bindR (coordination_flags alert config) (\<lambda>flags. Inr (rev (remdups (rev (flags @
     (if classified_wallets_risk_only config \<and> truthy (getd alert ''classified_wallet_evidence'')
      then [''classified_wallet_evidence''] else []))))))"

definition add_penalty :: "pyval list \<Rightarrow> string \<Rightarrow> pyval list" where
  "add_penalty penalties label = (if list_ex (\<lambda>p. py_eq (PStr label) p) penalties then penalties else penalties @ [PStr label])"

definition flag_penalty :: "pyval list \<Rightarrow> string \<Rightarrow> pyval list" where
  "flag_penalty penalties flag = (case map_of RISK_PENALTIES flag of None \<Rightarrow> penalties | Some label \<Rightarrow> add_penalty penalties label)"

definition all_penalties :: "string list \<Rightarrow> string list \<Rightarrow> pyval list \<Rightarrow> pyval list" where
  "all_penalties flags reasons penalties =
     (let ps = foldl flag_penalty penalties flags in if reasons \<noteq> [] then add_penalty ps ''risk gate'' else ps)"

definition noise_record :: "string list \<Rightarrow> string list \<Rightarrow> pyval" where
  "noise_record flags reasons = PDict ([(''version'', PInt 1), (''risk_flags'', PList (map PStr flags))] @
     (if reasons \<noteq> [] then [(''gate'', PDict [(''status'', PStr ''excluded''), (''reasons'', PList (map PStr reasons))])] else []))"

definition write_cut :: "string list \<Rightarrow> string list \<Rightarrow> pyval \<Rightarrow> pyval" where
  "write_cut flags reasons alert =
     (let penalties = all_penalties flags reasons (as_list (getd alert ''quality_penalties''));
          tiered = (if reasons \<noteq> [] then set_key ''action_tier'' (PStr ''noise'') alert else alert)
      in set_key ''noise_cut'' (noise_record flags reasons) (set_key ''quality_penalties'' (PList penalties) tiered))"

definition cut_enabled :: "pyval \<Rightarrow> bool" where
  "cut_enabled config \<longleftrightarrow> coordination_as_risk config \<or> classified_wallets_risk_only config \<or> risk_gates_enabled config"

definition apply_noise_cut :: "pyval \<Rightarrow> pyval \<Rightarrow> pyval res" where
  "apply_noise_cut alert config =
     (if \<not> cut_enabled config then Inr alert
      else bindR (risk_flags alert config) (\<lambda>flags. Inr (write_cut flags (gate_reasons alert config) alert)))"

definition excluded_from_candidates :: "pyval \<Rightarrow> bool" where
  "excluded_from_candidates alert = py_eq (getd (getd (getd alert ''noise_cut'') ''gate'') ''status'') (PStr ''excluded'')"

definition thesis_gate :: "pyval \<Rightarrow> pyval \<Rightarrow> pyval" where
  "thesis_gate thesis config = (let reasons = gate_reasons thesis config in
     if reasons \<noteq> [] then PDict [(''version'', PInt 1), (''status'', PStr ''excluded''), (''reasons'', PList (map PStr reasons))] else PNone)"

section \<open>The holder prefilter\<close>

definition GMGN_PREFILTER_FIELDS :: "string list" where
  "GMGN_PREFILTER_FIELDS = [''top_10_holder_rate'', ''dev_team_hold_rate'', ''fresh_wallet_rate'', ''top70_sniper_hold_rate'',
     ''bundler_wallet_share'', ''sniper_wallets'']"

text \<open>A reason names the field, its value and the limit, which the text of the program formats.\<close>

definition prefilter_reason :: "pyval \<Rightarrow> pyval \<Rightarrow> string \<Rightarrow> (string \<times> rat \<times> rat) list res" where
  "prefilter_reason thresholds stats key =
     (if getd thresholds key = PNone \<or> getd stats key = PNone then Inr []
      else (case (py_float (getd stats key), py_float (getd thresholds key)) of
          (Some (Fin v), Some (Fin m)) \<Rightarrow> Inr (if v > m then [(key, v, m)] else [])
        | (Some _, Some _) \<Rightarrow> Inl OverflowError
        | _ \<Rightarrow> Inl TypeError))"

definition gmgn_prefilter_reasons :: "pyval \<Rightarrow> pyval \<Rightarrow> (string \<times> rat \<times> rat) list res" where
  "gmgn_prefilter_reasons stats config =
     (let thresholds = py_or (getd config ''gmgn_prefilter_max'') (PDict [])
      in bindR (mapR (prefilter_reason thresholds stats) GMGN_PREFILTER_FIELDS) (\<lambda>rs. Inr (concat rs)))"

section \<open>What the cut changes\<close>

lemma getd_set_key: "is_dict alert \<Longrightarrow> getd (set_key k v alert) k' = (if k' = k then v else getd alert k')"
  by (cases alert) auto

lemma is_dict_set_key [simp]: "is_dict (set_key k v alert) = is_dict alert"
  by (cases alert) auto

definition cut_keys :: "string set" where
  "cut_keys = {''action_tier'', ''quality_penalties'', ''noise_cut''}"

lemma write_cut_other: "is_dict alert \<Longrightarrow> k \<notin> cut_keys \<Longrightarrow> getd (write_cut flags reasons alert) k = getd alert k"
  by (auto simp: write_cut_def Let_def getd_set_key cut_keys_def)

lemma gate_reasons_cong:
  assumes "\<And>k. k \<notin> cut_keys \<Longrightarrow> getd a k = getd b k"
  shows "gate_reasons a config = gate_reasons b config"
proof -
  have "getd a ''signal_family'' = getd b ''signal_family''" "getd a ''supply_integrity'' = getd b ''supply_integrity''"
      "getd a ''coordinated_activity'' = getd b ''coordinated_activity''"
    by (rule assms, simp add: cut_keys_def)+
  then show ?thesis by (simp add: gate_reasons_def signal_family_def coordination_signals_def)
qed

lemma risk_flags_cong:
  assumes "\<And>k. k \<notin> cut_keys \<Longrightarrow> getd a k = getd b k"
  shows "risk_flags a config = risk_flags b config"
proof -
  have "getd a ''coordination_risk'' = getd b ''coordination_risk''" "getd a ''common_funders'' = getd b ''common_funders''"
      "getd a ''common_recipients'' = getd b ''common_recipients''" "getd a ''common_executors'' = getd b ''common_executors''"
      "getd a ''coordinated_activity'' = getd b ''coordinated_activity''"
      "getd a ''classified_wallet_evidence'' = getd b ''classified_wallet_evidence''"
    by (rule assms, simp add: cut_keys_def)+
  then show ?thesis by (simp add: risk_flags_def coordination_flags_def coordination_signals_def)
qed

section \<open>Penalties\<close>

definition has_penalty :: "pyval list \<Rightarrow> string \<Rightarrow> bool" where
  "has_penalty penalties label = list_ex (\<lambda>p. p = PStr label) penalties"

lemma add_penalty_eq: "add_penalty ps label = (if has_penalty ps label then ps else ps @ [PStr label])"
  by (simp add: add_penalty_def has_penalty_def)

lemma has_penalty_add: "has_penalty (add_penalty ps label) l \<longleftrightarrow> has_penalty ps l \<or> l = label"
  by (auto simp: add_penalty_eq has_penalty_def)

lemma has_penalty_flags: "has_penalty (foldl flag_penalty ps flags) l \<longleftrightarrow>
    has_penalty ps l \<or> (\<exists>f \<in> set flags. map_of RISK_PENALTIES f = Some l)"
proof (induction flags arbitrary: ps)
  case Nil
  then show ?case by simp
next
  case (Cons f flags)
  have "has_penalty (flag_penalty ps f) l \<longleftrightarrow> has_penalty ps l \<or> map_of RISK_PENALTIES f = Some l"
    by (cases "map_of RISK_PENALTIES f") (auto simp: flag_penalty_def has_penalty_add)
  with Cons.IH [of "flag_penalty ps f"] show ?case by auto
qed

lemma flag_penalty_stays:
  "\<forall>f \<in> set flags. \<forall>l. map_of RISK_PENALTIES f = Some l \<longrightarrow> has_penalty ps l \<Longrightarrow> foldl flag_penalty ps flags = ps"
  by (induction flags) (auto simp: flag_penalty_def add_penalty_eq split: option.splits)

lemma all_penalties_stay: "all_penalties flags reasons (all_penalties flags reasons ps) = all_penalties flags reasons ps"
proof -
  let ?ps = "all_penalties flags reasons ps"
  have "foldl flag_penalty ?ps flags = ?ps"
    by (rule flag_penalty_stays) (auto simp: all_penalties_def Let_def has_penalty_add has_penalty_flags)
  moreover have "reasons \<noteq> [] \<Longrightarrow> has_penalty ?ps ''risk gate''"
    by (simp add: all_penalties_def Let_def has_penalty_add)
  ultimately show ?thesis by (simp add: all_penalties_def [of flags reasons ?ps] Let_def add_penalty_eq)
qed

section \<open>Idempotence\<close>

lemma update_same: "map_of d k = Some v \<Longrightarrow> AList.update k v d = d"
  by (induction d) auto

lemma set_key_same: "is_dict alert \<Longrightarrow> has_key alert k \<Longrightarrow> getd alert k = v \<Longrightarrow> set_key k v alert = alert"
  by (cases alert) (auto simp: update_same)

lemma has_key_set_key: "is_dict alert \<Longrightarrow> has_key (set_key k v alert) k' \<longleftrightarrow> k' = k \<or> has_key alert k'"
  by (cases alert) auto

lemma write_cut_again:
  assumes "is_dict alert"
  shows "write_cut flags reasons (write_cut flags reasons alert) = write_cut flags reasons alert"
proof -
  let ?b = "write_cut flags reasons alert"
  have d: "is_dict ?b" using assms by (simp add: write_cut_def Let_def)
  have tier: "(if reasons \<noteq> [] then set_key ''action_tier'' (PStr ''noise'') ?b else ?b) = ?b"
    using assms by (auto intro!: set_key_same simp: write_cut_def Let_def getd_set_key has_key_set_key)
  have pen: "getd ?b ''quality_penalties'' = PList (all_penalties flags reasons (as_list (getd alert ''quality_penalties'')))"
    using assms by (simp add: write_cut_def Let_def getd_set_key)
  have "set_key ''quality_penalties'' (PList (all_penalties flags reasons (as_list (getd ?b ''quality_penalties'')))) ?b = ?b"
    using d assms by (intro set_key_same) (simp_all add: pen all_penalties_stay, simp add: write_cut_def Let_def has_key_set_key)
  moreover have "set_key ''noise_cut'' (noise_record flags reasons) ?b = ?b"
    using d assms by (intro set_key_same) (simp_all add: write_cut_def Let_def has_key_set_key getd_set_key)
  ultimately show ?thesis by (simp add: write_cut_def [of flags reasons ?b] tier Let_def)
qed

text \<open>
  C40: The noise cut is idempotent.  Applying it to an alert it has already treated, under the same
  configuration, changes nothing.
\<close>

theorem noise_cut_idempotent:
  assumes "apply_noise_cut alert config = Inr treated" and "is_dict alert"
  shows "apply_noise_cut treated config = Inr treated"
proof (cases "cut_enabled config")
  case False
  with assms(1) show ?thesis by (simp add: apply_noise_cut_def)
next
  case True
  with assms(1) obtain flags where flags: "risk_flags alert config = Inr flags"
      and treated: "treated = write_cut flags (gate_reasons alert config) alert"
    by (auto simp: apply_noise_cut_def bindR_eq_Inr)
  have same: "getd treated k = getd alert k" if "k \<notin> cut_keys" for k
    unfolding treated by (rule write_cut_other [OF assms(2) that])
  have "risk_flags treated config = Inr flags" using risk_flags_cong [OF same] flags by simp
  moreover have "gate_reasons treated config = gate_reasons alert config" by (rule gate_reasons_cong) (rule same)
  ultimately show ?thesis
    using True write_cut_again [OF assms(2)] by (simp add: apply_noise_cut_def treated)
qed

text \<open>
  The cut gates exactly what the gates name.  With a switch on, a treated alert is excluded from the
  candidates exactly when it has gate reasons, which are the ones recorded for its thesis; then its tier is
  noise.  Every field but the tier, the penalties and the record stays, and no penalty is lost.
\<close>

theorem noise_cut_gates_exactly:
  assumes "apply_noise_cut alert config = Inr treated" and "is_dict alert" and "cut_enabled config"
  shows "excluded_from_candidates treated = (gate_reasons alert config \<noteq> []) \<and>
    (excluded_from_candidates treated = (thesis_gate alert config \<noteq> PNone)) \<and>
    (excluded_from_candidates treated \<longrightarrow> getd treated ''action_tier'' = PStr ''noise'') \<and>
    (\<forall>k. k \<notin> cut_keys \<longrightarrow> getd treated k = getd alert k) \<and>
    (\<exists>added. getd treated ''quality_penalties'' = PList (as_list (getd alert ''quality_penalties'') @ added))"
proof -
  let ?reasons = "gate_reasons alert config"
  from assms(1,3) obtain flags where treated: "treated = write_cut flags ?reasons alert"
    by (auto simp: apply_noise_cut_def bindR_eq_Inr)
  have add: "\<exists>added. add_penalty ps label = ps @ added" for ps label by (auto simp: add_penalty_def)
  have step: "\<exists>added. flag_penalty ps f = ps @ added" for ps f
    using add by (auto simp: flag_penalty_def split: option.splits)
  have grow: "\<exists>added. foldl flag_penalty ps flags = ps @ added" for ps
  proof (induction flags arbitrary: ps)
    case (Cons f flags)
    obtain x where x: "flag_penalty ps f = ps @ x" using step by blast
    obtain y where "foldl flag_penalty (ps @ x) flags = (ps @ x) @ y" using Cons.IH by blast
    with x show ?case by simp
  qed simp
  obtain x where x: "foldl flag_penalty (as_list (getd alert ''quality_penalties'')) flags = as_list (getd alert ''quality_penalties'') @ x"
    using grow by blast
  obtain y where y: "add_penalty (as_list (getd alert ''quality_penalties'') @ x) ''risk gate'' =
      (as_list (getd alert ''quality_penalties'') @ x) @ y" using add by blast
  have "\<exists>added. all_penalties flags ?reasons (as_list (getd alert ''quality_penalties'')) = as_list (getd alert ''quality_penalties'') @ added"
    using x y by (auto simp: all_penalties_def Let_def)
  moreover have "getd treated ''quality_penalties'' = PList (all_penalties flags ?reasons (as_list (getd alert ''quality_penalties'')))"
    using assms(2) by (simp add: treated write_cut_def Let_def getd_set_key)
  ultimately have pen: "\<exists>added. getd treated ''quality_penalties'' = PList (as_list (getd alert ''quality_penalties'') @ added)" by auto
  have gate: "getd treated ''noise_cut'' = noise_record flags ?reasons"
    using assms(2) by (simp add: treated write_cut_def Let_def getd_set_key)
  have "excluded_from_candidates treated \<longleftrightarrow> ?reasons \<noteq> []"
    by (auto simp: excluded_from_candidates_def gate noise_record_def)
  moreover have "?reasons \<noteq> [] \<longrightarrow> getd treated ''action_tier'' = PStr ''noise''"
    using assms(2) by (simp add: treated write_cut_def Let_def getd_set_key)
  moreover have "(thesis_gate alert config \<noteq> PNone) = (?reasons \<noteq> [])" by (simp add: thesis_gate_def Let_def)
  ultimately show ?thesis using pen write_cut_other [OF assms(2)] by (simp add: treated)
qed

section \<open>A sample alert\<close>

definition demo_switches :: pyval where
  "demo_switches = PDict [(''noise_cut_coordination_as_risk'', PBool True), (''noise_cut_risk_gates_enabled'', PBool True)]"

definition demo_alert :: pyval where
  "demo_alert = PDict [(''signal_family'', PStr ''wave''), (''common_funders'', PList [PStr ''F'']),
     (''supply_integrity'', PDict [(''status'', PStr ''concentrated'')]), (''quality_penalties'', PList [PStr ''thin''])]"

definition demo_cut :: pyval where
  "demo_cut = write_cut [''linked_wallets''] [''supply integrity concentrated''] demo_alert"

lemma demo_cut_applied: "apply_noise_cut demo_alert demo_switches = Inr demo_cut"
  by code_simp

theorem noise_cut_idempotent_witness: "apply_noise_cut demo_cut demo_switches = Inr demo_cut"
  by (rule noise_cut_idempotent [OF demo_cut_applied]) (simp add: demo_alert_def)

theorem noise_cut_gates_exactly_witness:
  "excluded_from_candidates demo_cut \<and> getd demo_cut ''action_tier'' = PStr ''noise'' \<and> getd demo_cut ''common_funders'' = PList [PStr ''F'']"
proof -
  have "is_dict demo_alert" "cut_enabled demo_switches" "gate_reasons demo_alert demo_switches \<noteq> []"
      "getd demo_alert ''common_funders'' = PList [PStr ''F'']" by code_simp+
  with noise_cut_gates_exactly [OF demo_cut_applied] show ?thesis by (simp add: cut_keys_def)
qed

end
