(* ===== verification/Wallet_Activity.thy ===== *)
theory Wallet_Activity
  imports Position_Parse Py_Numbers
begin

text \<open>
  \<^verbatim>\<open>src/wallet_activity.py\<close>: the token movements of one wallet in one finalized transaction, and the
  resumable audit of its history.

  A transaction is a JSON value; addresses, owners and account keys are texts.  The base58 decoder is a
  parameter: the bytes of a text, or an exception.
\<close>

section \<open>The facts of a transaction\<close>

definition PUMP_AMM :: string where
  "PUMP_AMM = ''pAMMBay6oceH9fJKBRHGP5D4bD4sWpmSwMn52FMfXEA''"

definition SELL :: "nat list" where
  "SELL = [51, 230, 133, 164, 1, 127, 131, 173]"

record holding_row =
  ho_owner :: string
  ho_decimals :: int
  ho_before :: int
  ho_after :: int

record movement =
  mv_index :: "nat option"          \<comment> \<open>\<open>None\<close> is the unmatched remainder\<close>
  mv_source :: string
  mv_destination :: pyval
  mv_source_owner :: string
  mv_destination_owner :: "string option"
  mv_amount :: int
  mv_kind :: string                 \<comment> \<open>empty while unclassified\<close>

record activity =
  ac_events :: "movement list"
  ac_issues :: "string list"
  ac_delta :: int
  ac_decimals :: "int option"

definition no_activity :: "string list \<Rightarrow> activity" where
  "no_activity issues = \<lparr>ac_events = [], ac_issues = issues, ac_delta = 0, ac_decimals = None\<rparr>"

fun str_or_empty :: "pyval \<Rightarrow> string" where
  "str_or_empty (PStr s) = s"
| "str_or_empty _ = []"

section \<open>Snapshots\<close>

type_synonym wallet_snapshot = "(string \<times> string \<times> int \<times> int) list"  \<comment> \<open>account to owner, amount and decimals\<close>

definition account_key :: "pyval \<Rightarrow> pyval" where
  "account_key k = (if is_dict k then getd k ''pubkey'' else k)"

text \<open>A balance row of the mint: the account and its entry, or an exception that is caught.\<close>

definition read_balance :: "pyval list \<Rightarrow> wallet_snapshot \<Rightarrow> pyval \<Rightarrow> (string \<times> string \<times> int \<times> int) res" where
  "read_balance ks snap row =
     bindR (dict_item row ''accountIndex'') (\<lambda>iv. bindR (raw_of iv) (\<lambda>i. bindR (list_item ks (nat i)) (\<lambda>k.
     bindR (dict_item row ''uiTokenAmount'') (\<lambda>ui.
     bindR (dict_item ui ''amount'') (\<lambda>av. bindR (raw_of av) (\<lambda>amount.
     bindR (dict_item ui ''decimals'') (\<lambda>dv. bindR (raw_of dv) (\<lambda>decimals.
       let account = str_or_empty k; owner = str_or_empty (getd row ''owner'') in
       if account = [] \<or> owner = [] \<or> decimals > 255 \<or> map_of snap account \<noteq> None
       then Inl (ValueError ''invalid account identity'') else Inr (account, owner, amount, decimals)))))))))"

definition add_balance :: "string \<Rightarrow> pyval list \<Rightarrow> wallet_snapshot \<times> string list \<Rightarrow> pyval \<Rightarrow> wallet_snapshot \<times> string list" where
  "add_balance mint ks = (\<lambda>(snap, issues) row.
     if getd row ''mint'' \<noteq> PStr mint then (snap, issues)
     else (case read_balance ks snap row of
         Inl e \<Rightarrow> (snap, insert_new ''invalid_token_snapshot'' issues)
       | Inr (account, entry) \<Rightarrow> (snap @ [(account, entry)], issues)))"

definition read_snapshot :: "string \<Rightarrow> pyval list \<Rightarrow> pyval \<Rightarrow> string list \<Rightarrow> wallet_snapshot \<times> string list" where
  "read_snapshot mint ks rows issues = foldl (add_balance mint ks) ([], issues) (as_list rows)"

section \<open>Instructions\<close>

definition token_program :: "pyval \<Rightarrow> bool" where
  "token_program ins \<longleftrightarrow> str_or_empty (getd ins ''programId'') \<in> set TOKEN_PROGRAMS"

definition parsed_of :: "pyval \<Rightarrow> pyval" where
  "parsed_of ins = py_or (getd ins ''parsed'') (PDict [])"

definition info_of :: "pyval \<Rightarrow> pyval" where
  "info_of ins = py_or (getd (parsed_of ins) ''info'') (PDict [])"

definition parsed_type :: "pyval \<Rightarrow> string" where
  "parsed_type ins = str_or_empty (getd (parsed_of ins) ''type'')"

text \<open>Where \<open>.get\<close> is called on what is no dictionary, the decoder raises.\<close>

definition shaped_instruction :: "pyval \<Rightarrow> bool" where
  "shaped_instruction ins \<longleftrightarrow> is_dict ins \<and> (token_program ins \<longrightarrow> is_dict (parsed_of ins) \<and> is_dict (info_of ins))"

definition all_instructions :: "pyval \<Rightarrow> pyval \<Rightarrow> pyval list" where
  "all_instructions message meta = as_list (getd message ''instructions'') @
     concat (map (\<lambda>g. as_list (getd g ''instructions'')) (as_list (getd meta ''innerInstructions'')))"

definition INITIALIZE :: "string list" where
  "INITIALIZE = [''initializeAccount'', ''initializeAccount2'', ''initializeAccount3'']"

text \<open>The last lifecycle instruction of an account.\<close>

definition lifecycle_of :: "pyval list \<Rightarrow> (string \<times> string) list" where
  "lifecycle_of instructions = foldl (\<lambda>d ins.
     if token_program ins \<and> parsed_type ins \<in> set (''closeAccount'' # INITIALIZE)
     then AList.update (str_or_empty (getd (info_of ins) ''account'')) (parsed_type ins) d else d) [] instructions"

section \<open>Accounts\<close>

definition account_issues :: "(string \<times> string) list \<Rightarrow> string \<Rightarrow> bool \<Rightarrow> bool \<Rightarrow> string list \<Rightarrow> string list" where
  "account_issues lifecycle account before after issues =
     add_if (\<not> after \<and> map_of lifecycle account \<noteq> Some ''closeAccount'') ''unverified_account_close''
       (add_if (\<not> before \<and> \<not> (\<exists>t \<in> set INITIALIZE. map_of lifecycle account = Some t)) ''unverified_account_creation'' issues)"

definition join_account ::
    "(string \<times> string) list \<Rightarrow> wallet_snapshot \<Rightarrow> wallet_snapshot \<Rightarrow> (string \<times> holding_row) list \<times> string list \<Rightarrow> string
      \<Rightarrow> (string \<times> holding_row) list \<times> string list" where
  "join_account lifecycle pre post = (\<lambda>(accounts, issues) account.
     case (map_of pre account, map_of post account) of
       (Some (o1, a1, d1), Some (o2, a2, d2)) \<Rightarrow>
         if (o1, d1) \<noteq> (o2, d2) then (accounts, insert_new ''token_account_identity_changed'' issues)
         else (accounts @ [(account, \<lparr>ho_owner = o1, ho_decimals = d1, ho_before = a1, ho_after = a2\<rparr>)], issues)
     | (Some (o1, a1, d1), None) \<Rightarrow>
         (accounts @ [(account, \<lparr>ho_owner = o1, ho_decimals = d1, ho_before = a1, ho_after = 0\<rparr>)],
          account_issues lifecycle account True False issues)
     | (None, Some (o2, a2, d2)) \<Rightarrow>
         (accounts @ [(account, \<lparr>ho_owner = o2, ho_decimals = d2, ho_before = 0, ho_after = a2\<rparr>)],
          account_issues lifecycle account False True issues)
     | (None, None) \<Rightarrow> (accounts, issues))"

definition join_accounts ::
    "(string \<times> string) list \<Rightarrow> wallet_snapshot \<Rightarrow> wallet_snapshot \<Rightarrow> string list \<Rightarrow> (string \<times> holding_row) list \<times> string list" where
  "join_accounts lifecycle pre post issues =
     foldl (join_account lifecycle pre post) ([], issues) (remdups (map fst pre @ map fst post))"

definition owner_delta :: "string \<Rightarrow> (string \<times> holding_row) list \<Rightarrow> int" where
  "owner_delta owner accounts = (\<Sum>(a, h)\<leftarrow>filter (\<lambda>(a, h). ho_owner h = owner) accounts. ho_after h - ho_before h)"

definition common_decimals :: "(string \<times> holding_row) list \<Rightarrow> int option" where
  "common_decimals accounts = (case remdups (map (\<lambda>(a, h). ho_decimals h) accounts) of [d] \<Rightarrow> Some d | _ \<Rightarrow> None)"

section \<open>Transfers\<close>

definition parsed_amount :: "pyval \<Rightarrow> pyval" where
  "parsed_amount info = py_or (getd info ''tokenAmount'') (PDict [])"

text \<open>The amount of a transfer from a known account; the exceptions raised here are caught.\<close>

definition leg_raw :: "string \<Rightarrow> int option \<Rightarrow> holding_row \<Rightarrow> pyval \<Rightarrow> int res" where
  "leg_raw mint decimals source ins =
     (let info = info_of ins in
      bindR (raw_of (if has_key info ''amount'' then getd info ''amount'' else getd (parsed_amount info) ''amount'')) (\<lambda>amount.
      if (has_key info ''mint'' \<and> getd info ''mint'' \<noteq> PStr mint) \<or> decimals \<noteq> Some (ho_decimals source)
      then Inl (ValueError ''mint mismatch'')
      else if parsed_type ins = ''transferChecked''
      then bindR (dict_item (parsed_amount info) ''decimals'') (\<lambda>dv. bindR (raw_of dv) (\<lambda>d.
             if d \<noteq> ho_decimals source then Inl (ValueError ''decimals mismatch'') else Inr amount))
      else Inr amount))"

definition read_transfer ::
    "string \<Rightarrow> (string \<times> holding_row) list \<Rightarrow> movement list \<times> string list \<Rightarrow> nat \<times> pyval \<Rightarrow> (movement list \<times> string list) res" where
  "read_transfer mint accounts = (\<lambda>(transfers, issues) (index, ins).
     let info = info_of ins; source = str_or_empty (getd info ''source'') in
     if \<not> token_program ins then Inr (transfers, issues)
     else if parsed_type ins \<notin> {''transfer'', ''transferChecked''}
     then Inr (transfers, add_if (map_of accounts (str_or_empty (getd info ''account'')) \<noteq> None \<and>
                 parsed_type ins \<in> {''setAuthority'', ''burn'', ''burnChecked''}) ''unsupported_position_instruction'' issues)
     else (case map_of accounts source of
         None \<Rightarrow> Inr (transfers, issues)
       | Some h \<Rightarrow>
           if \<not> is_dict (parsed_amount info) then Inl AttributeError
           else (case leg_raw mint (common_decimals accounts) h ins of
               Inl e \<Rightarrow> Inr (transfers, insert_new ''unparsed_transfer'' issues)
             | Inr amount \<Rightarrow> bindR (dict_item info ''destination'') (\<lambda>destination.
                 let target = map_of accounts (str_or_empty destination) in
                 Inr (transfers @ [\<lparr>mv_index = Some index, mv_source = source, mv_destination = destination,
                         mv_source_owner = ho_owner h, mv_destination_owner = map_option ho_owner target,
                         mv_amount = amount, mv_kind = []\<rparr>],
                      add_if (target = None) ''unresolved_transfer_destination'' issues)))))"

section \<open>Verified sales\<close>

text \<open>\<open>keys[a]\<close>, where a negative index counts from the end.\<close>

definition py_index :: "pyval list \<Rightarrow> int \<Rightarrow> pyval res" where
  "py_index ks i = (let n = int (length ks); j = (if i < 0 then i + n else i) in
     if 0 \<le> j \<and> j < n then Inr (ks ! nat j) else Inl IndexError)"

definition resolve_address :: "pyval list \<Rightarrow> pyval \<Rightarrow> pyval res" where
  "resolve_address ks a = (case int_like a of Some i \<Rightarrow> py_index ks i | None \<Rightarrow> Inr a)"

definition little_endian :: "nat list \<Rightarrow> int" where
  "little_endian bs = foldr (\<lambda>b n. int b + 256 * n) bs 0"

definition sell_amount :: "nat list \<Rightarrow> int" where
  "sell_amount data = little_endian (take 8 (drop 8 data))"

definition sell_instruction :: "string \<Rightarrow> string \<Rightarrow> nat list \<Rightarrow> pyval list \<Rightarrow> bool" where
  "sell_instruction mint owner data addresses \<longleftrightarrow> length data = 24 \<and> take 8 data = SELL \<and> 17 \<le> length addresses \<and>
     addresses ! 3 = PStr mint \<and> addresses ! 1 = PStr owner"

definition pump_leg :: "string \<Rightarrow> int \<Rightarrow> pyval list \<Rightarrow> nat option list \<Rightarrow> movement \<Rightarrow> bool" where
  "pump_leg owner amount addresses used leg \<longleftrightarrow> PStr (mv_source leg) = addresses ! 5 \<and> mv_destination leg = addresses ! 7 \<and>
     mv_source_owner leg = owner \<and> mv_amount leg = amount \<and> mv_index leg \<notin> set used"

definition mark_sold :: "nat option \<Rightarrow> movement \<Rightarrow> movement" where
  "mark_sold i leg = (if mv_index leg = i then leg\<lparr>mv_kind := ''sold''\<rparr> else leg)"

text \<open>One swap instruction: the legs and the indices used.\<close>

definition settle_swap ::
    "string \<Rightarrow> string \<Rightarrow> (string \<times> holding_row) list \<Rightarrow> nat list \<Rightarrow> pyval list \<Rightarrow> movement list \<times> nat option list
      \<Rightarrow> movement list \<times> nat option list" where
  "settle_swap mint owner accounts data addresses = (\<lambda>(transfers, used).
     if \<not> sell_instruction mint owner data addresses then (transfers, used)
     else (let amount = sell_amount data in
       case filter (pump_leg owner amount addresses used) transfers of
         [leg] \<Rightarrow> if amount > 0 \<and> map_option ho_owner (map_of accounts (str_or_empty (addresses ! 7))) = Some (str_or_empty (addresses ! 0))
             \<and> is_str (addresses ! 0)
           then (map (mark_sold (mv_index leg)) transfers, mv_index leg # used) else (transfers, used)
       | _ \<Rightarrow> (transfers, used)))"

text \<open>\<open>for a in v\<close>: a list, the characters of a text or the keys of a dictionary.\<close>

fun iterated :: "pyval \<Rightarrow> pyval list res" where
  "iterated (PList xs) = Inr xs"
| "iterated (PStr s) = Inr (map (\<lambda>c. PStr [c]) s)"
| "iterated (PDict d) = Inr (map (\<lambda>(k, v). PStr k) d)"
| "iterated v = Inl TypeError"

definition swap_parts :: "(string \<Rightarrow> nat list res) \<Rightarrow> pyval list \<Rightarrow> pyval \<Rightarrow> (nat list \<times> pyval list) res" where
  "swap_parts b58 ks ins = bindR (b58 (str_or_empty (getd ins ''data''))) (\<lambda>data.
     bindR (dict_item ins ''accounts'') (\<lambda>av. bindR (iterated av) (\<lambda>as.
     bindR (mapR (resolve_address ks) as) (\<lambda>addresses. Inr (data, addresses)))))"

definition read_swap ::
    "(string \<Rightarrow> nat list res) \<Rightarrow> string \<Rightarrow> string \<Rightarrow> (string \<times> holding_row) list \<Rightarrow> pyval list
      \<Rightarrow> (movement list \<times> nat option list) \<times> string list \<Rightarrow> pyval \<Rightarrow> (movement list \<times> nat option list) \<times> string list" where
  "read_swap b58 mint owner accounts ks = (\<lambda>(legs, issues) ins.
     if getd ins ''programId'' \<noteq> PStr PUMP_AMM \<or> \<not> is_str (getd ins ''data'') then (legs, issues)
     else (case swap_parts b58 ks ins of
         Inl e \<Rightarrow> (legs, insert_new ''unsupported_swap_instruction'' issues)
       | Inr (data, addresses) \<Rightarrow> (settle_swap mint owner accounts data addresses legs, issues)))"

section \<open>Classification\<close>

definition in_services :: "string list \<Rightarrow> movement \<Rightarrow> bool" where
  "in_services services leg \<longleftrightarrow>
     (case mv_destination_owner leg of None \<Rightarrow> False | Some o' \<Rightarrow> o' \<in> set services) \<or>
     (case mv_destination leg of PStr d \<Rightarrow> d \<in> set services | _ \<Rightarrow> False)"

definition leg_kind :: "string \<Rightarrow> string list \<Rightarrow> movement \<Rightarrow> string" where
  "leg_kind owner services leg =
     (if mv_destination_owner leg = Some owner then ''internal''
      else if mv_kind leg \<noteq> [] then mv_kind leg
      else if mv_destination_owner leg = None then ''unclassified''
      else if in_services services leg then ''service'' else ''transferred'')"

text \<open>A transfer out of an account of the owner, to another account.\<close>

definition own_leg :: "string \<Rightarrow> movement \<Rightarrow> bool" where
  "own_leg owner leg \<longleftrightarrow> mv_source_owner leg = owner \<and> mv_destination leg \<noteq> PStr (mv_source leg)"

definition owner_events :: "string \<Rightarrow> string list \<Rightarrow> movement list \<Rightarrow> movement list" where
  "owner_events owner services transfers =
     map (\<lambda>leg. leg\<lparr>mv_kind := leg_kind owner services leg\<rparr>) (filter (own_leg owner) transfers)"

definition incoming_of :: "string \<Rightarrow> movement list \<Rightarrow> int" where
  "incoming_of owner transfers = (\<Sum>leg\<leftarrow>filter (\<lambda>leg. mv_source_owner leg \<noteq> owner \<and> mv_destination_owner leg = Some owner) transfers. mv_amount leg)"

definition outgoing_of :: "movement list \<Rightarrow> int" where
  "outgoing_of events = (\<Sum>e\<leftarrow>filter (\<lambda>e. mv_kind e \<noteq> ''internal'') events. mv_amount e)"

definition close_events :: "string \<Rightarrow> int \<Rightarrow> int \<Rightarrow> movement list \<Rightarrow> string list \<Rightarrow> movement list \<times> string list" where
  "close_events owner incoming delta events issues =
     (let unmatched = max 0 (incoming - outgoing_of events - delta) in
      if unmatched = 0 then (events, issues)
      else (events @ [\<lparr>mv_index = None, mv_source = [], mv_destination = PNone, mv_source_owner = owner, mv_destination_owner = None,
                       mv_amount = unmatched, mv_kind = ''unclassified''\<rparr>],
            insert_new ''unreconciled_owner_debit'' issues))"

section \<open>The decoder\<close>

definition decode_legs ::
    "(string \<Rightarrow> nat list res) \<Rightarrow> string \<Rightarrow> string \<Rightarrow> string list \<Rightarrow> pyval list \<Rightarrow> pyval list
      \<Rightarrow> (string \<times> holding_row) list \<Rightarrow> string list \<Rightarrow> activity res" where
  "decode_legs b58 mint owner services ks instructions accounts issues =
     (let delta = owner_delta owner accounts in
      bindR (foldR (read_transfer mint accounts) ([], issues) (indexed instructions)) (\<lambda>(transfers, i1).
        let ((legs, used), i2) = foldl (read_swap b58 mint owner accounts ks) ((transfers, []), i1) instructions;
            (events, i3) = close_events owner (incoming_of owner legs) delta (owner_events owner services legs) i2
        in Inr \<lparr>ac_events = events, ac_issues = sorted_set i3, ac_delta = delta, ac_decimals = common_decimals accounts\<rparr>))"

definition decode_accounts :: "string \<Rightarrow> pyval \<Rightarrow> pyval list \<Rightarrow> pyval list \<Rightarrow> (string \<times> holding_row) list \<times> string list" where
  "decode_accounts mint meta ks instructions =
     (let (pre, i1) = read_snapshot mint ks (getd meta ''preTokenBalances'') [];
          (post, i2) = read_snapshot mint ks (getd meta ''postTokenBalances'') i1;
          i3 = add_if (\<not> is_list (getd meta ''innerInstructions'')) ''missing_inner_instructions'' i2;
          (accounts, i4) = join_accounts (lifecycle_of instructions) pre post i3
      in (accounts, add_if (1 < length (remdups (map (\<lambda>(a, h). ho_decimals h) accounts))) ''conflicting_mint_decimals'' i4))"

text \<open>The parts of a transaction the decoder reads.\<close>

definition activity_message :: "pyval \<Rightarrow> pyval" where
  "activity_message tx = py_or (getd (py_or (getd tx ''transaction'') (PDict [])) ''message'') (PDict [])"

definition activity_keys :: "pyval \<Rightarrow> pyval list" where
  "activity_keys tx = map account_key (as_list (getd (activity_message tx) ''accountKeys''))"

definition activity_instructions :: "pyval \<Rightarrow> pyval list" where
  "activity_instructions tx = all_instructions (activity_message tx) (getd tx ''meta'')"

definition decode_wallet_activity ::
    "(string \<Rightarrow> nat list res) \<Rightarrow> pyval \<Rightarrow> string \<Rightarrow> string \<Rightarrow> string list \<Rightarrow> activity res" where
  "decode_wallet_activity b58 tx mint owner services =
     (let meta = getd tx ''meta''; transaction = py_or (getd tx ''transaction'') (PDict []);
          signatures = py_or (getd transaction ''signatures'') (PList [PNone])
      in bindR (guardR (is_dict tx) AttributeError) (\<lambda>_.
         if \<not> is_dict meta \<or> \<not> has_key meta ''err'' then Inr (no_activity [''missing_receipt''])
         else if getd meta ''err'' \<noteq> PNone then Inr (no_activity [])
         else bindR (guardR (is_dict transaction \<and> is_dict (activity_message tx) \<and> is_list signatures) AttributeError) (\<lambda>_.
           if \<not> truthy (as_list signatures ! 0) \<or> \<not> is_list (getd meta ''preTokenBalances'') \<or> \<not> is_list (getd meta ''postTokenBalances'')
           then Inr (no_activity [''missing_token_snapshot''])
           else bindR (guardR (list_all is_dict (as_list (getd meta ''preTokenBalances'')) \<and>
                    list_all is_dict (as_list (getd meta ''postTokenBalances'')) \<and>
                    list_all is_dict (as_list (getd meta ''innerInstructions'')) \<and>
                    list_all shaped_instruction (activity_instructions tx)) AttributeError) (\<lambda>_.
                (let (accounts, issues) = decode_accounts mint meta (activity_keys tx) (activity_instructions tx)
                 in decode_legs b58 mint owner services (activity_keys tx) (activity_instructions tx) accounts issues)))))"

section \<open>Resumable history\<close>

record stored_event =
  se_move :: movement
  se_signature :: string
  se_time :: pyval
  se_slot :: pyval

record wallet_query =
  wq_from :: int
  wq_to :: int
  wq_cursor :: "string option"
  wq_provider :: "string option"
  wq_issues :: "string list"

text \<open>An event is kept under its signature and index, which the program joins into one text.\<close>

record wallet_audit =
  wa_events :: "((string \<times> nat option) \<times> stored_event) list"
  wa_issues :: "string list"
  wa_pages :: nat
  wa_query :: "wallet_query option"
  wa_through :: "int option"        \<comment> \<open>\<open>complete_through\<close>\<close>
  wa_decimals :: "int option"
  wa_status :: string
  wa_checked :: "rat option"
  wa_retry :: "rat option"          \<comment> \<open>\<open>retry_after\<close>\<close>
  wa_error :: "string option"
  wa_errors :: nat                  \<comment> \<open>\<open>consecutive_errors\<close>\<close>

type_synonym 'w history_route = "pyval list \<Rightarrow> string option \<Rightarrow> string list \<Rightarrow> 'w \<Rightarrow> (pyval \<times> string) res \<times> 'w"

definition query_options :: "nat \<Rightarrow> wallet_query \<Rightarrow> (string \<times> pyval) list" where
  "query_options page_size q =
     [(''transactionDetails'', PStr ''full''), (''encoding'', PStr ''jsonParsed''), (''maxSupportedTransactionVersion'', PInt 1),
      (''commitment'', PStr ''finalized''), (''sortOrder'', PStr ''asc''), (''limit'', PInt (int (min 100 (max 1 page_size)))),
      (''filters'', PDict [(''status'', PStr ''any''), (''tokenAccounts'', PStr ''all''),
         (''blockTime'', PDict [(''gte'', PInt (wq_from q)), (''lte'', PInt (wq_to q))])])] @
     (case wq_cursor q of Some c \<Rightarrow> if c \<noteq> [] then [(''paginationToken'', PStr c)] else [] | None \<Rightarrow> [])"

definition in_window :: "wallet_query \<Rightarrow> pyval \<Rightarrow> bool" where
  "in_window q tx \<longleftrightarrow> (case getd tx ''blockTime'' of
      PInt n \<Rightarrow> wq_from q \<le> n \<and> n \<le> wq_to q
    | PFloat (Fin t) \<Rightarrow> of_int (wq_from q) \<le> t \<and> t \<le> of_int (wq_to q)
    | _ \<Rightarrow> False)"

definition tx_sig :: "pyval \<Rightarrow> string" where
  "tx_sig tx = str_or_empty (as_list (getd (getd tx ''transaction'') ''signatures'') ! 0)"

definition note_issues :: "string list \<Rightarrow> wallet_query \<Rightarrow> wallet_query" where
  "note_issues issues q = q\<lparr>wq_issues := sorted_set (wq_issues q @ issues)\<rparr>"

definition store_event ::
    "nat \<Rightarrow> pyval \<Rightarrow> ((string \<times> nat option) \<times> stored_event) list \<Rightarrow> movement \<Rightarrow> ((string \<times> nat option) \<times> stored_event) list res" where
  "store_event max_events tx events e =
     (let key = (tx_sig tx, mv_index e);
          row = \<lparr>se_move = e, se_signature = tx_sig tx, se_time = getd tx ''blockTime'', se_slot = getd tx ''slot''\<rparr> in
      case map_of events key of
        Some previous \<Rightarrow> if previous \<noteq> row then Inl (ValueError ''conflicting movement receipt'') else Inr (AList.update key row events)
      | None \<Rightarrow> if max_events \<le> length events then Inl (ValueError ''wallet movement event limit'') else Inr (AList.update key row events))"

type_synonym decoder = "pyval \<Rightarrow> activity res"

definition audit_tx :: "decoder \<Rightarrow> nat \<Rightarrow> wallet_audit \<times> wallet_query \<Rightarrow> pyval \<Rightarrow> (wallet_audit \<times> wallet_query) res" where
  "audit_tx decode max_events = (\<lambda>(a, q) tx.
     if \<not> (is_dict tx \<and> in_window q tx) then Inr (a, note_issues [''transaction_outside_wallet_window''] q)
     else bindR (decode tx) (\<lambda>facts.
       let clash = (ac_decimals facts \<noteq> None \<and> wa_decimals a \<noteq> None \<and> wa_decimals a \<noteq> ac_decimals facts);
           a1 = (if ac_decimals facts = None then a else a\<lparr>wa_decimals := ac_decimals facts\<rparr>)
       in bindR (foldR (store_event max_events tx) (wa_events a1) (ac_events facts)) (\<lambda>events.
            Inr (a1\<lparr>wa_events := events\<rparr>,
                 note_issues (ac_issues facts @ (if clash then [''conflicting_mint_decimals''] else [])) q))))"

definition audit_cursor_ok :: "wallet_query \<Rightarrow> pyval \<Rightarrow> bool" where
  "audit_cursor_ok q next_cursor \<longleftrightarrow> (case next_cursor of PNone \<Rightarrow> True | PStr c \<Rightarrow> c \<noteq> [] \<and> wq_cursor q \<noteq> Some c | _ \<Rightarrow> False)"

fun cursor_text :: "pyval \<Rightarrow> string option" where
  "cursor_text (PStr c) = Some c"
| "cursor_text _ = None"

text \<open>The bookkeeping of a page that was read to its end.\<close>

definition settle_page :: "rat \<Rightarrow> string \<Rightarrow> string option \<Rightarrow> wallet_audit \<times> wallet_query \<Rightarrow> wallet_audit" where
  "settle_page now used next_cursor = (\<lambda>(a, q).
     let a1 = a\<lparr>wa_pages := wa_pages a + 1, wa_error := None, wa_errors := 0\<rparr>;
         q1 = q\<lparr>wq_cursor := next_cursor, wq_provider := Some used\<rparr> in
     if next_cursor \<noteq> None then a1\<lparr>wa_query := Some q1, wa_status := ''backfilling'', wa_retry := None\<rparr>
     else if wq_issues q1 \<noteq> []
     then a1\<lparr>wa_issues := wq_issues q1, wa_query := Some (q1\<lparr>wq_cursor := None, wq_issues := []\<rparr>), wa_status := ''partial'',
             wa_retry := Some (now + 3600)\<rparr>
     else a1\<lparr>wa_issues := [], wa_through := Some (wq_to q1), wa_query := None, wa_checked := Some now, wa_status := ''checked'',
             wa_retry := None\<rparr>)"

definition read_answer ::
    "decoder \<Rightarrow> nat \<Rightarrow> nat \<Rightarrow> rat \<Rightarrow> wallet_audit \<Rightarrow> wallet_query \<Rightarrow> pyval \<times> string \<Rightarrow> wallet_audit res" where
  "read_answer decode page_size max_events now a q = (\<lambda>(response, used).
     bindR (guardR (wq_provider q = None \<or> wq_provider q = Some [] \<or> wq_provider q = Some used) (ValueError ''cursor provider changed'')) (\<lambda>_.
     bindR (guardR (is_dict response \<and> is_list (getd response ''data'') \<and>
              length (as_list (getd response ''data'')) \<le> min 100 (max 1 page_size)) (ValueError ''invalid wallet history page'')) (\<lambda>_.
     bindR (guardR (audit_cursor_ok q (getd response ''paginationToken'')) (ValueError ''nonadvancing history cursor'')) (\<lambda>_.
     bindR (foldR (audit_tx decode max_events) (a, q) (as_list (getd response ''data''))) (\<lambda>st.
       Inr (settle_page now used (cursor_text (getd response ''paginationToken'')) st))))))"

text \<open>A failed page keeps the evidence and the checkpoint; the third failure in a row drops the cursor.\<close>

definition fail_page :: "rat \<Rightarrow> pyexc \<Rightarrow> wallet_query \<Rightarrow> wallet_audit \<Rightarrow> wallet_audit" where
  "fail_page now e q a = a\<lparr>wa_status := ''retry'', wa_retry := Some (now + 900),
     wa_error := Some (case e of RpcError category text \<Rightarrow> category | _ \<Rightarrow> ''history_unavailable''), wa_errors := wa_errors a + 1,
     wa_query := Some (if 3 \<le> wa_errors a + 1 then q\<lparr>wq_cursor := None, wq_provider := None\<rparr> else q)\<rparr>"

definition open_query :: "int \<Rightarrow> int \<Rightarrow> wallet_audit \<Rightarrow> wallet_query option" where
  "open_query first upto_t a = (case wa_query a of
      Some q \<Rightarrow> Some q
    | None \<Rightarrow> (let start = max first ((case wa_through a of None \<Rightarrow> first - 1 | Some t \<Rightarrow> t) + 1) in
        if start > upto_t then None
        else Some \<lparr>wq_from = start, wq_to = upto_t, wq_cursor = None, wq_provider = None, wq_issues = []\<rparr>))"

text \<open>\<open>int(stamp(checked_at)) - 120\<close>\<close>

definition audit_end :: "rat \<Rightarrow> int" where
  "audit_end now = (if now \<ge> 0 then \<lfloor>now\<rfloor> else \<lceil>now\<rceil>) - 120"

text \<open>
  One page for one owner.  The budget is its remaining pages and whether its deadline is ahead at the two
  readings of the clock; the first component says whether the page was booked.
\<close>

definition advance_wallet_history ::
    "'w history_route \<Rightarrow> string list \<Rightarrow> decoder \<Rightarrow> string \<Rightarrow> nat \<Rightarrow> nat \<Rightarrow> int \<Rightarrow> rat \<Rightarrow> bool \<times> bool \<Rightarrow> nat \<Rightarrow> wallet_audit \<Rightarrow> 'w
      \<Rightarrow> bool res \<times> wallet_audit \<times> nat \<times> 'w" where
  "advance_wallet_history route archive decode owner page_size max_events first now ahead pages a w =
     (let upto_t = audit_end now in
      if upto_t < first \<or> \<not> (0 < pages \<and> fst ahead) then (Inr False, a, pages, w)
      else (case open_query first upto_t a of
          None \<Rightarrow> (Inr False, a, pages, w)
        | Some q \<Rightarrow>
            if \<not> snd ahead then (Inl (RuntimeError ''wallet_history_budget_deferred''), a\<lparr>wa_query := Some q\<rparr>, pages, w)
            else (case route [PStr owner, PDict (query_options page_size q)] (wq_provider q)
                         (case wq_provider q of Some p \<Rightarrow> if p \<noteq> [] then [p] else archive | None \<Rightarrow> archive) w of
                (answer, w') \<Rightarrow>
                  (case bindR answer (read_answer decode page_size max_events now a q) of
                     Inl e \<Rightarrow> (Inr False, fail_page now e q a, pages - 1, w')
                   | Inr a' \<Rightarrow> (Inr True, a', pages - 1, w')))))"

section \<open>What a decoded sale rests on\<close>

definition sale_witness :: "(string \<Rightarrow> nat list res) \<Rightarrow> string \<Rightarrow> string \<Rightarrow> pyval list \<Rightarrow> pyval list \<Rightarrow> movement \<Rightarrow> bool" where
  "sale_witness b58 mint owner ks instructions e \<longleftrightarrow>
     (\<exists>ins \<in> set instructions. \<exists>data addresses. getd ins ''programId'' = PStr PUMP_AMM \<and> swap_parts b58 ks ins = Inr (data, addresses) \<and>
        sell_instruction mint owner data addresses \<and> mv_amount e = sell_amount data \<and> 0 < mv_amount e \<and>
        PStr (mv_source e) = addresses ! 5 \<and> mv_destination e = addresses ! 7 \<and> mv_source_owner e = owner)"

definition sales_ok :: "(movement \<Rightarrow> bool) \<Rightarrow> movement list \<Rightarrow> bool" where
  "sales_ok P legs \<longleftrightarrow> (\<forall>e \<in> set legs. mv_kind e = ''sold'' \<longrightarrow> P e)"

lemma settle_swap_cases:
  obtains (same) "settle_swap mint owner accounts data addresses (legs, used) = (legs, used)"
  | (sold) leg where "settle_swap mint owner accounts data addresses (legs, used) = (map (mark_sold (mv_index leg)) legs, mv_index leg # used)"
      "sell_instruction mint owner data addresses" "sell_amount data > 0"
      "filter (pump_leg owner (sell_amount data) addresses used) legs = [leg]"
proof -
  have "settle_swap mint owner accounts data addresses (legs, used) = (legs, used) \<or>
    (\<exists>leg. settle_swap mint owner accounts data addresses (legs, used) = (map (mark_sold (mv_index leg)) legs, mv_index leg # used) \<and>
      sell_instruction mint owner data addresses \<and> sell_amount data > 0 \<and>
      filter (pump_leg owner (sell_amount data) addresses used) legs = [leg])"
  proof (cases "filter (pump_leg owner (sell_amount data) addresses used) legs")
    case Nil
    then show ?thesis by (simp add: settle_swap_def Let_def)
  next
    case (Cons leg rest)
    then show ?thesis by (cases rest) (auto simp: settle_swap_def Let_def)
  qed
  then show thesis using same sold by blast
qed

lemma mark_sold_fields [simp]:
  "mv_index (mark_sold i leg) = mv_index leg" "mv_source (mark_sold i leg) = mv_source leg"
  "mv_destination (mark_sold i leg) = mv_destination leg" "mv_source_owner (mark_sold i leg) = mv_source_owner leg"
  "mv_destination_owner (mark_sold i leg) = mv_destination_owner leg" "mv_amount (mark_sold i leg) = mv_amount leg"
  by (simp_all add: mark_sold_def)

lemma distinct_index_unique:
  assumes "distinct (map mv_index legs)" "leg \<in> set legs" "e \<in> set legs" "mv_index e = mv_index leg"
  shows "e = leg"
  using assms by (auto simp: distinct_map dest: inj_onD)

lemma read_swap_ok:
  assumes "read_swap b58 mint owner accounts ks ((legs, used), issues) ins = ((legs', used'), issues')"
    and "ins \<in> set instructions" and "distinct (map mv_index legs)"
    and "sales_ok (sale_witness b58 mint owner ks instructions) legs"
  shows "sales_ok (sale_witness b58 mint owner ks instructions) legs' \<and> map mv_index legs' = map mv_index legs \<and>
    (\<exists>f. legs' = map f legs \<and> (\<forall>e. mv_source (f e) = mv_source e \<and> mv_destination (f e) = mv_destination e \<and>
        mv_source_owner (f e) = mv_source_owner e \<and> mv_destination_owner (f e) = mv_destination_owner e \<and> mv_amount (f e) = mv_amount e))"
proof (cases "getd ins ''programId'' \<noteq> PStr PUMP_AMM \<or> \<not> is_str (getd ins ''data'')")
  case True
  with assms show ?thesis by (auto simp: read_swap_def intro: exI [of _ id])
next
  case pump: False
  show ?thesis
  proof (cases "swap_parts b58 ks ins")
    case (Inl e)
    with assms pump show ?thesis by (auto simp: read_swap_def intro: exI [of _ id])
  next
    case (Inr parts)
    obtain data addresses where parts: "parts = (data, addresses)" by (cases parts)
    from assms(1) pump Inr parts have settle: "settle_swap mint owner accounts data addresses (legs, used) = (legs', used')"
      by (auto simp: read_swap_def)
    show ?thesis
    proof (cases rule: settle_swap_cases [of mint owner accounts data addresses legs used])
      case same
      with settle assms(4) show ?thesis by (auto intro: exI [of _ id])
    next
      case (sold leg)
      have leg: "leg \<in> set legs" "pump_leg owner (sell_amount data) addresses used leg"
        using arg_cong [OF sold(4), of set] by auto
      have wit: "sale_witness b58 mint owner ks instructions (mark_sold (mv_index leg) leg)"
        unfolding sale_witness_def using assms(2) pump Inr parts sold(2,3) leg(2)
        by (intro bexI [of _ ins] exI [of _ data] exI [of _ addresses]) (auto simp: pump_leg_def)
      have "sale_witness b58 mint owner ks instructions (mark_sold (mv_index leg) e)"
        if e: "e \<in> set legs" "mv_kind (mark_sold (mv_index leg) e) = ''sold''" for e
      proof (cases "mv_index e = mv_index leg")
        case True
        then show ?thesis using distinct_index_unique [OF assms(3) leg(1) e(1)] wit by simp
      next
        case False
        then show ?thesis using e assms(4) by (auto simp: mark_sold_def sales_ok_def)
      qed
      then have "sales_ok (sale_witness b58 mint owner ks instructions) legs'"
        using settle sold(1) by (auto simp: sales_ok_def)
      moreover have "legs' = map (mark_sold (mv_index leg)) legs" using settle sold(1) by simp
      ultimately show ?thesis by (auto simp: comp_def)
    qed
  qed
qed

section \<open>The legs of a transaction\<close>

text \<open>Legs read from the instructions before the \<open>k\<close>-th: one per instruction, unclassified, of no negative amount.\<close>

definition fresh_legs :: "nat \<Rightarrow> movement list \<Rightarrow> bool" where
  "fresh_legs k legs \<longleftrightarrow> distinct (map mv_index legs) \<and>
     (\<forall>m \<in> set legs. (\<exists>i<k. mv_index m = Some i) \<and> mv_kind m = [] \<and> 0 \<le> mv_amount m)"

lemma leg_raw_nonneg: "leg_raw mint decimals h ins = Inr n \<Longrightarrow> 0 \<le> n"
  by (auto simp: leg_raw_def Let_def bindR_eq_Inr dest!: raw_of_nonneg split: if_splits)

lemma read_transfer_cases:
  assumes "read_transfer mint accounts (legs, issues) (k, ins) = Inr (legs', issues')"
  obtains (same) "legs' = legs"
  | (leg) m where "legs' = legs @ [m]" "mv_index m = Some k" "mv_kind m = []" "0 \<le> mv_amount m"
proof -
  have "legs' = legs \<or> (\<exists>m. legs' = legs @ [m] \<and> mv_index m = Some k \<and> mv_kind m = [] \<and> 0 \<le> mv_amount m)"
    using assms
    by (auto simp: read_transfer_def Let_def bindR_eq_Inr dest!: leg_raw_nonneg split: if_splits option.splits sum.splits)
  then show thesis using same leg by blast
qed

lemma read_transfer_fresh:
  assumes "read_transfer mint accounts (legs, issues) (k, ins) = Inr (legs', issues')" and "fresh_legs k legs"
  shows "fresh_legs (Suc k) legs'"
  using assms(1)
proof (cases rule: read_transfer_cases)
  case same
  with assms(2) show ?thesis unfolding fresh_legs_def using less_SucI by blast
next
  case (leg m)
  with assms(2) show ?thesis by (force simp: fresh_legs_def intro: less_SucI)
qed

lemma foldR_transfers_fresh:
  assumes "foldR (read_transfer mint accounts) (legs, issues) (zip [k..<k + length xs] xs) = Inr (legs', issues')"
    and "fresh_legs k legs"
  shows "fresh_legs (k + length xs) legs'"
  using assms
proof (induction xs arbitrary: k legs issues)
  case Nil
  then show ?case by simp
next
  case (Cons x xs)
  have "[k..<k + length (x # xs)] = k # [Suc k..<Suc k + length xs]" by (simp add: upt_conv_Cons del: upt_Suc)
  with Cons.prems(1) obtain l i where first: "read_transfer mint accounts (legs, issues) (k, x) = Inr (l, i)"
    and rest: "foldR (read_transfer mint accounts) (l, i) (zip [Suc k..<Suc k + length xs] xs) = Inr (legs', issues')"
    by (auto simp: bindR_eq_Inr simp del: upt_Suc)
  show ?case using Cons.IH [OF rest read_transfer_fresh [OF first Cons.prems(2)]] by simp
qed

lemma transfers_fresh:
  assumes "foldR (read_transfer mint accounts) ([], issues) (indexed instructions) = Inr (legs, issues')"
  shows "fresh_legs (length instructions) legs"
  using foldR_transfers_fresh [of mint accounts "[]" issues 0 instructions legs issues'] assms
  by (simp add: indexed_def fresh_legs_def)

text \<open>What the swaps do to the legs: kinds only, and only witnessed ones.\<close>

definition legs_from :: "(movement \<Rightarrow> bool) \<Rightarrow> movement list \<Rightarrow> movement list \<Rightarrow> bool" where
  "legs_from P legs legs' \<longleftrightarrow> sales_ok P legs' \<and> map mv_index legs' = map mv_index legs \<and>
     map mv_amount legs' = map mv_amount legs"

lemma foldl_swaps_ok:
  assumes "foldl (read_swap b58 mint owner accounts ks) ((legs, used), issues) xs = ((legs', used'), issues')"
    and "set xs \<subseteq> set instructions" and "distinct (map mv_index legs)"
    and "sales_ok (sale_witness b58 mint owner ks instructions) legs"
  shows "legs_from (sale_witness b58 mint owner ks instructions) legs legs'"
  using assms
proof (induction xs arbitrary: legs used issues)
  case Nil
  then show ?case by (simp add: legs_from_def)
next
  case (Cons x xs)
  obtain l u i where first: "read_swap b58 mint owner accounts ks ((legs, used), issues) x = ((l, u), i)"
    by (metis surj_pair)
  have "x \<in> set instructions" using Cons.prems(2) by simp
  from read_swap_ok [OF first this Cons.prems(3,4)]
  have l: "sales_ok (sale_witness b58 mint owner ks instructions) l" "map mv_index l = map mv_index legs"
    "map mv_amount l = map mv_amount legs" by auto
  have "legs_from (sale_witness b58 mint owner ks instructions) l legs'"
    by (rule Cons.IH [of l u i]) (use Cons.prems first l in auto)
  with l show ?case by (simp add: legs_from_def)
qed

lemma decode_legs_cases:
  assumes "decode_legs b58 mint owner services ks instructions accounts issues = Inr act"
  obtains legs where "sales_ok (sale_witness b58 mint owner ks instructions) legs" "\<And>m. m \<in> set legs \<Longrightarrow> 0 \<le> mv_amount m"
    "ac_events act = fst (close_events owner (incoming_of owner legs) (ac_delta act) (owner_events owner services legs) [])"
    "ac_delta act = owner_delta owner accounts"
proof -
  obtain legs0 i1 where read: "foldR (read_transfer mint accounts) ([], issues) (indexed instructions) = Inr (legs0, i1)"
    using assms unfolding decode_legs_def Let_def by (auto simp: bindR_eq_Inr)
  obtain legs used i2 where swaps: "foldl (read_swap b58 mint owner accounts ks) ((legs0, []), i1) instructions = ((legs, used), i2)"
    by (metis surj_pair)
  have fresh: "fresh_legs (length instructions) legs0" by (rule transfers_fresh [OF read])
  then have "sales_ok (sale_witness b58 mint owner ks instructions) legs0" by (auto simp: fresh_legs_def sales_ok_def)
  then have from_: "legs_from (sale_witness b58 mint owner ks instructions) legs0 legs"
    using foldl_swaps_ok [OF swaps] fresh by (simp add: fresh_legs_def)
  have "map mv_amount legs = map mv_amount legs0" using from_ by (simp add: legs_from_def)
  then have "set (map mv_amount legs) = set (map mv_amount legs0)" by (rule arg_cong)
  then have amounts: "mv_amount ` set legs = mv_amount ` set legs0" by simp
  have pos: "0 \<le> mv_amount m" if "m \<in> set legs" for m
    using that amounts fresh by (force simp: fresh_legs_def)
  have fst_close: "fst (close_events owner inc d events i) = fst (close_events owner inc d events [])" for inc d events i
    by (simp add: close_events_def Let_def)
  obtain events i3 where close: "close_events owner (incoming_of owner legs) (owner_delta owner accounts)
      (owner_events owner services legs) i2 = (events, i3)" by (cases "close_events owner (incoming_of owner legs)
        (owner_delta owner accounts) (owner_events owner services legs) i2")
  have act: "act = \<lparr>ac_events = events, ac_issues = sorted_set i3, ac_delta = owner_delta owner accounts,
      ac_decimals = common_decimals accounts\<rparr>"
    using assms read swaps close by (simp add: decode_legs_def Let_def)
  show thesis
  proof (rule that [OF _ pos])
    show "sales_ok (sale_witness b58 mint owner ks instructions) legs" using from_ by (simp add: legs_from_def)
    show "ac_events act = fst (close_events owner (incoming_of owner legs) (ac_delta act) (owner_events owner services legs) [])"
      using act close fst_close by (metis activity.select_convs(1,3) fst_conv)
  qed (simp_all add: act)
qed

section \<open>Properties of the decoder\<close>

lemma decode_cases:
  assumes "decode_wallet_activity b58 tx mint owner services = Inr act"
  obtains (none) issues where "act = no_activity issues"
  | (legs) accounts issues where "getd (getd tx ''meta'') ''err'' = PNone"
      "decode_legs b58 mint owner services (activity_keys tx) (activity_instructions tx) accounts issues = Inr act"
proof -
  have "(\<exists>issues. act = no_activity issues) \<or> (\<exists>accounts issues. getd (getd tx ''meta'') ''err'' = PNone \<and>
      decode_legs b58 mint owner services (activity_keys tx) (activity_instructions tx) accounts issues = Inr act)"
    using assms unfolding decode_wallet_activity_def Let_def
    by (fastforce simp: bindR_guard split: if_splits prod.splits)
  then show thesis using none legs by blast
qed

lemma close_events_sold:
  assumes "e \<in> set (fst (close_events owner inc delta events issues))" "mv_kind e = ''sold''"
  shows "e \<in> set events"
  using assms by (auto simp: close_events_def Let_def split: if_splits)

lemma owner_events_sold:
  assumes "e \<in> set (owner_events owner services legs)" "mv_kind e = ''sold''"
  obtains leg where "leg \<in> set legs" "mv_kind leg = ''sold''" "e = leg\<lparr>mv_kind := ''sold''\<rparr>"
proof -
  from assms(1) obtain leg where leg: "leg \<in> set legs" "e = leg\<lparr>mv_kind := leg_kind owner services leg\<rparr>"
    by (auto simp: owner_events_def)
  with assms(2) have "leg_kind owner services leg = ''sold''" by simp
  then have "mv_kind leg = ''sold''" by (simp add: leg_kind_def split: if_splits)
  with leg \<open>leg_kind owner services leg = ''sold''\<close> show thesis using that by simp
qed

lemma close_events_covers:
  assumes "0 \<le> inc"
  shows "- delta \<le> outgoing_of (fst (close_events owner inc delta events issues))"
proof (cases "max 0 (inc - outgoing_of events - delta) = 0")
  case True
  with assms show ?thesis unfolding close_events_def Let_def by simp
next
  case False
  then have pos: "0 < inc - outgoing_of events - delta" by linarith
  then have "outgoing_of (fst (close_events owner inc delta events issues)) = outgoing_of events + (inc - outgoing_of events - delta)"
    unfolding close_events_def Let_def by (simp add: max_def outgoing_of_def [of "_ @ _"]) (simp add: outgoing_of_def)
  with assms show ?thesis by simp
qed

text \<open>
  C11: a movement is reported as sold only on a successful transaction, with a swap of the pool program decoded
  from its own bytes that names the mint, the wallet, the two accounts of the transfer and its exact amount.
\<close>

theorem sale_needs_swap:
  assumes "decode_wallet_activity b58 tx mint owner services = Inr act"
    and "e \<in> set (ac_events act)" and "mv_kind e = ''sold''"
  shows "getd (getd tx ''meta'') ''err'' = PNone \<and>
    sale_witness b58 mint owner (activity_keys tx) (activity_instructions tx) e"
  using assms(1)
proof (cases rule: decode_cases)
  case (none issues)
  with assms(2) show ?thesis by (simp add: no_activity_def)
next
  case (legs accounts issues)
  from legs(2) obtain ls where ls:
    "sales_ok (sale_witness b58 mint owner (activity_keys tx) (activity_instructions tx)) ls"
    "ac_events act = fst (close_events owner (incoming_of owner ls) (ac_delta act) (owner_events owner services ls) [])"
    by (rule decode_legs_cases)
  have "e \<in> set (owner_events owner services ls)"
    by (rule close_events_sold) (use assms(2,3) ls(2) in auto)
  then obtain leg where leg: "leg \<in> set ls" "mv_kind leg = ''sold''" "e = leg\<lparr>mv_kind := ''sold''\<rparr>"
    using assms(3) by (rule owner_events_sold)
  with ls(1) have "sale_witness b58 mint owner (activity_keys tx) (activity_instructions tx) leg"
    by (simp add: sales_ok_def)
  with leg(3) legs(1) show ?thesis by (simp add: sale_witness_def)
qed

text \<open>
  whatever a wallet lost in a transaction is explained: the movements reported for it, internal ones left
  out, come to at least the fall of its balance.
\<close>

theorem owner_debit_explained:
  assumes "decode_wallet_activity b58 tx mint owner services = Inr act"
  shows "- ac_delta act \<le> outgoing_of (ac_events act)"
  using assms
proof (cases rule: decode_cases)
  case (none issues)
  then show ?thesis by (simp add: no_activity_def outgoing_of_def)
next
  case (legs accounts issues)
  from legs(2) obtain ls where ls: "\<And>m. m \<in> set ls \<Longrightarrow> 0 \<le> mv_amount m"
    "ac_events act = fst (close_events owner (incoming_of owner ls) (ac_delta act) (owner_events owner services ls) [])"
    using decode_legs_cases by metis
  have "0 \<le> incoming_of owner ls" unfolding incoming_of_def by (rule sum_list_nonneg) (auto simp: ls(1))
  then show ?thesis unfolding ls(2) by (rule close_events_covers)
qed

text \<open>A sale of 5 tokens out of 10, and a further loss of 2 that no instruction explains.\<close>

definition pump_bytes :: "string \<Rightarrow> nat list res" where
  "pump_bytes s = (if s = ''sell'' then Inr (SELL @ [5, 0, 0, 0, 0, 0, 0, 0] @ replicate 8 0) else Inl (ValueError ''base58''))"

definition balance_row :: "nat \<Rightarrow> string \<Rightarrow> string \<Rightarrow> pyval" where
  "balance_row i owner amount = PDict [(''mint'', PStr ''mint''), (''accountIndex'', PInt (int i)), (''owner'', PStr owner),
     (''uiTokenAmount'', PDict [(''amount'', PStr amount), (''decimals'', PInt 6)])]"

definition pump_sale :: pyval where
  "pump_sale = PDict [(''blockTime'', PInt 100), (''slot'', PInt 7),
     (''transaction'', PDict [(''signatures'', PList [PStr ''sig'']),
        (''message'', PDict [(''accountKeys'', PList [PStr ''vault'', PDict [(''pubkey'', PStr ''pump'')], PStr ''pool'', PStr ''ann'']),
           (''instructions'', PList
             [PDict [(''programId'', PStr (TOKEN_PROGRAMS ! 0)), (''parsed'', PDict [(''type'', PStr ''transfer''),
                (''info'', PDict [(''source'', PStr ''vault''), (''destination'', PStr ''pump''), (''amount'', PStr ''5'')])])],
              PDict [(''programId'', PStr PUMP_AMM), (''data'', PStr ''sell''),
                (''accounts'', PList ([PInt 2, PInt 3, PNone, PStr ''mint'', PNone, PInt 0, PNone, PInt 1] @ replicate 9 PNone))]])])]),
     (''meta'', PDict [(''err'', PNone), (''innerInstructions'', PList []),
        (''preTokenBalances'', PList [balance_row 0 ''ann'' ''10'', balance_row 1 ''pool'' ''0'']),
        (''postTokenBalances'', PList [balance_row 0 ''ann'' ''3'', balance_row 1 ''pool'' ''5''])])]"

definition pump_leg_sold :: movement where
  "pump_leg_sold = \<lparr>mv_index = Some 0, mv_source = ''vault'', mv_destination = PStr ''pump'', mv_source_owner = ''ann'',
     mv_destination_owner = Some ''pool'', mv_amount = 5, mv_kind = ''sold''\<rparr>"

definition pump_activity :: activity where
  "pump_activity = \<lparr>ac_events = [pump_leg_sold, \<lparr>mv_index = None, mv_source = [], mv_destination = PNone, mv_source_owner = ''ann'',
       mv_destination_owner = None, mv_amount = 2, mv_kind = ''unclassified''\<rparr>],
     ac_issues = [''unreconciled_owner_debit''], ac_delta = -7, ac_decimals = Some 6\<rparr>"

lemma pump_sale_decoded: "decode_wallet_activity pump_bytes pump_sale ''mint'' ''ann'' [] = Inr pump_activity"
  by code_simp

lemma sale_needs_swap_witness:
  "sale_witness pump_bytes ''mint'' ''ann'' (activity_keys pump_sale) (activity_instructions pump_sale) pump_leg_sold"
  using sale_needs_swap [OF pump_sale_decoded, of pump_leg_sold] by (simp add: pump_activity_def pump_leg_sold_def)

lemma owner_debit_explained_witness: "7 \<le> outgoing_of (ac_events pump_activity)"
  using owner_debit_explained [OF pump_sale_decoded] by (simp add: pump_activity_def)

section \<open>Properties of the audit\<close>

lemma store_event_keeps:
  assumes "store_event max_events tx events e = Inr events'"
  shows "map_of events \<subseteq>\<^sub>m map_of events'" and "map_of events' (tx_sig tx, mv_index e) =
    Some \<lparr>se_move = e, se_signature = tx_sig tx, se_time = getd tx ''blockTime'', se_slot = getd tx ''slot''\<rparr>"
  using assms by (auto simp: store_event_def Let_def map_le_def update_conv' split: option.splits if_splits)

text \<open>The receipt of an event is among those kept.\<close>

definition kept_event :: "pyval \<Rightarrow> ((string \<times> nat option) \<times> stored_event) list \<Rightarrow> movement \<Rightarrow> bool" where
  "kept_event tx events e \<longleftrightarrow> (case map_of events (tx_sig tx, mv_index e) of None \<Rightarrow> False | Some row \<Rightarrow>
     se_move row = e \<and> se_time row = getd tx ''blockTime'' \<and> se_slot row = getd tx ''slot'')"

lemma kept_event_mono: "kept_event tx events e \<Longrightarrow> map_of events \<subseteq>\<^sub>m map_of events' \<Longrightarrow> kept_event tx events' e"
  unfolding kept_event_def map_le_def by (auto split: option.splits dest: domI bspec)

lemma store_events_keep:
  assumes "foldR (store_event max_events tx) events es = Inr events'"
  shows "map_of events \<subseteq>\<^sub>m map_of events' \<and> list_all (kept_event tx events') es"
  using assms
proof (induction es arbitrary: events)
  case Nil
  then show ?case by simp
next
  case (Cons e es)
  then obtain mid where mid: "store_event max_events tx events e = Inr mid" "foldR (store_event max_events tx) mid es = Inr events'"
    by (auto simp: bindR_eq_Inr)
  have rest: "map_of mid \<subseteq>\<^sub>m map_of events' \<and> list_all (kept_event tx events') es" by (rule Cons.IH [OF mid(2)])
  have "kept_event tx mid e" using store_event_keeps(2) [OF mid(1)] by (simp add: kept_event_def)
  with rest have "kept_event tx events' e" by (blast intro: kept_event_mono)
  with rest store_event_keeps(1) [OF mid(1)] show ?case by (auto intro: map_le_trans)
qed

text \<open>A transaction read without a doubt: in the window, decoded without issues, its movements kept.\<close>

definition settled_tx :: "decoder \<Rightarrow> wallet_query \<Rightarrow> ((string \<times> nat option) \<times> stored_event) list \<Rightarrow> pyval \<Rightarrow> bool" where
  "settled_tx decode q events tx \<longleftrightarrow> is_dict tx \<and> in_window q tx \<and>
     (case decode tx of Inl _ \<Rightarrow> False | Inr facts \<Rightarrow> ac_issues facts = [] \<and> list_all (kept_event tx events) (ac_events facts))"

lemma settled_tx_mono:
  "settled_tx decode q events tx \<Longrightarrow> map_of events \<subseteq>\<^sub>m map_of events' \<Longrightarrow> settled_tx decode q events' tx"
  unfolding settled_tx_def by (auto split: sum.splits intro: kept_event_mono list.pred_mono_strong)

lemma in_window_cong:
  assumes "wq_from q = wq_from q'" "wq_to q = wq_to q'"
  shows "in_window q = in_window q'"
  unfolding in_window_def assms ..

lemma note_issues_empty: "wq_issues (note_issues issues q) = [] \<longleftrightarrow> wq_issues q = [] \<and> issues = []"
proof -
  have "sorted_set xs = [] \<longleftrightarrow> xs = []" for xs :: "string list"
    by (metis set_empty set_sorted_set)
  then show ?thesis by (simp add: note_issues_def)
qed

lemma note_issues_window [simp]: "wq_from (note_issues i q) = wq_from q" "wq_to (note_issues i q) = wq_to q"
  by (simp_all add: note_issues_def)

text \<open>What reading transactions leaves alone.\<close>

definition same_checkpoint :: "wallet_audit \<Rightarrow> wallet_audit \<Rightarrow> bool" where
  "same_checkpoint a b \<longleftrightarrow> wa_through b = wa_through a \<and> map_of (wa_events a) \<subseteq>\<^sub>m map_of (wa_events b)"

lemma audit_tx_cases:
  assumes "audit_tx decode max_events (a, q) tx = Inr (a', q')"
  shows "same_checkpoint a a'" and "wq_from q' = wq_from q" and "wq_to q' = wq_to q"
    and "wq_issues q' = [] \<Longrightarrow> wq_issues q = [] \<and> settled_tx decode q (wa_events a') tx"
proof -
  show "same_checkpoint a a'"
    using assms by (auto simp: audit_tx_def Let_def same_checkpoint_def bindR_eq_Inr dest: store_events_keep split: if_splits)
  show "wq_from q' = wq_from q" "wq_to q' = wq_to q"
    using assms by (auto simp: audit_tx_def Let_def bindR_eq_Inr split: if_splits)
  assume empty: "wq_issues q' = []"
  then have inside: "is_dict tx \<and> in_window q tx" using assms
    by (auto simp: audit_tx_def note_issues_empty split: if_splits)
  with assms obtain facts where decoded: "decode tx = Inr facts"
    by (auto simp: audit_tx_def bindR_eq_Inr)
  define clash where "clash \<longleftrightarrow> ac_decimals facts \<noteq> None \<and> wa_decimals a \<noteq> None \<and> wa_decimals a \<noteq> ac_decimals facts"
  define a1 where "a1 = (if ac_decimals facts = None then a else a\<lparr>wa_decimals := ac_decimals facts\<rparr>)"
  have "bindR (foldR (store_event max_events tx) (wa_events a1) (ac_events facts)) (\<lambda>events.
      Inr (a1\<lparr>wa_events := events\<rparr>, note_issues (ac_issues facts @ (if clash then [''conflicting_mint_decimals''] else [])) q)) = Inr (a', q')"
    using assms inside decoded unfolding audit_tx_def Let_def clash_def a1_def by simp
  then obtain events where "foldR (store_event max_events tx) (wa_events a1) (ac_events facts) = Inr events"
    and a': "a' = a1\<lparr>wa_events := events\<rparr>" and q': "q' = note_issues (ac_issues facts @ (if clash then [''conflicting_mint_decimals''] else [])) q"
    unfolding bindR_eq_Inr by blast
  then have stored: "foldR (store_event max_events tx) (wa_events a) (ac_events facts) = Inr (wa_events a')"
    by (simp add: a1_def split: if_splits)
  have "wq_issues q = [] \<and> ac_issues facts = []" using empty unfolding q' note_issues_empty by simp
  moreover have "list_all (kept_event tx (wa_events a')) (ac_events facts)"
    using store_events_keep [OF stored] by simp
  ultimately show "wq_issues q = [] \<and> settled_tx decode q (wa_events a') tx"
    using inside decoded by (simp add: settled_tx_def)
qed

lemma same_checkpoint_trans: "same_checkpoint a b \<Longrightarrow> same_checkpoint b c \<Longrightarrow> same_checkpoint a c"
  unfolding same_checkpoint_def by (auto intro: map_le_trans)

lemma audit_txs:
  assumes "foldR (audit_tx decode max_events) (a, q) txs = Inr (a', q')"
  shows "same_checkpoint a a' \<and> wq_from q' = wq_from q \<and> wq_to q' = wq_to q \<and>
    (wq_issues q' = [] \<longrightarrow> wq_issues q = [] \<and> list_all (settled_tx decode q (wa_events a')) txs)"
  using assms
proof (induction txs arbitrary: a q)
  case Nil
  then show ?case by (simp add: same_checkpoint_def)
next
  case (Cons tx txs)
  then obtain b p where step: "audit_tx decode max_events (a, q) tx = Inr (b, p)"
    and rest: "foldR (audit_tx decode max_events) (b, p) txs = Inr (a', q')"
    by (auto simp: bindR_eq_Inr)
  note s = audit_tx_cases [OF step] and r = Cons.IH [OF rest]
  have window: "settled_tx decode p = settled_tx decode q"
    by (intro ext) (simp add: settled_tx_def in_window_cong [OF s(2,3)])
  have "wq_issues q = [] \<and> list_all (settled_tx decode q (wa_events a')) (tx # txs)" if "wq_issues q' = []"
  proof -
    from that r have p: "wq_issues p = []" "list_all (settled_tx decode q (wa_events a')) txs" by (simp_all add: window)
    from s(4) [OF p(1)] have "settled_tx decode q (wa_events a') tx"
      using r settled_tx_mono unfolding same_checkpoint_def by blast
    with p s(4) [OF p(1)] show ?thesis by simp
  qed
  with r s show ?case by (auto intro: same_checkpoint_trans)
qed

lemma settle_page_checkpoint:
  assumes "wa_through (settle_page now used c (a, q)) \<noteq> wa_through a"
  shows "c = None" "wq_issues q = []" "wa_through (settle_page now used c (a, q)) = Some (wq_to q)"
    "wa_query (settle_page now used c (a, q)) = None" "wa_issues (settle_page now used c (a, q)) = []"
  using assms by (simp_all add: settle_page_def Let_def split: if_splits)

lemma settle_page_events [simp]: "wa_events (settle_page now used c (a, q)) = wa_events a"
  by (simp add: settle_page_def Let_def)

lemma read_answer_checkpoint:
  assumes "read_answer decode page_size max_events now a q (response, used) = Inr a'" and "wa_through a' \<noteq> wa_through a"
  shows "getd response ''paginationToken'' = PNone" "wq_issues q = []" "wa_through a' = Some (wq_to q)" "wa_query a' = None"
    "wa_issues a' = []" "list_all (settled_tx decode q (wa_events a')) (as_list (getd response ''data''))"
proof -
  define txs where "txs = as_list (getd response ''data'')"
  define c where "c = cursor_text (getd response ''paginationToken'')"
  have cursor: "audit_cursor_ok q (getd response ''paginationToken'')"
    using assms(1) by (simp add: read_answer_def bindR_guard split: if_splits)
  obtain b p where fold: "foldR (audit_tx decode max_events) (a, q) txs = Inr (b, p)" and a': "a' = settle_page now used c (b, p)"
    using assms(1) by (auto simp: read_answer_def bindR_guard bindR_eq_Inr txs_def c_def split: if_splits)
  note all = audit_txs [OF fold]
  then have moved: "wa_through (settle_page now used c (b, p)) \<noteq> wa_through b"
    using assms(2) a' by (simp add: same_checkpoint_def)
  note settled = settle_page_checkpoint [OF moved]
  show "getd response ''paginationToken'' = PNone"
    using cursor settled(1) by (cases "getd response ''paginationToken''") (simp_all add: c_def audit_cursor_ok_def)
  show "wa_through a' = Some (wq_to q)" "wa_query a' = None" "wa_issues a' = []" using a' settled all by simp_all
  show "wq_issues q = []" using all settled(2) by simp
  show "list_all (settled_tx decode q (wa_events a')) (as_list (getd response ''data''))"
    using all settled(2) a' by (simp add: txs_def)
qed

definition audit_call :: "'w history_route \<Rightarrow> string list \<Rightarrow> string \<Rightarrow> nat \<Rightarrow> wallet_query \<Rightarrow> 'w \<Rightarrow> (pyval \<times> string) res \<times> 'w" where
  "audit_call route archive owner page_size q =
     route [PStr owner, PDict (query_options page_size q)] (wq_provider q)
       (case wq_provider q of Some p \<Rightarrow> if p \<noteq> [] then [p] else archive | None \<Rightarrow> archive)"

lemma advance_cases:
  assumes "advance_wallet_history route archive decode owner page_size max_events first now ahead pages a w = (ok, a', pages', w')"
  obtains (idle) "ok \<noteq> Inr True" "a' = a \<or> (\<exists>q. a' = a\<lparr>wa_query := q\<rparr>)" "pages' = pages" "w' = w"
  | (read) q response used where "ok = Inr True" "open_query first (audit_end now) a = Some q"
      "audit_call route archive owner page_size q w = (Inr (response, used), w')"
      "read_answer decode page_size max_events now a q (response, used) = Inr a'" "pages' = pages - 1"
  | (failed) q e where "ok = Inr False" "open_query first (audit_end now) a = Some q" "a' = fail_page now e q a" "pages' = pages - 1"
proof (cases "open_query first (audit_end now) a")
  case None
  then have "advance_wallet_history route archive decode owner page_size max_events first now ahead pages a w = (Inr False, a, pages, w)"
    by (simp add: advance_wallet_history_def Let_def)
  then show thesis using assms idle by simp
next
  case (Some q)
  show thesis
  proof (cases "audit_end now < first \<or> \<not> (0 < pages \<and> fst ahead)")
    case True
    then have "advance_wallet_history route archive decode owner page_size max_events first now ahead pages a w = (Inr False, a, pages, w)"
      unfolding advance_wallet_history_def Let_def by (rule if_P)
    then show thesis using assms idle by simp
  next
    case ready: False
    show thesis
    proof (cases "snd ahead")
      case late: False
      from ready Some late have "advance_wallet_history route archive decode owner page_size max_events first now ahead pages a w =
          (Inl (RuntimeError ''wallet_history_budget_deferred''), a\<lparr>wa_query := Some q\<rparr>, pages, w)"
        by (simp add: advance_wallet_history_def)
      then show thesis using assms idle by auto
    next
      case True
      note False = ready True
    obtain answer v where call: "audit_call route archive owner page_size q w = (answer, v)" by (rule prod.exhaust)
    show thesis
    proof (cases "bindR answer (read_answer decode page_size max_events now a q)")
      case (Inl e)
      with assms Some False call have "ok = Inr False \<and> a' = fail_page now e q a \<and> pages' = pages - 1"
        by (simp add: advance_wallet_history_def audit_call_def)
      with Some show thesis using failed by blast
    next
      case (Inr b)
      with assms Some False call have b: "ok = Inr True \<and> a' = b \<and> pages' = pages - 1 \<and> w' = v"
        by (simp add: advance_wallet_history_def audit_call_def)
      from Inr obtain r where r: "answer = Inr r" "read_answer decode page_size max_events now a q r = Inr b"
        by (auto simp: bindR_eq_Inr)
      obtain response used where "r = (response, used)" by (rule prod.exhaust)
      with b r call Some show thesis using read [of q response used] by simp
    qed
    qed
  qed
qed


text \<open>
  C14: a page that is refused, fails or breaks its contract leaves the movements, the checkpoint, the issues and
  the count of pages as they were; after the third failure in a row the cursor is given up.
\<close>

theorem failed_page_keeps_evidence:
  assumes "advance_wallet_history route archive decode owner page_size max_events first now ahead pages a w = (ok, a', pages', w')"
    and "ok \<noteq> Inr True"
  shows "wa_events a' = wa_events a \<and> wa_through a' = wa_through a \<and> wa_issues a' = wa_issues a \<and> wa_pages a' = wa_pages a \<and>
    (pages' = pages \<and> w' = w \<or> pages' = pages - 1 \<and> wa_errors a' = wa_errors a + 1 \<and>
      (case wa_query a' of None \<Rightarrow> False | Some q \<Rightarrow> wa_errors a' < 3 \<or> wq_cursor q = None))"
  using assms(1)
proof (cases rule: advance_cases)
  case idle
  then show ?thesis by auto
next
  case (failed q e)
  then show ?thesis by (simp add: fail_page_def)
next
  case (read q response used)
  with assms(2) show ?thesis by simp
qed

text \<open>One page with the sale above, then a provider that fails.\<close>

definition new_audit :: wallet_audit where
  "new_audit = \<lparr>wa_events = [], wa_issues = [], wa_pages = 0, wa_query = None, wa_through = None, wa_decimals = None, wa_status = [],
     wa_checked = None, wa_retry = None, wa_error = None, wa_errors = 0\<rparr>"

definition sale_decoder :: decoder where
  "sale_decoder tx = Inr \<lparr>ac_events = [pump_leg_sold], ac_issues = [], ac_delta = -5, ac_decimals = Some 6\<rparr>"

definition serve_sale :: "unit history_route" where
  "serve_sale ps preferred order w = (Inr (PDict [(''data'', PList [pump_sale])], ''helius''), w)"

definition serve_error :: "unit history_route" where
  "serve_error ps preferred order w = (Inl (RpcError ''network'' []), w)"

definition audited :: wallet_audit where
  "audited = fst (snd (advance_wallet_history serve_sale [''helius''] sale_decoder ''ann'' 100 2048 50 300 (True, True) 3 new_audit ()))"

lemma audited_run:
  "advance_wallet_history serve_sale [''helius''] sale_decoder ''ann'' 100 2048 50 300 (True, True) 3 new_audit () =
     (Inr True, audited, 2, ()) \<and> wa_through audited = Some 180"
  by code_simp


definition audit_failed :: wallet_audit where
  "audit_failed = fst (snd (advance_wallet_history serve_error [''helius''] sale_decoder ''ann'' 100 2048 50 4000 (True, True) 3 audited ()))"

lemma audit_failed_run:
  "advance_wallet_history serve_error [''helius''] sale_decoder ''ann'' 100 2048 50 4000 (True, True) 3 audited () =
     (Inr False, audit_failed, 2, ())"
  by code_simp

lemma failed_page_keeps_evidence_witness:
  "wa_events audit_failed = wa_events audited \<and> wa_through audit_failed = wa_through audited"
  using failed_page_keeps_evidence [OF audit_failed_run] by simp

section \<open>A well-formed audit\<close>

text \<open>Events under their own signature and index, no more than allowed, and a query over a window that is not empty.\<close>

definition events_wf :: "nat \<Rightarrow> ((string \<times> nat option) \<times> stored_event) list \<Rightarrow> bool" where
  "events_wf n events \<longleftrightarrow> distinct (map fst events) \<and> length events \<le> n \<and>
     (\<forall>(k, row) \<in> set events. k = (se_signature row, mv_index (se_move row)))"

definition audit_wf :: "nat \<Rightarrow> wallet_audit \<Rightarrow> bool" where
  "audit_wf n a \<longleftrightarrow> events_wf n (wa_events a) \<and> (case wa_query a of None \<Rightarrow> True | Some q \<Rightarrow> wq_from q \<le> wq_to q)"

lemma length_update_old: "k \<in> fst ` set d \<Longrightarrow> length (AList.update k v d) = length d"
  by (induction d) auto

lemma store_event_wf:
  assumes "store_event n tx events e = Inr events'" "events_wf n events"
  shows "events_wf n events'"
proof -
  define row where "row = \<lparr>se_move = e, se_signature = tx_sig tx, se_time = getd tx ''blockTime'', se_slot = getd tx ''slot''\<rparr>"
  define k where "k = (tx_sig tx, mv_index e)"
  have events': "events' = AList.update k row events" and room: "map_of events k = None \<Longrightarrow> length events < n"
    using assms(1) by (auto simp: store_event_def Let_def row_def k_def split: option.splits if_splits)
  have own: "k = (se_signature row, mv_index (se_move row))" by (simp add: k_def row_def)
  have "length events' \<le> n"
  proof (cases "map_of events k")
    case None
    with room show ?thesis by (simp add: events' update_fresh)
  next
    case (Some r)
    then have "k \<in> fst ` set events" by (metis map_of_eq_None_iff option.distinct(1))
    then show ?thesis using assms(2) length_update_old [of k events row] by (simp add: events' events_wf_def)
  qed
  moreover have "\<forall>(j, r) \<in> set events'. j = (se_signature r, mv_index (se_move r))"
    using assms(2) own set_update_subset [of k row events] by (auto simp: events' events_wf_def)
  moreover have "distinct (map fst events')" using assms(2) by (simp add: events' events_wf_def)
  ultimately show ?thesis by (simp add: events_wf_def)
qed

lemma audit_tx_wf:
  assumes "audit_tx decode n (a, q) tx = Inr (a', q')" "events_wf n (wa_events a)"
  shows "events_wf n (wa_events a')"
proof -
  have store: "events_wf n events'" if "foldR (store_event n tx) events es = Inr events'" "events_wf n events" for es events events'
    by (rule foldR_invariant [OF that(1)]) (use that(2) store_event_wf in auto)
  show ?thesis using assms by (auto simp: audit_tx_def Let_def bindR_eq_Inr intro: store split: if_splits)
qed

lemma audit_txs_wf:
  assumes "foldR (audit_tx decode n) (a, q) txs = Inr (a', q')" "events_wf n (wa_events a)"
  shows "events_wf n (wa_events a')"
proof -
  have "events_wf n (wa_events (fst (a', q')))"
    by (rule foldR_invariant [OF assms(1), where P = "\<lambda>st. events_wf n (wa_events (fst st))"])
      (use assms(2) audit_tx_wf in auto)
  then show ?thesis by simp
qed

lemma open_query_wf:
  assumes "open_query first upto_t a = Some q" "audit_wf n a"
  shows "wq_from q \<le> wq_to q"
  using assms by (auto simp: open_query_def audit_wf_def Let_def split: option.splits if_splits)

lemma read_answer_wf:
  assumes "read_answer decode page_size n now a q (response, used) = Inr a'" "events_wf n (wa_events a)" "wq_from q \<le> wq_to q"
  shows "audit_wf n a'"
proof -
  obtain b p where fold: "foldR (audit_tx decode n) (a, q) (as_list (getd response ''data'')) = Inr (b, p)"
    and a': "a' = settle_page now used (cursor_text (getd response ''paginationToken'')) (b, p)"
    using assms(1) by (auto simp: read_answer_def bindR_guard bindR_eq_Inr split: if_splits)
  have "events_wf n (wa_events b)" by (rule audit_txs_wf [OF fold assms(2)])
  moreover have "wq_from p \<le> wq_to p" using audit_txs [OF fold] assms(3) by simp
  ultimately show ?thesis by (simp add: audit_wf_def a') (simp add: settle_page_def Let_def)
qed


end
