(* ===== verification/Py_Time.thy ===== *)
theory Py_Time
  imports Prelude
begin

text \<open>
  What the program uses of Python's \<^verbatim>\<open>datetime\<close>: the proleptic Gregorian calendar as
  \<^verbatim>\<open>Lib/datetime.py\<close> computes it (\<open>_ymd2ord\<close>, \<open>_ord2ymd\<close>), \<open>fromisoformat\<close> on the extended
  format \<open>YYYY-MM-DD[?HH[:MM[:SS[.f]]][+HH:MM[:SS]]]\<close> (the basic and week-date spellings, which the
  program's own writers never produce, are rejected), \<open>timestamp()\<close> of an aware value, and the
  UTC \<open>isoformat()\<close> with the \<open>Z\<close> suffix.  The main fact is the round trip of a written time.
\<close>

section \<open>Calendar\<close>

definition leap :: "int \<Rightarrow> bool" where
  "leap y \<longleftrightarrow> y mod 4 = 0 \<and> (y mod 100 \<noteq> 0 \<or> y mod 400 = 0)"

definition days_before_year :: "int \<Rightarrow> int" where
  "days_before_year y = (let x = y - 1 in x * 365 + x div 4 - x div 100 + x div 400)"

definition days_before_month :: "bool \<Rightarrow> int \<Rightarrow> int" where
  "days_before_month lp m =
     (let t = (if lp then 1 else 0) in
      if m \<le> 1 then 0 else if m = 2 then 31 else if m = 3 then 59 + t else if m = 4 then 90 + t
      else if m = 5 then 120 + t else if m = 6 then 151 + t else if m = 7 then 181 + t
      else if m = 8 then 212 + t else if m = 9 then 243 + t else if m = 10 then 273 + t
      else if m = 11 then 304 + t else 334 + t)"

definition days_in_month :: "bool \<Rightarrow> int \<Rightarrow> int" where
  "days_in_month lp m =
     (if m = 2 then (if lp then 29 else 28) else if m \<in> {4, 6, 9, 11} then 30 else 31)"

definition ymd2ord :: "int \<Rightarrow> int \<Rightarrow> int \<Rightarrow> int" where
  "ymd2ord y m d = days_before_year y + days_before_month (leap y) m + d"

definition month_of :: "bool \<Rightarrow> int \<Rightarrow> int" where
  "month_of lp n =
     (let t = (if lp then 1 else 0) in
      if n < 31 then 1 else if n < 59 + t then 2 else if n < 90 + t then 3 else if n < 120 + t then 4
      else if n < 151 + t then 5 else if n < 181 + t then 6 else if n < 212 + t then 7
      else if n < 243 + t then 8 else if n < 273 + t then 9 else if n < 304 + t then 10
      else if n < 334 + t then 11 else 12)"

definition ord2ymd :: "int \<Rightarrow> int \<times> int \<times> int" where
  "ord2ymd ord =
     (let n = ord - 1; n400 = n div 146097; n = n mod 146097; n100 = n div 36524; n = n mod 36524;
          n4 = n div 1461; n = n mod 1461; n1 = n div 365; n = n mod 365;
          y = n400 * 400 + 1 + n100 * 100 + n4 * 4 + n1
      in if n1 = 4 \<or> n100 = 4 then (y - 1, 12, 31)
         else let lp = (n1 = 3 \<and> (n4 \<noteq> 24 \<or> n100 = 3)); m = month_of lp n
              in (y, m, n - days_before_month lp m + 1))"

lemma days_before_year_decomp:
  fixes a b c d :: int
  assumes "0 \<le> b" "b < 4" "0 \<le> c" "c < 25" "0 \<le> d" "d < 4"
  shows "days_before_year (a * 400 + 1 + b * 100 + c * 4 + d) = 146097 * a + 36524 * b + 1461 * c + 365 * d"
proof -
  let ?x = "a * 400 + b * 100 + c * 4 + d"
  have "?x div 4 = a * 100 + b * 25 + c" "?x div 100 = a * 4 + b" "?x div 400 = a"
    using assms by linarith+
  then show ?thesis by (simp add: days_before_year_def Let_def algebra_simps)
qed

lemma mod_zero_top: "(0::int) < v \<Longrightarrow> v \<le> k \<Longrightarrow> v mod k = 0 \<longleftrightarrow> v = k"
  by (cases "v = k") auto

lemma leap_decomp:
  fixes a b c d :: int
  assumes "0 \<le> b" "b < 4" "0 \<le> c" "c < 25" "0 \<le> d" "d < 4"
  shows "leap (a * 400 + 1 + b * 100 + c * 4 + d) \<longleftrightarrow> d = 3 \<and> (c \<noteq> 24 \<or> b = 3)"
proof -
  let ?y = "a * 400 + 1 + b * 100 + c * 4 + d"
  have "?y = (1 + d) + (a * 100 + b * 25 + c) * 4" by simp
  then have "?y mod 4 = (1 + d) mod 4" by (simp only: mod_mult_self1)
  then have 4: "?y mod 4 = 0 \<longleftrightarrow> 1 + d = 4" using assms by (simp only:) (rule mod_zero_top, auto)
  have "?y = (1 + c * 4 + d) + (a * 4 + b) * 100" by simp
  then have "?y mod 100 = (1 + c * 4 + d) mod 100" by (simp only: mod_mult_self1)
  then have 100: "?y mod 100 = 0 \<longleftrightarrow> 1 + c * 4 + d = 100" using assms by (simp only:) (rule mod_zero_top, auto)
  have "?y = (1 + b * 100 + c * 4 + d) + a * 400" by simp
  then have "?y mod 400 = (1 + b * 100 + c * 4 + d) mod 400" by (simp only: mod_mult_self1)
  then have 400: "?y mod 400 = 0 \<longleftrightarrow> 1 + b * 100 + c * 4 + d = 400" using assms by (simp only:) (rule mod_zero_top, auto)
  show ?thesis using assms unfolding leap_def 4 100 400 by linarith
qed

lemma month_of_bounds:
  assumes "0 \<le> n" and "n < (if lp then 366 else 365)"
  shows "1 \<le> month_of lp n" "month_of lp n \<le> 12"
    "0 \<le> n - days_before_month lp (month_of lp n)"
    "n - days_before_month lp (month_of lp n) < days_in_month lp (month_of lp n)"
  using assms by (cases lp; simp add: month_of_def days_before_month_def days_in_month_def Let_def)+

theorem ord2ymd_correct:
  assumes "ord2ymd n = (y, m, d)"
  shows "ymd2ord y m d = n \<and> 1 \<le> m \<and> m \<le> 12 \<and> 1 \<le> d \<and> d \<le> days_in_month (leap y) m"
proof -
  define a where "a = (n - 1) div 146097"
  define r1 where "r1 = (n - 1) mod 146097"
  define b where "b = r1 div 36524"
  define r2 where "r2 = r1 mod 36524"
  define c where "c = r2 div 1461"
  define r3 where "r3 = r2 mod 1461"
  define e where "e = r3 div 365"
  define r4 where "r4 = r3 mod 365"
  have n: "n = 146097 * a + r1 + 1" by (simp add: a_def r1_def)
  have r1: "r1 = 36524 * b + r2" by (simp add: b_def r2_def)
  have r2: "r2 = 1461 * c + r3" by (simp add: c_def r3_def)
  have r3: "r3 = 365 * e + r4" by (simp add: e_def r4_def)
  have bounds: "0 \<le> r1" "r1 < 146097" "0 \<le> r2" "r2 < 36524" "0 \<le> r3" "r3 < 1461" "0 \<le> r4" "r4 < 365"
    by (simp_all add: r1_def r2_def r3_def r4_def)
  then have q: "0 \<le> b" "b \<le> 4" "0 \<le> c" "c \<le> 24" "0 \<le> e" "e \<le> 4"
    unfolding b_def c_def e_def by linarith+
  let ?y = "a * 400 + 1 + b * 100 + c * 4 + e"
  have def: "ord2ymd n = (if e = 4 \<or> b = 4 then (?y - 1, 12, 31)
      else let lp = (e = 3 \<and> (c \<noteq> 24 \<or> b = 3)); m = month_of lp r4
           in (?y, m, r4 - days_before_month lp m + 1))"
    by (simp add: ord2ymd_def Let_def a_def b_def c_def e_def r1_def r2_def r3_def r4_def)
  show ?thesis
  proof (cases "e = 4 \<or> b = 4")
    case False
    then have lt: "b < 4" "e < 4" using q by auto
    have lp: "leap ?y \<longleftrightarrow> e = 3 \<and> (c \<noteq> 24 \<or> b = 3)"
      by (rule leap_decomp) (use q lt in auto)
    have dby: "days_before_year ?y = 146097 * a + 36524 * b + 1461 * c + 365 * e"
      by (rule days_before_year_decomp) (use q lt in auto)
    from False def assms lp have ymd: "y = ?y" "m = month_of (leap ?y) r4"
      "d = r4 - days_before_month (leap ?y) m + 1" by (auto simp: Let_def)
    have "r4 < (if leap ?y then 366 else 365)" using bounds by simp
    note mb = month_of_bounds [OF bounds(7) this]
    show ?thesis
      using mb ymd dby n r1 r2 r3 by (simp add: ymd2ord_def)
  next
    case True
    then have ymd: "y = ?y - 1" "m = 12" "d = 31" using def assms by auto
    show ?thesis
    proof (cases "b = 4")
      case b: True
      then have "r2 = 0" using r1 bounds by simp
      then have z: "c = 0" "r3 = 0" "e = 0" "r4 = 0" by (simp_all add: c_def r3_def e_def r4_def)
      have y: "y = a * 400 + 1 + 3 * 100 + 24 * 4 + 3" using ymd b z by simp
      have "days_before_year y = 146097 * a + 36524 * 3 + 1461 * 24 + 365 * 3"
        unfolding y by (rule days_before_year_decomp) auto
      moreover have "leap y" unfolding y by (subst leap_decomp) auto
      ultimately show ?thesis
        using ymd n r1 b \<open>r2 = 0\<close> by (simp add: ymd2ord_def days_before_month_def days_in_month_def)
    next
      case False
      with True have e: "e = 4" by simp
      then have r3v: "r3 = 1460" "r4 = 0" using r3 bounds by auto
      have cb: "c \<noteq> 24" using r2 r3v bounds by auto
      have y: "y = a * 400 + 1 + b * 100 + c * 4 + 3" using ymd e by simp
      have "days_before_year y = 146097 * a + 36524 * b + 1461 * c + 365 * 3"
        unfolding y by (rule days_before_year_decomp) (use q False in auto)
      moreover have "leap y" unfolding y by (subst leap_decomp) (use q False cb in auto)
      ultimately show ?thesis
        using ymd n r1 r2 r3v by (simp add: ymd2ord_def days_before_month_def days_in_month_def)
    qed
  qed
qed

section \<open>Date and time values\<close>

text \<open>A value is its day ordinal, the microsecond of that day, and the UTC offset of an aware value.\<close>

record pydt =
  dt_ord :: int
  dt_us :: int
  dt_tz :: "int option"

definition day_us :: int where
  "day_us = 86400000000"

definition epoch_ord :: int where
  "epoch_ord = 719163"

text \<open>Microseconds since the epoch of the UTC instant, for an offset in microseconds.\<close>

definition dt_micros :: "pydt \<Rightarrow> int \<Rightarrow> int" where
  "dt_micros dt off = (dt_ord dt - epoch_ord) * day_us + dt_us dt - off"

text \<open>\<open>parsed.timestamp()\<close> of an aware value.\<close>

definition timestamp :: "pydt \<Rightarrow> int \<Rightarrow> rat" where
  "timestamp dt off = of_int (dt_micros dt off) / 1000000"

section \<open>fromisoformat\<close>

definition field :: "string \<Rightarrow> int option" where
  "field s = (if isdigit s then Some (int (int_of_dec s)) else None)"

definition parse_date :: "string \<Rightarrow> int option" where
  "parse_date s =
     (if length s = 10 \<and> s ! 4 = CHR ''-'' \<and> s ! 7 = CHR ''-'' then
        (case (field (take 4 s), field (take 2 (drop 5 s)), field (drop 8 s)) of
           (Some y, Some m, Some d) \<Rightarrow>
             if 1 \<le> y \<and> 1 \<le> m \<and> m \<le> 12 \<and> 1 \<le> d \<and> d \<le> days_in_month (leap y) m
             then Some (ymd2ord y m d) else None
         | _ \<Rightarrow> None)
      else None)"

text \<open>\<open>HH[:MM[:SS[.ffffff]]]\<close> as hours, minutes, seconds, microseconds.\<close>

definition parse_clock :: "string \<Rightarrow> (int \<times> int \<times> int \<times> int) option" where
  "parse_clock s =
     (let two = (\<lambda>i. field (take 2 (drop i s))); n = length s in
      if n = 2 then map_option (\<lambda>h. (h, 0, 0, 0)) (two 0)
      else if n = 5 \<and> s ! 2 = CHR '':'' then
        (case (two 0, two 3) of (Some h, Some m) \<Rightarrow> Some (h, m, 0, 0) | _ \<Rightarrow> None)
      else if n = 8 \<and> s ! 2 = CHR '':'' \<and> s ! 5 = CHR '':'' then
        (case (two 0, two 3, two 6) of (Some h, Some m, Some x) \<Rightarrow> Some (h, m, x, 0) | _ \<Rightarrow> None)
      else if n > 9 \<and> s ! 2 = CHR '':'' \<and> s ! 5 = CHR '':'' \<and> (s ! 8 = CHR ''.'' \<or> s ! 8 = CHR '','') then
        (case (two 0, two 3, two 6, field (drop 9 s)) of
           (Some h, Some m, Some x, Some _) \<Rightarrow>
             Some (h, m, x, int (int_of_dec (take 6 (drop 9 s @ replicate 6 (CHR ''0'')))))
         | _ \<Rightarrow> None)
      else None)"

definition clock_us :: "int \<times> int \<times> int \<times> int \<Rightarrow> int" where
  "clock_us t = (case t of (h, m, x, f) \<Rightarrow> ((h * 60 + m) * 60 + x) * 1000000 + f)"

definition is_sign :: "char \<Rightarrow> bool" where
  "is_sign c \<longleftrightarrow> c = CHR ''+'' \<or> c = CHR ''-''"

definition parse_offset :: "string \<Rightarrow> int option option" where
  "parse_offset z =
     (case z of
        [] \<Rightarrow> Some None
      | c # s \<Rightarrow> (case parse_clock s of
            None \<Rightarrow> None
          | Some t \<Rightarrow> if clock_us t < day_us
              then Some (Some (if c = CHR ''-'' then - clock_us t else clock_us t)) else None))"

definition fromisoformat :: "string \<Rightarrow> pydt res" where
  "fromisoformat s =
     (case parse_date (take 10 s) of
        None \<Rightarrow> Inl (ValueError ''Invalid isoformat string'')
      | Some ord \<Rightarrow>
          let t = drop 11 s; clock = takeWhile (\<lambda>c. \<not> is_sign c) t; zone = dropWhile (\<lambda>c. \<not> is_sign c) t in
          if t = [] then Inr \<lparr>dt_ord = ord, dt_us = 0, dt_tz = None\<rparr>
          else (case (parse_clock clock, parse_offset zone) of
              (Some (h, m, x, f), Some off) \<Rightarrow>
                if h < 24 \<and> m < 60 \<and> x < 60
                then Inr \<lparr>dt_ord = ord, dt_us = clock_us (h, m, x, f), dt_tz = off\<rparr>
                else Inl (ValueError ''Invalid isoformat string'')
            | _ \<Rightarrow> Inl (ValueError ''Invalid isoformat string'')))"

text \<open>\<open>value.replace("Z", "+00:00")\<close>\<close>

definition expand_z :: "string \<Rightarrow> string" where
  "expand_z s = concat (map (\<lambda>c. if c = CHR ''Z'' then ''+00:00'' else [c]) s)"

section \<open>isoformat\<close>

definition pad2 :: "int \<Rightarrow> string" where
  "pad2 n = [digit_char (nat (n div 10)), digit_char (nat (n mod 10))]"

definition pad4 :: "int \<Rightarrow> string" where
  "pad4 n = pad2 (n div 100) @ pad2 (n mod 100)"

definition pad6 :: "int \<Rightarrow> string" where
  "pad6 n = pad2 (n div 10000) @ pad4 (n mod 10000)"

text \<open>
  \<open>datetime.fromtimestamp(v, utc).isoformat().replace("+00:00", "Z")\<close> for the instant of
  \<open>k\<close> microseconds; a year outside 1 to 9999 raises.
\<close>

definition iso_micros :: "int \<Rightarrow> string res" where
  "iso_micros k =
     (let us = k mod day_us; sec = us div 1000000; micros = us mod 1000000;
          (y, m, d) = ord2ymd (k div day_us + epoch_ord)
      in if 1 \<le> y \<and> y \<le> 9999
         then Inr (pad4 y @ ''-'' @ pad2 m @ ''-'' @ pad2 d @ ''T'' @ pad2 (sec div 3600) @ '':'' @
                   pad2 (sec div 60 mod 60) @ '':'' @ pad2 (sec mod 60) @
                   (if micros = 0 then [] else ''.'' @ pad6 micros) @ ''Z'')
         else Inl (ValueError ''year is out of range''))"

text \<open>\<open>fromtimestamp\<close> rounds to the nearest microsecond, ties to even.\<close>

definition round_half_even :: "rat \<Rightarrow> int" where
  "round_half_even q =
     (let f = floor q; r = q - of_int f in
      if r < 1 / 2 then f else if r > 1 / 2 then f + 1 else if even f then f else f + 1)"

definition iso :: "rat \<Rightarrow> string res" where
  "iso v = iso_micros (round_half_even (v * 1000000))"

lemma round_half_even_int [simp]: "round_half_even (of_int k) = k"
  by (simp add: round_half_even_def)

section \<open>A written time is read back\<close>

lemma pad2_digits:
  assumes "0 \<le> n" "n < 100"
  obtains a b where "pad2 n = [a, b]" "is_digit a" "is_digit b"
    "int (digit_val a) * 10 + int (digit_val b) = n"
proof
  show "pad2 n = [digit_char (nat (n div 10)), digit_char (nat (n mod 10))]" by (simp add: pad2_def)
  have "nat (n div 10) < 10" "nat (n mod 10) < 10" "0 \<le> n div 10" using assms by linarith+
  then show "is_digit (digit_char (nat (n div 10)))" "is_digit (digit_char (nat (n mod 10)))"
    "int (digit_val (digit_char (nat (n div 10)))) * 10 + int (digit_val (digit_char (nat (n mod 10)))) = n"
    using assms by simp_all
qed

lemma is_digit_not [simp]:
  "is_digit c \<Longrightarrow> c \<noteq> CHR ''Z''" "is_digit c \<Longrightarrow> c \<noteq> CHR ''+''" "is_digit c \<Longrightarrow> c \<noteq> CHR ''-''"
  "is_digit c \<Longrightarrow> \<not> is_sign c"
  by (auto simp: is_digit_def is_sign_def)

lemma field_simps_digits:
  "is_digit a \<Longrightarrow> is_digit b \<Longrightarrow> field [a, b] = Some (int (digit_val a) * 10 + int (digit_val b))"
  by (simp add: field_def isdigit_def int_of_dec_def)

lemma field4:
  "is_digit a \<Longrightarrow> is_digit b \<Longrightarrow> is_digit c \<Longrightarrow> is_digit d \<Longrightarrow>
     field [a, b, c, d] = Some ((int (digit_val a) * 10 + int (digit_val b)) * 100 +
       (int (digit_val c) * 10 + int (digit_val d)))"
  by (simp add: field_def isdigit_def int_of_dec_def)

lemma field6:
  "is_digit a \<Longrightarrow> is_digit b \<Longrightarrow> is_digit c \<Longrightarrow> is_digit d \<Longrightarrow> is_digit e \<Longrightarrow> is_digit f \<Longrightarrow>
     isdigit [a, b, c, d, e, f] \<and>
     int (int_of_dec [a, b, c, d, e, f]) = (int (digit_val a) * 10 + int (digit_val b)) * 10000 +
       ((int (digit_val c) * 10 + int (digit_val d)) * 100 + (int (digit_val e) * 10 + int (digit_val f)))"
  by (simp add: isdigit_def int_of_dec_def)

lemma is_sign_consts [simp]:
  "is_sign (CHR ''+'')" "\<not> is_sign (CHR '':'')" "\<not> is_sign (CHR ''.'')"
  by (simp_all add: is_sign_def)

lemma parse_offset_utc: "parse_offset ''+00:00'' = Some (Some 0)"
  by code_simp

lemma parse_date_pad:
  assumes "1 \<le> y" "y \<le> 9999" "1 \<le> m" "m \<le> 12" "1 \<le> d" "d \<le> days_in_month (leap y) m"
  shows "parse_date (pad4 y @ ''-'' @ pad2 m @ ''-'' @ pad2 d) = Some (ymd2ord y m d)"
proof -
  have "d < 100" using assms by (auto simp: days_in_month_def split: if_splits)
  obtain a b where 1: "pad2 (y div 100) = [a, b]" "is_digit a" "is_digit b"
    "int (digit_val a) * 10 + int (digit_val b) = y div 100"
    by (rule pad2_digits [of "y div 100"]) (use assms in auto)
  obtain c e where 2: "pad2 (y mod 100) = [c, e]" "is_digit c" "is_digit e"
    "int (digit_val c) * 10 + int (digit_val e) = y mod 100"
    by (rule pad2_digits [of "y mod 100"]) auto
  obtain f g where 3: "pad2 m = [f, g]" "is_digit f" "is_digit g"
    "int (digit_val f) * 10 + int (digit_val g) = m"
    by (rule pad2_digits [of m]) (use assms in auto)
  obtain h i where 4: "pad2 d = [h, i]" "is_digit h" "is_digit i"
    "int (digit_val h) * 10 + int (digit_val i) = d"
    by (rule pad2_digits [of d]) (use assms \<open>d < 100\<close> in auto)
  have "field [a, b, c, e] = Some y" using 1 2 by (simp add: field4)
  moreover have "field [f, g] = Some m" "field [h, i] = Some d" using 3 4 by (simp_all add: field_simps_digits)
  ultimately show ?thesis
    using assms by (simp add: parse_date_def pad4_def 1(1) 2(1) 3(1) 4(1))
qed

lemma parse_clock_short:
  assumes "field [a, b] = Some h" "field [c, e] = Some m" "field [f, g] = Some x"
  shows "parse_clock [a, b, CHR '':'', c, e, CHR '':'', f, g] = Some (h, m, x, 0)"
  by (simp add: parse_clock_def Let_def assms)

lemma parse_clock_long:
  assumes "field [a, b] = Some h" "field [c, e] = Some m" "field [f, g] = Some x" "field [i, j, k, l, n, p] = Some y"
    and "int (int_of_dec [i, j, k, l, n, p]) = u"
  shows "parse_clock [a, b, CHR '':'', c, e, CHR '':'', f, g, CHR ''.'', i, j, k, l, n, p] = Some (h, m, x, u)"
  by (simp add: parse_clock_def Let_def assms)

lemma parse_clock_pad:
  assumes "0 \<le> sec" "sec < 86400" "0 \<le> micros" "micros < 1000000"
  defines "s \<equiv> pad2 (sec div 3600) @ '':'' @ pad2 (sec div 60 mod 60) @ '':'' @ pad2 (sec mod 60) @
                (if micros = 0 then [] else ''.'' @ pad6 micros)"
  shows "parse_clock s = Some (sec div 3600, sec div 60 mod 60, sec mod 60, micros)"
    and "\<forall>c \<in> set s. \<not> is_sign c \<and> c \<noteq> CHR ''Z''" and "s \<noteq> []"
proof -
  have "0 \<le> sec div 3600" "sec div 3600 < 100" using assms by linarith+
  then obtain a b where 1: "pad2 (sec div 3600) = [a, b]" "is_digit a" "is_digit b"
    "int (digit_val a) * 10 + int (digit_val b) = sec div 3600" by (rule pad2_digits)
  have "0 \<le> sec div 60 mod 60" "sec div 60 mod 60 < 100" by (simp_all add: pos_mod_bound order.strict_trans2)
  then obtain c e where 2: "pad2 (sec div 60 mod 60) = [c, e]" "is_digit c" "is_digit e"
    "int (digit_val c) * 10 + int (digit_val e) = sec div 60 mod 60" by (rule pad2_digits)
  have "0 \<le> sec mod 60" "sec mod 60 < 100" by (simp_all add: pos_mod_bound order.strict_trans2)
  then obtain f g where 3: "pad2 (sec mod 60) = [f, g]" "is_digit f" "is_digit g"
    "int (digit_val f) * 10 + int (digit_val g) = sec mod 60" by (rule pad2_digits)
  have "0 \<le> micros div 10000" "micros div 10000 < 100" using assms by linarith+
  then obtain h i where 4: "pad2 (micros div 10000) = [h, i]" "is_digit h" "is_digit i"
    "int (digit_val h) * 10 + int (digit_val i) = micros div 10000" by (rule pad2_digits)
  have "0 \<le> micros mod 10000 div 100" "micros mod 10000 div 100 < 100" by linarith+
  then obtain j k where 5: "pad2 (micros mod 10000 div 100) = [j, k]" "is_digit j" "is_digit k"
    "int (digit_val j) * 10 + int (digit_val k) = micros mod 10000 div 100" by (rule pad2_digits)
  have "0 \<le> micros mod 10000 mod 100" "micros mod 10000 mod 100 < 100" by simp_all
  then obtain l n where 6: "pad2 (micros mod 10000 mod 100) = [l, n]" "is_digit l" "is_digit n"
    "int (digit_val l) * 10 + int (digit_val n) = micros mod 10000 mod 100" by (rule pad2_digits)
  have p6: "pad6 micros = [h, i, j, k, l, n]"
    by (simp only: pad6_def pad4_def 4(1) 5(1) 6(1) append.simps)
  have fr: "isdigit [h, i, j, k, l, n]" "int (int_of_dec [h, i, j, k, l, n]) = micros"
    using field6 [OF 4(2,3) 5(2,3) 6(2,3)] 4(4) 5(4) 6(4) by simp_all
  then have fr': "field [h, i, j, k, l, n] = Some micros" "int (int_of_dec [h, i, j, k, l, n]) = micros"
    by (simp_all add: field_def)
  have "field [a, b] = Some (sec div 3600)" "field [c, e] = Some (sec div 60 mod 60)"
    "field [f, g] = Some (sec mod 60)"
    using 1 2 3 by (simp_all add: field_simps_digits)
  note hms = this
  show "parse_clock s = Some (sec div 3600, sec div 60 mod 60, sec mod 60, micros)"
  proof (cases "micros = 0")
    case True
    then have "s = [a, b, CHR '':'', c, e, CHR '':'', f, g]" by (simp add: s_def 1(1) 2(1) 3(1))
    with parse_clock_short [OF hms] True show ?thesis by simp
  next
    case False
    then have "s = [a, b, CHR '':'', c, e, CHR '':'', f, g, CHR ''.'', h, i, j, k, l, n]"
      by (simp add: s_def 1(1) 2(1) 3(1) p6)
    with parse_clock_long [OF hms fr'] show ?thesis by simp
  qed
  show "\<forall>c \<in> set s. \<not> is_sign c \<and> c \<noteq> CHR ''Z''" and "s \<noteq> []"
    using 1(2,3) 2(2,3) 3(2,3) 4(2,3) 5(2,3) 6(2,3)
    by (auto simp: s_def 1(1) 2(1) 3(1) p6 split: if_splits)
qed

lemma expand_z_id: "\<forall>c \<in> set s. c \<noteq> CHR ''Z'' \<Longrightarrow> expand_z (s @ ''Z'') = s @ ''+00:00''"
proof -
  assume a: "\<forall>c \<in> set s. c \<noteq> CHR ''Z''"
  then have "concat (map (\<lambda>c. if c = CHR ''Z'' then ''+00:00'' else [c]) s) = s"
    by (induction s) auto
  then show ?thesis by (simp add: expand_z_def)
qed

lemma takeWhile_not_sign:
  "\<forall>c \<in> set s. \<not> is_sign c \<Longrightarrow> takeWhile (\<lambda>c. \<not> is_sign c) (s @ ''+00:00'') = s"
  "\<forall>c \<in> set s. \<not> is_sign c \<Longrightarrow> dropWhile (\<lambda>c. \<not> is_sign c) (s @ ''+00:00'') = ''+00:00''"
  by (simp_all add: takeWhile_append2 dropWhile_append2)

lemma pad2_no_z: "0 \<le> n \<Longrightarrow> n < 100 \<Longrightarrow> \<forall>c \<in> set (pad2 n). c \<noteq> CHR ''Z''"
  by (erule (1) pad2_digits) auto

theorem iso_roundtrip:
  assumes "iso_micros k = Inr s"
  shows "\<exists>dt. fromisoformat (expand_z s) = Inr dt \<and> dt_tz dt = Some 0 \<and> dt_micros dt 0 = k"
proof -
  define us where "us = k mod day_us"
  define sec where "sec = us div 1000000"
  define micros where "micros = us mod 1000000"
  obtain y m d where ymd: "ord2ymd (k div day_us + epoch_ord) = (y, m, d)" by (cases "ord2ymd (k div day_us + epoch_ord)")
  note ord = ord2ymd_correct [OF ymd]
  define date where "date = pad4 y @ ''-'' @ pad2 m @ ''-'' @ pad2 d"
  define clock where "clock = pad2 (sec div 3600) @ '':'' @ pad2 (sec div 60 mod 60) @ '':'' @
    pad2 (sec mod 60) @ (if micros = 0 then [] else ''.'' @ pad6 micros)"
  from assms ymd have y: "1 \<le> y" "y \<le> 9999" and s: "s = date @ ''T'' @ clock @ ''Z''"
    by (simp_all add: iso_micros_def us_def sec_def micros_def date_def clock_def Let_def split: if_splits)
  have us: "0 \<le> us" "us < 86400000000" by (simp_all add: us_def day_us_def)
  then have "0 \<le> sec" "sec < 86400" "0 \<le> micros" "micros < 1000000"
    by (simp_all add: sec_def micros_def)
  note pc = parse_clock_pad [OF this, folded clock_def]
  have pd: "parse_date date = Some (k div day_us + epoch_ord)"
    unfolding date_def using parse_date_pad [of y m d] y ord by simp
  have len: "length date = 10" by (simp add: date_def pad4_def pad2_def)
  have "d < 100" using ord by (auto simp: days_in_month_def split: if_splits)
  then have "\<forall>c \<in> set (pad2 d). c \<noteq> CHR ''Z''" "\<forall>c \<in> set (pad2 m). c \<noteq> CHR ''Z''"
    using ord pad2_no_z [of d] pad2_no_z [of m] by simp_all
  moreover have "\<forall>c \<in> set (pad2 (y div 100)). c \<noteq> CHR ''Z''" "\<forall>c \<in> set (pad2 (y mod 100)). c \<noteq> CHR ''Z''"
    using y pad2_no_z [of "y div 100"] pad2_no_z [of "y mod 100"] by simp_all
  ultimately have "\<forall>c \<in> set (date @ ''T'' @ clock). c \<noteq> CHR ''Z''"
    using pc(2) by (simp add: date_def pad4_def ball_Un)
  from expand_z_id [OF this] have e: "expand_z s = date @ ''T'' @ clock @ ''+00:00''"
    by (simp add: s)
  have hms: "sec div 3600 < 24" "sec div 60 mod 60 < 60" "sec mod 60 < 60"
    using \<open>sec < 86400\<close> by simp_all
  have us_eq: "clock_us (sec div 3600, sec div 60 mod 60, sec mod 60, micros) = us"
  proof -
    have "(sec div 3600 * 60 + sec div 60 mod 60) * 60 + sec mod 60 = sec"
    proof -
      have "sec div (60 * 60) = sec div 60 div 60" by (rule zdiv_zmult2_eq) simp
      then have "sec div 3600 * 60 + sec div 60 mod 60 = sec div 60" by simp
      then show ?thesis by simp
    qed
    then have "clock_us (sec div 3600, sec div 60 mod 60, sec mod 60, micros) = sec * 1000000 + micros"
      by (simp only: clock_us_def prod.case)
    then show ?thesis by (simp add: sec_def micros_def)
  qed
  let ?dt = "\<lparr>dt_ord = k div day_us + epoch_ord, dt_us = us, dt_tz = Some 0\<rparr>"
  have "fromisoformat (expand_z s) = Inr ?dt"
    using pd pc takeWhile_not_sign [of clock] hms us_eq len
    by (simp add: fromisoformat_def e Let_def parse_offset_utc)
  moreover have "dt_micros ?dt 0 = k"
    by (simp add: dt_micros_def us_def day_us_def)
  ultimately show ?thesis by (intro exI [of _ ?dt]) simp
qed

text \<open>The instant of an aware ISO text; 0 for any other text.\<close>

definition text_instant :: "string \<Rightarrow> rat" where
  "text_instant s =
     (case fromisoformat (expand_z s) of
        Inl e \<Rightarrow> 0
      | Inr dt \<Rightarrow> (case dt_tz dt of None \<Rightarrow> 0 | Some off \<Rightarrow> Py_Time.timestamp dt off))"

end
