(* ===== verification/Evidence_Lifecycle.thy ===== *)
theory Evidence_Lifecycle
  imports Py_Time Py_Numbers
begin

text \<open>
  \<^verbatim>\<open>src/evidence_lifecycle.py\<close>, with the two callers of its archive in \<^verbatim>\<open>src/scanner.py\<close>: how an
  investigation that no longer makes progress is slowed down, and how its receipts are archived and restored.

  A thesis is a dictionary as the program writes it: its groups are dictionaries and its cohort a list.  The
  canonical JSON text of a value enters only through its SHA-256 and its length, which are parameters
  (\<open>digest\<close> and \<open>size_of\<close>); so are the remote store's \<open>write\<close> and \<open>read\<close>.
\<close>

section \<open>Values\<close>

definition dict_rows :: "pyval \<Rightarrow> (string \<times> pyval) list" where
  "dict_rows v = (case v of PDict d \<Rightarrow> d | _ \<Rightarrow> [])"

definition dset :: "string \<Rightarrow> pyval \<Rightarrow> pyval \<Rightarrow> pyval" where
  "dset k x v = PDict (AList.update k x (dict_rows v))"

definition ddel :: "string \<Rightarrow> pyval \<Rightarrow> pyval" where
  "ddel k v = PDict (AList.delete k (dict_rows v))"

fun ev_stamp :: "pyval \<Rightarrow> rat" where
  "ev_stamp (PInt n) = (if n > 0 then of_int n else 0)"
| "ev_stamp (PFloat (Fin q)) = (if q > 0 then q else 0)"
| "ev_stamp (PStr s) = text_instant s"
| "ev_stamp _ = 0"

definition iso_or_none :: "rat \<Rightarrow> pyval res" where
  "iso_or_none t = (if t = 0 then Inr PNone else bindR (iso t) (\<lambda>s. Inr (PStr s)))"

definition bounded_number :: "pyval \<Rightarrow> string \<Rightarrow> rat \<Rightarrow> rat \<Rightarrow> rat" where
  "bounded_number config k preset minimum =
     (if has_key config k then (case py_float (getd config k) of Some (Fin q) \<Rightarrow> max minimum q | _ \<Rightarrow> preset)
      else max minimum preset)"

definition text_in :: "pyval \<Rightarrow> string list \<Rightarrow> bool" where
  "text_in v names = (case v of PStr s \<Rightarrow> s \<in> set names | _ \<Rightarrow> False)"

definition group_of :: "pyval \<Rightarrow> string \<Rightarrow> pyval" where
  "group_of v k = py_or (getd v k) (PDict [])"

definition list_of :: "pyval \<Rightarrow> string \<Rightarrow> pyval list" where
  "list_of v k = as_list (getd v k)"

definition health_of :: "pyval \<Rightarrow> pyval" where
  "health_of thesis = group_of thesis ''analysis_health''"

definition with_health :: "pyval \<Rightarrow> pyval \<Rightarrow> pyval" where
  "with_health thesis h = dset ''analysis_health'' h thesis"

text \<open>\<open>thesis["wallet_activity_checks"]\<close>, by owner.\<close>

definition audits_of :: "pyval \<Rightarrow> (string \<times> pyval) list" where
  "audits_of thesis = dict_rows (getd thesis ''wallet_activity_checks'')"

section \<open>What counts as progress\<close>

definition unresolved :: "pyval \<Rightarrow> bool" where
  "unresolved thesis \<longleftrightarrow> \<not> text_in (getd thesis ''status'') [''closed'', ''invalidated''] \<and>
     (text_in (getd thesis ''status'') [''unknown'', ''weakening''] \<or>
      getd thesis ''original_sale_history_status'' = PStr ''unknown'' \<or>
      text_in (getd thesis ''balance_status'') [''pending'', ''partial'', ''outflow''] \<or>
      truthy (getd thesis ''wallet_activity'') \<and> \<not> truthy (getd (getd thesis ''wallet_activity'') ''interpretation_complete''))"

definition balance_facts :: "pyval \<Rightarrow> pyval" where
  "balance_facts thesis = PList (map (\<lambda>row. PDict [(''owner'', getd row ''owner''), (''balance'', getd row ''current_balance''),
       (''cap'', getd row ''current_retained_tokens''), (''verified'', PBool (ev_stamp (getd row ''checked_at'') \<noteq> 0))])
     (filter (\<lambda>row. is_dict row \<and> truthy (getd row ''owner'')) (list_of thesis ''cohort'')))"

definition legacy_missing :: "pyval \<Rightarrow> bool" where
  "legacy_missing thesis \<longleftrightarrow> PStr ''legacy_original_sale_history_not_reconstructed'' \<in> set (list_of thesis ''original_sale_history_issues'')"

definition audit_counts :: "bool \<Rightarrow> pyval \<Rightarrow> bool" where
  "audit_counts legacy audit \<longleftrightarrow> truthy (getd audit ''events'') \<or> truthy (getd audit ''archived_event_count'') \<or>
     \<not> legacy \<and> getd audit ''complete_through'' \<noteq> PNone"

definition audit_facts :: "(pyval \<Rightarrow> pyval) \<Rightarrow> bool \<Rightarrow> pyval \<Rightarrow> pyval" where
  "audit_facts digest legacy audit = PDict [
     (''complete_through'', if legacy then PNone else getd audit ''complete_through''),
     (''events'', py_or (getd audit ''archived_events_digest'') (digest (group_of audit ''events'')))]"

definition history_facts :: "(pyval \<Rightarrow> pyval) \<Rightarrow> pyval \<Rightarrow> pyval" where
  "history_facts digest thesis = (let legacy = legacy_missing thesis in PDict [
     (''owners'', PDict (map (\<lambda>(owner, audit). (owner, audit_facts digest legacy audit))
        (filter (\<lambda>(owner, audit). audit_counts legacy audit) (audits_of thesis)))),
     (''sales'', group_of thesis ''proven_sales''),
     (''movements'', group_of thesis ''cohort_movement_events''),
     (''history_status'', getd thesis ''original_sale_history_status''),
     (''confirmation'', getd (group_of thesis ''signal_confirmation'') ''status'')])"

definition balance_signature :: "(pyval \<Rightarrow> pyval) \<Rightarrow> pyval \<Rightarrow> pyval" where
  "balance_signature digest thesis = digest (balance_facts thesis)"

definition history_signature :: "(pyval \<Rightarrow> pyval) \<Rightarrow> pyval \<Rightarrow> pyval" where
  "history_signature digest thesis = digest (history_facts digest thesis)"

section \<open>The health of an investigation\<close>

definition evidence_times :: "pyval \<Rightarrow> rat list" where
  "evidence_times thesis =
     [ev_stamp (py_or (getd thesis ''captured_at'') (getd thesis ''signal_at'')), ev_stamp (getd thesis ''last_complete_check_at'')] @
     map (\<lambda>row. ev_stamp (getd row ''checked_at''))
       (filter (\<lambda>row. is_dict row \<and> getd row ''current_balance'' \<noteq> PNone) (list_of thesis ''cohort'')) @
     map (\<lambda>(owner, audit). ev_stamp (getd audit ''checked_at''))
       (filter (\<lambda>(owner, audit). getd audit ''complete_through'' \<noteq> PNone) (audits_of thesis))"

definition first_progress :: "pyval \<Rightarrow> rat \<Rightarrow> rat" where
  "first_progress thesis now = (case filter (\<lambda>v. 0 < v \<and> v \<le> now) (evidence_times thesis) of [] \<Rightarrow> now | ts \<Rightarrow> Max (set ts))"

definition health_current :: "pyval \<Rightarrow> bool" where
  "health_current thesis \<longleftrightarrow> py_eq (getd (health_of thesis) ''version'') (PInt 1)"

definition new_health :: "(pyval \<Rightarrow> pyval) \<Rightarrow> pyval \<Rightarrow> pyval \<Rightarrow> pyval" where
  "new_health digest progress thesis =
     dset ''_history_signature'' (history_signature digest thesis) (dset ''_balance_signature'' (balance_signature digest thesis)
       (dset ''repeat_error_count'' (PInt 0) (dset ''last_progress_at'' progress (dset ''status'' (PStr ''active'')
         (dset ''version'' (PInt 1) (health_of thesis))))))"

definition ensure_health :: "(pyval \<Rightarrow> pyval) \<Rightarrow> pyval \<Rightarrow> pyval \<Rightarrow> pyval res" where
  "ensure_health digest observed_at thesis =
     (if health_current thesis then Inr thesis
      else bindR (iso_or_none (first_progress thesis (ev_stamp observed_at)))
        (\<lambda>progress. Inr (with_health thesis (new_health digest progress thesis))))"

text \<open>\<open>round(days, 2)\<close>\<close>

definition round2 :: "rat \<Rightarrow> rat" where
  "round2 q = of_int (round_half_even (q * 100)) / 100"

definition days_since :: "pyval \<Rightarrow> pyval \<Rightarrow> rat" where
  "days_since observed_at progress = max 0 ((ev_stamp observed_at - ev_stamp progress) / 86400)"

definition stalled_by :: "pyval \<Rightarrow> pyval \<Rightarrow> rat \<Rightarrow> bool" where
  "stalled_by config thesis days \<longleftrightarrow> unresolved thesis \<and> days \<ge> bounded_number config ''analysis_stall_days'' 7 1"

definition health_status :: "pyval \<Rightarrow> pyval \<Rightarrow> rat \<Rightarrow> string" where
  "health_status config thesis days =
     (let h = health_of thesis; stalled = stalled_by config thesis days;
          archive_days = max (bounded_number config ''analysis_stall_days'' 7 1) (bounded_number config ''analysis_archive_days'' 30 1) in
      if truthy (getd h ''archive_error'') \<and> (truthy (getd h ''_cold'') \<or> stalled \<and> days \<ge> archive_days) then ''archive_pending''
      else if truthy (getd h ''_cold'') then ''archived'' else if stalled then ''stalled'' else ''active'')"

definition history_interval :: "pyval \<Rightarrow> rat" where
  "history_interval config = bounded_number config ''analysis_stalled_history_retry_minutes'' 720 60 * 60"

definition next_retry :: "pyval \<Rightarrow> pyval \<Rightarrow> bool \<Rightarrow> rat" where
  "next_retry config h stalled =
     max (if stalled then ev_stamp (getd h ''_last_history_attempt_at'') + history_interval config else 0)
       (ev_stamp (getd h ''_restore_retry_after''))"

definition refreshed :: "(pyval \<Rightarrow> int) \<Rightarrow> pyval \<Rightarrow> pyval \<Rightarrow> rat \<Rightarrow> pyval \<Rightarrow> pyval" where
  "refreshed size_of config t days retry =
     dset ''hot_bytes'' (PInt (size_of (ddel ''analysis_health'' t))) (dset ''next_history_retry_at'' retry
       (dset ''status'' (PStr (health_status config t days))
         (dset ''stalled_days'' (if stalled_by config t days then PFloat (Fin (round2 days)) else PInt 0) (health_of t))))"

definition refresh_health :: "(pyval \<Rightarrow> pyval) \<Rightarrow> (pyval \<Rightarrow> int) \<Rightarrow> pyval \<Rightarrow> pyval \<Rightarrow> pyval \<Rightarrow> pyval res" where
  "refresh_health digest size_of config observed_at thesis =
     bindR (ensure_health digest observed_at thesis) (\<lambda>t.
     bindR (dict_item (health_of t) ''last_progress_at'') (\<lambda>progress.
       let days = days_since observed_at progress in
     bindR (iso_or_none (next_retry config (health_of t) (stalled_by config t days))) (\<lambda>retry.
       Inr (with_health t (refreshed size_of config t days retry)))))"

definition signatures_changed :: "(pyval \<Rightarrow> pyval) \<Rightarrow> pyval \<Rightarrow> bool" where
  "signatures_changed digest t \<longleftrightarrow> balance_signature digest t \<noteq> getd (health_of t) ''_balance_signature'' \<or>
     history_signature digest t \<noteq> getd (health_of t) ''_history_signature''"

definition note_progress :: "pyval \<Rightarrow> bool \<Rightarrow> pyval \<Rightarrow> pyval" where
  "note_progress observed_at changed h =
     (if \<not> changed then h
      else (let h1 = dset ''repeat_error_count'' (PInt 0) (dset ''last_progress_at'' observed_at h)
            in if truthy (getd h ''_cold'') then h1 else ddel ''archive_error'' h1))"

definition note_error :: "string option \<Rightarrow> pyval \<Rightarrow> pyval res" where
  "note_error error h = (case error of
      None \<Rightarrow> Inr h
    | Some e \<Rightarrow> if e = [] then Inr h
        else if getd h ''last_error_category'' = PStr e
        then bindR (py_int (py_or (getd h ''repeat_error_count'') (PInt 0))) (\<lambda>n.
               Inr (dset ''repeat_error_count'' (PInt (n + 1)) (dset ''last_error_category'' (PStr e) h)))
        else Inr (dset ''repeat_error_count'' (PInt 1) (dset ''last_error_category'' (PStr e) h)))"

definition note_balance :: "pyval \<Rightarrow> pyval \<Rightarrow> bool \<Rightarrow> bool \<Rightarrow> pyval \<Rightarrow> pyval" where
  "note_balance config observed_at changed success h =
     (if \<not> success then h
      else (let event_at = ev_stamp (getd h ''_retention_event_at'');
                daily = bounded_number config ''analysis_balance_history_sample_hours'' 24 1 * 3600;
                h1 = dset ''last_verified_balance_at'' observed_at h
            in if changed \<or> event_at = 0 \<or> ev_stamp observed_at - event_at \<ge> daily
               then dset ''_retention_event_at'' observed_at h1 else h1))"

definition record_attempt ::
    "(pyval \<Rightarrow> pyval) \<Rightarrow> (pyval \<Rightarrow> int) \<Rightarrow> pyval \<Rightarrow> pyval \<Rightarrow> string option \<Rightarrow> bool \<Rightarrow> pyval \<Rightarrow> (pyval \<times> bool) res" where
  "record_attempt digest size_of config observed_at error success thesis =
     bindR (ensure_health digest observed_at thesis) (\<lambda>t.
       let changed = signatures_changed digest t;
           h = note_progress observed_at changed (dset ''last_attempt_at'' observed_at (health_of t));
           h1 = dset ''_history_signature'' (history_signature digest t) (dset ''_balance_signature'' (balance_signature digest t) h) in
     bindR (note_error error h1) (\<lambda>h2.
     bindR (refresh_health digest size_of config observed_at (with_health t (note_balance config observed_at changed success h2))) (\<lambda>t'.
       Inr (t', changed))))"

definition retention_event_at :: "pyval \<Rightarrow> pyval" where
  "retention_event_at thesis =
     (if \<not> health_current thesis then getd thesis ''last_checked_at''
      else (let event_at = getd (health_of thesis) ''_retention_event_at'' in
            if ev_stamp event_at = ev_stamp (getd thesis ''last_checked_at'') then event_at else PNone))"

definition history_due :: "(pyval \<Rightarrow> pyval) \<Rightarrow> (pyval \<Rightarrow> int) \<Rightarrow> pyval \<Rightarrow> pyval \<Rightarrow> pyval \<Rightarrow> (pyval \<times> bool) res" where
  "history_due digest size_of config observed_at thesis =
     bindR (refresh_health digest size_of config observed_at thesis) (\<lambda>t. let h = health_of t in
       Inr (t, ev_stamp observed_at \<ge> max (ev_stamp (getd h ''next_history_retry_at'')) (ev_stamp (getd h ''_restore_retry_after''))))"

definition mark_history_attempt :: "(pyval \<Rightarrow> pyval) \<Rightarrow> pyval \<Rightarrow> pyval \<Rightarrow> pyval res" where
  "mark_history_attempt digest observed_at thesis =
     bindR (ensure_health digest observed_at thesis) (\<lambda>t. Inr (with_health t (dset ''_last_history_attempt_at'' observed_at (health_of t))))"

definition PUBLIC_FIELDS :: "string list" where
  "PUBLIC_FIELDS = [''version'', ''status'', ''last_progress_at'', ''last_attempt_at'', ''stalled_days'', ''next_history_retry_at'',
     ''repeat_error_count'', ''last_error_category'', ''hot_bytes'', ''last_verified_balance_at'', ''archive_bytes'', ''archive_error'',
     ''archived_at'']"

definition public_health :: "pyval \<Rightarrow> pyval" where
  "public_health thesis = PDict (filter (\<lambda>(k, v). k \<in> set PUBLIC_FIELDS) (dict_rows (health_of thesis)))"

section \<open>The archive\<close>

definition event_payload :: "pyval \<Rightarrow> pyval" where
  "event_payload thesis = PDict (map (\<lambda>(owner, audit). (owner, getd audit ''events''))
     (filter (\<lambda>(owner, audit). truthy (getd audit ''events'')) (audits_of thesis)))"

definition archive_due :: "(pyval \<Rightarrow> pyval) \<Rightarrow> (pyval \<Rightarrow> int) \<Rightarrow> pyval \<Rightarrow> pyval \<Rightarrow> pyval \<Rightarrow> (pyval \<times> bool) res" where
  "archive_due digest size_of config observed_at thesis =
     bindR (refresh_health digest size_of config observed_at thesis) (\<lambda>t.
       let h = health_of t;
           stalled_days = (case py_num (getd h ''stalled_days'') of Some d \<Rightarrow> d | None \<Rightarrow> 0) in
       Inr (t,
         getd h ''status'' \<noteq> PStr ''active'' \<and> \<not> truthy (getd h ''_cold'') \<and>
         stalled_days \<ge> bounded_number config ''analysis_archive_days'' 30 1 \<and>
         ev_stamp observed_at \<ge> ev_stamp (getd h ''_archive_attempt_at'') +
           bounded_number config ''analysis_archive_retry_minutes'' 720 60 * 60 \<and>
         of_int (size_of (event_payload t)) \<ge> bounded_number config ''analysis_archive_min_bytes'' 16384 1024))"

definition cold_snapshot :: "pyval \<Rightarrow> pyval res" where
  "cold_snapshot thesis =
     bindR (dict_item thesis ''token_address'') (\<lambda>token. bindR (dict_item thesis ''pool_address'') (\<lambda>pool.
     bindR (if truthy (getd thesis ''cohort_id'') then Inr (getd thesis ''cohort_id'') else dict_item thesis ''signal_at'') (\<lambda>cohort.
     bindR (dict_item thesis ''signal_at'') (\<lambda>signal.
       Inr (PDict [(''version'', PInt 1), (''token_address'', token), (''pool_address'', pool), (''cohort_id'', cohort),
         (''signal_at'', signal), (''evidence'', PDict [(''wallet_activity_events'', event_payload thesis)])])))))"

definition prune_audit :: "(pyval \<Rightarrow> pyval) \<Rightarrow> pyval \<Rightarrow> pyval" where
  "prune_audit digest audit = (let events = group_of audit ''events'' in
     dset ''archived_events_digest'' (digest events)
       (dset ''archived_event_count'' (PInt (int (length (dict_rows events)))) (ddel ''events'' audit)))"

definition with_audits :: "pyval \<Rightarrow> (string \<times> pyval) list \<Rightarrow> pyval" where
  "with_audits thesis audits = (if is_dict (getd thesis ''wallet_activity_checks'')
     then dset ''wallet_activity_checks'' (PDict audits) thesis else thesis)"

definition prune_audits :: "(pyval \<Rightarrow> pyval) \<Rightarrow> pyval \<Rightarrow> pyval" where
  "prune_audits digest t = with_audits t (map (\<lambda>(owner, audit). (owner, prune_audit digest audit)) (audits_of t))"

definition cold_health :: "pyval \<Rightarrow> pyval \<Rightarrow> pyval \<Rightarrow> pyval \<Rightarrow> pyval \<Rightarrow> pyval" where
  "cold_health ref bytes observed_at fingerprint h =
     ddel ''archive_error'' (dset ''_cold'' (PBool True) (dset ''_archive_fingerprint'' fingerprint
       (dset ''archive_bytes'' bytes (dset ''archived_at'' observed_at (dset ''archive_ref'' ref h)))))"

text \<open>The result and the thesis it leaves: a reference without a size raises after the events are gone.\<close>

definition prune_archived_events :: "(pyval \<Rightarrow> pyval) \<Rightarrow> pyval \<Rightarrow> pyval \<Rightarrow> pyval \<Rightarrow> pyval \<Rightarrow> unit res \<times> pyval" where
  "prune_archived_events digest ref observed_at fingerprint thesis =
     (case ensure_health digest observed_at thesis of
        Inl e \<Rightarrow> (Inl e, thesis)
      | Inr t \<Rightarrow> (case dict_item ref ''bytes'' of
          Inl e \<Rightarrow> (Inl e, prune_audits digest t)
        | Inr bytes \<Rightarrow> (Inr (), with_health (prune_audits digest t) (cold_health ref bytes observed_at fingerprint (health_of t)))))"

definition restore_audit :: "(string \<times> pyval) list \<Rightarrow> string \<times> pyval \<Rightarrow> string \<times> pyval" where
  "restore_audit owners = (\<lambda>(owner, audit). (owner, ddel ''archived_events_digest'' (ddel ''archived_event_count''
     (dset ''events'' (case map_of owners owner of Some events \<Rightarrow> events | None \<Rightarrow> PDict []) audit))))"

definition restore_archived_events :: "(pyval \<Rightarrow> pyval) \<Rightarrow> pyval \<Rightarrow> pyval \<Rightarrow> pyval res" where
  "restore_archived_events digest snap thesis =
     bindR (cold_snapshot thesis) (\<lambda>expected.
     bindR (guardR (list_all (\<lambda>k. py_eq (getd snap k) (getd expected k))
         [''version'', ''token_address'', ''pool_address'', ''cohort_id'', ''signal_at'']) (ValueError ''analysis_archive_identity_mismatch'')) (\<lambda>_.
     let owners = getd (group_of snap ''evidence'') ''wallet_activity_events'' in
     bindR (guardR (is_dict owners \<and> digest owners = getd (health_of thesis) ''_archive_fingerprint'')
         (ValueError ''analysis_archive_evidence_mismatch'')) (\<lambda>_.
     bindR (guardR (list_all (\<lambda>(owner, events). map_of (audits_of thesis) owner \<noteq> None \<and> is_dict events) (dict_rows owners))
         (ValueError ''analysis_archive_owner_mismatch'')) (\<lambda>_.
       Inr (with_health (with_audits thesis (map (restore_audit (dict_rows owners)) (audits_of thesis)))
         (dset ''_cold'' (PBool False) (health_of thesis)))))))"


section \<open>The scanner's use of the archive\<close>

definition trunc :: "rat \<Rightarrow> int" where
  "trunc q = (if q \<ge> 0 then \<lfloor>q\<rfloor> else \<lceil>q\<rceil>)"

definition seconds_of :: "rat \<Rightarrow> int" where
  "seconds_of q = trunc (if q > 10000000000 then q / 1000 else q)"

text \<open>A naive text is in the zone of the machine, taken to be UTC.\<close>

fun parse_timestamp :: "pyval \<Rightarrow> int res" where
  "parse_timestamp (PInt n) = Inr (seconds_of (of_int n))"
| "parse_timestamp (PBool b) = Inr (if b then 1 else 0)"
| "parse_timestamp (PFloat (Fin q)) = Inr (seconds_of q)"
| "parse_timestamp (PFloat NaN) = Inl (ValueError ''cannot convert float NaN to integer'')"
| "parse_timestamp (PFloat _) = Inl OverflowError"
| "parse_timestamp (PStr s) = (let text = py_strip s in
     if text = [] then Inr 0
     else if isdigit text then Inr (seconds_of (of_nat (int_of_dec text)))
     else (case fromisoformat (expand_z text) of
         Inl e \<Rightarrow> Inr 0
       | Inr dt \<Rightarrow> Inr (trunc (Py_Time.timestamp dt (case dt_tz dt of None \<Rightarrow> 0 | Some off \<Rightarrow> off)))))"
| "parse_timestamp _ = Inr 0"

text \<open>\<open>max(3600, float(config.get("analysis_archive_retry_minutes", 720)) * 60)\<close>\<close>

definition restore_delay :: "pyval \<Rightarrow> rat res" where
  "restore_delay config = (case py_float (if has_key config ''analysis_archive_retry_minutes''
        then getd config ''analysis_archive_retry_minutes'' else PInt 720) of
      None \<Rightarrow> Inl TypeError
    | Some (Fin q) \<Rightarrow> Inr (max 3600 (q * 60))
    | Some PosInf \<Rightarrow> Inl OverflowError
    | Some _ \<Rightarrow> Inr 3600)"

type_synonym 'w archive_reader = "pyval \<Rightarrow> 'w \<Rightarrow> pyval res \<times> 'w"
type_synonym 'w archive_writer = "pyval \<Rightarrow> 'w \<Rightarrow> pyval res \<times> 'w"

definition restore_failed :: "(pyval \<Rightarrow> pyval) \<Rightarrow> (pyval \<Rightarrow> int) \<Rightarrow> pyval \<Rightarrow> pyval \<Rightarrow> pyval \<Rightarrow> pyval res" where
  "restore_failed digest size_of config observed_at t =
     bindR (mark_history_attempt digest observed_at t) (\<lambda>t1.
     bindR (parse_timestamp observed_at) (\<lambda>now. bindR (restore_delay config) (\<lambda>delay.
     bindR (iso_or_none (of_int now + delay)) (\<lambda>retry.
     bindR (record_attempt digest size_of config observed_at (Some ''archive_restore_unavailable'') False
         (with_health t1 (dset ''_restore_retry_after'' retry (dset ''archive_error'' (PStr ''archive_restore_unavailable'') (health_of t1)))))
       (\<lambda>(t2, changed). Inr t2)))))"

definition hydrate_analysis_receipts ::
    "'w archive_reader \<Rightarrow> (pyval \<Rightarrow> pyval) \<Rightarrow> (pyval \<Rightarrow> int) \<Rightarrow> pyval \<Rightarrow> pyval \<Rightarrow> pyval \<Rightarrow> 'w \<Rightarrow> (pyval \<times> bool) res \<times> 'w" where
  "hydrate_analysis_receipts read digest size_of config observed_at thesis w =
     (case ensure_health digest observed_at thesis of
        Inl e \<Rightarrow> (Inl e, w)
      | Inr t \<Rightarrow>
          if \<not> truthy (getd (health_of t) ''_cold'') then (Inr (t, True), w)
          else (case (case dict_item (health_of t) ''archive_ref'' of Inl e \<Rightarrow> (Inl e, w) | Inr ref \<Rightarrow> read ref w) of
              (answer, w') \<Rightarrow>
                (case bindR answer (\<lambda>snap. restore_archived_events digest snap t) of
                   Inr t1 \<Rightarrow> (Inr (with_health t1 (ddel ''_restore_retry_after'' (ddel ''archive_error'' (health_of t1))), True), w')
                 | Inl e \<Rightarrow> (bindR (restore_failed digest size_of config observed_at t) (\<lambda>t1. Inr (t1, False)), w'))))"

record archive_stats =
  as_attempts :: nat
  as_archived :: nat
  as_deferred :: nat
  as_reused :: nat

definition write_failed :: "pyval \<Rightarrow> pyval" where
  "write_failed t = with_health t (dset ''archive_error'' (PStr ''archive_write_unavailable'') (health_of t))"

text \<open>The guarded write of one archive: the thesis it leaves and whether it was archived.\<close>

definition write_archive ::
    "'w archive_writer \<Rightarrow> (pyval \<Rightarrow> pyval) \<Rightarrow> pyval \<Rightarrow> pyval \<Rightarrow> pyval \<Rightarrow> 'w \<Rightarrow> (pyval \<times> bool) \<times> 'w" where
  "write_archive write digest observed_at fingerprint t w =
     (case cold_snapshot t of
        Inl e \<Rightarrow> ((write_failed t, False), w)
      | Inr snap \<Rightarrow> (case write snap w of
          (Inl e, w') \<Rightarrow> ((write_failed t, False), w')
        | (Inr ref, w') \<Rightarrow> (case prune_archived_events digest ref observed_at fingerprint t of
            (Inl e, t1) \<Rightarrow> ((write_failed t1, False), w')
          | (Inr _, t1) \<Rightarrow> ((t1, True), w'))))"

definition archive_thesis ::
    "'w archive_writer \<Rightarrow> (pyval \<Rightarrow> pyval) \<Rightarrow> (pyval \<Rightarrow> int) \<Rightarrow> pyval \<Rightarrow> pyval \<Rightarrow> nat \<Rightarrow> pyval \<Rightarrow> archive_stats \<Rightarrow> 'w
      \<Rightarrow> (pyval \<times> archive_stats) res \<times> 'w" where
  "archive_thesis write digest size_of config observed_at quota thesis st w =
     (if \<not> truthy (getd thesis ''pool_address'') \<or> \<not> truthy (getd thesis ''token_address'') then (Inr (thesis, st), w)
      else (case refresh_health digest size_of config observed_at thesis of
          Inl e \<Rightarrow> (Inl e, w)
        | Inr t \<Rightarrow>
            let h = health_of t; fingerprint = digest (event_payload t) in
            if truthy (getd h ''_cold'') \<or> getd h ''status'' = PStr ''active'' then (Inr (t, st), w)
            else if truthy (getd h ''archive_ref'') \<and> fingerprint = getd h ''_archive_fingerprint''
            then (case prune_archived_events digest (getd h ''archive_ref'') observed_at fingerprint t of
                (Inl e, t1) \<Rightarrow> (Inl e, w)
              | (Inr _, t1) \<Rightarrow> (Inr (t1, st\<lparr>as_reused := as_reused st + 1\<rparr>), w))
            else (case archive_due digest size_of config observed_at t of
                Inl e \<Rightarrow> (Inl e, w)
              | Inr (t1, due) \<Rightarrow>
                  if \<not> due \<or> quota \<le> as_attempts st then (Inr (t1, st), w)
                  else (let t2 = with_health t1 (dset ''_archive_attempt_at'' observed_at (health_of t1));
                            st1 = st\<lparr>as_attempts := as_attempts st + 1\<rparr> in
                    (case write_archive write digest observed_at fingerprint t2 w of
                      ((t3, ok), w') \<Rightarrow>
                        (bindR (refresh_health digest size_of config observed_at t3) (\<lambda>t4.
                           Inr (t4, if ok then st1\<lparr>as_archived := as_archived st1 + 1\<rparr>
                                    else st1\<lparr>as_deferred := as_deferred st1 + 1\<rparr>)), w'))))))"

section \<open>Fields\<close>

lemma getd_dset [simp]: "getd (dset k x v) j = (if j = k then x else getd v j)"
  by (cases v) (simp_all add: dset_def dict_rows_def)

lemma getd_ddel [simp]: "getd (ddel k v) j = (if j = k then PNone else getd v j)"
  by (cases v) (simp_all add: ddel_def dict_rows_def)

lemma is_dict_dset [simp]: "is_dict (dset k x v)" and is_dict_ddel [simp]: "is_dict (ddel k v)"
  by (simp_all add: dset_def ddel_def)

lemma getd_with_health [simp]: "getd (with_health t h) k = (if k = ''analysis_health'' then h else getd t k)"
  by (simp add: with_health_def)

lemma group_of_dict: "is_dict (getd v k) \<Longrightarrow> group_of v k = getd v k"
  by (cases "getd v k") (auto simp: group_of_def py_or_def)

lemma health_of_with_health [simp]: "is_dict h \<Longrightarrow> health_of (with_health t h) = h"
  unfolding health_of_def by (subst group_of_dict) simp_all

lemma audits_of_with_health [simp]: "audits_of (with_health t h) = audits_of t"
  by (simp add: audits_of_def)

lemma audits_of_with_audits: "length xs = length (audits_of t) \<Longrightarrow> audits_of (with_audits t xs) = xs"
  by (cases "getd t ''wallet_activity_checks''") (simp_all add: with_audits_def audits_of_def dict_rows_def)

lemma getd_with_audits: "k \<noteq> ''wallet_activity_checks'' \<Longrightarrow> getd (with_audits t xs) k = getd t k"
  by (simp add: with_audits_def)

lemma event_payload_with_health [simp]: "event_payload (with_health t h) = event_payload t"
  by (simp add: event_payload_def)

section \<open>Operations on the health only\<close>

definition ARCHIVE_KEYS :: "string list" where
  "ARCHIVE_KEYS = [''_cold'', ''archive_ref'', ''_archive_fingerprint'']"

definition health_only :: "pyval \<Rightarrow> pyval \<Rightarrow> bool" where
  "health_only t t' \<longleftrightarrow> (\<forall>k. k \<noteq> ''analysis_health'' \<longrightarrow> getd t' k = getd t k) \<and>
     (\<forall>k \<in> set ARCHIVE_KEYS. getd (health_of t') k = getd (health_of t) k)"

lemma health_only_refl [simp]: "health_only t t"
  by (simp add: health_only_def)

lemma health_only_trans: "health_only a b \<Longrightarrow> health_only b c \<Longrightarrow> health_only a c"
  by (simp add: health_only_def)

lemma health_only_with_health:
  "is_dict h \<Longrightarrow> \<forall>k \<in> set ARCHIVE_KEYS. getd h k = getd (health_of t) k \<Longrightarrow> health_only t (with_health t h)"
  by (simp add: health_only_def)

lemma ensure_health_only: "ensure_health digest obs t = Inr t' \<Longrightarrow> health_only t t'"
  by (auto simp: ensure_health_def bindR_eq_Inr new_health_def ARCHIVE_KEYS_def intro!: health_only_with_health split: if_splits)

lemma refresh_health_only:
  assumes "refresh_health digest size_of config obs t = Inr t'"
  shows "health_only t t'"
proof -
  from assms obtain a days retry where a: "ensure_health digest obs t = Inr a"
    and t': "t' = with_health a (refreshed size_of config a days retry)"
    by (auto simp: refresh_health_def bindR_eq_Inr Let_def)
  have "health_only a t'" unfolding t' by (rule health_only_with_health) (simp_all add: refreshed_def ARCHIVE_KEYS_def)
  with ensure_health_only [OF a] show ?thesis by (rule health_only_trans)
qed

lemma archive_due_only: "archive_due digest size_of config obs t = Inr (t', due) \<Longrightarrow> health_only t t'"
  by (auto simp: archive_due_def bindR_eq_Inr Let_def dest: refresh_health_only)

lemma mark_attempt_only:
  assumes "mark_history_attempt digest obs t = Inr t'"
  shows "health_only t t'"
proof -
  from assms obtain a where a: "ensure_health digest obs t = Inr a"
    and t': "t' = with_health a (dset ''_last_history_attempt_at'' obs (health_of a))"
    by (auto simp: mark_history_attempt_def bindR_eq_Inr)
  have "health_only a t'" unfolding t' by (rule health_only_with_health) (simp_all add: ARCHIVE_KEYS_def)
  with ensure_health_only [OF a] show ?thesis by (rule health_only_trans)
qed

lemma archive_key_dset: "k \<in> set ARCHIVE_KEYS \<Longrightarrow> j \<notin> set ARCHIVE_KEYS \<Longrightarrow> getd (dset j x v) k = getd v k"
  by auto

lemma attempt_keys: "''_history_signature'' \<notin> set ARCHIVE_KEYS" "''_balance_signature'' \<notin> set ARCHIVE_KEYS"
  "''last_attempt_at'' \<notin> set ARCHIVE_KEYS"
  by (simp_all add: ARCHIVE_KEYS_def)

lemma note_progress_keeps: "is_dict h \<Longrightarrow> is_dict (note_progress obs changed h)"
  "k \<in> set ARCHIVE_KEYS \<Longrightarrow> getd (note_progress obs changed h) k = getd h k"
  by (auto simp: note_progress_def Let_def ARCHIVE_KEYS_def)

lemma note_error_keeps:
  assumes "note_error error h = Inr h'" "is_dict h"
  shows "is_dict h' \<and> (\<forall>k \<in> set ARCHIVE_KEYS. getd h' k = getd h k)"
  using assms by (auto simp: note_error_def bindR_eq_Inr ARCHIVE_KEYS_def split: option.splits if_splits)

lemma note_balance_keeps: "is_dict h \<Longrightarrow> is_dict (note_balance config obs changed success h)"
  "k \<in> set ARCHIVE_KEYS \<Longrightarrow> getd (note_balance config obs changed success h) k = getd h k"
  by (auto simp: note_balance_def Let_def ARCHIVE_KEYS_def)

lemma record_attempt_only:
  assumes "record_attempt digest size_of config obs error success t = Inr (t', changed)"
  shows "health_only t t'"
proof -
  obtain a where a: "ensure_health digest obs t = Inr a"
    using assms by (auto simp: record_attempt_def bindR_eq_Inr)
  define h where "h = dset ''_history_signature'' (history_signature digest a) (dset ''_balance_signature'' (balance_signature digest a)
      (note_progress obs (signatures_changed digest a) (dset ''last_attempt_at'' obs (health_of a))))"
  have "bindR (note_error error h) (\<lambda>h2. bindR (refresh_health digest size_of config obs
      (with_health a (note_balance config obs (signatures_changed digest a) success h2))) (\<lambda>t'. Inr (t', signatures_changed digest a))) =
      Inr (t', changed)"
    using assms a unfolding record_attempt_def Let_def h_def by simp
  then obtain h2 where h2: "note_error error h = Inr h2"
    and r: "refresh_health digest size_of config obs (with_health a (note_balance config obs (signatures_changed digest a) success h2)) = Inr t'"
    unfolding bindR_eq_Inr by blast
  have h: "is_dict h \<and> (\<forall>k \<in> set ARCHIVE_KEYS. getd h k = getd (health_of a) k)"
    unfolding h_def by (simp add: attempt_keys archive_key_dset note_progress_keeps del: getd_dset)
  with note_error_keeps [OF h2] have "health_only a (with_health a (note_balance config obs (signatures_changed digest a) success h2))"
    by (intro health_only_with_health) (simp_all add: note_balance_keeps)
  with ensure_health_only [OF a] refresh_health_only [OF r] show ?thesis by (blast intro: health_only_trans)
qed

lemma restore_failed_only:
  assumes "restore_failed digest size_of config obs t = Inr t'"
  shows "health_only t t'"
proof -
  obtain a where a: "mark_history_attempt digest obs t = Inr a"
    using assms unfolding restore_failed_def bindR_eq_Inr by blast
  then obtain retry where
    r: "\<exists>changed. record_attempt digest size_of config obs (Some ''archive_restore_unavailable'') False
      (with_health a (dset ''_restore_retry_after'' retry (dset ''archive_error'' (PStr ''archive_restore_unavailable'') (health_of a)))) = Inr (t', changed)"
    using assms unfolding restore_failed_def bindR_eq_Inr by (elim exE conjE) (auto split: prod.splits)
  have "health_only a (with_health a (dset ''_restore_retry_after'' retry (dset ''archive_error'' (PStr ''archive_restore_unavailable'') (health_of a))))"
    by (intro health_only_with_health) (simp_all add: ARCHIVE_KEYS_def)
  with mark_attempt_only [OF a] r show ?thesis by (blast intro: health_only_trans record_attempt_only)
qed

section \<open>Receipts, hot and archived\<close>

definition events_in :: "pyval \<Rightarrow> pyval" where
  "events_in snap = getd (group_of snap ''evidence'') ''wallet_activity_events''"

definition audit_keys :: "string list" where
  "audit_keys = [''events'', ''archived_event_count'', ''archived_events_digest'']"

text \<open>An audit beside the one it started as: with its events, or with their count and digest in their place.\<close>

definition audit_form :: "(pyval \<Rightarrow> pyval) \<Rightarrow> bool \<Rightarrow> string \<times> pyval \<Rightarrow> string \<times> pyval \<Rightarrow> bool" where
  "audit_form digest cold = (\<lambda>(o0, a0) (o1, a1). o1 = o0 \<and> (\<forall>k. k \<notin> set audit_keys \<longrightarrow> getd a1 k = getd a0 k) \<and>
     (if cold then getd a1 ''events'' = PNone \<and>
        getd a1 ''archived_event_count'' = PInt (int (length (dict_rows (group_of a0 ''events'')))) \<and>
        getd a1 ''archived_events_digest'' = digest (group_of a0 ''events'')
      else group_of a1 ''events'' = group_of a0 ''events'' \<and> getd a1 ''archived_event_count'' = PNone \<and>
        getd a1 ''archived_events_digest'' = PNone))"

definition plain_audits :: "(string \<times> pyval) list \<Rightarrow> bool" where
  "plain_audits audits \<longleftrightarrow> distinct (map fst audits) \<and> list_all (\<lambda>(owner, a). is_dict (group_of a ''events'') \<and>
     getd a ''archived_event_count'' = PNone \<and> getd a ''archived_events_digest'' = PNone) audits"

lemma audit_form_prune:
  assumes "audit_form digest False (o0, a0) (o1, a1)"
  shows "audit_form digest True (o0, a0) (o1, prune_audit digest a1)"
  using assms by (auto simp: audit_form_def prune_audit_def Let_def audit_keys_def)

lemma truthy_group: "truthy (getd v k) \<longleftrightarrow> truthy (group_of v k)"
  by (cases "truthy (getd v k)") (simp_all add: group_of_def)

lemma audit_facts_form:
  assumes "audit_form digest cold (o0, a0) (o1, a1)" "getd a0 ''archived_event_count'' = PNone" "getd a0 ''archived_events_digest'' = PNone"
    and "is_dict (group_of a0 ''events'')" "\<And>v. truthy (digest v)"
  shows "audit_facts digest legacy a1 = audit_facts digest legacy a0" "audit_counts legacy a1 = audit_counts legacy a0"
proof -
  have through: "getd a1 ''complete_through'' = getd a0 ''complete_through''"
    using assms(1) by (simp add: audit_form_def audit_keys_def)
  have len: "dict_rows (group_of a0 ''events'') \<noteq> [] \<longleftrightarrow> truthy (group_of a0 ''events'')"
    using assms(4) by (cases "group_of a0 ''events''") (auto simp: dict_rows_def)
  show "audit_facts digest legacy a1 = audit_facts digest legacy a0"
    using assms through by (cases cold) (simp_all add: audit_facts_def audit_form_def)
  show "audit_counts legacy a1 = audit_counts legacy a0"
  proof (cases cold)
    case True
    then show ?thesis using assms through len by (simp add: audit_counts_def audit_form_def truthy_group [of a0])
  next
    case False
    then show ?thesis using assms through by (simp add: audit_counts_def audit_form_def truthy_group)
  qed
qed

lemma filter_map_form:
  assumes "list_all2 R xs ys" "\<And>x y. x \<in> set xs \<Longrightarrow> R x y \<Longrightarrow> P y = P x \<and> (P x \<longrightarrow> f y = f x)"
  shows "map f (filter P ys) = map f (filter P xs)"
  using assms
proof (induction xs ys rule: list_all2_induct)
  case Nil
  then show ?case by simp
next
  case (Cons x xs y ys)
  have "P y = P x \<and> (P x \<longrightarrow> f y = f x)" by (rule Cons.prems) (simp_all add: Cons.hyps)
  moreover have "map f (filter P ys) = map f (filter P xs)" by (rule Cons.IH) (use Cons.prems in auto)
  ultimately show ?case by simp
qed

lemma history_facts_form:
  assumes "list_all2 (audit_form digest cold) (audits_of t0) (audits_of t)" "plain_audits (audits_of t0)" "\<And>v. truthy (digest v)"
    and "\<And>k. k \<noteq> ''analysis_health'' \<Longrightarrow> k \<noteq> ''wallet_activity_checks'' \<Longrightarrow> getd t k = getd t0 k"
  shows "history_facts digest t = history_facts digest t0"
proof -
  have legacy: "legacy_missing t = legacy_missing t0" by (simp add: legacy_missing_def list_of_def assms(4))
  define l where "l = legacy_missing t0"
  have "map (\<lambda>(owner, audit). (owner, audit_facts digest l audit)) (filter (\<lambda>(owner, audit). audit_counts l audit) (audits_of t)) =
      map (\<lambda>(owner, audit). (owner, audit_facts digest l audit)) (filter (\<lambda>(owner, audit). audit_counts l audit) (audits_of t0))"
  proof (rule filter_map_form [OF assms(1)])
    fix x y assume x: "x \<in> set (audits_of t0)" and form: "audit_form digest cold x y"
    obtain o0 a0 o1 a1 where xy: "x = (o0, a0)" "y = (o1, a1)" by (cases x; cases y)
    have plain: "getd a0 ''archived_event_count'' = PNone" "getd a0 ''archived_events_digest'' = PNone" "is_dict (group_of a0 ''events'')"
      using assms(2) x xy by (auto simp: plain_audits_def list_all_iff)
    have "o1 = o0" using form xy by (simp add: audit_form_def)
    with xy audit_facts_form [OF form [unfolded xy] plain assms(3), of l]
    show "(case y of (owner, audit) \<Rightarrow> audit_counts l audit) = (case x of (owner, audit) \<Rightarrow> audit_counts l audit) \<and>
      ((case x of (owner, audit) \<Rightarrow> audit_counts l audit) \<longrightarrow>
       (case y of (owner, audit) \<Rightarrow> (owner, audit_facts digest l audit)) = (case x of (owner, audit) \<Rightarrow> (owner, audit_facts digest l audit)))"
      by simp
  qed
  with legacy show ?thesis by (simp add: history_facts_def l_def group_of_def assms(4) Let_def)
qed

lemma event_payload_form:
  assumes "list_all2 (audit_form digest False) (audits_of t0) (audits_of t)"
  shows "event_payload t = event_payload t0"
proof -
  have "map (\<lambda>(owner, audit). (owner, getd audit ''events'')) (filter (\<lambda>(owner, audit). truthy (getd audit ''events'')) (audits_of t)) =
      map (\<lambda>(owner, audit). (owner, getd audit ''events'')) (filter (\<lambda>(owner, audit). truthy (getd audit ''events'')) (audits_of t0))"
    (is "map ?f (filter ?P _) = _")
  proof (rule filter_map_form [OF assms])
    fix x y assume form: "audit_form digest False x y"
    obtain o0 a0 o1 a1 where xy: "x = (o0, a0)" "y = (o1, a1)" by (cases x; cases y)
    from form xy have eq: "o1 = o0" "group_of a1 ''events'' = group_of a0 ''events''" by (simp_all add: audit_form_def)
    then have "truthy (getd a1 ''events'') = truthy (getd a0 ''events'')" by (simp add: truthy_group)
    moreover from eq this have "truthy (getd a0 ''events'') \<Longrightarrow> getd a1 ''events'' = getd a0 ''events''"
      by (simp add: group_of_def)
    ultimately show "(case y of (owner, audit) \<Rightarrow> truthy (getd audit ''events'')) = (case x of (owner, audit) \<Rightarrow> truthy (getd audit ''events'')) \<and>
      ((case x of (owner, audit) \<Rightarrow> truthy (getd audit ''events'')) \<longrightarrow>
       (case y of (owner, audit) \<Rightarrow> (owner, getd audit ''events'')) = (case x of (owner, audit) \<Rightarrow> (owner, getd audit ''events'')))"
      using eq(1) xy by auto
  qed
  then show ?thesis by (simp add: event_payload_def)
qed

text \<open>The events the archive gives back for an owner are those the audit had.\<close>

lemma payload_lookup:
  assumes "(owner, a) \<in> set audits" "distinct (map fst audits)"
  shows "(case map_of (map (\<lambda>(owner, audit). (owner, getd audit ''events'')) (filter (\<lambda>(owner, audit). truthy (getd audit ''events'')) audits)) owner of
      Some events \<Rightarrow> events | None \<Rightarrow> PDict []) = group_of a ''events''"
  using assms
proof (induction audits)
  case (Cons x xs)
  obtain o1 a1 where x: "x = (o1, a1)" by (cases x)
  show ?case
  proof (cases "o1 = owner")
    case True
    then have "a1 = a" using Cons.prems x by (auto simp: image_iff)
    moreover have "map_of (map (\<lambda>(owner, audit). (owner, getd audit ''events'')) (filter (\<lambda>(owner, audit). truthy (getd audit ''events'')) xs)) owner = None"
      using Cons.prems(2) True x by (force simp: map_of_eq_None_iff)
    ultimately show ?thesis using True x by (simp add: group_of_def py_or_def)
  next
    case False
    with Cons x show ?thesis by auto
  qed
qed simp

lemma restore_form:
  assumes "list_all2 (audit_form digest True) (audits_of t0) audits" "plain_audits (audits_of t0)"
  shows "list_all2 (audit_form digest False) (audits_of t0) (map (restore_audit (dict_rows (event_payload t0))) audits)"
proof -
  have "audit_form digest False x (restore_audit (dict_rows (event_payload t0)) y)"
    if x: "x \<in> set (audits_of t0)" and form: "audit_form digest True x y" for x y
  proof -
    obtain o0 a0 o1 a1 where xy: "x = (o0, a0)" "y = (o1, a1)" by (cases x; cases y)
    have same: "o1 = o0" "\<forall>k. k \<notin> set audit_keys \<longrightarrow> getd a1 k = getd a0 k" using form xy by (simp_all add: audit_form_def)
    have look: "(case map_of (dict_rows (event_payload t0)) o0 of Some events \<Rightarrow> events | None \<Rightarrow> PDict []) = group_of a0 ''events''"
      using payload_lookup [of o0 a0 "audits_of t0"] x xy assms(2) by (simp add: event_payload_def dict_rows_def plain_audits_def)
    have idem: "py_or (group_of a0 ''events'') (PDict []) = group_of a0 ''events''"
      by (simp add: group_of_def py_or_def)
    show ?thesis using same xy look idem
      by (auto simp: audit_form_def restore_audit_def audit_keys_def group_of_def [of "ddel _ _"])
  qed
  then show ?thesis unfolding list_all2_map2 by (rule list.rel_mono_strong [OF assms(1)])
qed

section \<open>The receipts through archiving and restoring\<close>

definition cold :: "pyval \<Rightarrow> bool" where
  "cold t \<longleftrightarrow> truthy (getd (health_of t) ''_cold'')"

definition receipts_inv :: "(pyval \<Rightarrow> pyval) \<Rightarrow> ('w \<Rightarrow> pyval \<Rightarrow> pyval \<Rightarrow> bool) \<Rightarrow> pyval \<Rightarrow> pyval \<Rightarrow> 'w \<Rightarrow> bool" where
  "receipts_inv digest stored t0 t w \<longleftrightarrow>
     (\<forall>k. k \<noteq> ''analysis_health'' \<longrightarrow> k \<noteq> ''wallet_activity_checks'' \<longrightarrow> getd t k = getd t0 k) \<and>
     list_all2 (audit_form digest (cold t)) (audits_of t0) (audits_of t) \<and>
     (truthy (getd (health_of t) ''archive_ref'') \<longrightarrow>
        (\<exists>snap. stored w (getd (health_of t) ''archive_ref'') snap \<and> digest (events_in snap) = getd (health_of t) ''_archive_fingerprint'')) \<and>
     (cold t \<longrightarrow> truthy (getd (health_of t) ''archive_ref'') \<and> getd (health_of t) ''_archive_fingerprint'' = digest (event_payload t0))"

lemma receipts_inv_payload: "receipts_inv digest stored t0 t w \<Longrightarrow> \<not> cold t \<Longrightarrow> event_payload t = event_payload t0"
  by (auto simp: receipts_inv_def intro: event_payload_form)

lemma health_only_inv:
  assumes "receipts_inv digest stored t0 t w" "health_only t t'"
  shows "receipts_inv digest stored t0 t' w"
proof -
  have "cold t' = cold t" "audits_of t' = audits_of t"
    "getd (health_of t') ''archive_ref'' = getd (health_of t) ''archive_ref''"
    "getd (health_of t') ''_archive_fingerprint'' = getd (health_of t) ''_archive_fingerprint''"
    using assms(2) by (simp_all add: health_only_def cold_def audits_of_def ARCHIVE_KEYS_def)
  with assms show ?thesis by (simp add: receipts_inv_def health_only_def)
qed

lemma receipts_inv_store:
  assumes "receipts_inv digest stored t0 t w" "\<And>ref snap. stored w ref snap \<Longrightarrow> stored w' ref snap"
  shows "receipts_inv digest stored t0 t w'"
  unfolding receipts_inv_def
proof (intro conjI impI)
  assume "truthy (getd (health_of t) ''archive_ref'')"
  then obtain snap where "stored w (getd (health_of t) ''archive_ref'') snap" "digest (events_in snap) = getd (health_of t) ''_archive_fingerprint''"
    using assms(1) by (auto simp: receipts_inv_def)
  then show "\<exists>snap. stored w' (getd (health_of t) ''archive_ref'') snap \<and> digest (events_in snap) = getd (health_of t) ''_archive_fingerprint''"
    using assms(2) by (intro exI [of _ snap] conjI)
qed (use assms(1) in \<open>simp_all add: receipts_inv_def\<close>)

lemma audits_of_prune: "audits_of (prune_audits digest t) = map (\<lambda>(owner, audit). (owner, prune_audit digest audit)) (audits_of t)"
  unfolding prune_audits_def by (rule audits_of_with_audits) simp

lemma prune_inv:
  assumes inv: "receipts_inv digest stored t0 t w" and "\<not> cold t"
    and prune: "prune_archived_events digest ref obs (digest (event_payload t)) t = (Inr (), t')"
    and ref: "truthy ref" "stored w ref snap" "digest (events_in snap) = digest (event_payload t)"
  shows "receipts_inv digest stored t0 t' w"
proof -
  obtain a bytes where a: "ensure_health digest obs t = Inr a"
    and t': "t' = with_health (prune_audits digest a) (cold_health ref bytes obs (digest (event_payload t)) (health_of a))"
    using prune by (auto simp: prune_archived_events_def split: sum.splits)
  have inv_a: "receipts_inv digest stored t0 a w" by (rule health_only_inv [OF inv ensure_health_only [OF a]])
  have hot: "\<not> cold a"
    using ensure_health_only [OF a] assms(2) by (simp add: cold_def health_only_def ARCHIVE_KEYS_def)
  have h: "is_dict (cold_health ref bytes obs fp x)" "getd (cold_health ref bytes obs fp x) ''_cold'' = PBool True"
    "getd (cold_health ref bytes obs fp x) ''archive_ref'' = ref" "getd (cold_health ref bytes obs fp x) ''_archive_fingerprint'' = fp" for fp x
    by (simp_all add: cold_health_def)
  have "list_all2 (audit_form digest True) (audits_of t0) (audits_of t')"
  proof -
    have "list_all2 (audit_form digest False) (audits_of t0) (audits_of a)" using inv_a hot by (simp add: receipts_inv_def)
    then have "list_all2 (\<lambda>x y. audit_form digest True x (case y of (owner, audit) \<Rightarrow> (owner, prune_audit digest audit)))
        (audits_of t0) (audits_of a)"
    proof (rule list_all2_mono)
      fix x y assume form: "audit_form digest False x y"
      obtain o0 a0 o1 a1 where xy: "x = (o0, a0)" "y = (o1, a1)" by (cases x; cases y)
      from audit_form_prune [OF form [unfolded xy]]
      show "audit_form digest True x (case y of (owner, audit) \<Rightarrow> (owner, prune_audit digest audit))" by (simp add: xy)
    qed
    then show ?thesis unfolding t' audits_of_with_health audits_of_prune list_all2_map2 .
  qed
  moreover have "getd t' k = getd t0 k" if "k \<noteq> ''analysis_health''" "k \<noteq> ''wallet_activity_checks''" for k
    using that inv_a by (simp add: t' prune_audits_def getd_with_audits receipts_inv_def)
  moreover have "event_payload t = event_payload t0" by (rule receipts_inv_payload [OF inv assms(2)])
  ultimately show ?thesis using ref by (auto simp: receipts_inv_def cold_def t' h)
qed

lemma restore_inv:
  assumes inv: "receipts_inv digest stored t0 t w" and "cold t" and "plain_audits (audits_of t0)"
    and restore: "restore_archived_events digest snap t = Inr t'" and inj: "\<And>x y. digest x = digest y \<Longrightarrow> x = y"
  shows "receipts_inv digest stored t0 t' w \<and> \<not> cold t'"
proof -
  define owners where "owners = events_in snap"
  have owners: "is_dict owners" "digest owners = getd (health_of t) ''_archive_fingerprint''"
    and t': "t' = with_health (with_audits t (map (restore_audit (dict_rows owners)) (audits_of t))) (dset ''_cold'' (PBool False) (health_of t))"
    using restore by (auto simp: restore_archived_events_def bindR_eq_Inr bindR_guard owners_def events_in_def Let_def split: if_splits)
  have "owners = event_payload t0" using inj [of owners "event_payload t0"] owners(2) inv assms(2) by (simp add: receipts_inv_def)
  then have forms: "list_all2 (audit_form digest False) (audits_of t0) (audits_of t')"
    using restore_form [of digest t0 "audits_of t"] inv assms(2,3) by (simp add: t' audits_of_with_audits receipts_inv_def)
  have hot: "\<not> cold t'" by (simp add: t' cold_def)
  have "getd t' k = getd t0 k" if "k \<noteq> ''analysis_health''" "k \<noteq> ''wallet_activity_checks''" for k
    using that inv by (simp add: t' getd_with_audits receipts_inv_def)
  moreover have "getd (health_of t') k = getd (health_of t) k" if "k \<noteq> ''_cold''" for k using that by (simp add: t')
  ultimately show ?thesis using inv forms hot by (simp add: receipts_inv_def)
qed

text \<open>An immutable store: what is written can be found under its reference for good, and a reference has a size.\<close>

definition sound_store :: "'w archive_writer \<Rightarrow> 'w archive_reader \<Rightarrow> ('w \<Rightarrow> pyval \<Rightarrow> pyval \<Rightarrow> bool) \<Rightarrow> bool" where
  "sound_store write read stored \<longleftrightarrow>
     (\<forall>snap w ref. fst (write snap w) = Inr ref \<longrightarrow> truthy ref \<and> has_key ref ''bytes'' \<and> stored (snd (write snap w)) ref snap) \<and>
     (\<forall>snap w ref s. stored w ref s \<longrightarrow> stored (snd (write snap w)) ref s) \<and>
     (\<forall>r w ref s. stored w ref s \<longrightarrow> stored (snd (read r w)) ref s)"

lemma sound_store_written: "sound_store write read stored \<Longrightarrow> fst (write snap w) = Inr ref \<Longrightarrow>
    truthy ref \<and> has_key ref ''bytes'' \<and> stored (snd (write snap w)) ref snap"
  by (simp add: sound_store_def)

lemma sound_store_write: "sound_store write read stored \<Longrightarrow> stored w ref s \<Longrightarrow> stored (snd (write snap w)) ref s"
  and sound_store_read: "sound_store write read stored \<Longrightarrow> stored w ref s \<Longrightarrow> stored (snd (read r w)) ref s"
  by (simp_all add: sound_store_def)

lemma cold_snapshot_events: "cold_snapshot t = Inr snap \<Longrightarrow> events_in snap = event_payload t"
  by (auto simp: cold_snapshot_def bindR_eq_Inr events_in_def group_of_def py_or_def)

lemma has_key_item: "has_key v k \<Longrightarrow> \<exists>x. dict_item v k = Inr x"
  by (cases v) auto

lemma health_only_payload: "health_only t t' \<Longrightarrow> event_payload t' = event_payload t \<and> cold t' = cold t"
  by (simp add: health_only_def event_payload_def audits_of_def cold_def ARCHIVE_KEYS_def)

lemma write_failed_only: "health_only t (write_failed t)"
  unfolding write_failed_def by (rule health_only_with_health) (simp_all add: ARCHIVE_KEYS_def)

lemma write_archive_inv:
  assumes "receipts_inv digest stored t0 t w" "\<not> cold t" "sound_store write read stored"
    and "write_archive write digest obs (digest (event_payload t)) t w = ((t', ok), w')"
  shows "receipts_inv digest stored t0 t' w'"
proof (cases "cold_snapshot t")
  case (Inl e)
  with assms(4) have "t' = write_failed t" "w' = w" by (simp_all add: write_archive_def)
  with assms(1) show ?thesis using health_only_inv [OF _ write_failed_only] by simp
next
  case (Inr snap)
  obtain answer v where v: "write snap w = (answer, v)" by (rule prod.exhaust)
  have kept: "stored v ref s" if "stored w ref s" for ref s
    using sound_store_write [OF assms(3) that, of snap] v by simp
  have inv: "receipts_inv digest stored t0 t v" by (rule receipts_inv_store [OF assms(1) kept])
  show ?thesis
  proof (cases answer)
    case (Inl e)
    with assms(4) Inr v have "t' = write_failed t" "w' = v" by (simp_all add: write_archive_def)
    with inv show ?thesis using health_only_inv [OF _ write_failed_only] by simp
  next
    case ref: (Inr ref)
    have "truthy ref \<and> has_key ref ''bytes'' \<and> stored (snd (write snap w)) ref snap"
      by (rule sound_store_written [OF assms(3)]) (simp add: v ref)
    then have contract: "truthy ref" "has_key ref ''bytes''" "stored v ref snap" by (simp_all add: v)
    obtain r t1 where prune: "prune_archived_events digest ref obs (digest (event_payload t)) t = (r, t1)" by (rule prod.exhaust)
    show ?thesis
    proof (cases r)
      case (Inl e)
      then have "t1 = t" using prune has_key_item [OF contract(2)] by (auto simp: prune_archived_events_def split: sum.splits)
      with assms(4) Inr v ref prune Inl have "t' = write_failed t" "w' = v" by (simp_all add: write_archive_def)
      with inv show ?thesis using health_only_inv [OF _ write_failed_only] by simp
    next
      case (Inr u)
      then have "receipts_inv digest stored t0 t1 v"
        using prune_inv [OF inv assms(2) _ contract(1,3)] prune cold_snapshot_events [OF \<open>cold_snapshot t = Inr snap\<close>] by simp
      moreover have "t' = t1" "w' = v" using assms(4) \<open>cold_snapshot t = Inr snap\<close> v ref prune Inr by (simp_all add: write_archive_def)
      ultimately show ?thesis by simp
    qed
  qed
qed

lemma archive_thesis_inv:
  assumes inv: "receipts_inv digest stored t0 t w" and "sound_store write read stored"
    and step: "archive_thesis write digest size_of config obs quota t st w = (Inr (t', st'), w')"
  shows "receipts_inv digest stored t0 t' w'"
proof (cases "\<not> truthy (getd t ''pool_address'') \<or> \<not> truthy (getd t ''token_address'')")
  case True
  with inv step show ?thesis by (auto simp: archive_thesis_def)
next
  case scheduled: False
  obtain a where a: "refresh_health digest size_of config obs t = Inr a"
    using step scheduled by (auto simp: archive_thesis_def split: sum.splits)
  have inv_a: "receipts_inv digest stored t0 a w" by (rule health_only_inv [OF inv refresh_health_only [OF a]])
  define fp where "fp = digest (event_payload a)"
  show ?thesis
  proof (cases "cold a \<or> getd (health_of a) ''status'' = PStr ''active''")
    case True
    with inv_a step scheduled a show ?thesis by (auto simp: archive_thesis_def cold_def)
  next
    case hot: False
    note early = scheduled a hot [unfolded cold_def]
    show ?thesis
    proof (cases "truthy (getd (health_of a) ''archive_ref'') \<and> fp = getd (health_of a) ''_archive_fingerprint''")
      case reuse: True
      then obtain u where prune: "prune_archived_events digest (getd (health_of a) ''archive_ref'') obs fp a = (Inr u, t')" and w': "w' = w"
        using step early by (auto simp: archive_thesis_def fp_def Let_def split: prod.splits sum.splits)
      from inv_a reuse obtain snap where snap: "stored w (getd (health_of a) ''archive_ref'') snap" "digest (events_in snap) = fp"
        by (auto simp: receipts_inv_def)
      show ?thesis unfolding w'
        by (rule prune_inv [OF inv_a]) (use hot prune reuse snap fp_def in auto)
    next
      case fresh: False
      obtain b due where b: "archive_due digest size_of config obs a = Inr (b, due)"
        using step early fresh by (auto simp: archive_thesis_def fp_def Let_def split: sum.splits)
      have inv_b: "receipts_inv digest stored t0 b w" by (rule health_only_inv [OF inv_a archive_due_only [OF b]])
      show ?thesis
      proof (cases "\<not> due \<or> quota \<le> as_attempts st")
        case True
        with step early fresh b inv_b show ?thesis by (auto simp: archive_thesis_def fp_def Let_def)
      next
        case attempt: False
        define c where "c = with_health b (dset ''_archive_attempt_at'' obs (health_of b))"
        have only: "health_only b c" unfolding c_def by (rule health_only_with_health) (simp_all add: ARCHIVE_KEYS_def)
        then have c: "event_payload c = event_payload a" "\<not> cold c"
          using health_only_payload [OF only] health_only_payload [OF archive_due_only [OF b]] hot by simp_all
        obtain d ok v where written: "write_archive write digest obs fp c w = ((d, ok), v)" by (metis surj_pair)
        have inv_d: "receipts_inv digest stored t0 d v"
          by (rule write_archive_inv [OF health_only_inv [OF inv_b only] c(2) assms(2)]) (use written c fp_def in simp)
        from step early fresh b attempt written have "refresh_health digest size_of config obs d = Inr t'" "w' = v"
          by (auto simp: archive_thesis_def fp_def c_def Let_def bindR_eq_Inr)
        with health_only_inv [OF inv_d refresh_health_only] show ?thesis by simp
      qed
    qed
  qed
qed

lemma hydrate_inv:
  assumes inv: "receipts_inv digest stored t0 t w" and "sound_store write read stored" and "plain_audits (audits_of t0)"
    and inj: "\<And>x y. digest x = digest y \<Longrightarrow> x = y"
    and step: "hydrate_analysis_receipts read digest size_of config obs t w = (Inr (t', ok), w')"
  shows "receipts_inv digest stored t0 t' w' \<and> (ok \<longrightarrow> \<not> cold t')"
proof -
  obtain a where a: "ensure_health digest obs t = Inr a"
    using step by (auto simp: hydrate_analysis_receipts_def split: sum.splits)
  have inv_a: "receipts_inv digest stored t0 a w" by (rule health_only_inv [OF inv ensure_health_only [OF a]])
  show ?thesis
  proof (cases "cold a")
    case False
    with step a inv_a show ?thesis by (auto simp: hydrate_analysis_receipts_def cold_def)
  next
    case True
    obtain answer v where answer: "(case dict_item (health_of a) ''archive_ref'' of Inl e \<Rightarrow> (Inl e, w) | Inr ref \<Rightarrow> read ref w) = (answer, v)"
      by (rule prod.exhaust)
    have kept: "stored v ref snap" if "stored w ref snap" for ref snap
    proof (cases "dict_item (health_of a) ''archive_ref''")
      case (Inl e)
      with answer that show ?thesis by simp
    next
      case (Inr r)
      with answer have "v = snd (read r w)" by simp
      with sound_store_read [OF assms(2) that] show ?thesis by simp
    qed
    have inv_v: "receipts_inv digest stored t0 a v" by (rule receipts_inv_store [OF inv_a kept])
    show ?thesis
    proof (cases "bindR answer (\<lambda>snap. restore_archived_events digest snap a)")
      case (Inl e)
      with step a True answer have "restore_failed digest size_of config obs a = Inr t'" "\<not> ok" "w' = v"
        by (auto simp: hydrate_analysis_receipts_def cold_def bindR_eq_Inr)
      with health_only_inv [OF inv_v restore_failed_only] show ?thesis by simp
    next
      case (Inr b)
      then obtain snap where restore: "restore_archived_events digest snap a = Inr b" by (auto simp: bindR_eq_Inr)
      have b: "receipts_inv digest stored t0 b v \<and> \<not> cold b" by (rule restore_inv [OF inv_v True assms(3) restore inj])
      have t': "t' = with_health b (ddel ''_restore_retry_after'' (ddel ''archive_error'' (health_of b)))" and "w' = v"
        using step a True answer Inr by (auto simp: hydrate_analysis_receipts_def cold_def)
      have only: "health_only b t'" unfolding t' by (rule health_only_with_health) (simp_all add: ARCHIVE_KEYS_def)
      show ?thesis using b health_only_inv [OF conjunct1 [OF b] only] health_only_payload [OF only] \<open>w' = v\<close> by simp
    qed
  qed
qed

text \<open>Passes of the archive and restores of one investigation, in any order.\<close>

inductive archive_step ::
    "'w archive_writer \<Rightarrow> 'w archive_reader \<Rightarrow> (pyval \<Rightarrow> pyval) \<Rightarrow> (pyval \<Rightarrow> int) \<Rightarrow> pyval \<Rightarrow> pyval \<times> 'w \<Rightarrow> pyval \<times> 'w \<Rightarrow> bool"
  for writer reader digest size_of config where
  archive: "archive_thesis writer digest size_of config obs quota t st w = (Inr (t', st'), w') \<Longrightarrow>
     archive_step writer reader digest size_of config (t, w) (t', w')"
| fetch: "hydrate_analysis_receipts reader digest size_of config obs t w = (Inr (t', ok), w') \<Longrightarrow>
     archive_step writer reader digest size_of config (t, w) (t', w')"

definition never_archived :: "pyval \<Rightarrow> bool" where
  "never_archived t \<longleftrightarrow> \<not> cold t \<and> \<not> truthy (getd (health_of t) ''archive_ref'') \<and> plain_audits (audits_of t)"

lemma never_archived_inv: "never_archived t \<Longrightarrow> receipts_inv digest stored t t w"
  by (auto simp: never_archived_def receipts_inv_def plain_audits_def list_all_iff audit_form_def
      intro!: list.rel_refl_strong)

lemma archive_steps_inv:
  assumes "(archive_step write read digest size_of config)\<^sup>*\<^sup>* (t, w) (t', w')" "sound_store write read stored"
    and "\<And>x y. digest x = digest y \<Longrightarrow> x = y" "plain_audits (audits_of t0)" "receipts_inv digest stored t0 t w"
  shows "receipts_inv digest stored t0 t' w'"
  using assms(1)
proof (induction rule: rtranclp_induct2)
  case refl
  show ?case by (rule assms(5))
next
  case (step t1 w1 t2 w2)
  from step.hyps(2) show ?case
  proof cases
    case (archive obs quota st st')
    show ?thesis by (rule archive_thesis_inv [OF step.IH assms(2) archive])
  next
    case (fetch obs ok)
    show ?thesis using hydrate_inv [OF step.IH assms(2,4,3) fetch] by simp
  qed
qed


text \<open>A thesis stalled for a month, an archive pass that writes its receipts, and their return.\<close>

definition tuck :: "pyval list archive_writer" where
  "tuck snap w = (Inr (PDict [(''bytes'', PInt 1), (''index'', PInt (int (length w)))]), w @ [snap])"

definition fetch :: "pyval list archive_reader" where
  "fetch ref w = (case getd ref ''index'' of PInt i \<Rightarrow> (list_item w (nat i), w) | _ \<Rightarrow> (Inl KeyError, w))"

definition tucked :: "pyval list \<Rightarrow> pyval \<Rightarrow> pyval \<Rightarrow> bool" where
  "tucked w ref snap \<longleftrightarrow> (case getd ref ''index'' of PInt i \<Rightarrow> 0 \<le> i \<and> nat i < length w \<and> w ! nat i = snap | _ \<Rightarrow> False)"

lemma tucked_sound: "sound_store tuck fetch tucked"
proof -
  have "truthy ref \<and> has_key ref ''bytes'' \<and> tucked (snd (tuck snap w)) ref snap" if "fst (tuck snap w) = Inr ref" for snap w ref
    using that by (auto simp: tuck_def tucked_def)
  moreover have "tucked (snd (tuck snap w)) ref s" if "tucked w ref s" for snap w ref s
    using that by (auto simp: tuck_def tucked_def nth_append split: pyval.splits)
  moreover have "tucked (snd (fetch r w)) ref s" if "tucked w ref s" for r w ref s
    using that by (auto simp: fetch_def split: pyval.splits)
  ultimately show ?thesis unfolding sound_store_def by blast
qed

definition seal :: "pyval \<Rightarrow> pyval" where
  "seal v = PList [v]"

definition old_case :: pyval where
  "old_case = PDict [(''token_address'', PStr ''mint''), (''pool_address'', PStr ''pool''), (''signal_at'', PStr ''2026-01-02''),
     (''status'', PStr ''weakening''),
     (''analysis_health'', PDict [(''version'', PInt 1), (''last_progress_at'', PInt 86400)]),
     (''wallet_activity_checks'', PDict [(''ann'', PDict [(''complete_through'', PInt 900), (''events'', PDict [(''sig|0'', PInt 5)])])])]"

definition old_archived :: "(pyval \<times> archive_stats) res \<times> pyval list" where
  "old_archived = archive_thesis tuck seal (\<lambda>_. 20000) (PDict []) (PInt 2764800) 1 old_case \<lparr>as_attempts = 0, as_archived = 0, as_deferred = 0, as_reused = 0\<rparr> []"

lemma old_archived_run: "case old_archived of (Inr (t, st), w) \<Rightarrow> cold t \<and> as_archived st = 1 | _ \<Rightarrow> False"
  by code_simp

lemma old_case_fresh: "never_archived old_case"
  by code_simp


section \<open>Restoring and progress\<close>

lemma py_eq_str: "is_str v \<Longrightarrow> py_eq v v"
  by (cases v) auto

lemma item_is_getd: "dict_item v k = Inr x \<Longrightarrow> x = getd v k"
  by (cases v) (auto split: option.splits)

lemma dict_item_cong: "has_key v k \<Longrightarrow> dict_item v k = Inr (getd v k)"
  by (cases v) auto

lemma has_key_dset [simp]: "has_key (dset j x v) k \<longleftrightarrow> k = j \<or> has_key v k"
  by (cases v) (auto simp: dset_def dict_rows_def)

lemma has_key_item_iff: "has_key v k \<longleftrightarrow> (\<exists>x. dict_item v k = Inr x)"
  by (cases v) (auto split: option.splits)

lemma has_key_with_audits [simp]: "has_key (with_audits t xs) k \<longleftrightarrow> has_key t k"
  by (cases t) (auto simp: with_audits_def dset_def dict_rows_def split: option.splits)

lemma has_key_with_health: "has_key t k \<Longrightarrow> has_key (with_health t h) k"
  by (simp add: with_health_def)

text \<open>The identity of a snapshot is unchanged by pruning.\<close>

definition identity_keys :: "string list" where
  "identity_keys = [''version'', ''token_address'', ''pool_address'', ''cohort_id'', ''signal_at'']"

lemma cold_snapshot_identity:
  assumes "cold_snapshot t = Inr snap" "\<And>k. k \<in> {''token_address'', ''pool_address'', ''cohort_id'', ''signal_at''} \<Longrightarrow> getd t' k = getd t k"
    and "\<And>k. has_key t k \<Longrightarrow> has_key t' k"
  obtains snap' where "cold_snapshot t' = Inr snap'" "\<And>k. k \<in> set identity_keys \<Longrightarrow> getd snap' k = getd snap k"
proof -
  from assms(1) obtain token pool cohort signal where s: "dict_item t ''token_address'' = Inr token" "dict_item t ''pool_address'' = Inr pool"
      "(if truthy (getd t ''cohort_id'') then Inr (getd t ''cohort_id'') else dict_item t ''signal_at'') = Inr cohort"
      "dict_item t ''signal_at'' = Inr signal"
    and snap: "snap = PDict [(''version'', PInt 1), (''token_address'', token), (''pool_address'', pool), (''cohort_id'', cohort),
         (''signal_at'', signal), (''evidence'', PDict [(''wallet_activity_events'', event_payload t)])]"
    by (auto simp: cold_snapshot_def bindR_eq_Inr)
  have item: "dict_item t' k = Inr x" if "dict_item t k = Inr x" "k \<in> {''token_address'', ''pool_address'', ''signal_at''}" for k x
  proof -
    have "has_key t' k" using assms(3) that(1) unfolding has_key_item_iff by blast
    moreover have "x = getd t' k" using item_is_getd [OF that(1)] assms(2) [of k] that(2) by auto
    ultimately show ?thesis by (simp add: dict_item_cong)
  qed
  have cohort: "(if truthy (getd t' ''cohort_id'') then Inr (getd t' ''cohort_id'') else dict_item t' ''signal_at'') = Inr cohort"
    using s(3,4) item [OF s(4)] assms(2) [of "''cohort_id''"] by auto
  have "cold_snapshot t' = Inr (PDict [(''version'', PInt 1), (''token_address'', token), (''pool_address'', pool), (''cohort_id'', cohort),
         (''signal_at'', signal), (''evidence'', PDict [(''wallet_activity_events'', event_payload t')])])"
    using item [OF s(1)] item [OF s(2)] item [OF s(4)] cohort by (simp add: cold_snapshot_def)
  then show thesis by (rule that) (auto simp: snap identity_keys_def)
qed

text \<open>
  the archive gives the receipts back: a thesis pruned of its movements accepts the snapshot taken of it, and
  has every movement again.
\<close>

theorem archived_receipts_restored:
  assumes "prune_archived_events digest ref obs (digest (event_payload t)) t = (Inr (), t')" and "plain_audits (audits_of t)" and "\<not> cold t"
    and "cold_snapshot t = Inr snap" and "list_all (\<lambda>k. is_str (getd snap k)) [''token_address'', ''pool_address'', ''cohort_id'', ''signal_at'']"
  shows "\<exists>t''. restore_archived_events digest snap t' = Inr t'' \<and> event_payload t'' = event_payload t \<and> \<not> cold t''"
proof -
  obtain a bytes where a: "ensure_health digest obs t = Inr a"
    and t': "t' = with_health (prune_audits digest a) (cold_health ref bytes obs (digest (event_payload t)) (health_of a))"
    using assms(1) by (auto simp: prune_archived_events_def split: sum.splits)
  have same: "getd a k = getd t k" if "k \<noteq> ''analysis_health''" for k
    using ensure_health_only [OF a] that by (simp add: health_only_def)
  then have audits: "audits_of a = audits_of t" by (simp add: audits_of_def)
  have keys: "has_key t' k" if "has_key t k" for k
    using a that by (auto simp: t' prune_audits_def ensure_health_def bindR_eq_Inr intro!: has_key_with_health split: if_splits)
  have fields: "getd t' k = getd t k" if "k \<in> {''token_address'', ''pool_address'', ''cohort_id'', ''signal_at''}" for k
  proof -
    have k: "k \<noteq> ''analysis_health''" "k \<noteq> ''wallet_activity_checks''" using that by auto
    then have "getd t' k = getd a k" unfolding t' prune_audits_def by (simp add: getd_with_audits)
    with same k(1) show ?thesis by simp
  qed
  obtain snap' where snap': "cold_snapshot t' = Inr snap'" "\<And>k. k \<in> set identity_keys \<Longrightarrow> getd snap' k = getd snap k"
    using cold_snapshot_identity [OF assms(4) fields keys] by metis
  have identity: "list_all (\<lambda>k. py_eq (getd snap k) (getd snap' k)) [''version'', ''token_address'', ''pool_address'', ''cohort_id'', ''signal_at'']"
  proof -
    have "getd snap ''version'' = PInt 1" using assms(4) by (auto simp: cold_snapshot_def bindR_eq_Inr)
    then show ?thesis using assms(5) snap'(2) by (simp add: identity_keys_def py_eq_str)
  qed
  have payload: "events_in snap = event_payload t" by (rule cold_snapshot_events [OF assms(4)])
  have audits': "audits_of t' = map (\<lambda>(owner, audit). (owner, prune_audit digest audit)) (audits_of t)"
    by (simp add: t' audits_of_prune audits)
  have owners: "map_of (audits_of t') owner \<noteq> None \<and> is_dict events" if "(owner, events) \<in> set (dict_rows (event_payload t))" for owner events
  proof -
    from that obtain audit where audit: "(owner, audit) \<in> set (audits_of t)" "events = getd audit ''events''" "truthy events"
      by (auto simp: event_payload_def dict_rows_def)
    with assms(2) have "is_dict (group_of audit ''events'')" by (auto simp: plain_audits_def list_all_iff)
    with audit have "is_dict events" by (simp add: group_of_def)
    moreover have "owner \<in> fst ` set (audits_of t')" using audit(1) by (force simp: audits')
    ultimately show ?thesis by (simp add: map_of_eq_None_iff)
  qed
  define t'' where "t'' = with_health (with_audits t' (map (restore_audit (dict_rows (event_payload t))) (audits_of t'))) (dset ''_cold'' (PBool False) (health_of t'))"
  have "restore_archived_events digest snap t' = Inr t''"
  proof -
    have "getd (health_of t') ''_archive_fingerprint'' = digest (event_payload t)" by (simp add: t' cold_health_def)
    moreover have "is_dict (event_payload t)" by (simp add: event_payload_def)
    moreover have "list_all (\<lambda>(owner, events). map_of (audits_of t') owner \<noteq> None \<and> is_dict events) (dict_rows (event_payload t))"
      using owners by (auto simp: list_all_iff)
    ultimately show ?thesis unfolding restore_archived_events_def snap'(1) Let_def payload [unfolded events_in_def] t''_def
      using identity by (simp add: bindR_guard)
  qed
  moreover have "event_payload t'' = event_payload t"
  proof (rule event_payload_form)
    have "list_all2 (audit_form digest False) (audits_of t) (audits_of t)"
      using never_archived_inv [of t digest "\<lambda>_ _ _. True" "()"] assms(2)
      by (auto simp: plain_audits_def list_all_iff audit_form_def intro!: list.rel_refl_strong)
    then have "list_all2 (\<lambda>x y. audit_form digest True x (case y of (owner, audit) \<Rightarrow> (owner, prune_audit digest audit))) (audits_of t) (audits_of t)"
    proof (rule list_all2_mono)
      fix x y assume form: "audit_form digest False x y"
      obtain o0 a0 o1 a1 where xy: "x = (o0, a0)" "y = (o1, a1)" by (cases x; cases y)
      from audit_form_prune [OF form [unfolded xy]]
      show "audit_form digest True x (case y of (owner, audit) \<Rightarrow> (owner, prune_audit digest audit))" by (simp add: xy)
    qed
    then have "list_all2 (audit_form digest True) (audits_of t) (audits_of t')" unfolding audits' list_all2_map2 .
    from restore_form [OF this assms(2)]
    show "list_all2 (audit_form digest False) (audits_of t) (audits_of t'')" by (simp add: t''_def audits_of_with_audits)
  qed
  moreover have "\<not> cold t''" by (simp add: t''_def cold_def)
  ultimately show ?thesis by blast
qed

definition old_snapshot :: pyval where
  "old_snapshot = (case cold_snapshot old_case of Inr snap \<Rightarrow> snap | Inl e \<Rightarrow> PNone)"

definition old_pruned :: "unit res \<times> pyval" where
  "old_pruned = prune_archived_events seal (PDict [(''bytes'', PInt 1)]) (PInt 2764800) (seal (event_payload old_case)) old_case"

lemma old_snapshot_taken: "cold_snapshot old_case = Inr old_snapshot"
  "list_all (\<lambda>k. is_str (getd old_snapshot k)) [''token_address'', ''pool_address'', ''cohort_id'', ''signal_at'']"
  by (simp_all add: old_snapshot_def cold_snapshot_def old_case_def)

lemma old_pruned_run: "fst old_pruned = Inr ()"
proof -
  have "health_current old_case" by (simp add: health_current_def health_of_def group_of_def old_case_def)
  then show ?thesis by (simp add: old_pruned_def prune_archived_events_def ensure_health_def)
qed

lemma archived_receipts_restored_witness:
  "\<exists>t. restore_archived_events seal old_snapshot (snd old_pruned) = Inr t \<and> event_payload t = event_payload old_case"
proof -
  have "prune_archived_events seal (PDict [(''bytes'', PInt 1)]) (PInt 2764800) (seal (event_payload old_case)) old_case = (Inr (), snd old_pruned)"
    using old_pruned_run unfolding old_pruned_def by (metis prod.collapse)
  from archived_receipts_restored [OF this _ _ old_snapshot_taken] old_case_fresh
  show ?thesis unfolding never_archived_def by blast
qed

text \<open>What an attempt books: progress exactly when a balance or the history changed.\<close>

lemma refresh_health_current:
  assumes "refresh_health digest size_of config obs t = Inr t'" "health_current t"
  obtains days retry where "t' = with_health t (refreshed size_of config t days retry)"
  using assms by (auto simp: refresh_health_def ensure_health_def bindR_eq_Inr Let_def)

text \<open>
  an attempt counts as progress exactly when the balances or the history of the investigation differ from
  those last seen; only then the time of the last progress moves, and polling alone never restarts the clock.
\<close>

theorem progress_only_by_evidence:
  assumes "record_attempt digest size_of config obs error success t = Inr (t', changed)" and "health_current t"
  shows "changed = signatures_changed digest t \<and>
    getd (health_of t') ''last_progress_at'' = (if changed then obs else getd (health_of t) ''last_progress_at'') \<and>
    getd (health_of t') ''_balance_signature'' = balance_signature digest t \<and>
    getd (health_of t') ''_history_signature'' = history_signature digest t"
proof -
  define h where "h = dset ''_history_signature'' (history_signature digest t) (dset ''_balance_signature'' (balance_signature digest t)
      (note_progress obs (signatures_changed digest t) (dset ''last_attempt_at'' obs (health_of t))))"
  have "bindR (note_error error h) (\<lambda>h2. bindR (refresh_health digest size_of config obs
      (with_health t (note_balance config obs (signatures_changed digest t) success h2))) (\<lambda>t'. Inr (t', signatures_changed digest t))) =
      Inr (t', changed)"
    using assms unfolding record_attempt_def Let_def h_def ensure_health_def by simp
  then obtain h2 where h2: "note_error error h = Inr h2" and changed: "changed = signatures_changed digest t"
    and r: "refresh_health digest size_of config obs (with_health t (note_balance config obs (signatures_changed digest t) success h2)) = Inr t'"
    unfolding bindR_eq_Inr by blast
  define b where "b = note_balance config obs (signatures_changed digest t) success h2"
  have dict_h: "is_dict h" by (simp add: h_def)
  have keep: "getd b k = getd h k" if "k \<in> {''last_progress_at'', ''_balance_signature'', ''_history_signature'', ''version''}" for k
  proof -
    have "getd b k = getd h2 k" using that by (auto simp: b_def note_balance_def Let_def)
    also have "getd h2 k = getd h k" using that h2 by (auto simp: note_error_def bindR_eq_Inr split: option.splits if_splits)
    finally show ?thesis .
  qed
  have dict_b: "is_dict b" unfolding b_def using note_error_keeps [OF h2 dict_h] by (simp add: note_balance_keeps)
  have version: "getd h ''version'' = getd (health_of t) ''version''"
    by (simp add: h_def note_progress_def Let_def)
  have "health_current (with_health t b)"
    using assms(2) keep [of "''version''"] version dict_b by (simp add: health_current_def)
  then obtain days retry where t': "t' = with_health (with_health t b) (refreshed size_of config (with_health t b) days retry)"
    using refresh_health_current [OF r [folded b_def]] by blast
  define r' where "r' = refreshed size_of config (with_health t b) days retry"
  have dict_r: "is_dict r'" by (simp add: r'_def refreshed_def)
  have frame: "getd r' k = getd b k" if "k \<in> {''last_progress_at'', ''_balance_signature'', ''_history_signature''}" for k
    using that dict_b by (auto simp: r'_def refreshed_def)
  have final: "getd (health_of t') k = getd h k" if "k \<in> {''last_progress_at'', ''_balance_signature'', ''_history_signature''}" for k
  proof -
    have "getd (health_of t') k = getd b k" using frame [OF that] dict_r unfolding t' r'_def [symmetric] by simp
    also have "\<dots> = getd h k" by (rule keep) (use that in blast)
    finally show ?thesis .
  qed
  show ?thesis using final [of "''last_progress_at''"] final [of "''_balance_signature''"] final [of "''_history_signature''"] changed
    by (simp add: h_def note_progress_def Let_def)
qed

definition polled :: "(pyval \<times> bool) res" where
  "polled = record_attempt seal (\<lambda>_. 20000) (PDict []) (PInt 172800) (Some ''timeout'') False old_case"

lemma polled_run: "case polled of Inr (t, changed) \<Rightarrow> changed | _ \<Rightarrow> False" "health_current old_case"
  by code_simp (simp add: health_current_def health_of_def group_of_def old_case_def)

lemma progress_only_by_evidence_witness:
  "\<exists>t. polled = Inr (t, True) \<and> getd (health_of t) ''last_progress_at'' = PInt 172800"
proof -
  obtain t where run: "polled = Inr (t, True)" using polled_run(1) by (auto split: sum.splits prod.splits)
  from progress_only_by_evidence [OF run [unfolded polled_def] polled_run(2)] run
  show ?thesis by auto
qed
end
