(* ===== verification/Buy_Windows.thy ===== *)
theory Buy_Windows
  imports Prelude "HOL-Library.Multiset"
begin

text \<open>
  The two routines of \<^verbatim>\<open>src/coordinated_activity.py\<close> its evidence rests on: the sliding windows of
  \<open>_windows\<close>, which equal a plain filter per row, and the assignment of owners to transactions of
  \<open>_distinct_transactions\<close>, which finds three owners with three transactions of their own whenever there are any.
\<close>

section \<open>Windows\<close>

text \<open>The rows from the left pointer on, for every right end.\<close>

fun window_loop :: "('r \<Rightarrow> rat) \<Rightarrow> ('r \<Rightarrow> string) \<Rightarrow> rat \<Rightarrow> 'r list \<Rightarrow> 'r list \<Rightarrow> 'r list list" where
  "window_loop f owner seconds window [] = []"
| "window_loop f owner seconds window (row # rows) =
     (let w = dropWhile (\<lambda>r. f row - f r > seconds) (window @ [row]) in
      (if 3 \<le> length (remdups (map owner w)) then [w] else []) @ window_loop f owner seconds w rows)"

text \<open>\<open>_windows(rows, field, seconds)\<close>; \<open>key\<close> is the order of the rows, by the field first.\<close>

definition windows :: "('r \<Rightarrow> 'k::linorder) \<Rightarrow> ('r \<Rightarrow> rat) \<Rightarrow> ('r \<Rightarrow> string) \<Rightarrow> rat \<Rightarrow> 'r list \<Rightarrow> 'r list list" where
  "windows key f owner seconds rows = window_loop f owner seconds [] (sort_key key rows)"

text \<open>The reference: for every row, the rows up to it that are not older than the window.\<close>

definition window_at :: "('r \<Rightarrow> rat) \<Rightarrow> rat \<Rightarrow> 'r list \<Rightarrow> nat \<Rightarrow> 'r list" where
  "window_at f seconds ordered i = filter (\<lambda>r. f (ordered ! i) - f r \<le> seconds) (take (Suc i) ordered)"

lemma dropWhile_sorted:
  assumes "sorted (map f xs)"
  shows "dropWhile (\<lambda>r. t - f r > s) xs = filter (\<lambda>r. t - f r \<le> (s::rat)) xs"
  using assms
proof (induction xs)
  case (Cons x xs)
  show ?case
  proof (cases "t - f x > s")
    case True
    then show ?thesis using Cons by simp
  next
    case False
    have "\<forall>r \<in> set xs. t - f r \<le> s"
    proof
      fix r assume "r \<in> set xs"
      then have "f x \<le> f r" using Cons.prems by simp
      then show "t - f r \<le> s" using False by linarith
    qed
    then show ?thesis using False by (simp add: filter_id_conv)
  qed
qed simp

lemma window_loop_exact:
  assumes "sorted (map f (before @ rows))" and "\<And>t. t \<in> f ` set rows \<Longrightarrow> filter (\<lambda>r. t - f r \<le> s) window = filter (\<lambda>r. t - f r \<le> s) before"
    and "sorted (map f window)" and "\<And>r. r \<in> set window \<Longrightarrow> r \<in> set before"
  shows "window_loop f owner s window rows =
    filter (\<lambda>w. 3 \<le> length (remdups (map owner w))) (map (window_at f s (before @ rows)) [length before..<length before + length rows])"
  using assms
proof (induction rows arbitrary: before window)
  case Nil
  then show ?case by simp
next
  case (Cons row rows)
  define w where "w = dropWhile (\<lambda>r. f row - f r > s) (window @ [row])"
  have le: "f r \<le> f row" if "r \<in> set before" for r
    using that Cons.prems(1) by (auto simp: sorted_append)
  have sorted_w: "sorted (map f (window @ [row]))"
    using Cons.prems(3,4) le by (auto simp: sorted_append)
  have w: "w = filter (\<lambda>r. f row - f r \<le> s) (before @ [row])"
    unfolding w_def using dropWhile_sorted [OF sorted_w] Cons.prems(2) [of "f row"] by simp
  have at: "window_at f s (before @ row # rows) (length before) = w"
    by (simp add: window_at_def w)
  have step: "filter (\<lambda>r. t - f r \<le> s) w = filter (\<lambda>r. t - f r \<le> s) (before @ [row])" if "t \<in> f ` set rows" for t
  proof -
    have "f row \<le> t" using that Cons.prems(1) by (auto simp: sorted_append)
    then have "\<And>r. t - f r \<le> s \<Longrightarrow> f row - f r \<le> s" by linarith
    moreover have "t - f row \<le> s \<Longrightarrow> 0 \<le> s" using \<open>f row \<le> t\<close> by linarith
    ultimately show ?thesis by (auto simp: w filter_filter intro: filter_cong)
  qed
  have "window_loop f owner s w rows =
      filter (\<lambda>w. 3 \<le> length (remdups (map owner w)))
        (map (window_at f s ((before @ [row]) @ rows)) [length (before @ [row])..<length (before @ [row]) + length rows])"
  proof (rule Cons.IH)
    show "sorted (map f ((before @ [row]) @ rows))" using Cons.prems(1) by simp
    show "sorted (map f w)" unfolding w by (rule sorted_filter) (use Cons.prems(1) in \<open>auto simp: sorted_append\<close>)
    show "r \<in> set (before @ [row])" if "r \<in> set w" for r using that by (auto simp: w split: if_splits)
  qed (rule step)
  moreover have "[length before..<length before + length (row # rows)] =
      length before # [length (before @ [row])..<length (before @ [row]) + length rows]"
    by (simp add: upt_conv_Cons del: upt_Suc)
  ultimately show ?case using at by (simp add: w_def [symmetric] Let_def)
qed

lemma windows_plain:
  assumes "\<And>a b. key a \<le> key b \<Longrightarrow> f a \<le> f b"
  shows "windows key f owner seconds rows = filter (\<lambda>w. 3 \<le> length (remdups (map owner w)))
    (map (window_at f seconds (sort_key key rows)) [0..<length rows])" and "sorted (map f (sort_key key rows))"
proof -
  have "sorted (map key (sort_key key rows))" by (rule sorted_sort_key)
  then show sorted: "sorted (map f (sort_key key rows))"
    unfolding sorted_map by (rule sorted_wrt_mono_rel [rotated]) (rule assms)
  from window_loop_exact [of f "[]" "sort_key key rows" seconds "[]" owner] sorted
  show "windows key f owner seconds rows = filter (\<lambda>w. 3 \<le> length (remdups (map owner w)))
    (map (window_at f seconds (sort_key key rows)) [0..<length rows])"
    by (simp add: windows_def)
qed

lemma window_facts:
  assumes "w \<in> set (windows key f owner seconds rows)" and "\<And>a b. key a \<le> key b \<Longrightarrow> f a \<le> f b"
  shows "set w \<subseteq> set rows" and "3 \<le> length (remdups (map owner w))" and "\<And>a b. a \<in> set w \<Longrightarrow> b \<in> set w \<Longrightarrow> f a - f b \<le> seconds"
proof -
  define o' where "o' = sort_key key rows"
  have eq: "windows key f owner seconds rows = filter (\<lambda>w. 3 \<le> length (remdups (map owner w)))
      (map (window_at f seconds o') [0..<length rows])"
    unfolding o'_def by (rule windows_plain(1)) (rule assms(2))
  from assms(1) [unfolded eq] obtain i where i: "i < length rows" "w = window_at f seconds o' i"
    and three: "3 \<le> length (remdups (map owner w))" by auto
  show "3 \<le> length (remdups (map owner w))" by (rule three)
  have "set (take (Suc i) o') \<subseteq> set rows" using set_take_subset [of "Suc i" o'] by (simp add: o'_def)
  then show "set w \<subseteq> set rows" by (auto simp: i(2) window_at_def)
  fix a b assume ab: "a \<in> set w" "b \<in> set w"
  have sorted: "sorted (map f o')" unfolding o'_def by (rule windows_plain(2)) (rule assms(2))
  from ab(1) obtain j where "j < Suc i" "j < length o'" "a = o' ! j" by (auto simp: i(2) window_at_def in_set_conv_nth)
  then have "f a \<le> f (o' ! i)" using sorted_nth_mono [OF sorted, of j i] i(1) by (simp add: o'_def)
  moreover have "f (o' ! i) - f b \<le> seconds" using ab(2) by (simp add: i(2) window_at_def)
  ultimately show "f a - f b \<le> seconds" by linarith
qed

text \<open>
  C38: the two pointers compute the plain windows: in the order of the rows, every right end with the rows up to
  it that are not older than the window, where at least three owners took part.
\<close>

theorem windows_exact:
  assumes "\<And>a b. key a \<le> key b \<Longrightarrow> f a \<le> f b"
  shows "windows key f owner seconds rows = filter (\<lambda>w. 3 \<le> length (remdups (map owner w)))
    (map (window_at f seconds (sort_key key rows)) [0..<length rows])"
  by (rule windows_plain(1)) (rule assms)

lemma windows_exact_witness:
  "windows id id (\<lambda>q. if q < 5 then ''a'' else if q < 7 then ''b'' else ''c'') 10 [(1::rat), 8, 6] = [[1, 6, 8]]"
proof -
  have "windows id id (\<lambda>q. if q < 5 then ''a'' else if q < 7 then ''b'' else ''c'') 10 [(1::rat), 8, 6] =
      filter (\<lambda>w. 3 \<le> length (remdups (map (\<lambda>q. if q < 5 then ''a'' else if q < 7 then ''b'' else ''c'') w)))
        (map (window_at id 10 (sort_key id [1, 8, 6])) [0..<length [(1::rat), 8, 6]])"
    by (rule windows_exact) simp
  also have "\<dots> = [[1, 6, 8]]" by code_simp
  finally show ?thesis .
qed

section \<open>Owners and transactions\<close>

type_synonym matching = "(string \<times> string) list"  \<comment> \<open>\<open>assigned\<close>: transaction to owner\<close>

text \<open>
  \<open>assign(owner, seen)\<close> from the transactions still to try: whether a place was found, the assignment and the
  transactions seen.  Every nested call moves the owner of one more transaction already assigned, so that the
  size of the assignment is fuel enough.
\<close>

fun assign_from :: "nat \<Rightarrow> (string \<Rightarrow> string list) \<Rightarrow> string \<Rightarrow> string list \<Rightarrow> matching \<Rightarrow> string list \<Rightarrow> bool \<times> matching \<times> string list" where
  "assign_from fuel choices owner [] M seen = (False, M, seen)"
| "assign_from fuel choices owner (tx # txs) M seen =
     (if tx \<in> set seen then assign_from fuel choices owner txs M seen
      else (case map_of M tx of
          None \<Rightarrow> (True, AList.update tx owner M, tx # seen)
        | Some holder \<Rightarrow> (case fuel of
            0 \<Rightarrow> (False, M, tx # seen)
          | Suc n \<Rightarrow> (case assign_from n choices holder (choices holder) M (tx # seen) of
              (True, M', seen') \<Rightarrow> (True, AList.update tx owner M', seen')
            | (False, M', seen') \<Rightarrow> assign_from fuel choices owner txs M' seen'))))"

text \<open>The owners in turn, until three are placed.\<close>

fun assign_all :: "(string \<Rightarrow> string list) \<Rightarrow> string list \<Rightarrow> matching \<Rightarrow> matching" where
  "assign_all choices [] M = M"
| "assign_all choices (owner # owners) M =
     (let M' = fst (snd (assign_from (length M) choices owner (choices owner) M [])) in
      if 3 \<le> length M' then M' else assign_all choices owners M')"

definition choices_of :: "('r \<Rightarrow> string) \<Rightarrow> ('r \<Rightarrow> string) \<Rightarrow> 'r list \<Rightarrow> string \<Rightarrow> string list" where
  "choices_of owner_of tx_of rows owner = sorted_set (map tx_of (filter (\<lambda>r. owner_of r = owner) rows))"

definition distinct_transactions :: "('r \<Rightarrow> string) \<Rightarrow> ('r \<Rightarrow> string) \<Rightarrow> 'r list \<Rightarrow> nat" where
  "distinct_transactions owner_of tx_of rows =
     length (assign_all (choices_of owner_of tx_of rows) (sorted_set (map owner_of rows)) [])"

subsection \<open>A failed search is closed\<close>

definition assignment :: "(string \<Rightarrow> string list) \<Rightarrow> matching \<Rightarrow> bool" where
  "assignment choices M \<longleftrightarrow> distinct (map fst M) \<and> (\<forall>(tx, owner) \<in> set M. tx \<in> set (choices owner))"

definition closed :: "(string \<Rightarrow> string list) \<Rightarrow> matching \<Rightarrow> string set \<Rightarrow> bool" where
  "closed choices M S \<longleftrightarrow> (\<forall>tx \<in> S. \<exists>owner. map_of M tx = Some owner \<and> set (choices owner) \<subseteq> S)"

text \<open>The steps of a search that did not find a transaction seen before.\<close>

lemma assign_step_cases:
  assumes "assign_from fuel choices owner (tx # txs) M seen = (ok, M', seen')" "tx \<notin> set seen"
  obtains (free) "map_of M tx = None" "ok" "M' = AList.update tx owner M" "seen' = tx # seen"
  | (exhausted) holder where "map_of M tx = Some holder" "fuel = 0" "\<not> ok" "M' = M" "seen' = tx # seen"
  | (moved) holder n M1 where "map_of M tx = Some holder" "fuel = Suc n" "ok"
      "assign_from n choices holder (choices holder) M (tx # seen) = (True, M1, seen')" "M' = AList.update tx owner M1"
  | (next_tx) holder n M1 seen1 where "map_of M tx = Some holder" "fuel = Suc n"
      "assign_from n choices holder (choices holder) M (tx # seen) = (False, M1, seen1)"
      "assign_from fuel choices owner txs M1 seen1 = (ok, M', seen')"
proof (cases "map_of M tx")
  case None
  with assms have "ok" "M' = AList.update tx owner M" "seen' = tx # seen" by simp_all
  with None free show thesis by blast
next
  case (Some holder)
  show thesis
  proof (cases fuel)
    case 0
    with assms Some have "\<not> ok" "M' = M" "seen' = tx # seen" by simp_all
    with 0 Some exhausted show thesis by blast
  next
    case (Suc n)
    obtain b M1 seen1 where inner: "assign_from n choices holder (choices holder) M (tx # seen) = (b, M1, seen1)" by (rule prod_cases3)
    show thesis
    proof (cases b)
      case True
      with assms Some Suc inner have "ok" "M' = AList.update tx owner M1" "seen1 = seen'" by simp_all
      with Some Suc inner True moved [of holder n M1] show thesis by simp
    next
      case False
      with assms Some Suc inner have "assign_from fuel choices owner txs M1 seen1 = (ok, M', seen')" by simp
      with Some Suc inner False next_tx [of holder n M1 seen1] show thesis by simp
    qed
  qed
qed

lemma assign_seen_skip: "tx \<in> set seen \<Longrightarrow> assign_from fuel choices owner (tx # txs) M seen = assign_from fuel choices owner txs M seen"
  by simp

lemma assign_failure_keeps:
  assumes "assign_from fuel choices owner txs M seen = (False, M', seen')"
  shows "M' = M \<and> set seen \<subseteq> set seen'"
  using assms
proof (induction fuel choices owner txs M seen arbitrary: M' seen' rule: assign_from.induct)
  case (1 fuel choices owner M seen)
  then show ?case by simp
next
  case (2 fuel choices owner tx txs M seen)
  show ?case
  proof (cases "tx \<in> set seen")
    case True
    with 2 show ?thesis by simp
  next
    case False
    from "2.prems" False show ?thesis
    proof (cases rule: assign_step_cases)
      case (next_tx holder n M1 seen1)
      have "M1 = M \<and> set (tx # seen) \<subseteq> set seen1" by (rule 2(2) [OF False next_tx(1,2,3)])
      moreover have "M' = M1 \<and> set seen1 \<subseteq> set seen'"
        by (rule 2(3) [OF False next_tx(1,2) next_tx(3) [symmetric] refl refl next_tx(4)])
      ultimately show ?thesis by auto
    qed auto
  qed
qed

text \<open>A search among transactions of a closed set finds nothing.\<close>

lemma assign_closed_fails:
  assumes "closed choices M S" "set txs \<subseteq> S"
  shows "\<not> fst (assign_from fuel choices owner txs M seen)"
  using assms
proof (induction fuel choices owner txs M seen rule: assign_from.induct)
  case (1 fuel choices owner M seen)
  then show ?case by simp
next
  case (2 fuel choices owner tx txs M seen)
  obtain ok M' seen' where run: "assign_from fuel choices owner (tx # txs) M seen = (ok, M', seen')" by (rule prod_cases3)
  obtain holder where holder: "map_of M tx = Some holder" "set (choices holder) \<subseteq> S"
    using "2.prems" by (auto simp: closed_def)
  have "\<not> ok"
  proof (cases "tx \<in> set seen")
    case True
    with 2 run show ?thesis by simp
  next
    case False
    from run False show ?thesis
    proof (cases rule: assign_step_cases)
      case (moved h n M1)
      have "\<not> fst (assign_from n choices h (choices h) M (tx # seen))"
        by (rule 2(2) [OF False moved(1,2)]) (use "2.prems" holder moved(1) in auto)
      with moved(4) show ?thesis by simp
    next
      case (next_tx h n M1 seen1)
      have "M1 = M" using assign_failure_keeps [OF next_tx(3)] by simp
      have "\<not> fst (assign_from fuel choices owner txs M1 seen1)"
        by (rule 2(3) [OF False next_tx(1,2) next_tx(3) [symmetric] refl refl]) (use "2.prems" \<open>M1 = M\<close> in simp_all)
      with next_tx(4) show ?thesis by simp
    qed (use holder in simp_all)
  qed
  with run show ?case by simp
qed

text \<open>A failed search has seen every choice, and every choice of the holders of what it saw.\<close>

lemma assign_failure_closed:
  assumes "assign_from fuel choices owner txs M seen = (False, M', seen')" "card (fst ` set M - set seen) \<le> fuel"
  shows "set txs \<subseteq> set seen' \<and> (\<forall>t \<in> set seen' - set seen. \<exists>holder. map_of M t = Some holder \<and> set (choices holder) \<subseteq> set seen')"
  using assms
proof (induction fuel choices owner txs M seen arbitrary: M' seen' rule: assign_from.induct)
  case (1 fuel choices owner M seen)
  then show ?case by simp
next
  case (2 fuel choices owner tx txs M seen)
  show ?case
  proof (cases "tx \<in> set seen")
    case True
    with "2.prems"(1) have run: "assign_from fuel choices owner txs M seen = (False, M', seen')" by simp
    from 2(1) [OF True run "2.prems"(2)] assign_failure_keeps [OF run] True show ?thesis by auto
  next
    case False
    from "2.prems"(1) False show ?thesis
    proof (cases rule: assign_step_cases)
      case (exhausted holder)
      then have "tx \<in> fst ` set M - set seen" using False by (force dest: map_of_SomeD)
      then have "card (fst ` set M - set seen) > 0" by (auto simp: card_gt_0_iff)
      with "2.prems"(2) exhausted(2) have False by linarith
      then show ?thesis ..
    next
      case (next_tx holder n M1 seen1)
      have tx: "tx \<in> fst ` set M - set seen" using next_tx(1) False by (force dest: map_of_SomeD)
      have "fst ` set M - set (tx # seen) = fst ` set M - set seen - {tx}" by auto
      then have "card (fst ` set M - set (tx # seen)) = card (fst ` set M - set seen - {tx})" by (rule arg_cong)
      also have "\<dots> = card (fst ` set M - set seen) - 1" by (rule card_Diff_singleton [OF tx])
      finally have "card (fst ` set M - set (tx # seen)) \<le> n" using "2.prems"(2) next_tx(2) by simp
      note inner = 2(2) [OF False next_tx(1,2,3) this]
      note keep = assign_failure_keeps [OF next_tx(3)]
      have "card (fst ` set M1 - set seen1) \<le> card (fst ` set M - set seen)"
        using keep by (intro card_mono) auto
      then have "card (fst ` set M1 - set seen1) \<le> fuel" using "2.prems"(2) by simp
      note outer = 2(3) [OF False next_tx(1,2) next_tx(3) [symmetric] refl refl next_tx(4) this]
      note keep' = assign_failure_keeps [OF next_tx(4)]
      have "\<exists>h. map_of M t = Some h \<and> set (choices h) \<subseteq> set seen'" if t: "t \<in> set seen' - set seen" for t
      proof -
        consider "t = tx" | "t \<in> set seen1 - set (tx # seen)" | "t \<in> set seen' - set seen1" using t by auto
        then show ?thesis
        proof cases
          case 1
          then show ?thesis using next_tx(1) inner keep' by auto
        next
          case 2
          then show ?thesis using inner keep' by blast
        next
          case 3
          then show ?thesis using outer keep by auto
        qed
      qed
      moreover have "set (tx # txs) \<subseteq> set seen'" using outer keep keep' by auto
      ultimately show ?thesis by blast
    qed auto
  qed
qed

lemma mset_update_old:
  assumes "distinct (map fst M)" "map_of M t = Some p"
  shows "add_mset p (mset (map snd (AList.update t owner M))) = add_mset owner (mset (map snd M))"
  using assms
proof (induction M)
  case (Cons e M)
  obtain t1 p1 where e: "e = (t1, p1)" by (cases e)
  show ?case
  proof (cases "t1 = t")
    case True
    with Cons.prems e show ?thesis by (simp add: add_mset_commute)
  next
    case False
    with Cons e have "add_mset p (mset (map snd (AList.update t owner M))) = add_mset owner (mset (map snd M))" by simp
    with False e show ?thesis by (simp add: add_mset_commute [of p1])
  qed
qed simp

lemma assignment_update:
  assumes "assignment choices M" "t \<in> set (choices owner)"
  shows "assignment choices (AList.update t owner M)"
  using assms set_update_subset [of t owner M] by (auto simp: assignment_def)

text \<open>A successful search places the owner, keeps everybody placed and never touches a closed set.\<close>

lemma assign_success:
  assumes "assign_from fuel choices owner txs M seen = (True, M', seen')" "assignment choices M" "set txs \<subseteq> set (choices owner)"
    and "closed choices M S"
  shows "assignment choices M' \<and> mset (map snd M') = add_mset owner (mset (map snd M)) \<and>
    (\<forall>t. t \<in> set seen \<or> t \<in> S \<longrightarrow> map_of M' t = map_of M t)"
  using assms
proof (induction fuel choices owner txs M seen arbitrary: M' seen' rule: assign_from.induct)
  case (1 fuel choices owner M seen)
  then show ?case by simp
next
  case (2 fuel choices owner tx txs M seen)
  have tx: "tx \<in> set (choices owner)" using "2.prems"(3) by simp
  show ?case
  proof (cases "tx \<in> set seen")
    case True
    with 2 show ?thesis by simp
  next
    case False
    from "2.prems"(1) False show ?thesis
    proof (cases rule: assign_step_cases)
      case free
      have "tx \<notin> S" using "2.prems"(4) free(1) by (auto simp: closed_def)
      moreover have "mset (map snd M') = add_mset owner (mset (map snd M))" using free(1,3) by (simp add: update_fresh)
      ultimately show ?thesis using assignment_update [OF "2.prems"(2) tx] False free(3) by auto
    next
      case (moved holder n M1)
      have "tx \<notin> S"
      proof
        assume "tx \<in> S"
        then obtain h where "map_of M tx = Some h" "set (choices h) \<subseteq> S" using "2.prems"(4) unfolding closed_def by blast
        then have "set (choices holder) \<subseteq> S" using moved(1) by simp
        from assign_closed_fails [OF "2.prems"(4) this] moved(4) show False by (metis fst_conv)
      qed
      have inner: "assignment choices M1 \<and> mset (map snd M1) = add_mset holder (mset (map snd M)) \<and>
          (\<forall>t. t \<in> set (tx # seen) \<or> t \<in> S \<longrightarrow> map_of M1 t = map_of M t)"
        by (rule 2(2) [OF False moved(1,2,4) "2.prems"(2) subset_refl "2.prems"(4)])
      have "add_mset holder (mset (map snd (AList.update tx owner M1))) = add_mset owner (mset (map snd M1))"
        by (rule mset_update_old) (use inner moved(1) in \<open>auto simp: assignment_def\<close>)
      then have "mset (map snd (AList.update tx owner M1)) = add_mset owner (mset (map snd M))"
        using inner by (simp add: add_mset_commute [of owner])
      moreover have "assignment choices (AList.update tx owner M1)" by (rule assignment_update) (use inner tx in auto)
      ultimately show ?thesis using inner moved(5) False \<open>tx \<notin> S\<close> by auto
    next
      case (next_tx holder n M1 seen1)
      have "M1 = M" "set (tx # seen) \<subseteq> set seen1" using assign_failure_keeps [OF next_tx(3)] by auto
      with 2(3) [OF False next_tx(1,2) next_tx(3) [symmetric] refl refl next_tx(4)] "2.prems" show ?thesis by auto
    qed auto
  qed
qed

subsection \<open>Three are found whenever there are three\<close>

text \<open>The owners tried so far: placed, or with all their choices in a closed set.\<close>

definition tried :: "(string \<Rightarrow> string list) \<Rightarrow> matching \<Rightarrow> string set \<Rightarrow> bool" where
  "tried choices M owners \<longleftrightarrow> assignment choices M \<and> distinct (map snd M) \<and> snd ` set M \<subseteq> owners \<and>
     (\<exists>S. closed choices M S \<and> (\<forall>owner \<in> owners - snd ` set M. set (choices owner) \<subseteq> S))"

lemma tried_step:
  assumes "tried choices M owners" "owner \<notin> owners"
    and "assign_from (length M) choices owner (choices owner) M [] = (ok, M', seen')"
  shows "tried choices M' (insert owner owners)"
proof -
  obtain S where S: "closed choices M S" "\<forall>o' \<in> owners - snd ` set M. set (choices o') \<subseteq> S"
    and M: "assignment choices M" "distinct (map snd M)" "snd ` set M \<subseteq> owners"
    using assms(1) by (auto simp: tried_def)
  show ?thesis
  proof (cases ok)
    case True
    with assign_success [of "length M" choices owner "choices owner" M "[]" M' seen' S] assms(3) M(1) S(1)
    have s: "assignment choices M'" "mset (map snd M') = add_mset owner (mset (map snd M))" "\<forall>t \<in> S. map_of M' t = map_of M t"
      by auto
    have owners': "snd ` set M' = insert owner (snd ` set M)" using arg_cong [OF s(2), of set_mset] by simp
    have "distinct (map snd M')"
    proof -
      have "mset (map snd M') = mset (owner # map snd M)" using s(2) by simp
      moreover have "distinct (owner # map snd M)" using M(2,3) assms(2) by auto
      ultimately show ?thesis by (metis mset_eq_imp_distinct_iff)
    qed
    moreover have "closed choices M' S" using S(1) s(3) by (auto simp: closed_def)
    moreover have "\<forall>o' \<in> insert owner owners - snd ` set M'. set (choices o') \<subseteq> S" using S(2) owners' by auto
    moreover have "snd ` set M' \<subseteq> insert owner owners" using owners' M(3) by auto
    ultimately show ?thesis using s(1) unfolding tried_def by blast
  next
    case False
    then have run: "assign_from (length M) choices owner (choices owner) M [] = (False, M', seen')" using assms(3) by simp
    have "M' = M" using assign_failure_keeps [OF run] by simp
    have "card (fst ` set M - set []) \<le> length M" by (simp add: card_length [of "map fst M", simplified])
    note c = assign_failure_closed [OF run this]
    have "closed choices M (S \<union> set seen')" using S(1) c unfolding closed_def by fastforce
    moreover have "\<forall>o' \<in> insert owner owners - snd ` set M. set (choices o') \<subseteq> S \<union> set seen'" using S(2) c by auto
    ultimately show ?thesis using M \<open>M' = M\<close> unfolding tried_def by blast
  qed
qed

lemma assign_all_tried:
  assumes "tried choices M owners" "distinct os" "set os \<inter> owners = {}"
  shows "\<exists>owners'. tried choices (assign_all choices os M) owners' \<and>
    (length (assign_all choices os M) < 3 \<longrightarrow> owners' = owners \<union> set os)"
  using assms
proof (induction os arbitrary: M owners)
  case Nil
  then show ?case by auto
next
  case (Cons x os)
  obtain ok M' seen' where run: "assign_from (length M) choices x (choices x) M [] = (ok, M', seen')" by (rule prod_cases3)
  have step: "tried choices M' (insert x owners)" by (rule tried_step [OF Cons.prems(1) _ run]) (use Cons.prems(3) in auto)
  show ?case
  proof (cases "3 \<le> length M'")
    case True
    with step run show ?thesis by auto
  next
    case False
    with run have "assign_all choices (x # os) M = assign_all choices os M'" by simp
    with Cons.IH [OF step] Cons.prems(2,3) show ?thesis by auto
  qed
qed

text \<open>The size of the assignment bounds every choice of transactions of different owners.\<close>

lemma tried_bounds:
  assumes tried: "tried choices M owners"
    and rs: "set os \<subseteq> owners" "distinct os" "\<And>x. x \<in> set os \<Longrightarrow> tx x \<in> set (choices x)" "inj_on tx (set os)"
  shows "length os \<le> length M"
proof -
  obtain S where S: "closed choices M S" "\<forall>o' \<in> owners - snd ` set M. set (choices o') \<subseteq> S"
    and M: "assignment choices M" "distinct (map snd M)" using tried by (auto simp: tried_def)
  have look: "map_of M t = Some p \<longleftrightarrow> (t, p) \<in> set M" for t p using M(1) by (simp add: assignment_def)
  have inside: "S \<subseteq> fst ` set M" using S(1) look unfolding closed_def by force
  define g where "g x = (if tx x \<in> S then tx x else (SOME t. (t, x) \<in> set M))" for x
  have place: "(g x, x) \<in> set M \<and> g x \<notin> S" if "x \<in> set os" "tx x \<notin> S" for x
  proof -
    have "x \<in> snd ` set M" using that S(2) rs(1) rs(3) [OF that(1)] by blast
    then obtain t where "(t, x) \<in> set M" by auto
    then have "(SOME t. (t, x) \<in> set M, x) \<in> set M" by (rule someI [of "\<lambda>t. (t, x) \<in> set M"])
    then have g: "(g x, x) \<in> set M" using that(2) by (simp add: g_def)
    have "g x \<notin> S"
    proof
      assume "g x \<in> S"
      then obtain h where "map_of M (g x) = Some h" "set (choices h) \<subseteq> S" using S(1) unfolding closed_def by blast
      moreover have "map_of M (g x) = Some x" using g look by blast
      ultimately have "set (choices x) \<subseteq> S" by simp
      with rs(3) [OF that(1)] that(2) show False by blast
    qed
    with g show ?thesis by simp
  qed
  have inj: "inj_on g (set os)"
  proof (rule inj_onI)
    fix x y assume xy: "x \<in> set os" "y \<in> set os" "g x = g y"
    show "x = y"
    proof (cases "tx x \<in> S")
      case True
      then have "tx y \<in> S" using place [OF xy(2)] xy(3) by (auto simp: g_def split: if_splits)
      with True xy rs(4) show ?thesis by (auto simp: g_def dest: inj_onD)
    next
      case False
      with place [OF xy(1)] have x: "(g x, x) \<in> set M" "g x \<notin> S" by auto
      then have "tx y \<notin> S" using xy(3) by (auto simp: g_def split: if_splits)
      with place [OF xy(2)] have "(g x, y) \<in> set M" using xy(3) by simp
      with x(1) have "map_of M (g x) = Some x" "map_of M (g x) = Some y" using look by blast+
      then show ?thesis by simp
    qed
  qed
  have mem: "g x \<in> fst ` set M" if "x \<in> set os" for x
  proof (cases "tx x \<in> S")
    case True
    then show ?thesis using inside by (auto simp: g_def)
  next
    case False
    from imageI [OF conjunct1 [OF place [OF that False]], of fst] show ?thesis by simp
  qed
  have "card (set os) \<le> card (fst ` set M)" by (rule card_inj_on_le [OF inj]) (use mem in auto)
  then show ?thesis using rs(2) card_length [of "map fst M"] by (simp add: distinct_card)
qed

lemma choices_of_iff: "t \<in> set (choices_of owner_of tx_of rows x) \<longleftrightarrow> (\<exists>r \<in> set rows. owner_of r = x \<and> tx_of r = t)"
  by (auto simp: choices_of_def)

lemma rows_of_assignment:
  assumes "\<forall>(t, x) \<in> set M. t \<in> set (choices_of owner_of tx_of rows x)"
  shows "\<exists>rs. set rs \<subseteq> set rows \<and> map owner_of rs = map snd M \<and> map tx_of rs = map fst M"
  using assms
proof (induction M)
  case Nil
  then show ?case by simp
next
  case (Cons e M)
  obtain t x where e: "e = (t, x)" by (cases e)
  from Cons.prems e obtain r where r: "r \<in> set rows" "owner_of r = x" "tx_of r = t" by (auto simp: choices_of_iff)
  from Cons obtain rs where "set rs \<subseteq> set rows" "map owner_of rs = map snd M" "map tx_of rs = map fst M" by auto
  with r e show ?case by (intro exI [of _ "r # rs"]) simp
qed

lemma distinct_transactions_three:
  "3 \<le> distinct_transactions owner_of tx_of rows \<longleftrightarrow>
     (\<exists>rs. set rs \<subseteq> set rows \<and> length rs = 3 \<and> distinct (map owner_of rs) \<and> distinct (map tx_of rs))"
proof -
  define choices where "choices = choices_of owner_of tx_of rows"
  define os where "os = sorted_set (map owner_of rows)"
  define R where "R = assign_all choices os []"
  have "tried choices [] {}" by (auto simp: tried_def assignment_def closed_def)
  from assign_all_tried [OF this, of os] obtain owners
    where tried: "tried choices R owners" and all: "length R < 3 \<longrightarrow> owners = set os" by (auto simp: R_def os_def)
  have size: "distinct_transactions owner_of tx_of rows = length R"
    by (simp add: distinct_transactions_def R_def choices_def os_def)
  show ?thesis
  proof
    assume three: "3 \<le> distinct_transactions owner_of tx_of rows"
    have "\<forall>(t, x) \<in> set R. t \<in> set (choices_of owner_of tx_of rows x)"
      using tried by (simp add: tried_def assignment_def choices_def)
    then have "\<forall>(t, x) \<in> set (take 3 R). t \<in> set (choices_of owner_of tx_of rows x)" by (meson in_set_takeD)
    from rows_of_assignment [OF this]
    obtain rs where rs: "set rs \<subseteq> set rows" "map owner_of rs = map snd (take 3 R)" "map tx_of rs = map fst (take 3 R)" by blast
    have "length rs = 3" using arg_cong [OF rs(2), of length] three size by simp
    moreover have "distinct (map owner_of rs) \<and> distinct (map tx_of rs)"
      using tried unfolding rs(2,3) take_map [symmetric] by (simp add: tried_def assignment_def)
    ultimately show "\<exists>rs. set rs \<subseteq> set rows \<and> length rs = 3 \<and> distinct (map owner_of rs) \<and> distinct (map tx_of rs)"
      using rs(1) by blast
  next
    assume "\<exists>rs. set rs \<subseteq> set rows \<and> length rs = 3 \<and> distinct (map owner_of rs) \<and> distinct (map tx_of rs)"
    then obtain rs where rs: "set rs \<subseteq> set rows" "length rs = 3" "distinct (map owner_of rs)" "distinct (map tx_of rs)" by blast
    show "3 \<le> distinct_transactions owner_of tx_of rows"
    proof (rule ccontr)
      assume "\<not> 3 \<le> distinct_transactions owner_of tx_of rows"
      with size all have few: "length R < 3" "owners = set os" by auto
      define tx where "tx x = the (map_of (map (\<lambda>r. (owner_of r, tx_of r)) rs) x)" for x
      have tx: "tx (owner_of r) = tx_of r" if "r \<in> set rs" for r
      proof -
        have "(owner_of r, tx_of r) \<in> set (map (\<lambda>r. (owner_of r, tx_of r)) rs)" using that by auto
        moreover have "distinct (map fst (map (\<lambda>r. (owner_of r, tx_of r)) rs))" using rs(3) by (simp add: comp_def)
        ultimately show ?thesis by (simp add: tx_def)
      qed
      have "length (map owner_of rs) \<le> length R"
      proof (rule tried_bounds [OF tried _ rs(3), where tx = tx])
        show "set (map owner_of rs) \<subseteq> owners" using rs(1) few(2) by (auto simp: os_def)
        show "tx x \<in> set (choices x)" if "x \<in> set (map owner_of rs)" for x
          using that rs(1) tx by (auto simp: choices_def choices_of_iff)
        show "inj_on tx (set (map owner_of rs))"
        proof (rule inj_onI)
          fix x y assume "x \<in> set (map owner_of rs)" "y \<in> set (map owner_of rs)" "tx x = tx y"
          then obtain a b where ab: "a \<in> set rs" "b \<in> set rs" "x = owner_of a" "y = owner_of b" "tx_of a = tx_of b"
            using tx by auto
          then have "a = b" using rs(4) by (auto simp: distinct_map dest: inj_onD)
          with ab show "x = y" by simp
        qed
      qed
      with rs(2) few(1) show False by simp
    qed
  qed
qed

text \<open>
  C16: the count is exact where it matters: it reaches three if and only if there are three rows of three
  different owners in three different transactions, however owners and transactions overlap.
\<close>

theorem distinct_transactions_exact:
  "3 \<le> distinct_transactions owner_of tx_of rows \<longleftrightarrow>
     (\<exists>rs. set rs \<subseteq> set rows \<and> length rs = 3 \<and> distinct (map owner_of rs) \<and> distinct (map tx_of rs))"
  by (rule distinct_transactions_three)
end
