(* ===== verification/Coordinated_Activity.thy ===== *)
theory Coordinated_Activity
  imports Buy_Windows Py_Time Wallet_Links "HOL-Library.Product_Lexorder"
begin

text \<open>
  \<^verbatim>\<open>src/coordinated_activity.py\<close>: what the purchases of a frozen cohort have in common.  The rows, profiles and
  positions are JSON values; the trades, signals and findings are records.  A number is an exact rational and
  \<open>math.fsum\<close> the exact sum.  The evidence of a signal is its list of numbers in the order of their names, which
  is the order in which the program compares two descriptions of one signal; fixed texts are left out.
\<close>

section \<open>Reading values\<close>

definition ca_number :: "pyval \<Rightarrow> rat option" where
  "ca_number v = (if v = PNone \<or> is_bool v then None else (case py_float v of Some (Fin q) \<Rightarrow> (if 0 \<le> q then Some q else None) | _ \<Rightarrow> None))"

definition ca_integer :: "pyval \<Rightarrow> int option" where
  "ca_integer v = (case ca_number v of Some q \<Rightarrow> (if q = of_int \<lfloor>q\<rfloor> then Some \<lfloor>q\<rfloor> else None) | None \<Rightarrow> None)"

definition iso_seconds :: "string \<Rightarrow> rat option" where
  "iso_seconds s = (case fromisoformat (expand_z s) of Inl e \<Rightarrow> None | Inr dt \<Rightarrow> map_option (Py_Time.timestamp dt) (dt_tz dt))"

definition ca_time :: "pyval \<Rightarrow> rat option" where
  "ca_time v = (case (case ca_number v of Some q \<Rightarrow> Some q | None \<Rightarrow> (case v of PStr s \<Rightarrow> iso_seconds s | _ \<Rightarrow> None)) of
      Some t \<Rightarrow> (if t < 0 \<or> t \<ge> 253402300800 then None else Some t) | None \<Rightarrow> None)"

definition ca_address :: "pyval \<Rightarrow> string" where
  "ca_address v = (case v of PStr s \<Rightarrow> py_strip s | _ \<Rightarrow> [])"

definition percent_of :: "rat option \<Rightarrow> rat option \<Rightarrow> rat option" where
  "percent_of amount supply = (case (amount, supply) of (Some a, Some s) \<Rightarrow> Some (a / s * 100) | _ \<Rightarrow> None)"

text \<open>\<open>_total\<close>: the sum of values that are all known.\<close>

definition sum_known :: "rat option list \<Rightarrow> rat option" where
  "sum_known vs = (if vs \<noteq> [] \<and> list_all (\<lambda>v. v \<noteq> None) vs then Some (sum_list (map the vs)) else None)"

definition setting_of :: "pyval \<Rightarrow> string \<Rightarrow> rat \<Rightarrow> rat \<Rightarrow> rat option \<Rightarrow> rat" where
  "setting_of config k preset minimum maximum =
     (let v = (case ca_number (getd config k) of None \<Rightarrow> preset | Some q \<Rightarrow> max minimum q)
      in case maximum of None \<Rightarrow> v | Some m \<Rightarrow> min v m)"

text \<open>The value all entries agree on.\<close>

definition consensus :: "rat option list \<Rightarrow> rat option" where
  "consensus vs = (case vs of [] \<Rightarrow> None | v # rest \<Rightarrow> (if list_all ((=) v) vs then v else None))"

section \<open>Trades\<close>

record trade =
  tr_owner :: string
  tr_tx :: string
  tr_time :: rat
  tr_kind :: string
  tr_bought :: "rat option"
  tr_sold :: "rat option"
  tr_native :: "rat option"

definition parse_trade :: "rat option \<Rightarrow> string list \<Rightarrow> pyval \<Rightarrow> string + trade" where
  "parse_trade observed excluded raw =
     (let owner = ca_address (getd raw ''owner''); tx = ca_address (getd raw ''transaction'') in
      if \<not> is_dict raw then Inl ''invalid_buy_rows''
      else (case ca_time (getd raw ''timestamp'') of
          None \<Rightarrow> Inl ''invalid_or_unresolved_buy_rows''
        | Some t \<Rightarrow>
            if owner = [] \<or> tx = [] \<or> owner \<in> set excluded \<or> (case observed of Some o' \<Rightarrow> t > o' | None \<Rightarrow> False)
            then Inl ''invalid_or_unresolved_buy_rows''
            else Inr \<lparr>tr_owner = owner, tr_tx = tx, tr_time = t,
                tr_kind = (case getd raw ''kind'' of PStr s \<Rightarrow> if lower s = ''sell'' then ''sell'' else ''buy'' | _ \<Rightarrow> ''buy''),
                tr_bought = ca_number (getd raw ''bought_tokens''), tr_sold = ca_number (getd raw ''sold_tokens''),
                tr_native = ca_number (getd raw ''amount_native'')\<rparr>))"

type_synonym trade_id = "string \<times> string \<times> string"

definition trade_key :: "trade \<Rightarrow> trade_id" where
  "trade_key t = (tr_owner t, tr_tx t, tr_kind t)"

definition add_row :: "rat option \<Rightarrow> string list \<Rightarrow> (trade_id \<times> trade list) list \<times> string list \<Rightarrow> pyval \<Rightarrow> (trade_id \<times> trade list) list \<times> string list" where
  "add_row observed excluded = (\<lambda>(groups, reasons) raw. case parse_trade observed excluded raw of
      Inl reason \<Rightarrow> (groups, insert_new reason reasons)
    | Inr t \<Rightarrow> (AList.update (trade_key t) ((case map_of groups (trade_key t) of None \<Rightarrow> [] | Some ts \<Rightarrow> ts) @ [t]) groups, reasons))"

definition known_values :: "rat option list \<Rightarrow> rat list" where
  "known_values vs = map the (filter (\<lambda>v. v \<noteq> None) vs)"

text \<open>The rows of one owner, transaction and kind: repeated rows add no volume.\<close>

definition merge_rows :: "trade list \<Rightarrow> trade option" where
  "merge_rows ts = (case ts of
      [] \<Rightarrow> None
    | t # rest \<Rightarrow>
        if list_ex (\<lambda>u. tr_time u \<noteq> tr_time t) ts then None
        else Some (t\<lparr>
          tr_bought := (if list_all (\<lambda>u. tr_bought u \<noteq> None) ts then Some (Min (set (known_values (map tr_bought ts)))) else None),
          tr_sold := (if known_values (map tr_sold ts) \<noteq> [] then Some (Max (set (known_values (map tr_sold ts)))) else None),
          tr_native := (if list_all (\<lambda>u. tr_native u \<noteq> None) ts then Some (Max (set (known_values (map tr_native ts)))) else None)\<rparr>))"

definition trade_order :: "trade \<Rightarrow> rat \<times> string \<times> string \<times> string" where
  "trade_order t = (tr_time t, tr_owner t, tr_tx t, tr_kind t)"

definition normalize_trades :: "rat option \<Rightarrow> string list \<Rightarrow> pyval list \<Rightarrow> string list \<Rightarrow> trade list \<times> string list" where
  "normalize_trades observed excluded rows reasons =
     (let (groups, r) = foldl (add_row observed excluded) ([], reasons) rows;
          merged = map (\<lambda>k. case map_of groups k of Some ts \<Rightarrow> merge_rows ts | None \<Rightarrow> None) (sort (map fst groups))
      in (sort_key trade_order (map the (filter (\<lambda>m. m \<noteq> None) merged)),
          add_if (list_ex (\<lambda>m. m = None) merged) ''conflicting_duplicate_buy_times'' r))"

section \<open>Holdings\<close>

record ca_holding =
  hg_held :: "rat option"
  hg_attributed :: "rat option"
  hg_upper :: "rat option"      \<comment> \<open>\<open>churn_retention\<close>\<close>

definition position_rows :: "pyval \<Rightarrow> pyval list" where
  "position_rows positions = (case positions of
      PDict d \<Rightarrow> map (\<lambda>(owner, row). (case row of PDict r \<Rightarrow> PDict (AList.update ''owner'' (PStr owner) r) | _ \<Rightarrow> row))
        (filter (\<lambda>(owner, row). is_dict row) d)
    | _ \<Rightarrow> as_list positions)"

definition row_value :: "rat option \<Rightarrow> rat \<Rightarrow> rat \<Rightarrow> rat option \<Rightarrow> pyval \<Rightarrow> rat option \<times> rat option" where
  "row_value observed max_age sold latest row =
     (case (ca_number (getd row ''current_balance''), ca_number (getd row ''attributed_tokens''), latest) of
        (Some balance, Some attributed, Some at_time) \<Rightarrow>
          if getd row ''balance_verified'' \<noteq> PBool True \<or>
             (case observed of Some o' \<Rightarrow> \<not> (0 \<le> o' - at_time \<and> o' - at_time \<le> max_age) | None \<Rightarrow> False) then (None, None)
          else (case ca_number (getd row ''retained_tokens'') of
              Some retained \<Rightarrow> (Some (min (min balance attributed) retained), Some (min balance attributed))
            | None \<Rightarrow> if getd row ''retained_tokens'' \<noteq> PNone then (None, None)
                else (Some (min balance (max 0 (attributed - sold))), Some (min balance attributed)))
      | _ \<Rightarrow> (None, None))"

definition holding_of :: "pyval list \<Rightarrow> rat option \<Rightarrow> rat \<Rightarrow> rat \<Rightarrow> string \<Rightarrow> ca_holding" where
  "holding_of rows observed max_age sold owner =
     (let mine = filter (\<lambda>row. is_dict row \<and> getd row ''owner'' = PStr owner) rows;
          times = known_values (map (\<lambda>row. ca_time (getd row ''checked_at'')) mine);
          latest = (if times = [] then None else Some (Max (set times)));
          selected = filter (\<lambda>row. ca_time (getd row ''checked_at'') = latest) mine;
          values = map (row_value observed max_age sold latest) selected
      in \<lparr>hg_held = consensus (map fst values), hg_attributed = consensus (map (\<lambda>row. ca_number (getd row ''attributed_tokens'')) selected),
          hg_upper = consensus (map snd values)\<rparr>)"

section \<open>Profiles\<close>

record funded =
  fu_owner :: string
  fu_funding :: rat
  fu_buy :: rat
  fu_tx :: string

text \<open>What a profile shows of one owner; \<open>source\<close> is the source of a funding of at least the minimum.\<close>

record profile_facts =
  pf_reasons :: "string list"
  pf_day :: "string option"
  pf_source :: "(string \<times> funded) option"
  pf_material :: bool

definition no_facts :: "string list \<Rightarrow> profile_facts" where
  "no_facts reasons = \<lparr>pf_reasons = reasons, pf_day = None, pf_source = None, pf_material = False\<rparr>"

text \<open>\<open>datetime.fromtimestamp(activity, utc).date().isoformat()\<close>\<close>

definition utc_day :: "rat \<Rightarrow> string" where
  "utc_day t = (case iso t of Inr s \<Rightarrow> take 10 s | Inl e \<Rightarrow> [])"

definition young_day :: "rat \<Rightarrow> int \<Rightarrow> pyval \<Rightarrow> rat \<Rightarrow> string option" where
  "young_day young_age young_prior profile buy_time =
     (case (ca_time (getd profile ''first_activity_at''), ca_integer (getd profile ''previous_tx_count'')) of
        (Some activity, Some prior) \<Rightarrow>
          if getd profile ''history_complete'' = PBool True \<and> prior \<le> young_prior \<and> 0 \<le> buy_time - activity \<and>
             buy_time - activity \<le> young_age * 86400 then Some (utc_day activity) else None
      | _ \<Rightarrow> None)"

text \<open>A verified transfer before the first purchase, from a source that is neither the owner nor a service.\<close>

definition funding_of :: "string list \<Rightarrow> string \<Rightarrow> rat \<Rightarrow> pyval \<Rightarrow> (string \<times> rat) option" where
  "funding_of services owner buy_time profile =
     (let source = ca_address (getd profile ''funding_source'') in
      case ca_time (getd profile ''funding_at'') of
        Some funded \<Rightarrow> if getd profile ''funding_verified'' = PBool True \<and> source \<noteq> [] \<and> source \<noteq> owner \<and> source \<notin> set services \<and> funded < buy_time
          then Some (source, funded) else None
      | None \<Rightarrow> None)"

definition judge_funding :: "rat \<Rightarrow> rat \<Rightarrow> trade \<Rightarrow> pyval \<Rightarrow> string \<times> rat \<Rightarrow> profile_facts \<Rightarrow> profile_facts" where
  "judge_funding min_native min_fraction first profile = (\<lambda>(source, funded) facts.
     case ca_number (getd profile ''funding_amount_native'') of
       None \<Rightarrow> facts\<lparr>pf_reasons := pf_reasons facts @ [''funding_amount_native_unavailable'']\<rparr>
     | Some amount \<Rightarrow>
         let checked = (case tr_native first of Some b \<Rightarrow> b > 0 | None \<Rightarrow> False) in
         if amount \<le> 0 \<or> amount < min_native \<or> (checked \<and> amount < min_fraction * the (tr_native first)) then facts
         else facts\<lparr>pf_reasons := pf_reasons facts @ (if checked then [] else [''funding_buy_amount_native_unavailable'']),
                pf_source := Some (source, \<lparr>fu_owner = tr_owner first, fu_funding = funded, fu_buy = tr_time first, fu_tx = tr_tx first\<rparr>),
                pf_material := checked\<rparr>)"

definition facts_of :: "string list \<Rightarrow> rat \<Rightarrow> int \<Rightarrow> rat \<Rightarrow> rat \<Rightarrow> pyval \<Rightarrow> trade \<Rightarrow> profile_facts" where
  "facts_of services young_age young_prior min_native min_fraction profiles first =
     (let profile = getd profiles (tr_owner first) in
      if \<not> is_dict profile then no_facts [''pre_buy_history_incomplete'']
      else (let facts = (no_facts (if getd profile ''history_complete'' = PBool True then [] else [''pre_buy_history_incomplete'']))
                  \<lparr>pf_day := young_day young_age young_prior profile (tr_time first)\<rparr> in
        case funding_of services (tr_owner first) (tr_time first) profile of
          None \<Rightarrow> facts
        | Some funding \<Rightarrow> judge_funding min_native min_fraction first profile funding facts))"

definition service_profile :: "pyval \<Rightarrow> bool" where
  "service_profile p \<longleftrightarrow> is_dict p \<and> (case getd p ''source_kind'' of PStr s \<Rightarrow> kind_text s \<in> set SERVICE_KINDS | _ \<Rightarrow> False)"

definition service_sources :: "string list \<Rightarrow> pyval \<Rightarrow> string list" where
  "service_sources excluded profiles =
     excluded @ map (\<lambda>(owner, p). ca_address (getd p ''funding_source''))
       (filter (\<lambda>(owner, p). service_profile p) (case profiles of PDict d \<Rightarrow> d | _ \<Rightarrow> []))"

section \<open>Signals\<close>

record signal =
  sg_code :: string
  sg_family :: string
  sg_source :: string
  sg_day :: string
  sg_numbers :: "rat list"
  sg_members :: "string list"
  sg_held :: "rat option"

type_synonym signal_id = "string \<times> string \<times> string list"

definition signal_key :: "signal \<Rightarrow> signal_id" where
  "signal_key s = (sg_code s, sg_source s, sg_members s)"

text \<open>\<open>add(code, family, members, detail)\<close>\<close>

definition add_signal :: "(string \<Rightarrow> rat option) \<Rightarrow> rat option \<Rightarrow> signal \<Rightarrow> (signal_id \<times> signal) list \<Rightarrow> (signal_id \<times> signal) list" where
  "add_signal held supply s candidates =
     (let members = sorted_set (sg_members s);
          new = s\<lparr>sg_members := members, sg_held := percent_of (sum_known (map held members)) supply\<rparr> in
      if length members < (if sg_code s = ''inventory_churn'' then 1 else 3) then candidates
      else (case map_of candidates (signal_key new) of
          None \<Rightarrow> AList.update (signal_key new) new candidates
        | Some previous \<Rightarrow> if sg_numbers new < sg_numbers previous then AList.update (signal_key new) new candidates else candidates))"

definition span_of :: "('r \<Rightarrow> rat) \<Rightarrow> 'r list \<Rightarrow> rat" where
  "span_of f rows = Max (f ` set rows) - Min (f ` set rows)"

definition blank_signal :: signal where
  "blank_signal = \<lparr>sg_code = [], sg_family = [], sg_source = [], sg_day = [], sg_numbers = [], sg_members = [], sg_held = None\<rparr>"

text \<open>Rows ordered by a time, their owner and their transaction.\<close>

definition trade_windows :: "rat \<Rightarrow> trade list \<Rightarrow> trade list list" where
  "trade_windows = windows (\<lambda>t. (tr_time t, tr_owner t, tr_tx t)) tr_time tr_owner"

definition funded_windows :: "(funded \<Rightarrow> rat) \<Rightarrow> rat \<Rightarrow> funded list \<Rightarrow> funded list list" where
  "funded_windows f = windows (\<lambda>r. (f r, fu_owner r, fu_tx r)) f fu_owner"

definition synchronous_signals :: "rat \<Rightarrow> trade list \<Rightarrow> signal list" where
  "synchronous_signals buy_window rows =
     map (\<lambda>w. blank_signal\<lparr>sg_code := ''synchronous_buys'', sg_family := ''temporal'',
         sg_numbers := [span_of tr_time w, of_nat (length (remdups (map tr_tx w)))], sg_members := map tr_owner w\<rparr>)
       (filter (\<lambda>w. 3 \<le> distinct_transactions tr_owner tr_tx w) (trade_windows buy_window rows))"

definition young_signals :: "(string \<times> profile_facts) list \<Rightarrow> signal list" where
  "young_signals facts =
     map (\<lambda>day. blank_signal\<lparr>sg_code := ''young_low_activity'', sg_family := ''age_activity'', sg_day := day,
         sg_members := map fst (filter (\<lambda>(owner, f). pf_day f = Some day) facts)\<rparr>)
       (sorted_set (map the (filter (\<lambda>d. d \<noteq> None) (map (\<lambda>(owner, f). pf_day f) facts))))"

text \<open>The funded rows of a source.\<close>

definition funded_by :: "(string \<times> profile_facts) list \<Rightarrow> string \<Rightarrow> funded list" where
  "funded_by facts source = map (\<lambda>(owner, f). snd (the (pf_source f)))
     (filter (\<lambda>(owner, f). map_option fst (pf_source f) = Some source) facts)"

definition sources_of :: "(string \<times> profile_facts) list \<Rightarrow> string list" where
  "sources_of facts = sorted_set (map (\<lambda>(owner, f). fst (the (pf_source f))) (filter (\<lambda>(owner, f). pf_source f \<noteq> None) facts))"

definition preparation_signal :: "string \<Rightarrow> funded list \<Rightarrow> signal" where
  "preparation_signal source w = blank_signal\<lparr>sg_code := ''synchronized_preparation'', sg_family := ''funding'', sg_source := source,
     sg_numbers := [span_of fu_buy w, span_of fu_funding w, Max ((\<lambda>r. fu_buy r - fu_funding r) ` set w)], sg_members := map fu_owner w\<rparr>"

definition funding_signals :: "rat \<Rightarrow> rat \<Rightarrow> (string \<times> profile_facts) list \<Rightarrow> signal list" where
  "funding_signals funding_lag prep_window facts = concat (map (\<lambda>source.
     let rows = funded_by facts source; prepared = filter (\<lambda>r. fu_buy r - fu_funding r \<le> funding_lag) rows in
     blank_signal\<lparr>sg_code := ''common_direct_funding'', sg_family := ''funding'', sg_source := source, sg_members := map fu_owner rows\<rparr> #
     concat (map (\<lambda>fw. map (preparation_signal source) (funded_windows fu_buy prep_window fw))
       (funded_windows fu_funding prep_window prepared))) (sources_of facts))"

section \<open>Turnover\<close>

definition sum_of :: "(trade \<Rightarrow> rat option) \<Rightarrow> trade list \<Rightarrow> rat" where
  "sum_of f ts = sum_list (map (\<lambda>t. case f t of Some q \<Rightarrow> q | None \<Rightarrow> 0) ts)"

definition positive :: "rat option \<Rightarrow> bool" where
  "positive v \<longleftrightarrow> (case v of Some q \<Rightarrow> q > 0 | None \<Rightarrow> False)"

definition rotation_signal :: "rat \<Rightarrow> rat \<Rightarrow> rat option \<Rightarrow> string \<Rightarrow> trade list \<Rightarrow> signal list" where
  "rotation_signal price_gap min_pct supply source w =
     (let sales = filter (\<lambda>t. tr_kind t = ''sell'') w; sellers = map tr_owner sales in
      if length (remdups sellers) < 3 then []
      else (let latest = Max (tr_time ` set sales);
                buys = filter (\<lambda>t. tr_kind t = ''buy'' \<and> tr_owner t \<notin> set sellers \<and> tr_time t \<ge> latest) w;
                sold = sum_of tr_sold sales; rebought = sum_of tr_bought buys in
        if length (remdups (map tr_owner buys)) < 3 then []
        else (case supply of
            None \<Rightarrow> []
          | Some total_supply \<Rightarrow>
              if sold = 0 \<or> rebought = 0 \<or> min sold rebought / total_supply * 100 < min_pct then []
              else (let gap = \<bar>(sum_of tr_native buys / rebought) / (sum_of tr_native sales / sold) - 1\<bar> in
                if gap > price_gap then []
                else [blank_signal\<lparr>sg_code := ''market_rotation'', sg_family := ''turnover'', sg_source := source,
                  sg_numbers := [min sold rebought / total_supply * 100, rebought - sold, gap * 100,
                    rebought / total_supply * 100, sold / total_supply * 100],
                  sg_members := sellers @ map tr_owner buys\<rparr>]))))"

definition rotation_signals ::
    "rat \<Rightarrow> rat \<Rightarrow> rat \<Rightarrow> rat option \<Rightarrow> trade list \<Rightarrow> (string \<times> profile_facts) list \<Rightarrow> signal list" where
  "rotation_signals rotation_window price_gap min_pct supply trades facts = concat (map (\<lambda>source.
     let owners = map fst (filter (\<lambda>(owner, f). map_option fst (pf_source f) = Some source \<and> pf_material f) facts);
         eligible = filter (\<lambda>t. tr_owner t \<in> set owners \<and> positive (tr_native t) \<and>
           positive (if tr_kind t = ''sell'' then tr_sold t else tr_bought t)) trades in
     concat (map (rotation_signal price_gap min_pct supply source) (trade_windows rotation_window eligible))) (sources_of facts))"

definition churn_signal :: "trade list \<Rightarrow> trade list \<Rightarrow> rat option \<Rightarrow> string \<Rightarrow> signal list" where
  "churn_signal buys sales retained owner =
     (case (sum_known (map tr_bought buys), sum_known (map tr_sold sales), retained) of
        (Some bought, Some sold, Some kept) \<Rightarrow>
          if length buys < 2 \<or> length sales < 2 \<or> bought \<le> 0 \<or> list_ex (\<lambda>t. tr_time t \<le> tr_time (hd buys)) sales \<or>
             sold < 8 / 10 * bought \<or> kept > 2 / 10 * bought then []
          else [blank_signal\<lparr>sg_code := ''inventory_churn'', sg_family := ''turnover'', sg_members := [owner],
            sg_numbers := [of_nat (length buys), bought, sold, max 0 (bought - sold), kept / bought * 100, of_nat (length sales),
              min sold bought, min (sold / bought) 1 * 100]\<rparr>]
      | _ \<Rightarrow> [])"

section \<open>Material groups\<close>

text \<open>No signal of the same code and source has more members.\<close>

definition maximal_signals :: "signal list \<Rightarrow> signal list" where
  "maximal_signals signals = filter (\<lambda>s. \<not> list_ex (\<lambda>o'. sg_code s = sg_code o' \<and> sg_source s = sg_source o' \<and>
     set (sg_members s) \<subset> set (sg_members o')) signals) signals"

definition signal_rank :: "signal \<Rightarrow> rat \<times> int \<times> string \<times> string \<times> string list" where
  "signal_rank s = (- (case sg_held s of Some q \<Rightarrow> q | None \<Rightarrow> 0), - int (length (sg_members s)), sg_code s, sg_source s, sg_members s)"

definition ranked_signals :: "nat \<Rightarrow> signal list \<Rightarrow> signal list" where
  "ranked_signals max_signals signals = take max_signals (sort_key signal_rank (maximal_signals signals))"

text \<open>\<open>itertools.combinations\<close>\<close>

fun combinations :: "nat \<Rightarrow> 'a list \<Rightarrow> 'a list list" where
  "combinations 0 xs = [[]]"
| "combinations (Suc n) [] = []"
| "combinations (Suc n) (x # xs) = map ((#) x) (combinations n xs) @ combinations (Suc n) xs"

definition group_owners :: "(string \<Rightarrow> rat option) \<Rightarrow> string list \<Rightarrow> signal list \<Rightarrow> string list" where
  "group_owners held material combo =
     (case combo of
        [] \<Rightarrow> []
      | s # rest \<Rightarrow> sorted_set (filter (\<lambda>owner. list_all (\<lambda>t. owner \<in> set (sg_members t)) rest \<and>
          (\<not> list_ex (\<lambda>t. sg_family t = ''funding'') combo \<or> owner \<in> set material) \<and> positive (held owner)) (sg_members s)))"

definition group_percent :: "(string \<Rightarrow> rat option) \<Rightarrow> rat option \<Rightarrow> string list \<Rightarrow> rat option" where
  "group_percent held supply owners = percent_of (Some (sum_list (map (\<lambda>o'. the (held o')) owners))) supply"

text \<open>The owners and the share of supply of a group that is material, if it is.\<close>

definition material_group ::
    "(string \<Rightarrow> rat option) \<Rightarrow> rat option \<Rightarrow> string list \<Rightarrow> nat \<Rightarrow> nat \<Rightarrow> rat \<Rightarrow> signal list \<Rightarrow> (string list \<times> rat) option" where
  "material_group held supply material min_families min_wallets min_held combo =
     (let families = remdups (map sg_family combo); owners = group_owners held material combo in
      if ''turnover'' \<in> set families \<or> length families < min_families then None
      else (case group_percent held supply owners of
          None \<Rightarrow> None
        | Some p \<Rightarrow> if length owners < min_wallets \<or> p < min_held then None else Some (owners, p)))"

section \<open>The analysis\<close>

record ca_settings =
  cs_buy_window :: rat
  cs_prep_window :: rat
  cs_funding_lag :: rat
  cs_young_age :: rat
  cs_young_prior :: int
  cs_min_native :: rat
  cs_min_fraction :: rat
  cs_rotation_window :: rat
  cs_price_gap :: rat
  cs_rotation_pct :: rat
  cs_max_age :: rat
  cs_max_members :: nat
  cs_max_signals :: nat
  cs_min_wallets :: nat
  cs_min_families :: nat
  cs_min_held :: rat

definition settings_of :: "pyval \<Rightarrow> ca_settings" where
  "settings_of config = \<lparr>cs_buy_window = setting_of config ''buy_window_seconds'' 120 0 None,
     cs_prep_window = setting_of config ''preparation_window_seconds'' 900 0 None,
     cs_funding_lag = setting_of config ''max_funding_lag_seconds'' 3600 0 None,
     cs_young_age = setting_of config ''young_max_age_days'' 14 0 None,
     cs_young_prior = \<lfloor>setting_of config ''young_max_previous_tx_count'' 3 0 None\<rfloor>,
     cs_min_native = setting_of config ''min_funding_native'' (5 / 100) 0 None,
     cs_min_fraction = setting_of config ''min_funding_buy_fraction'' (1 / 10) 0 None,
     cs_rotation_window = setting_of config ''rotation_window_seconds'' 900 60 (Some 3600),
     cs_price_gap = setting_of config ''rotation_max_price_gap_pct'' 15 0 (Some 50) / 100,
     cs_rotation_pct = setting_of config ''rotation_min_supply_pct'' 1 (1 / 10) (Some 100),
     cs_max_age = setting_of config ''max_balance_age_seconds'' 3600 0 None,
     cs_max_members = nat \<lfloor>setting_of config ''max_members'' 20 3 (Some 20)\<rfloor>,
     cs_max_signals = nat \<lfloor>setting_of config ''max_signals'' 12 1 (Some 12)\<rfloor>,
     cs_min_wallets = nat \<lfloor>setting_of config ''min_wallets'' 3 3 None\<rfloor>,
     cs_min_families = nat \<lfloor>setting_of config ''min_families'' 2 2 None\<rfloor>,
     cs_min_held = setting_of config ''min_held_supply_pct'' 1 0 None\<rparr>"

record cohort =
  co_trades :: "trade list"
  co_holdings :: "(string \<times> ca_holding) list"
  co_facts :: "(string \<times> profile_facts) list"
  co_supply :: "rat option"
  co_reasons :: "string list"

definition purchases_of :: "trade list \<Rightarrow> trade list" where
  "purchases_of trades = filter (\<lambda>t. tr_kind t = ''buy'') trades"

definition trades_by :: "string \<Rightarrow> string \<Rightarrow> trade list \<Rightarrow> trade list" where
  "trades_by kind owner trades = filter (\<lambda>t. tr_kind t = kind \<and> tr_owner t = owner) trades"

definition sold_by :: "trade list \<Rightarrow> string \<Rightarrow> rat" where
  "sold_by trades owner = sum_of tr_sold
     (if trades_by ''sell'' owner trades \<noteq> [] then trades_by ''sell'' owner trades else trades_by ''buy'' owner trades)"

definition excluded_of :: "pyval \<Rightarrow> string list" where
  "excluded_of addresses = filter (\<lambda>a. a \<noteq> []) (map ca_address (case addresses of PStr s \<Rightarrow> [PStr s] | _ \<Rightarrow> as_list addresses))"

text \<open>Holdings that exceed the supply are all dropped.\<close>

definition cap_holdings :: "rat option \<Rightarrow> (string \<times> ca_holding) list \<Rightarrow> (string \<times> ca_holding) list" where
  "cap_holdings supply hs =
     (if (case supply of None \<Rightarrow> False | Some q \<Rightarrow> sum_list (known_values (map (\<lambda>(owner, h). hg_held h) hs)) > q * (1 + 1 / 1000000000))
      then map (\<lambda>(owner, h). (owner, h\<lparr>hg_held := None, hg_upper := None\<rparr>)) hs else hs)"

definition positive_supply :: "pyval \<Rightarrow> rat option" where
  "positive_supply v = (case ca_number v of Some q \<Rightarrow> if q > 0 then Some q else None | None \<Rightarrow> None)"

definition cohort_of :: "ca_settings \<Rightarrow> pyval list \<Rightarrow> pyval \<Rightarrow> pyval \<Rightarrow> pyval \<Rightarrow> pyval \<Rightarrow> pyval \<Rightarrow> cohort" where
  "cohort_of st buys profiles positions supply observed_at addresses =
     (let observed = ca_time observed_at; total = positive_supply supply; excluded = excluded_of addresses;
          (trades, reasons) = normalize_trades observed excluded buys
            (add_if (total = None) ''total_supply_unavailable'' (add_if (observed = None) ''observation_time_unavailable'' []));
          owners = sorted_set (map tr_owner (purchases_of trades));
          holdings = map (\<lambda>owner. (owner, holding_of (position_rows positions) observed (cs_max_age st) (sold_by trades owner) owner)) owners;
          services = service_sources excluded profiles;
          facts = map (\<lambda>owner. (owner, facts_of services (cs_young_age st) (cs_young_prior st) (cs_min_native st) (cs_min_fraction st)
            profiles (hd (trades_by ''buy'' owner trades)))) owners;
          r1 = add_if (list_ex (\<lambda>(owner, h). hg_held h = None) holdings) ''missing_stale_or_conflicting_positions'' reasons;
          r2 = add_if (cap_holdings total holdings \<noteq> holdings) ''held_amount_exceeds_total_supply'' r1
      in \<lparr>co_trades = trades, co_holdings = cap_holdings total holdings, co_facts = facts, co_supply = total,
          co_reasons = foldl (\<lambda>rs r. insert_new r rs) r2 (concat (map (\<lambda>(owner, f). pf_reasons f) facts))\<rparr>)"

definition held_of :: "cohort \<Rightarrow> string \<Rightarrow> rat option" where
  "held_of co owner = (case map_of (co_holdings co) owner of Some h \<Rightarrow> hg_held h | None \<Rightarrow> None)"

definition material_owners :: "cohort \<Rightarrow> string list" where
  "material_owners co = map fst (filter (\<lambda>(owner, f). pf_material f) (co_facts co))"

definition candidate_signals :: "ca_settings \<Rightarrow> cohort \<Rightarrow> signal list" where
  "candidate_signals st co =
     synchronous_signals (cs_buy_window st) (purchases_of (co_trades co)) @ young_signals (co_facts co) @
     funding_signals (cs_funding_lag st) (cs_prep_window st) (co_facts co) @
     rotation_signals (cs_rotation_window st) (cs_price_gap st) (cs_rotation_pct st) (co_supply co) (co_trades co) (co_facts co) @
     concat (map (\<lambda>(owner, h). churn_signal (trades_by ''buy'' owner (co_trades co)) (trades_by ''sell'' owner (co_trades co)) (hg_upper h) owner)
       (co_holdings co))"

definition collect_signals :: "ca_settings \<Rightarrow> cohort \<Rightarrow> signal list" where
  "collect_signals st co = map snd (foldl (\<lambda>c s. add_signal (held_of co) (co_supply co) s c) [] (candidate_signals st co))"

record finding =
  fi_signal :: signal
  fi_count :: nat
  fi_supporting :: bool
  fi_material :: "(nat \<times> rat) option"
  fi_eligible :: "nat option"   \<comment> \<open>\<open>buy_fraction_checked_wallets\<close>\<close>

definition new_finding :: "string list \<Rightarrow> signal \<Rightarrow> finding" where
  "new_finding material s = \<lparr>fi_signal = s, fi_count = length (sg_members s), fi_supporting = True, fi_material = None,
     fi_eligible = (if sg_family s = ''funding'' then Some (length (filter (\<lambda>owner. owner \<in> set material) (sg_members s))) else None)\<rparr>"

definition note_material :: "nat \<Rightarrow> rat \<Rightarrow> finding \<Rightarrow> finding" where
  "note_material wallets p f = f\<lparr>fi_supporting := False, fi_material := (case fi_material f of
      Some (n, q) \<Rightarrow> if p > q then Some (wallets, p) else Some (n, q)
    | None \<Rightarrow> Some (wallets, p))\<rparr>"

record material_state =
  ms_findings :: "finding list"
  ms_material :: "(string list \<times> rat) list"
  ms_watch :: bool

definition judge_combo :: "ca_settings \<Rightarrow> cohort \<Rightarrow> material_state \<Rightarrow> nat list \<Rightarrow> material_state" where
  "judge_combo st co ms positions =
     (let combo = map (\<lambda>i. fi_signal (ms_findings ms ! i)) positions; families = set (map sg_family combo) in
      case material_group (held_of co) (co_supply co) (material_owners co) (cs_min_families st) (cs_min_wallets st) (cs_min_held st) combo of
        None \<Rightarrow> ms
      | Some (owners, p) \<Rightarrow>
          \<lparr>ms_findings = map (\<lambda>(i, f). if i \<in> set positions then note_material (length owners) p f else f) (indexed (ms_findings ms)),
           ms_material = AList.update owners p (ms_material ms),
           ms_watch = (ms_watch ms \<or> {''funding'', ''temporal''} \<subseteq> families)\<rparr>)"

definition show_finding :: "nat \<Rightarrow> finding \<Rightarrow> finding" where
  "show_finding max_members f = f\<lparr>fi_signal := (fi_signal f)\<lparr>sg_members := take max_members (sg_members (fi_signal f))\<rparr>\<rparr>"

record ca_analysis =
  ca_status :: string
  ca_findings :: "finding list"
  ca_material :: "(string list \<times> rat) list"
  ca_reasons :: "string list"

definition judge_signals :: "ca_settings \<Rightarrow> cohort \<Rightarrow> signal list \<Rightarrow> material_state" where
  "judge_signals st co signals = foldl (judge_combo st co)
     \<lparr>ms_findings = map (new_finding (material_owners co)) signals, ms_material = [], ms_watch = False\<rparr>
     (combinations (cs_min_families st) [0..<length signals])"

definition status_of :: "trade list \<Rightarrow> signal list \<Rightarrow> bool \<Rightarrow> string" where
  "status_of rows signals watch =
     (if rows = [] then ''not_checked'' else if signals = [] then ''no_pattern_in_checked_subset''
      else if watch then ''coordination_watch'' else ''pattern'')"

definition analyze_coordinated_activity :: "pyval list \<Rightarrow> pyval \<Rightarrow> pyval \<Rightarrow> pyval \<Rightarrow> pyval \<Rightarrow> pyval \<Rightarrow> pyval \<Rightarrow> ca_analysis" where
  "analyze_coordinated_activity buys profiles positions supply observed_at config addresses =
     (let st = settings_of config; co = cohort_of st buys profiles positions supply observed_at addresses;
          signals = ranked_signals (cs_max_signals st) (collect_signals st co); ms = judge_signals st co signals
      in \<lparr>ca_status = status_of (purchases_of (co_trades co)) signals (ms_watch ms),
          ca_findings = map (show_finding (cs_max_members st)) (ms_findings ms), ca_material = ms_material ms,
          ca_reasons = add_if (cs_max_signals st < length (maximal_signals (collect_signals st co))) ''signals_truncated'' (co_reasons co)\<rparr>)"

section \<open>Repeated rows\<close>

text \<open>The groups hold the parsed rows of their key, in the order of arrival.\<close>

definition parsed_rows :: "rat option \<Rightarrow> string list \<Rightarrow> pyval list \<Rightarrow> trade list" where
  "parsed_rows observed excluded rows = concat (map (\<lambda>raw. case parse_trade observed excluded raw of Inl r \<Rightarrow> [] | Inr t \<Rightarrow> [t]) rows)"

definition rows_with :: "trade_id \<Rightarrow> trade list \<Rightarrow> trade list" where
  "rows_with k ts = filter (\<lambda>t. trade_key t = k) ts"

definition groups_ok :: "(trade_id \<times> trade list) list \<Rightarrow> trade list \<Rightarrow> bool" where
  "groups_ok groups ts \<longleftrightarrow> distinct (map fst groups) \<and>
     (\<forall>k. map_of groups k = (if rows_with k ts = [] then None else Some (rows_with k ts)))"

lemma groups_okD:
  assumes "groups_ok groups ts"
  shows "distinct (map fst groups)" "map_of groups k = (if rows_with k ts = [] then None else Some (rows_with k ts))"
  using assms unfolding groups_ok_def by blast+

lemma groups_okI:
  "distinct (map fst groups) \<Longrightarrow> (\<And>k. map_of groups k = (if rows_with k ts = [] then None else Some (rows_with k ts))) \<Longrightarrow> groups_ok groups ts"
  unfolding groups_ok_def by blast

lemma add_row_ok:
  assumes "groups_ok groups ts" "add_row observed excluded (groups, reasons) raw = (groups', reasons')"
  shows "groups_ok groups' (ts @ parsed_rows observed excluded [raw])"
proof (cases "parse_trade observed excluded raw")
  case (Inl r)
  with assms show ?thesis by (simp add: add_row_def parsed_rows_def)
next
  case (Inr t)
  have found: "(case map_of groups (trade_key t) of None \<Rightarrow> [] | Some us \<Rightarrow> us) = rows_with (trade_key t) ts"
    by (simp add: groups_okD(2) [OF assms(1)])
  have "groups' = AList.update (trade_key t) (rows_with (trade_key t) ts @ [t]) groups"
    using assms(2) Inr unfolding add_row_def by (simp add: found)
  moreover have "rows_with k (ts @ [t]) = (if k = trade_key t then rows_with k ts @ [t] else rows_with k ts)" for k
    by (simp add: rows_with_def)
  ultimately have "groups_ok groups' (ts @ [t])"
    by (intro groups_okI) (simp_all add: groups_okD [OF assms(1)])
  with Inr show ?thesis by (simp add: parsed_rows_def)
qed

lemma add_rows_ok:
  assumes "groups_ok groups ts" "foldl (add_row observed excluded) (groups, reasons) rows = (groups', reasons')"
  shows "groups_ok groups' (ts @ parsed_rows observed excluded rows)"
  using assms
proof (induction rows arbitrary: groups reasons ts)
  case Nil
  then show ?case by (simp add: parsed_rows_def)
next
  case (Cons raw rows)
  obtain g r where step: "add_row observed excluded (groups, reasons) raw = (g, r)" by (rule prod.exhaust)
  from Cons.IH [OF add_row_ok [OF Cons.prems(1) step]] Cons.prems(2) step
  show ?case by (simp add: parsed_rows_def)
qed

lemma groups_start: "groups_ok [] []"
  by (simp add: groups_ok_def rows_with_def)

lemma groups_keys: "groups_ok groups ts \<Longrightarrow> set (map fst groups) = trade_key ` set ts"
proof (rule set_eqI)
  fix k
  assume ok: "groups_ok groups ts"
  have "k \<in> set (map fst groups) \<longleftrightarrow> map_of groups k \<noteq> None" by (simp add: map_of_eq_None_iff)
  also have "\<dots> \<longleftrightarrow> rows_with k ts \<noteq> []" by (simp add: groups_okD(2) [OF ok])
  also have "\<dots> \<longleftrightarrow> k \<in> trade_key ` set ts" by (auto simp: rows_with_def filter_empty_conv)
  finally show "k \<in> set (map fst groups) \<longleftrightarrow> k \<in> trade_key ` set ts" .
qed

text \<open>The reasons a list of rows adds.\<close>

definition row_reasons :: "rat option \<Rightarrow> string list \<Rightarrow> pyval list \<Rightarrow> string list \<Rightarrow> string list" where
  "row_reasons observed excluded rows reasons = foldl (\<lambda>rs raw. case parse_trade observed excluded raw of Inl r \<Rightarrow> insert_new r rs | Inr t \<Rightarrow> rs) reasons rows"

lemma add_rows_reasons:
  "snd (foldl (add_row observed excluded) (groups, reasons) rows) = row_reasons observed excluded rows reasons"
proof (induction rows arbitrary: groups reasons)
  case Nil
  then show ?case by (simp add: row_reasons_def)
next
  case (Cons raw rows)
  obtain g r where step: "add_row observed excluded (groups, reasons) raw = (g, r)" by (rule prod.exhaust)
  then have "r = (case parse_trade observed excluded raw of Inl e \<Rightarrow> insert_new e reasons | Inr t \<Rightarrow> reasons)"
    by (auto simp: add_row_def split: sum.splits)
  with Cons.IH [of g r] step show ?case by (simp add: row_reasons_def)
qed

lemma row_reasons_known:
  assumes "\<forall>raw \<in> set rows. case parse_trade observed excluded raw of Inl r \<Rightarrow> r \<in> set reasons | Inr t \<Rightarrow> True"
  shows "row_reasons observed excluded rows reasons = reasons"
  using assms by (induction rows) (auto simp: row_reasons_def insert_new_def split: sum.splits)

lemma row_reasons_collect:
  "set reasons \<subseteq> set (row_reasons observed excluded rows reasons) \<and>
   (\<forall>raw \<in> set rows. case parse_trade observed excluded raw of Inl r \<Rightarrow> r \<in> set (row_reasons observed excluded rows reasons) | Inr t \<Rightarrow> True)"
proof (induction rows arbitrary: reasons)
  case Nil
  then show ?case by (simp add: row_reasons_def)
next
  case (Cons raw rows)
  define rs where "rs = (case parse_trade observed excluded raw of Inl e \<Rightarrow> insert_new e reasons | Inr t \<Rightarrow> reasons)"
  have step: "row_reasons observed excluded (raw # rows) reasons = row_reasons observed excluded rows rs"
    by (simp add: row_reasons_def rs_def)
  have "set reasons \<subseteq> set rs" "case parse_trade observed excluded raw of Inl e \<Rightarrow> e \<in> set rs | Inr t \<Rightarrow> True"
    by (auto simp: rs_def split: sum.splits)
  with Cons.IH [of rs] show ?case unfolding step by (auto split: sum.splits)
qed

lemma row_reasons_twice: "row_reasons observed excluded (rows @ rows) reasons = row_reasons observed excluded rows reasons"
proof -
  have "row_reasons observed excluded (rows @ rows) reasons = row_reasons observed excluded rows (row_reasons observed excluded rows reasons)"
    by (simp add: row_reasons_def)
  also have "\<dots> = row_reasons observed excluded rows reasons"
    by (rule row_reasons_known) (use row_reasons_collect in blast)
  finally show ?thesis .
qed

lemma merge_rows_twice: "ts \<noteq> [] \<Longrightarrow> merge_rows (ts @ ts) = merge_rows ts"
  by (cases ts) (auto simp: merge_rows_def known_values_def Let_def Un_absorb)

lemma merged_twice:
  assumes "groups_ok g ts" "groups_ok g' (ts @ ts)"
  shows "sort (map fst g') = sort (map fst g)"
    and "(case map_of g' k of Some us \<Rightarrow> merge_rows us | None \<Rightarrow> None) = (case map_of g k of Some us \<Rightarrow> merge_rows us | None \<Rightarrow> None)"
proof -
  have "set (map fst g') = set (map fst g)" using groups_keys [OF assms(1)] groups_keys [OF assms(2)] by simp
  moreover have "distinct (map fst g')" "distinct (map fst g)" using assms groups_okD(1) by blast+
  ultimately show "sort (map fst g') = sort (map fst g)" by (intro sorted_distinct_set_unique) simp_all
  have twice: "rows_with k (ts @ ts) = rows_with k ts @ rows_with k ts" by (simp add: rows_with_def)
  show "(case map_of g' k of Some us \<Rightarrow> merge_rows us | None \<Rightarrow> None) = (case map_of g k of Some us \<Rightarrow> merge_rows us | None \<Rightarrow> None)"
    by (simp add: groups_okD(2) [OF assms(1)] groups_okD(2) [OF assms(2)] twice merge_rows_twice)
qed

lemma normalize_twice: "normalize_trades observed excluded (rows @ rows) reasons = normalize_trades observed excluded rows reasons"
proof -
  obtain g r where one: "foldl (add_row observed excluded) ([], reasons) rows = (g, r)" by (rule prod.exhaust)
  obtain g' r' where two: "foldl (add_row observed excluded) ([], reasons) (rows @ rows) = (g', r')" by (rule prod.exhaust)
  have ok: "groups_ok g (parsed_rows observed excluded rows)" using add_rows_ok [OF groups_start one] by simp
  have "groups_ok g' (parsed_rows observed excluded rows @ parsed_rows observed excluded rows)"
    using add_rows_ok [OF groups_start two] by (simp add: parsed_rows_def)
  note same = merged_twice [OF ok this]
  have "r' = r" using add_rows_reasons [of observed excluded "[]" reasons "rows @ rows"] add_rows_reasons [of observed excluded "[]" reasons rows]
    by (simp only: one two snd_conv row_reasons_twice)
  with same show ?thesis unfolding normalize_trades_def one two Let_def prod.case by simp
qed

text \<open>
  repeated rows add nothing: a feed that delivers every purchase twice gives the same analysis, with the
  same signals, amounts, shares and reasons.
\<close>

theorem duplicate_rows_add_nothing:
  "analyze_coordinated_activity (buys @ buys) profiles positions supply observed_at config addresses =
     analyze_coordinated_activity buys profiles positions supply observed_at config addresses"
  unfolding analyze_coordinated_activity_def cohort_of_def Let_def normalize_twice ..

section \<open>What a watch rests on\<close>

text \<open>The funding of an owner as the profile proves it, material in size against the first purchase.\<close>

definition funding_proved :: "ca_settings \<Rightarrow> string list \<Rightarrow> pyval \<Rightarrow> trade \<Rightarrow> string \<Rightarrow> string \<Rightarrow> bool" where
  "funding_proved st services profiles first source owner \<longleftrightarrow>
     (let profile = getd profiles owner in
      getd profile ''funding_verified'' = PBool True \<and> ca_address (getd profile ''funding_source'') = source \<and>
      source \<noteq> [] \<and> source \<noteq> owner \<and> source \<notin> set services \<and>
      (\<exists>funded amount cost. ca_time (getd profile ''funding_at'') = Some funded \<and> funded < tr_time first \<and>
         ca_number (getd profile ''funding_amount_native'') = Some amount \<and> 0 < amount \<and> cs_min_native st \<le> amount \<and>
         tr_native first = Some cost \<and> 0 < cost \<and> cs_min_fraction st * cost \<le> amount))"

lemma facts_of_source:
  assumes "pf_source (facts_of services young prior min_native min_fraction profiles first) = Some (source, r)"
  shows "fu_owner r = tr_owner first"
  using assms
  by (auto simp: facts_of_def Let_def no_facts_def judge_funding_def split: if_splits option.splits prod.splits)

lemma facts_of_material:
  assumes "pf_material (facts_of services young prior (cs_min_native st) (cs_min_fraction st) profiles first)"
  shows "\<exists>source r. pf_source (facts_of services young prior (cs_min_native st) (cs_min_fraction st) profiles first) = Some (source, r) \<and>
    funding_proved st services profiles first source (tr_owner first)"
proof -
  define profile where "profile = getd profiles (tr_owner first)"
  have dict: "is_dict profile" using assms by (auto simp: facts_of_def profile_def no_facts_def Let_def split: if_splits)
  obtain source funded where fund: "funding_of services (tr_owner first) (tr_time first) profile = Some (source, funded)"
    using assms dict by (auto simp: facts_of_def profile_def no_facts_def Let_def split: if_splits option.splits)
  define facts where "facts = (no_facts (if getd profile ''history_complete'' = PBool True then [] else [''pre_buy_history_incomplete'']))
      \<lparr>pf_day := young_day young prior profile (tr_time first)\<rparr>"
  have all: "facts_of services young prior (cs_min_native st) (cs_min_fraction st) profiles first =
      judge_funding (cs_min_native st) (cs_min_fraction st) first profile (source, funded) facts"
    using dict fund by (simp add: facts_of_def profile_def [symmetric] facts_def Let_def)
  have not_material: "\<not> pf_material facts" by (simp add: facts_def no_facts_def)
  obtain amount where amount: "ca_number (getd profile ''funding_amount_native'') = Some amount"
    using assms not_material unfolding all judge_funding_def by (auto split: option.splits)
  define checked where "checked \<longleftrightarrow> (case tr_native first of Some b \<Rightarrow> b > 0 | None \<Rightarrow> False)"
  have sizes: "0 < amount" "cs_min_native st \<le> amount" "checked" "cs_min_fraction st * the (tr_native first) \<le> amount"
    using assms not_material amount unfolding all judge_funding_def
    by (auto simp: checked_def [symmetric] Let_def not_less split: if_splits)
  then obtain cost where cost: "tr_native first = Some cost" "0 < cost" by (auto simp: checked_def split: option.splits)
  have from_: "getd profile ''funding_verified'' = PBool True" "ca_address (getd profile ''funding_source'') = source"
    "source \<noteq> []" "source \<noteq> tr_owner first" "source \<notin> set services" "ca_time (getd profile ''funding_at'') = Some funded" "funded < tr_time first"
    using fund by (auto simp: funding_of_def Let_def split: option.splits if_splits)
  have "funding_proved st services profiles first source (tr_owner first)"
    unfolding funding_proved_def Let_def profile_def [symmetric] using from_ amount sizes cost by auto
  moreover have "\<exists>r. pf_source (judge_funding (cs_min_native st) (cs_min_fraction st) first profile (source, funded) facts) = Some (source, r)"
    using amount sizes cost(1) by (simp add: judge_funding_def Let_def checked_def not_less)
  ultimately show ?thesis unfolding all by blast
qed

text \<open>Every owner of the cohort has a first purchase, and the facts are those of its profile.\<close>

definition cohort_ok :: "ca_settings \<Rightarrow> string list \<Rightarrow> pyval \<Rightarrow> cohort \<Rightarrow> bool" where
  "cohort_ok st services profiles co \<longleftrightarrow> distinct (map fst (co_facts co)) \<and> map fst (co_holdings co) = map fst (co_facts co) \<and>
     (\<forall>(owner, f) \<in> set (co_facts co). trades_by ''buy'' owner (co_trades co) \<noteq> [] \<and>
        f = facts_of services (cs_young_age st) (cs_young_prior st) (cs_min_native st) (cs_min_fraction st) profiles
          (hd (trades_by ''buy'' owner (co_trades co))))"

lemma fst_cap_holdings [simp]: "map fst (cap_holdings supply hs) = map fst hs"
  by (auto simp: cap_holdings_def)

lemma in_set_nonempty: "x \<in> set xs \<Longrightarrow> xs \<noteq> []"
  by auto

lemma buyer_has_buy: "t \<in> set (purchases_of trades) \<Longrightarrow> trades_by ''buy'' (tr_owner t) trades \<noteq> []"
  by (rule in_set_nonempty [where x = t]) (simp add: purchases_of_def trades_by_def)

lemma cohort_of_ok:
  "cohort_ok st (service_sources (excluded_of addresses) profiles) profiles (cohort_of st buys profiles positions supply observed_at addresses)"
proof -
  obtain trades reasons where trades: "normalize_trades (ca_time observed_at) (excluded_of addresses) buys
      (add_if (positive_supply supply = None) ''total_supply_unavailable''
        (add_if (ca_time observed_at = None) ''observation_time_unavailable'' [])) = (trades, reasons)" by (rule prod.exhaust)
  show ?thesis unfolding cohort_ok_def cohort_of_def trades Let_def prod.case
    by (auto simp: comp_def dest: buyer_has_buy)
qed

text \<open>What a signal says of its members.\<close>

definition signal_ok :: "ca_settings \<Rightarrow> cohort \<Rightarrow> signal \<Rightarrow> bool" where
  "signal_ok st co s \<longleftrightarrow>
     (sg_family s = ''temporal'' \<longrightarrow> (\<exists>w \<in> set (trade_windows (cs_buy_window st) (purchases_of (co_trades co))).
        3 \<le> distinct_transactions tr_owner tr_tx w \<and> set (sg_members s) \<subseteq> tr_owner ` set w)) \<and>
     (sg_family s = ''funding'' \<longrightarrow> (\<forall>owner \<in> set (sg_members s). \<exists>f. (owner, f) \<in> set (co_facts co) \<and>
        map_option fst (pf_source f) = Some (sg_source s)))"

lemma signal_ok_members:
  "signal_ok st co s \<Longrightarrow> sg_family t = sg_family s \<Longrightarrow> sg_source t = sg_source s \<Longrightarrow> set (sg_members t) = set (sg_members s) \<Longrightarrow> signal_ok st co t"
  unfolding signal_ok_def by simp

lemma synchronous_ok: "s \<in> set (synchronous_signals (cs_buy_window st) (purchases_of (co_trades co))) \<Longrightarrow> signal_ok st co s"
  by (auto simp: synchronous_signals_def signal_ok_def blank_signal_def)

lemma young_ok: "s \<in> set (young_signals facts) \<Longrightarrow> signal_ok st co s"
  by (auto simp: young_signals_def signal_ok_def blank_signal_def)

lemma churn_ok: "s \<in> set (churn_signal b sl r owner) \<Longrightarrow> signal_ok st co s"
  by (auto simp: churn_signal_def signal_ok_def blank_signal_def split: option.splits if_splits)

lemma rotation_is_turnover: "list_all (\<lambda>s. sg_family s = ''turnover'') (rotation_signal gap p supply source w)"
  by (cases "supply") (simp_all add: rotation_signal_def blank_signal_def Let_def)

lemma turnover_ok: "sg_family s = ''turnover'' \<Longrightarrow> signal_ok st co s"
  by (simp add: signal_ok_def)

lemma rotation_one_ok: "s \<in> set (rotation_signal gap p supply source w) \<Longrightarrow> signal_ok st co s"
  using rotation_is_turnover [of gap p "supply" source w] by (simp add: list_all_iff turnover_ok)

lemma in_concat_mapE:
  assumes "x \<in> set (concat (map f xs))"
  obtains y where "x \<in> set (f y)" "y \<in> set xs"
  using assms by auto

lemma rotation_ok: "s \<in> set (rotation_signals rw gap p supply trades facts) \<Longrightarrow> signal_ok st co s"
proof -
  assume "s \<in> set (rotation_signals rw gap p supply trades facts)"
  then obtain source where "s \<in> set (let owners = map fst (filter (\<lambda>(owner, f). map_option fst (pf_source f) = Some source \<and> pf_material f) facts);
         eligible = filter (\<lambda>t. tr_owner t \<in> set owners \<and> positive (tr_native t) \<and>
           positive (if tr_kind t = ''sell'' then tr_sold t else tr_bought t)) trades in
     concat (map (rotation_signal gap p supply source) (trade_windows rw eligible)))"
    unfolding rotation_signals_def by (rule in_concat_mapE)
  then obtain w where "s \<in> set (rotation_signal gap p supply source w)" unfolding Let_def by (rule in_concat_mapE)
  then show ?thesis by (rule rotation_one_ok)
qed

lemma funded_window_rows: "w \<in> set (funded_windows f seconds rows) \<Longrightarrow> set w \<subseteq> set rows"
  unfolding funded_windows_def
  by (rule window_facts(1) [where key = "\<lambda>r. (f r, fu_owner r, fu_tx r)" and f = f]) (auto simp: less_eq_prod_def)

lemma funded_by_rows:
  assumes "cohort_ok st services profiles co" "r \<in> set (funded_by (co_facts co) source)"
  shows "\<exists>f. (fu_owner r, f) \<in> set (co_facts co) \<and> map_option fst (pf_source f) = Some source"
proof -
  from assms(2) obtain owner f where f: "(owner, f) \<in> set (co_facts co)" "map_option fst (pf_source f) = Some source" "r = snd (the (pf_source f))"
    by (auto simp: funded_by_def)
  then obtain r' where src: "pf_source f = Some (source, r')" by (cases "pf_source f") auto
  from assms(1) f(1) have buys: "trades_by ''buy'' owner (co_trades co) \<noteq> []"
    and eq: "f = facts_of services (cs_young_age st) (cs_young_prior st) (cs_min_native st) (cs_min_fraction st) profiles
          (hd (trades_by ''buy'' owner (co_trades co)))" by (auto simp: cohort_ok_def)
  have "hd (trades_by ''buy'' owner (co_trades co)) \<in> set (trades_by ''buy'' owner (co_trades co))" by (rule hd_in_set [OF buys])
  then have "tr_owner (hd (trades_by ''buy'' owner (co_trades co))) = owner" by (simp add: trades_by_def)
  moreover have "fu_owner r' = tr_owner (hd (trades_by ''buy'' owner (co_trades co)))"
    by (rule facts_of_source) (use src eq in simp)
  ultimately have "fu_owner r = owner" using f(3) src by simp
  with f show ?thesis by blast
qed

lemma funding_ok:
  assumes "cohort_ok st services profiles co" "s \<in> set (funding_signals lag pw (co_facts co))"
  shows "signal_ok st co s"
proof -
  from assms(2) obtain source where "sg_source s = source \<and> sg_family s = ''funding'' \<and>
      set (sg_members s) \<subseteq> fu_owner ` set (funded_by (co_facts co) source)"
    by (fastforce simp: funding_signals_def Let_def blank_signal_def preparation_signal_def dest!: funded_window_rows)
  then show ?thesis using funded_by_rows [OF assms(1)] unfolding signal_ok_def by fastforce
qed

lemma candidate_ok:
  assumes "cohort_ok st services profiles co" "s \<in> set (candidate_signals st co)"
  shows "signal_ok st co s"
  using assms(2) funding_ok [OF assms(1)]
  by (auto simp: candidate_signals_def intro: synchronous_ok young_ok churn_ok rotation_ok)

text \<open>A property of the candidates that depends on family, source and set of members holds of the collected signals.\<close>

lemma add_signal_values:
  assumes "\<And>t. t \<in> set (map snd c) \<Longrightarrow> P t" "\<And>t. sg_family t = sg_family s \<Longrightarrow> sg_code t = sg_code s \<Longrightarrow> sg_source t = sg_source s \<Longrightarrow>
      sg_members t = sorted_set (sg_members s) \<Longrightarrow> length (sorted_set (sg_members s)) \<ge> (if sg_code s = ''inventory_churn'' then 1 else 3) \<Longrightarrow>
      sg_held t = percent_of (sum_known (map held (sg_members t))) supply \<Longrightarrow> P t"
    and "t \<in> set (map snd (add_signal held supply s c))"
  shows "P t"
proof -
  define new where "new = s\<lparr>sg_members := sorted_set (sg_members s), sg_held := percent_of (sum_known (map held (sorted_set (sg_members s)))) supply\<rparr>"
  have "t \<in> set (map snd c) \<or> t = new \<and> length (sorted_set (sg_members s)) \<ge> (if sg_code s = ''inventory_churn'' then 1 else 3)"
    using assms(3) set_update_subset [of "signal_key new" new c]
    unfolding add_signal_def Let_def new_def [symmetric] by (force split: if_splits option.splits)
  then show ?thesis
  proof
    assume "t = new \<and> length (sorted_set (sg_members s)) \<ge> (if sg_code s = ''inventory_churn'' then 1 else 3)"
    then show ?thesis by (intro assms(2)) (simp_all add: new_def)
  qed (rule assms(1))
qed

lemma collect_ok:
  assumes "cohort_ok st services profiles co" "t \<in> set (collect_signals st co)"
  shows "signal_ok st co t"
proof -
  have "t \<in> set (map snd (foldl (\<lambda>c s. add_signal (held_of co) (co_supply co) s c) c xs)) \<Longrightarrow>
      (\<And>u. u \<in> set (map snd c) \<Longrightarrow> signal_ok st co u) \<Longrightarrow> (\<And>s. s \<in> set xs \<Longrightarrow> signal_ok st co s) \<Longrightarrow> signal_ok st co t" for xs c
  proof (induction xs arbitrary: c)
    case Nil
    then show ?case by simp
  next
    case (Cons s xs)
    have "signal_ok st co u" if "u \<in> set (map snd (add_signal (held_of co) (co_supply co) s c))" for u
      by (rule add_signal_values [OF Cons.prems(2) _ that]) (auto intro: signal_ok_members [OF Cons.prems(3) [of s]])
    with Cons.IH [of "add_signal (held_of co) (co_supply co) s c"] Cons.prems show ?case by simp
  qed
  from this [of "[]" "candidate_signals st co"] assms candidate_ok show ?thesis
    unfolding collect_signals_def by simp
qed

lemma ranked_subset: "set (ranked_signals n signals) \<subseteq> set signals"
proof -
  have "set (ranked_signals n signals) \<subseteq> set (maximal_signals signals)"
    unfolding ranked_signals_def using set_take_subset by fastforce
  then show ?thesis by (auto simp: maximal_signals_def)
qed

section \<open>Groups\<close>

lemma combinations_subset: "c \<in> set (combinations n xs) \<Longrightarrow> set c \<subseteq> set xs \<and> length c = n"
  by (induction n xs arbitrary: c rule: combinations.induct) fastforce+

lemma fi_signal_note [simp]: "fi_signal (note_material n p f) = fi_signal f"
  by (simp add: note_material_def)

text \<open>The groups judged material, and the watch among them.\<close>

definition material_at :: "ca_settings \<Rightarrow> cohort \<Rightarrow> signal list \<Rightarrow> string list \<Rightarrow> rat \<Rightarrow> string set \<Rightarrow> bool" where
  "material_at st co signals owners p families \<longleftrightarrow> (\<exists>combo. set combo \<subseteq> set signals \<and> set (map sg_family combo) = families \<and>
     material_group (held_of co) (co_supply co) (material_owners co) (cs_min_families st) (cs_min_wallets st) (cs_min_held st) combo = Some (owners, p))"

definition judged :: "ca_settings \<Rightarrow> cohort \<Rightarrow> signal list \<Rightarrow> material_state \<Rightarrow> bool" where
  "judged st co signals ms \<longleftrightarrow> map fi_signal (ms_findings ms) = signals \<and>
     (\<forall>(owners, p) \<in> set (ms_material ms). \<exists>families. material_at st co signals owners p families) \<and>
     (ms_watch ms \<longrightarrow> (\<exists>owners p families. material_at st co signals owners p families \<and> {''funding'', ''temporal''} \<subseteq> families))"

lemma signals_of_marked:
  "map fi_signal (map (\<lambda>(i, f). if i \<in> I then note_material n p f else f) (indexed fs)) = map fi_signal fs"
proof (rule nth_equalityI)
  show "length (map fi_signal (map (\<lambda>(i, f). if i \<in> I then note_material n p f else f) (indexed fs))) = length (map fi_signal fs)" by simp
  fix k assume "k < length (map fi_signal (map (\<lambda>(i, f). if i \<in> I then note_material n p f else f) (indexed fs)))"
  then have k: "k < length fs" by simp
  then show "map fi_signal (map (\<lambda>(i, f). if i \<in> I then note_material n p f else f) (indexed fs)) ! k = map fi_signal fs ! k"
    by (simp add: nth_indexed)
qed

lemma judge_combo_judged:
  assumes "judged st co signals ms" "set positions \<subseteq> {0..<length signals}"
  shows "judged st co signals (judge_combo st co ms positions)"
proof -
  define combo where "combo = map (\<lambda>i. fi_signal (ms_findings ms ! i)) positions"
  have signals: "map fi_signal (ms_findings ms) = signals" using assms(1) by (simp add: judged_def)
  then have len: "length (ms_findings ms) = length signals" by auto
  have material: "\<forall>(owners, p) \<in> set (ms_material ms). \<exists>families. material_at st co signals owners p families"
    and watch: "ms_watch ms \<Longrightarrow> \<exists>owners p families. material_at st co signals owners p families \<and> {''funding'', ''temporal''} \<subseteq> families"
    using assms(1) unfolding judged_def by blast+
  have combo: "set combo \<subseteq> set signals"
  proof
    fix s assume "s \<in> set combo"
    then obtain i where i: "i \<in> set positions" "s = fi_signal (ms_findings ms ! i)" unfolding combo_def by auto
    with assms(2) have "i < length signals" by auto
    moreover from this have "map fi_signal (ms_findings ms) ! i = s" using i(2) len by simp
    ultimately show "s \<in> set signals" unfolding signals by (metis nth_mem)
  qed
  show ?thesis
  proof (cases "material_group (held_of co) (co_supply co) (material_owners co) (cs_min_families st) (cs_min_wallets st) (cs_min_held st) combo")
    case None
    then have "judge_combo st co ms positions = ms" by (simp add: judge_combo_def combo_def [symmetric] Let_def)
    with assms(1) show ?thesis by simp
  next
    case (Some found)
    obtain owners p where found: "found = (owners, p)" by (cases found)
    have here: "material_at st co signals owners p (set (map sg_family combo))"
      unfolding material_at_def using combo Some found by blast
    define ms' where "ms' = judge_combo st co ms positions"
    have ms': "ms_findings ms' = map (\<lambda>(i, f). if i \<in> set positions then note_material (length owners) p f else f) (indexed (ms_findings ms))"
      "ms_material ms' = AList.update owners p (ms_material ms)"
      "ms_watch ms' = (ms_watch ms \<or> {''funding'', ''temporal''} \<subseteq> set (map sg_family combo))"
      using Some found by (simp_all add: ms'_def judge_combo_def combo_def [symmetric] Let_def)
    have one: "map fi_signal (ms_findings ms') = signals"
      unfolding ms'(1) signals_of_marked using signals .
    have two: "\<forall>(os, q) \<in> set (ms_material ms'). \<exists>families. material_at st co signals os q families"
    proof (rule ballI)
      fix e assume "e \<in> set (ms_material ms')"
      then have "e = (owners, p) \<or> e \<in> set (ms_material ms)" using set_update_subset [of owners p "ms_material ms"] unfolding ms'(2) by blast
      then show "case e of (os, q) \<Rightarrow> \<exists>families. material_at st co signals os q families"
      proof
        assume "e = (owners, p)"
        with here show ?thesis by blast
      next
        assume "e \<in> set (ms_material ms)"
        then show ?thesis by (rule bspec [OF material])
      qed
    qed
    have three: "ms_watch ms' \<longrightarrow> (\<exists>os q families. material_at st co signals os q families \<and> {''funding'', ''temporal''} \<subseteq> families)"
    proof
      assume "ms_watch ms'"
      then consider "ms_watch ms" | "{''funding'', ''temporal''} \<subseteq> set (map sg_family combo)" unfolding ms'(3) by blast
      then show "\<exists>os q families. material_at st co signals os q families \<and> {''funding'', ''temporal''} \<subseteq> families"
      proof cases
        case 1
        then show ?thesis by (rule watch)
      next
        case 2
        with here show ?thesis by blast
      qed
    qed
    show ?thesis unfolding judged_def ms'_def [symmetric] using one two three by simp
  qed
qed

lemma judge_signals_judged: "judged st co signals (judge_signals st co signals)"
proof -
  have "judged st co signals (foldl (judge_combo st co) ms cs)" if "judged st co signals ms" "\<forall>c \<in> set cs. set c \<subseteq> {0..<length signals}" for ms cs
    using that
  proof (induction cs arbitrary: ms)
    case Nil
    then show ?case by simp
  next
    case (Cons c cs)
    then show ?case using judge_combo_judged [of st co signals ms c] by simp
  qed
  moreover have "judged st co signals \<lparr>ms_findings = map (new_finding (material_owners co)) signals, ms_material = [], ms_watch = False\<rparr>"
    by (simp add: judged_def comp_def new_finding_def)
  ultimately show ?thesis unfolding judge_signals_def
    using combinations_subset [of _ "cs_min_families st" "[0..<length signals]"] by simp
qed

section \<open>The watch\<close>

lemma material_group_facts:
  assumes "material_group held q0 material min_families min_wallets min_held combo = Some (owners, p)"
  shows "owners = group_owners held material combo" "group_percent held q0 owners = Some p" "min_wallets \<le> length owners" "min_held \<le> p"
  using assms by (auto simp: material_group_def Let_def split: if_splits option.splits)

lemma distinct_group_owners: "distinct (group_owners held material combo)"
  by (cases combo) (simp_all add: group_owners_def)

lemma group_ownerD:
  assumes "owner \<in> set (group_owners held material combo)"
  shows "s \<in> set combo \<Longrightarrow> owner \<in> set (sg_members s)"
    and "s \<in> set combo \<Longrightarrow> sg_family s = ''funding'' \<Longrightarrow> owner \<in> set material"
    and "positive (held owner)"
proof -
  obtain t rest where combo: "combo = t # rest" using assms by (cases combo) (auto simp: group_owners_def)
  have all: "owner \<in> set (sg_members t)" "\<forall>u \<in> set rest. owner \<in> set (sg_members u)"
    "\<not> list_ex (\<lambda>u. sg_family u = ''funding'') combo \<or> owner \<in> set material" "positive (held owner)"
    using assms unfolding combo group_owners_def by (simp_all add: list_all_iff)
  show "positive (held owner)" by (rule all(4))
  show "s \<in> set combo \<Longrightarrow> owner \<in> set (sg_members s)" using all(1,2) unfolding combo by auto
  show "s \<in> set combo \<Longrightarrow> sg_family s = ''funding'' \<Longrightarrow> owner \<in> set material" using all(3) by (auto simp: list_ex_iff)
qed

lemma cohort_okD:
  assumes "cohort_ok st services profiles co" "(owner, f) \<in> set (co_facts co)"
  shows "trades_by ''buy'' owner (co_trades co) \<noteq> []"
    and "f = facts_of services (cs_young_age st) (cs_young_prior st) (cs_min_native st) (cs_min_fraction st) profiles
          (hd (trades_by ''buy'' owner (co_trades co)))"
  using assms unfolding cohort_ok_def by blast+

lemma owner_of_first:
  assumes "trades_by kind owner trades \<noteq> []"
  shows "tr_owner (hd (trades_by kind owner trades)) = owner"
  using hd_in_set [OF assms] by (simp add: trades_by_def)

lemma material_owner_proved:
  assumes ok: "cohort_ok st services profiles co" and material: "owner \<in> set (material_owners co)"
    and f: "(owner, f) \<in> set (co_facts co)" "map_option fst (pf_source f) = Some source"
  shows "funding_proved st services profiles (hd (trades_by ''buy'' owner (co_trades co))) source owner"
proof -
  from material obtain g where g: "(owner, g) \<in> set (co_facts co)" "pf_material g" by (auto simp: material_owners_def)
  have "distinct (map fst (co_facts co))" using ok by (simp add: cohort_ok_def)
  from eq_key_imp_eq_value [OF this g(1) f(1)] have "pf_material f" using g(2) by simp
  then have "\<exists>src r. pf_source f = Some (src, r) \<and> funding_proved st services profiles
      (hd (trades_by ''buy'' owner (co_trades co))) src (tr_owner (hd (trades_by ''buy'' owner (co_trades co))))"
    unfolding cohort_okD(2) [OF ok f(1)] by (rule facts_of_material)
  then show ?thesis using f(2) owner_of_first [OF cohort_okD(1) [OF ok f(1)]] by auto
qed

lemma watch_status: "status_of rows signals watch = ''coordination_watch'' \<Longrightarrow> watch"
  by (auto simp: status_of_def split: if_splits)

lemma settings_least: "3 \<le> cs_min_wallets (settings_of config)" "2 \<le> cs_min_families (settings_of config)"
proof -
  have "3 \<le> setting_of config ''min_wallets'' 3 3 None" "2 \<le> setting_of config ''min_families'' 2 2 None"
    by (simp_all add: setting_of_def Let_def split: option.splits)
  then show "3 \<le> cs_min_wallets (settings_of config)" "2 \<le> cs_min_families (settings_of config)"
    by (simp_all add: settings_of_def le_nat_iff le_floor_iff)
qed

text \<open>The shape of a watched group.\<close>

definition watched_group :: "ca_settings \<Rightarrow> string list \<Rightarrow> pyval \<Rightarrow> cohort \<Rightarrow> string list \<Rightarrow> string \<Rightarrow> trade list \<Rightarrow> bool" where
  "watched_group st services profiles co owners source w \<longleftrightarrow>
     distinct owners \<and> 3 \<le> length owners \<and> (\<exists>p. group_percent (held_of co) (co_supply co) owners = Some p \<and> cs_min_held st \<le> p) \<and>
     (\<forall>owner \<in> set owners. positive (held_of co owner) \<and> owner \<in> tr_owner ` set w \<and>
        funding_proved st services profiles (hd (trades_by ''buy'' owner (co_trades co))) source owner) \<and>
     set w \<subseteq> set (purchases_of (co_trades co)) \<and> (\<forall>a \<in> set w. \<forall>b \<in> set w. tr_time a - tr_time b \<le> cs_buy_window st) \<and>
     (\<exists>rs. set rs \<subseteq> set w \<and> length rs = 3 \<and> distinct (map tr_owner rs) \<and> distinct (map tr_tx rs))"

lemma trade_window_facts:
  assumes "w \<in> set (trade_windows seconds rows)"
  shows "set w \<subseteq> set rows" "a \<in> set w \<Longrightarrow> b \<in> set w \<Longrightarrow> tr_time a - tr_time b \<le> seconds"
  using assms unfolding trade_windows_def
  by (rule window_facts(1) [where key = "\<lambda>t. (tr_time t, tr_owner t, tr_tx t)" and f = tr_time],
      auto simp: less_eq_prod_def)
     (rule window_facts(3) [where key = "\<lambda>t. (tr_time t, tr_owner t, tr_tx t)" and f = tr_time],
      auto simp: less_eq_prod_def)

lemma watched_groups:
  assumes ok: "cohort_ok st services profiles co" and signals: "set signals \<subseteq> set (collect_signals st co)" and three: "3 \<le> cs_min_wallets st"
    and at_: "material_at st co signals owners p families" "{''funding'', ''temporal''} \<subseteq> families"
  shows "\<exists>source w. watched_group st services profiles co owners source w"
proof -
  from at_(1) obtain combo where combo: "set combo \<subseteq> set signals" "set (map sg_family combo) = families"
    and found: "material_group (held_of co) (co_supply co) (material_owners co) (cs_min_families st) (cs_min_wallets st) (cs_min_held st) combo = Some (owners, p)"
    unfolding material_at_def by blast
  note facts = material_group_facts [OF found]
  from at_(2) combo(2) have "''funding'' \<in> sg_family ` set combo" "''temporal'' \<in> sg_family ` set combo" by auto
  then obtain s t where s: "s \<in> set combo" "sg_family s = ''funding''" and t: "t \<in> set combo" "sg_family t = ''temporal''" by (elim imageE) simp
  have sok: "signal_ok st co s" and tok: "signal_ok st co t"
    using s(1) t(1) combo(1) signals by (auto intro: collect_ok [OF ok])
  from tok t(2) obtain w where w: "w \<in> set (trade_windows (cs_buy_window st) (purchases_of (co_trades co)))"
      "3 \<le> distinct_transactions tr_owner tr_tx w" "set (sg_members t) \<subseteq> tr_owner ` set w" unfolding signal_ok_def by blast
  have member: "positive (held_of co owner) \<and> owner \<in> tr_owner ` set w \<and>
      funding_proved st services profiles (hd (trades_by ''buy'' owner (co_trades co))) (sg_source s) owner" if "owner \<in> set owners" for owner
  proof -
    note one = group_ownerD [OF that [unfolded facts(1)]]
    from sok s(2) one(1) [OF s(1)] obtain f where f: "(owner, f) \<in> set (co_facts co)" "map_option fst (pf_source f) = Some (sg_source s)"
      unfolding signal_ok_def by blast
    show ?thesis using one(3) one(1) [OF t(1)] w(3) material_owner_proved [OF ok one(2) [OF s] f] by blast
  qed
  have "watched_group st services profiles co owners (sg_source s) w"
    unfolding watched_group_def
  proof (intro conjI)
    show "distinct owners" unfolding facts(1) by (rule distinct_group_owners)
    show "3 \<le> length owners" using facts(3) three by simp
    show "\<exists>p. group_percent (held_of co) (co_supply co) owners = Some p \<and> cs_min_held st \<le> p" using facts(2,4) by blast
    show "\<forall>owner \<in> set owners. positive (held_of co owner) \<and> owner \<in> tr_owner ` set w \<and>
        funding_proved st services profiles (hd (trades_by ''buy'' owner (co_trades co))) (sg_source s) owner" using member by blast
    show "set w \<subseteq> set (purchases_of (co_trades co))" by (rule trade_window_facts(1) [OF w(1)])
    show "\<forall>a \<in> set w. \<forall>b \<in> set w. tr_time a - tr_time b \<le> cs_buy_window st" using trade_window_facts(2) [OF w(1)] by blast
    show "\<exists>rs. set rs \<subseteq> set w \<and> length rs = 3 \<and> distinct (map tr_owner rs) \<and> distinct (map tr_tx rs)"
      using w(2) by (simp add: distinct_transactions_three)
  qed
  then show ?thesis by blast
qed


text \<open>Three purchases within two seconds, each paid from one account a day before.\<close>

definition demo_buys :: "pyval list" where
  "demo_buys = map (\<lambda>(owner, tx, at_time). PDict [(''owner'', PStr owner), (''transaction'', PStr tx), (''timestamp'', PInt at_time),
      (''bought_tokens'', PInt 10), (''amount_native'', PInt 2)])
    [(''A'', ''t1'', 200000), (''B'', ''t2'', 200001), (''C'', ''t3'', 200002)]"

definition demo_funders :: pyval where
  "demo_funders = PDict (map (\<lambda>owner. (owner, PDict [(''funding_verified'', PBool True), (''funding_source'', PStr ''S''),
      (''funding_at'', PInt 100000), (''funding_amount_native'', PInt 3)])) [''A'', ''B'', ''C''])"

definition demo_positions :: pyval where
  "demo_positions = PDict (map (\<lambda>owner. (owner, PDict [(''current_balance'', PInt 10), (''attributed_tokens'', PInt 10),
      (''checked_at'', PInt 200100), (''balance_verified'', PBool True)])) [''A'', ''B'', ''C''])"

lemma demo_watched:
  "ca_status (analyze_coordinated_activity demo_buys demo_funders demo_positions (PInt 1000) (PInt 200200) PNone PNone) = ''coordination_watch''"
  by code_simp


section \<open>The share of a group\<close>

lemma ca_number_nonneg: "ca_number v = Some q \<Longrightarrow> 0 \<le> q"
  by (auto simp: ca_number_def split: if_splits option.splits pyfloat.splits)

lemma row_value_nonneg: "fst (row_value observed max_age sold latest row) = Some v \<Longrightarrow> 0 \<le> v"
  by (auto simp: row_value_def ca_number_nonneg split: if_splits option.splits)

lemma consensus_in: "consensus vs = Some v \<Longrightarrow> Some v \<in> set vs"
  by (auto simp: consensus_def split: list.splits if_splits)

lemma holding_nonneg: "hg_held (holding_of rows observed max_age sold owner) = Some v \<Longrightarrow> 0 \<le> v"
  by (auto simp: holding_of_def Let_def dest!: consensus_in intro: row_value_nonneg [OF sym])

definition held_amount :: "ca_holding \<Rightarrow> rat" where
  "held_amount h = (case hg_held h of Some q \<Rightarrow> q | None \<Rightarrow> 0)"

lemma known_held: "sum_list (known_values (map (\<lambda>(owner, h). hg_held h) hs)) = sum_list (map (\<lambda>e. held_amount (snd e)) hs)"
  by (induction hs) (auto simp: known_values_def held_amount_def split: option.splits)

text \<open>Holdings whose known amounts are non-negative and add up to the supply, up to the rounding allowed.\<close>

definition capped_ok :: "rat option \<Rightarrow> (string \<times> ca_holding) list \<Rightarrow> bool" where
  "capped_ok supply hs \<longleftrightarrow> distinct (map fst hs) \<and> (\<forall>e \<in> set hs. 0 \<le> held_amount (snd e)) \<and>
     (case supply of None \<Rightarrow> True | Some q \<Rightarrow> 0 < q \<and> sum_list (map (\<lambda>e. held_amount (snd e)) hs) \<le> q * (1 + 1 / 1000000000))"

lemma cap_holdings_ok:
  assumes "distinct (map fst hs)" "\<And>e. e \<in> set hs \<Longrightarrow> 0 \<le> held_amount (snd e)" "\<And>q. q0 = Some q \<Longrightarrow> 0 < q"
  shows "capped_ok q0 (cap_holdings q0 hs)"
proof (cases "cap_holdings q0 hs = hs")
  case True
  have "sum_list (map (\<lambda>e. held_amount (snd e)) hs) \<le> q * (1 + 1 / 1000000000)" if "q0 = Some q" for q
  proof (rule ccontr)
    assume big: "\<not> ?thesis"
    then have capped: "cap_holdings q0 hs = map (\<lambda>(owner, h). (owner, h\<lparr>hg_held := None, hg_upper := None\<rparr>)) hs"
      using that by (simp add: cap_holdings_def known_held)
    have "map (\<lambda>e. held_amount (snd e)) hs = map (\<lambda>e. 0) hs"
      by (subst True [symmetric], subst capped) (simp add: held_amount_def comp_def case_prod_beta)
    then have "sum_list (map (\<lambda>e. held_amount (snd e)) hs) = sum_list (map (\<lambda>e. 0) hs)" by (rule arg_cong [where f = sum_list])
    with big assms(3) [OF that] show False by simp
  qed
  with True assms show ?thesis by (simp add: capped_ok_def split: option.splits)
next
  case False
  then have "cap_holdings q0 hs = map (\<lambda>(owner, h). (owner, h\<lparr>hg_held := None, hg_upper := None\<rparr>)) hs"
    unfolding cap_holdings_def by presburger
  then show ?thesis using assms(1,3) by (auto simp: capped_ok_def held_amount_def comp_def case_prod_beta split: option.splits)
qed

lemma cohort_holdings_ok: "capped_ok (co_supply (cohort_of st buys profiles positions v observed_at addresses))
    (co_holdings (cohort_of st buys profiles positions v observed_at addresses))"
proof -
  obtain trades reasons where trades: "normalize_trades (ca_time observed_at) (excluded_of addresses) buys
      (add_if (positive_supply v = None) ''total_supply_unavailable''
        (add_if (ca_time observed_at = None) ''observation_time_unavailable'' [])) = (trades, reasons)" by (rule prod.exhaust)
  show ?thesis unfolding cohort_of_def trades Let_def prod.case cohort.simps
  proof (rule cap_holdings_ok)
    show "distinct (map fst (map (\<lambda>owner. (owner, holding_of (position_rows positions) (ca_time observed_at) (cs_max_age st) (sold_by trades owner) owner))
        (sorted_set (map tr_owner (purchases_of trades)))))" by (simp add: comp_def)
  next
    fix e assume "e \<in> set (map (\<lambda>owner. (owner, holding_of (position_rows positions) (ca_time observed_at) (cs_max_age st) (sold_by trades owner) owner))
        (sorted_set (map tr_owner (purchases_of trades))))"
    then obtain owner where "snd e = holding_of (position_rows positions) (ca_time observed_at) (cs_max_age st) (sold_by trades owner) owner" by auto
    then show "0 \<le> held_amount (snd e)" by (auto simp: held_amount_def intro: holding_nonneg split: option.splits)
  next
    fix q assume "positive_supply v = Some q"
    then show "0 < q" by (auto simp: positive_supply_def split: option.splits if_splits)
  qed
qed

lemma held_sum_le:
  assumes ok: "capped_ok (Some q) (co_holdings co)" and owners: "distinct owners" "\<And>owner. owner \<in> set owners \<Longrightarrow> positive (held_of co owner)"
  shows "sum_list (map (\<lambda>owner. the (held_of co owner)) owners) \<le> q * (1 + 1 / 1000000000)"
proof -
  define hs where "hs = co_holdings co"
  define g where "g owner = (case map_of hs owner of Some h \<Rightarrow> held_amount h | None \<Rightarrow> 0)" for owner
  have fst: "distinct (map fst hs)" using ok by (simp add: capped_ok_def hs_def)
  have g: "g (fst e) = held_amount (snd e)" if "e \<in> set hs" for e
    using map_of_is_SomeI [OF fst, of "fst e" "snd e"] that by (simp add: g_def)
  have amount_of: "the (held_of co owner) = g owner \<and> owner \<in> fst ` set hs" if "owner \<in> set owners" for owner
  proof -
    from owners(2) [OF that] obtain h x where h: "map_of hs owner = Some h" "hg_held h = Some x"
      by (auto simp: held_of_def positive_def hs_def split: option.splits)
    then have "the (held_of co owner) = g owner" by (simp add: held_of_def hs_def [symmetric] g_def held_amount_def)
    moreover have "owner \<in> fst ` set hs" using map_of_SomeD [OF h(1)] by force
    ultimately show ?thesis by blast
  qed
  have "sum_list (map (\<lambda>owner. the (held_of co owner)) owners) = sum g (set owners)"
    using amount_of owners(1) by (simp add: sum_list_distinct_conv_sum_set cong: map_cong)
  also have "\<dots> \<le> sum g (fst ` set hs)"
  proof (rule sum_mono2)
    show "set owners \<subseteq> fst ` set hs" using amount_of by blast
    fix b assume "b \<in> fst ` set hs - set owners"
    then obtain e where "e \<in> set hs" "b = fst e" by blast
    then show "0 \<le> g b" using g ok by (simp add: capped_ok_def hs_def)
  qed simp
  also have "\<dots> = sum_list (map g (map fst hs))" using sum_list_distinct_conv_sum_set [OF fst, of g] by simp
  also have "\<dots> = sum_list (map (\<lambda>e. held_amount (snd e)) hs)" using g by (simp add: comp_def cong: map_cong)
  also have "\<dots> \<le> q * (1 + 1 / 1000000000)" using ok by (simp add: capped_ok_def hs_def)
  finally show ?thesis .
qed

lemma material_share:
  assumes ok: "capped_ok (co_supply co) (co_holdings co)" and at_: "material_at st co signals owners p families"
  shows "distinct owners \<and> cs_min_wallets st \<le> length owners \<and> cs_min_held st \<le> p \<and> p \<le> 100 + 1 / 10000000"
proof -
  from at_ obtain combo where
    found: "material_group (held_of co) (co_supply co) (material_owners co) (cs_min_families st) (cs_min_wallets st) (cs_min_held st) combo = Some (owners, p)"
    unfolding material_at_def by blast
  note facts = material_group_facts [OF found]
  have dist: "distinct owners" unfolding facts(1) by (rule distinct_group_owners)
  from facts(2) obtain q where q: "co_supply co = Some q" "p = sum_list (map (\<lambda>owner. the (held_of co owner)) owners) / q * 100"
    by (auto simp: group_percent_def percent_of_def split: option.splits)
  have "sum_list (map (\<lambda>owner. the (held_of co owner)) owners) \<le> q * (1 + 1 / 1000000000)"
    by (rule held_sum_le [OF ok [unfolded q(1)] dist]) (use group_ownerD(3) [where held = "held_of co"] facts(1) in blast)
  moreover have "0 < q" using ok by (simp add: capped_ok_def q(1))
  ultimately have "sum_list (map (\<lambda>owner. the (held_of co owner)) owners) / q \<le> 1 + 1 / 1000000000"
    by (simp add: pos_divide_le_eq mult.commute)
  from mult_right_mono [OF this, of 100] have "p \<le> 100 + 1 / 10000000" unfolding q(2) by (simp only: mult.commute) simp
  with dist facts(3,4) show ?thesis by blast
qed

text \<open>
  C17: every group reported as material names at least three distinct owners, holds at least the configured share, and
  never more than the whole supply (up to the rounding the cap allows): its owners are counted once, only verified
  balances are added, and balances that exceed the supply together are dropped.
\<close>

theorem material_shares_bounded:
  "list_all (\<lambda>(owners, p). distinct owners \<and> 3 \<le> length owners \<and> cs_min_held (settings_of config) \<le> p \<and> p \<le> 100 + 1 / 10000000)
     (ca_material (analyze_coordinated_activity buys profiles positions supply_value observed_at config addresses))"
proof -
  define st where "st = settings_of config"
  define co where "co = cohort_of st buys profiles positions supply_value observed_at addresses"
  define signals where "signals = ranked_signals (cs_max_signals st) (collect_signals st co)"
  have eq: "ca_material (analyze_coordinated_activity buys profiles positions supply_value observed_at config addresses) =
      ms_material (judge_signals st co signals)"
    by (simp add: analyze_coordinated_activity_def Let_def st_def co_def signals_def)
  have ok: "capped_ok (co_supply co) (co_holdings co)" unfolding co_def by (rule cohort_holdings_ok)
  have "case e of (owners, p) \<Rightarrow> distinct owners \<and> 3 \<le> length owners \<and> cs_min_held st \<le> p \<and> p \<le> 100 + 1 / 10000000"
    if "e \<in> set (ms_material (judge_signals st co signals))" for e
  proof -
    obtain owners p where e: "e = (owners, p)" by (rule prod.exhaust)
    from that judge_signals_judged [of st co signals] obtain families where "material_at st co signals owners p families"
      unfolding judged_def e by blast
    from material_share [OF ok this] settings_least(1) [of config] show ?thesis unfolding e st_def by simp
  qed
  then show ?thesis unfolding eq st_def [symmetric] list_all_iff by blast
qed
end
