(* ===== verification/Rpc_Costs.thy ===== *)
theory Rpc_Costs
  imports Prelude
begin

text \<open>
  \<^verbatim>\<open>src/rpc_budget.py\<close>, the price tables: what a request is charged in the provider's native units,
  before it is sent and from its response.
\<close>

section \<open>Tables\<close>

definition DEFAULT_MONTHLY_LIMITS :: "(string \<times> int) list" where
  "DEFAULT_MONTHLY_LIMITS = [(''alchemy'', 25000000), (''helius'', 900000), (''chainstack'', 2700000)]"

definition NATIVE_UNITS :: "(string \<times> string) list" where
  "NATIVE_UNITS = [(''alchemy'', ''CU''), (''helius'', ''credits''), (''chainstack'', ''RU'')]"

definition ALCHEMY_COSTS :: "(string \<times> int) list" where
  "ALCHEMY_COSTS =
     [(''eth_chainId'', 0), (''net_version'', 0), (''web3_clientVersion'', 0),
      (''eth_blockNumber'', 10), (''eth_getBalance'', 20), (''eth_getBlockByNumber'', 20),
      (''eth_getBlockByHash'', 20), (''eth_getCode'', 20), (''eth_getStorageAt'', 20),
      (''eth_getTransactionByHash'', 20), (''eth_getTransactionReceipt'', 20),
      (''eth_getTransactionCount'', 20), (''eth_call'', 26), (''eth_getLogs'', 60),
      (''getAccountInfo'', 10), (''getBalance'', 10), (''getTokenAccountsByOwner'', 10),
      (''getTokenAccountsByOwnerV2'', 10), (''getMultipleAccounts'', 20),
      (''getHealth'', 20), (''getSlot'', 20), (''getBlockHeight'', 20), (''getBlockTime'', 20),
      (''getLatestBlockhash'', 20), (''getSignatureStatuses'', 20),
      (''getTokenLargestAccounts'', 20), (''getTokenAccountBalance'', 20),
      (''getTokenSupply'', 20), (''getFirstAvailableBlock'', 40), (''getBlock'', 40),
      (''getSignaturesForAddress'', 40), (''getTransaction'', 40),
      (''getTransactionsForAddress'', 100)]"

definition ALCHEMY_THROUGHPUT_COSTS :: "(string \<times> int) list" where
  "ALCHEMY_THROUGHPUT_COSTS = [(''eth_chainId'', 5), (''net_version'', 5), (''web3_clientVersion'', 5)]"

definition HELIUS_DAS_METHODS :: "string list" where
  "HELIUS_DAS_METHODS =
     [''getAsset'', ''getAssetProof'', ''getAssetProofBatch'', ''getAssetBatch'',
      ''getAssetsByOwner'', ''getAssetsByAuthority'', ''getAssetsByCreator'',
      ''getAssetsByGroup'', ''getSignaturesForAsset'', ''getNftEditions'',
      ''getTokenAccounts'', ''searchAssets'']"

definition CHAINSTACK_ARCHIVE_METHODS :: "string list" where
  "CHAINSTACK_ARCHIVE_METHODS =
     [''getTransaction'', ''getBlock'', ''getBlockTime'', ''getBlocks'', ''getBlocksWithLimit'',
      ''getSignaturesForAddress'', ''getFirstAvailableBlock'', ''getSignatureStatuses'']"

section \<open>Costs\<close>

definition units_error :: pyexc where
  "units_error = ValueError ''native units must be a nonnegative integer''"

text \<open>\<open>_units\<close>\<close>

fun units_of :: "pyval \<Rightarrow> int res" where
  "units_of (PInt i) = (if i < 0 then Inl units_error else Inr i)"
| "units_of _ = Inl units_error"

lemma units_of_Inr: "units_of v = Inr n \<longleftrightarrow> v = PInt n \<and> 0 \<le> n"
  by (cases v) auto

text \<open>The options of an indexed history request: the response mode, then the page size.\<close>

definition history_options :: "pyval list \<Rightarrow> pyval" where
  "history_options params = (if length params > 1 \<and> is_dict (params ! 1) then params ! 1 else PDict [])"

definition history_mode :: "pyval \<Rightarrow> bool res" where
  "history_mode options =
     bindR (dget_default options ''transactionDetails'' (PStr ''full'')) (\<lambda>mode.
       bindR (py_in_strs mode [''full'', ''signatures'']) (\<lambda>b.
         if b then Inr (mode = PStr ''signatures'')
         else Inl (ValueError ''invalid indexed history response mode'')))"

definition history_page_size :: "pyval \<Rightarrow> int res" where
  "history_page_size options =
     bindR (dget_default options ''limit'' (PInt 100)) (\<lambda>l. case l of
         PInt n \<Rightarrow> if 1 \<le> n \<and> n \<le> 1000 then Inr n else Inl (ValueError ''invalid indexed history page size'')
       | _ \<Rightarrow> Inl (ValueError ''invalid indexed history page size''))"

definition history_count :: "pyval option \<Rightarrow> int \<Rightarrow> int res" where
  "history_count result limit =
     (case result of
        None \<Rightarrow> Inr limit
      | Some r \<Rightarrow>
          if r = PNone then Inr limit
          else if \<not> is_dict r \<or> \<not> is_list (getd r ''data'')
          then Inl (ValueError ''invalid indexed history response'')
          else Inr (int (length (as_list (getd r ''data'')))))"

text \<open>
  \<open>native_cost(provider, method, params, result)\<close>: \<open>params\<close> is the request's list, empty for
  \<open>None\<close>; \<open>result\<close> is \<open>None\<close> for the unset marker.
\<close>

definition native_cost :: "string \<Rightarrow> string \<Rightarrow> pyval list \<Rightarrow> pyval option \<Rightarrow> int res" where
  "native_cost provider method params result =
     (if provider = ''alchemy'' then
        (case map_of ALCHEMY_COSTS method of
           None \<Rightarrow> Inl (ValueError ''unknown Alchemy method cost'') | Some c \<Rightarrow> Inr c)
      else if provider = ''helius'' then
        (if method = ''getTransactionsForAddress'' then
           bindR (history_mode (history_options params)) (\<lambda>sig_only.
           bindR (history_page_size (history_options params)) (\<lambda>limit.
             if sig_only then Inr 10
             else bindR (history_count result limit) (\<lambda>count.
               Inr (max 10 (10 * ((count + 99) div 100))))))
         else if method \<in> set HELIUS_DAS_METHODS \<or> method = ''getProgramAccounts'' \<or>
                 method = ''getTransfersByAddress'' then Inr 10
         else Inr 1)
      else if provider = ''chainstack'' then
        Inr (if method \<in> set CHAINSTACK_ARCHIVE_METHODS then 2 else 1)
      else Inl (ValueError ''unknown native-unit provider''))"

definition throughput_cost :: "string \<Rightarrow> string \<Rightarrow> int res" where
  "throughput_cost provider method =
     (if provider = ''alchemy'' then
        bindR (native_cost provider method [] None) (\<lambda>c.
          Inr (case map_of ALCHEMY_THROUGHPUT_COSTS method of None \<Rightarrow> c | Some t \<Rightarrow> t))
      else Inr 1)"

section \<open>Laws of the price tables\<close>

lemma alchemy_cost_bounds:
  assumes "map_of ALCHEMY_COSTS m = Some c"
  shows "0 \<le> c \<and> c \<le> 100"
proof -
  have "(m, c) \<in> set ALCHEMY_COSTS" using assms by (rule map_of_SomeD)
  moreover have "\<forall>(m, c) \<in> set ALCHEMY_COSTS. 0 \<le> c \<and> c \<le> 100" by (simp add: ALCHEMY_COSTS_def)
  ultimately show ?thesis by blast
qed

lemma history_page_size_bounds: "history_page_size opts = Inr n \<Longrightarrow> 1 \<le> n \<and> n \<le> 1000"
  unfolding history_page_size_def
  by (cases "dget_default opts ''limit'' (PInt 100)")
    (auto split: pyval.split_asm if_splits)

lemma history_count_nonneg: "history_count r l = Inr n \<Longrightarrow> 1 \<le> l \<Longrightarrow> 0 \<le> n"
  by (auto simp: history_count_def split: option.splits if_splits)

text \<open>Every charge is between 0 and 100 units before the response is known.\<close>

lemma native_cost_bounds:
  assumes "native_cost provider method params None = Inr c"
  shows "0 \<le> c \<and> c \<le> 100"
proof -
  have page: "0 \<le> max 10 (10 * ((n + 99) div 100)) \<and> max 10 (10 * ((n + 99) div 100)) \<le> 100"
    if "1 \<le> n" "n \<le> 1000" for n :: int
  proof -
    have "1 \<le> (n + 99) div 100" "(n + 99) div 100 \<le> 10" using that by linarith+
    then show ?thesis by linarith
  qed
  show ?thesis
    using assms page alchemy_cost_bounds history_page_size_bounds
    unfolding native_cost_def
    by (auto simp: bindR_eq_Inr history_count_def split: if_splits option.splits)
qed

lemma native_cost_nonneg:
  assumes "native_cost provider method params result = Inr c"
  shows "0 \<le> c"
  using assms alchemy_cost_bounds
  unfolding native_cost_def
  by (auto simp: bindR_eq_Inr split: if_splits option.splits)

text \<open>
  The reservation made before a request is conservative: a response that keeps the page size it
  asked for is never priced above the units reserved for it.
\<close>

theorem native_cost_conservative:
  assumes "native_cost provider method params None = Inr reserved"
    and "native_cost provider method params (Some r) = Inr actual"
    and "provider = ''helius'' \<longrightarrow> method = ''getTransactionsForAddress'' \<longrightarrow>
      (\<forall>limit. history_page_size (history_options params) = Inr limit \<longrightarrow>
          int (length (as_list (getd r ''data''))) \<le> limit)"
  shows "actual \<le> reserved"
proof -
  have mono: "max 10 (10 * ((m + 99) div 100)) \<le> max 10 (10 * ((n + 99) div 100))" if "m \<le> n" for m n :: int
    using that by (simp add: max.coboundedI2 zdiv_mono1)
  show ?thesis
  proof (cases "provider = ''helius'' \<and> method = ''getTransactionsForAddress''")
    case False
    with assms(1,2) show ?thesis
      unfolding native_cost_def by (auto split: if_splits option.splits)
  next
    case True
    define opts where "opts = history_options params"
    from True assms(1) obtain sig limit where
      h: "history_mode opts = Inr sig" "history_page_size opts = Inr limit"
      by (auto simp: native_cost_def opts_def [symmetric] bindR_eq_Inr)
    from assms(3) True h have len: "int (length (as_list (getd r ''data''))) \<le> limit"
      by (simp add: opts_def)
    from True h assms(1,2) have c: "native_cost provider method params x =
        (if sig then Inr 10 else bindR (history_count x limit) (\<lambda>count. Inr (max 10 (10 * ((count + 99) div 100)))))"
      for x by (simp add: native_cost_def opts_def [symmetric])
    show ?thesis
    proof (cases sig)
      case True
      with c assms(1,2) show ?thesis by simp
    next
      case False
      from c [of None] False assms(1) have r: "reserved = max 10 (10 * ((limit + 99) div 100))"
        by (simp add: history_count_def)
      from c [of "Some r"] False assms(2) obtain n where
        n: "history_count (Some r) limit = Inr n" "actual = max 10 (10 * ((n + 99) div 100))"
        by (cases "history_count (Some r) limit") auto
      from n(1) len have "n \<le> limit" by (auto simp: history_count_def split: if_splits)
      with mono r n(2) show ?thesis by simp
    qed
  qed
qed

text \<open>A full page of 1000 reserves 100 credits; a page that came back with 101 items is priced at 20.\<close>

theorem native_cost_conservative_witness:
  "native_cost ''helius'' ''getTransactionsForAddress'' [PStr ''A'', PDict [(''limit'', PInt 1000)]] None = Inr 100 \<and>
   native_cost ''helius'' ''getTransactionsForAddress'' [PStr ''A'', PDict [(''limit'', PInt 1000)]]
     (Some (PDict [(''data'', PList [PNone, PNone])])) = Inr 10 \<and> (10 :: int) \<le> 100"
proof -
  let ?p = "[PStr ''A'', PDict [(''limit'', PInt 1000)]]"
  let ?r = "PDict [(''data'', PList [PNone, PNone])]"
  have 1: "native_cost ''helius'' ''getTransactionsForAddress'' ?p None = Inr 100" by code_simp
  have 2: "native_cost ''helius'' ''getTransactionsForAddress'' ?p (Some ?r) = Inr 10" by code_simp
  have 3: "\<forall>limit. history_page_size (PDict [(''limit'', PInt 1000)]) = Inr limit \<longrightarrow> 2 \<le> limit"
    by (simp add: history_page_size_def)
  from native_cost_conservative [OF 1 2] 3 1 2 show ?thesis by (simp add: history_options_def)
qed

end
