(* ===== verification/Rpc_Budget.thy ===== *)
theory Rpc_Budget
  imports Rpc_Costs Py_Time
begin

text \<open>
  \<^verbatim>\<open>src/rpc_budget.py\<close>, the three budgets behind \<open>provider.monthly_budget\<close>: the shared monthly
  ledger (\<open>MonthlyRpcBudget\<close>), a grant handed to one worker (\<open>PreallocatedRpcBudget\<close>) and the
  budget that commits small grants before it spends them (\<open>DurableChunkBudget\<close>).

  The ledger is the dictionary \<open>state['rpc_monthly_usage']\<close>, shared by every budget: it is an
  argument and a result of each operation, also of one that raises.  Its leaves come from a
  checkpoint, so they are Python values of any type.  \<open>clock()\<close> is a parameter: \<open>r i\<close> is the reading
  at the \<open>i\<close>-th place of an operation that reads the clock, so time may pass between two reads.
  The lock only orders threads of one interpreter; an operation is one step.
\<close>

named_theorems budget_simps \<open>definitions of the budget operations\<close>

section \<open>Clock and ledger\<close>

type_synonym clock = "nat \<Rightarrow> pydt"

text \<open>\<open>now.astimezone(timezone.utc).strftime("%Y-%m")\<close>; a naive reading is taken as UTC.\<close>

definition utc_period :: "pydt \<Rightarrow> string" where
  "utc_period dt =
     (let (y, m, d) = ord2ymd (dt_micros dt (case dt_tz dt of None \<Rightarrow> 0 | Some off \<Rightarrow> off) div day_us + epoch_ord)
      in pad4 y @ ''-'' @ pad2 m)"

type_synonym entry = "(string \<times> pyval) list"
type_synonym ledger = "(string \<times> (string \<times> entry) list) list"

definition entry_at :: "ledger \<Rightarrow> string \<Rightarrow> string \<Rightarrow> entry option" where
  "entry_at L p q = Option.bind (map_of L p) (\<lambda>ps. map_of ps q)"

text \<open>The mutable entry is part of the ledger: a write to it is a write to the ledger.\<close>

definition put_entry :: "ledger \<Rightarrow> string \<Rightarrow> string \<Rightarrow> entry \<Rightarrow> ledger" where
  "put_entry L p q e =
     AList.update p (AList.update q e (case map_of L p of None \<Rightarrow> [] | Some ps \<Rightarrow> ps)) L"

lemma entry_at_put [simp]:
  "entry_at (put_entry L p q e) p' q' = (if p' = p \<and> q' = q then Some e else entry_at L p' q')"
  by (auto simp: entry_at_def put_entry_def split: option.splits)

definition int_field :: "entry \<Rightarrow> string \<Rightarrow> int" where
  "int_field e k = (case map_of e k of Some (PInt i) \<Rightarrow> i | _ \<Rightarrow> 0)"

lemma int_field_update [simp]:
  "int_field (AList.update k (PInt i) e) k' = (if k' = k then i else int_field e k')"
  by (simp add: int_field_def)

text \<open>\<open>_entry_for_period\<close>: a missing entry is created, an entry with a bad counter raises.\<close>

definition new_entry :: entry where
  "new_entry = [(''estimated_units'', PInt 0), (''attempts'', PInt 0)]"

definition counter :: "entry \<Rightarrow> string \<Rightarrow> int res" where
  "counter e k = bindR (dict_item (PDict e) k) units_of"

definition entry_for_period :: "ledger \<Rightarrow> string \<Rightarrow> string \<Rightarrow> entry res \<times> ledger" where
  "entry_for_period L p q =
     (let e = (case entry_at L p q of None \<Rightarrow> new_entry | Some e \<Rightarrow> e) in
      (bindR (counter e ''estimated_units'') (\<lambda>_. bindR (counter e ''attempts'') (\<lambda>_. Inr e)),
       put_entry L p q e))"

text \<open>The units charged to a provider in a period.\<close>

definition charged :: "ledger \<Rightarrow> string \<Rightarrow> string \<Rightarrow> int" where
  "charged L p q = (case entry_at L p q of None \<Rightarrow> 0 | Some e \<Rightarrow> int_field e ''estimated_units'')"

lemma charged_put [simp]:
  "charged (put_entry L p q e) p' q' =
     (if p' = p \<and> q' = q then int_field e ''estimated_units'' else charged L p' q')"
  by (simp add: charged_def)

lemma counter_Inr: "counter e k = Inr n \<longleftrightarrow> map_of e k = Some (PInt n) \<and> 0 \<le> n"
  by (auto simp: counter_def bindR_eq_Inr units_of_Inr split: option.splits)

lemma entry_for_period_state:
  "snd (entry_for_period L p q) =
     put_entry L p q (case entry_at L p q of None \<Rightarrow> new_entry | Some e \<Rightarrow> e)"
  by (simp add: entry_for_period_def Let_def)

lemma entry_for_period_charged:
  assumes "entry_for_period L p q = (r, L')"
  shows "charged L' = charged L"
proof (intro ext)
  fix p' q'
  have L': "L' = put_entry L p q (case entry_at L p q of None \<Rightarrow> new_entry | Some e \<Rightarrow> e)"
    using entry_for_period_state [of L p q] assms by simp
  have "int_field new_entry ''estimated_units'' = 0" by (simp add: new_entry_def int_field_def)
  then show "charged L' p' q' = charged L p' q'"
    by (cases "entry_at L p q") (simp_all add: L', simp_all add: charged_def)
qed

lemma entry_for_period_Inr:
  assumes "entry_for_period L p q = (Inr e, L')"
  shows "entry_at L' p q = Some e" "int_field e ''estimated_units'' = charged L p q" "0 \<le> charged L p q"
proof -
  show e: "entry_at L' p q = Some e"
    using assms by (auto simp: entry_for_period_def Let_def bindR_eq_Inr)
  have "charged L' p q = int_field e ''estimated_units''" by (simp add: charged_def e)
  then show c: "int_field e ''estimated_units'' = charged L p q"
    by (simp add: entry_for_period_charged [OF assms])
  from assms obtain n where "counter e ''estimated_units'' = Inr n"
    by (auto simp: entry_for_period_def Let_def bindR_eq_Inr)
  then have "map_of e ''estimated_units'' = Some (PInt n)" "0 \<le> n" by (simp_all add: counter_Inr)
  with c show "0 \<le> charged L p q" by (simp add: int_field_def)
qed

section \<open>MonthlyRpcBudget\<close>

record mbudget =
  mb_provider :: string
  mb_limit :: int

definition monthly_budget :: "string \<Rightarrow> pyval \<Rightarrow> mbudget res" where
  "monthly_budget provider limit =
     bindR (units_of limit) (\<lambda>l. Inr \<lparr>mb_provider = provider, mb_limit = l\<rparr>)"

definition monthly_remaining :: "mbudget \<Rightarrow> clock \<Rightarrow> ledger \<Rightarrow> int res \<times> ledger" where
  "monthly_remaining mb r L =
     (case entry_for_period L (utc_period (r 0)) (mb_provider mb) of
        (x, L') \<Rightarrow> (bindR x (\<lambda>e. Inr (max 0 (mb_limit mb - int_field e ''estimated_units''))), L'))"

definition monthly_allows :: "mbudget \<Rightarrow> clock \<Rightarrow> pyval \<Rightarrow> ledger \<Rightarrow> bool res \<times> ledger" where
  "monthly_allows mb r u L =
     (case units_of u of
        Inl e \<Rightarrow> (Inl e, L)
      | Inr n \<Rightarrow> (case monthly_remaining mb r L of (x, L') \<Rightarrow> (bindR x (\<lambda>m. Inr (n \<le> m)), L')))"

definition charge_entry :: "entry \<Rightarrow> int \<Rightarrow> entry" where
  "charge_entry e n =
     AList.update ''estimated_units'' (PInt (int_field e ''estimated_units'' + n)) e"

definition monthly_reserve :: "mbudget \<Rightarrow> clock \<Rightarrow> pyval \<Rightarrow> ledger \<Rightarrow> bool res \<times> ledger" where
  "monthly_reserve mb r u L =
     (case units_of u of
        Inl e \<Rightarrow> (Inl e, L)
      | Inr n \<Rightarrow>
          (case entry_for_period L (utc_period (r 0)) (mb_provider mb) of
             (Inl e, L') \<Rightarrow> (Inl e, L')
           | (Inr e, L') \<Rightarrow>
               if int_field e ''estimated_units'' + n > mb_limit mb then (Inr False, L')
               else (Inr True,
                     put_entry L' (utc_period (r 0)) (mb_provider mb)
                       (AList.update ''attempts'' (PInt (int_field e ''attempts'' + 1)) (charge_entry e n)))))"

text \<open>The fields of the snapshot that depend on the ledger.\<close>

record budget_snapshot =
  sn_period :: string
  sn_unit :: string
  sn_estimated :: int
  sn_attempts :: int
  sn_limit :: int
  sn_remaining :: int
  sn_allocated :: pyval
  sn_allocations :: pyval

definition monthly_snapshot :: "mbudget \<Rightarrow> clock \<Rightarrow> ledger \<Rightarrow> budget_snapshot res \<times> ledger" where
  "monthly_snapshot mb r L =
     (let p = utc_period (r 0) in
      case entry_for_period L p (mb_provider mb) of
        (x, L') \<Rightarrow> (bindR x (\<lambda>e. Inr
           \<lparr>sn_period = p,
            sn_unit = (case map_of NATIVE_UNITS (mb_provider mb) of None \<Rightarrow> ''estimated_units'' | Some u \<Rightarrow> u),
            sn_estimated = int_field e ''estimated_units'', sn_attempts = int_field e ''attempts'',
            sn_limit = mb_limit mb, sn_remaining = max 0 (mb_limit mb - int_field e ''estimated_units''),
            sn_allocated = (case map_of e ''allocated_units'' of None \<Rightarrow> PInt 0 | Some v \<Rightarrow> v),
            sn_allocations = (case map_of e ''allocations'' of None \<Rightarrow> PInt 0 | Some v \<Rightarrow> v)\<rparr>), L'))"

text \<open>
  \<open>monthly_budget_for\<close>: the limit of the provider in the configuration's overrides, else the
  default, else 0.
\<close>

definition monthly_budget_for :: "string \<Rightarrow> (string \<times> pyval) list \<Rightarrow> mbudget res" where
  "monthly_budget_for provider overrides =
     monthly_budget provider
       (case map_of overrides provider of
          Some v \<Rightarrow> v
        | None \<Rightarrow> (case map_of DEFAULT_MONTHLY_LIMITS provider of Some l \<Rightarrow> PInt l | None \<Rightarrow> PInt 0))"

text \<open>\<open>configure_monthly_budgets\<close>: the budget each configured provider gets; others keep theirs.\<close>

definition configure_monthly_budgets ::
    "(string \<times> pyval) list \<Rightarrow> (string \<times> mbudget option) list \<Rightarrow> (string \<times> mbudget option) list res" where
  "configure_monthly_budgets overrides providers =
     mapR (\<lambda>(name, b).
       if name \<in> set (map fst DEFAULT_MONTHLY_LIMITS)
       then bindR (monthly_budget_for name overrides) (\<lambda>mb. Inr (name, Some mb))
       else Inr (name, b)) providers"

text \<open>\<open>request_reservation\<close>: \<open>fallback\<close> is the provider's own \<open>credit_cost(method, None)\<close>.\<close>

definition request_reservation :: "string \<Rightarrow> pyval \<Rightarrow> string \<Rightarrow> pyval list \<Rightarrow> pyval res" where
  "request_reservation credit_model fallback method params =
     (if credit_model \<in> set (map fst NATIVE_UNITS)
      then bindR (native_cost credit_model method params None) (\<lambda>c. Inr (PInt c))
      else Inr fallback)"

section \<open>PreallocatedRpcBudget\<close>

record grant =
  g_provider :: string
  g_period :: pyval
  g_role :: string
  g_limit :: int
  g_used :: int
  g_attempts :: int

definition grant_roles :: "string list" where
  "grant_roles = [''solana'', ''robinhood'']"

fun str_of :: "pyval \<Rightarrow> string" where
  "str_of (PStr s) = s"
| "str_of _ = []"

definition preallocated :: "pyval \<Rightarrow> grant res" where
  "preallocated payload =
     bindR (dget payload ''provider'') (\<lambda>q.
     bindR (py_in_strs q (map fst NATIVE_UNITS)) (\<lambda>known.
       if \<not> known then Inl (ValueError ''unknown grant provider'') else
     bindR (dget payload ''role'') (\<lambda>role.
     bindR (py_in_strs role grant_roles) (\<lambda>known_role.
       if \<not> known_role then Inl (ValueError ''unknown grant role'') else
     bindR (dict_item payload ''period'') (\<lambda>period.
     bindR (dict_item payload ''limit'') (\<lambda>l.
     bindR (units_of l) (\<lambda>limit.
       Inr \<lparr>g_provider = str_of q, g_period = period, g_role = str_of role,
            g_limit = limit, g_used = 0, g_attempts = 0\<rparr>)))))))"

definition grant_current :: "grant \<Rightarrow> pydt \<Rightarrow> bool" where
  "grant_current g now \<longleftrightarrow> g_period g = PStr (utc_period now)"

definition grant_remaining :: "grant \<Rightarrow> pydt \<Rightarrow> int" where
  "grant_remaining g now = (if \<not> grant_current g now then 0 else max 0 (g_limit g - g_used g))"

text \<open>\<open>allows\<close> reads the clock itself, then once more in \<open>remaining\<close>.\<close>

definition grant_allows :: "clock \<Rightarrow> pyval \<Rightarrow> grant \<Rightarrow> bool res" where
  "grant_allows r u g =
     bindR (units_of u) (\<lambda>n. Inr (grant_current g (r 0) \<and> n \<le> grant_remaining g (r 1)))"

definition grant_reserve :: "clock \<Rightarrow> pyval \<Rightarrow> grant \<Rightarrow> bool res \<times> grant" where
  "grant_reserve r u g =
     (case grant_allows r u g of
        Inl e \<Rightarrow> (Inl e, g)
      | Inr b \<Rightarrow>
          if \<not> b then (Inr False, g)
          else (Inr True, g\<lparr>g_used := g_used g + (case u of PInt n \<Rightarrow> n | _ \<Rightarrow> 0), g_attempts := g_attempts g + 1\<rparr>))"

section \<open>allocate_run_budget\<close>

text \<open>\<open>v + n\<close> for a stored counter that was not validated.\<close>

fun plus_int :: "pyval \<Rightarrow> int \<Rightarrow> pyval res" where
  "plus_int (PInt i) n = Inr (PInt (i + n))"
| "plus_int (PBool b) n = Inr (PInt ((if b then 1 else 0) + n))"
| "plus_int (PFloat (Fin q)) n = Inr (PFloat (Fin (q + of_int n)))"
| "plus_int (PFloat f) n = Inr (PFloat f)"
| "plus_int _ n = Inl TypeError"

definition bump :: "string \<Rightarrow> int \<Rightarrow> entry \<Rightarrow> entry res" where
  "bump k n e =
     bindR (plus_int (case map_of e k of None \<Rightarrow> PInt 0 | Some v \<Rightarrow> v) n) (\<lambda>v. Inr (AList.update k v e))"

definition grant_payload :: "string \<Rightarrow> string \<Rightarrow> pyval \<Rightarrow> int \<Rightarrow> pyval" where
  "grant_payload provider period role limit =
     PDict [(''provider'', PStr provider), (''period'', PStr period), (''role'', role), (''limit'', PInt limit)]"

text \<open>The charge stays in the ledger when a later counter raises.\<close>

definition allocate_run_budget ::
    "mbudget \<Rightarrow> clock \<Rightarrow> pyval \<Rightarrow> pyval \<Rightarrow> ledger \<Rightarrow> pyval res \<times> ledger" where
  "allocate_run_budget mb r u role L =
     (case bindR (units_of u) (\<lambda>n. bindR (py_in_strs role grant_roles) (\<lambda>b.
             if b then Inr n else Inl (ValueError ''unknown grant role''))) of
        Inl e \<Rightarrow> (Inl e, L)
      | Inr n \<Rightarrow>
          (let p = utc_period (r 0); q = mb_provider mb in
           case entry_for_period L p q of
             (Inl e, L') \<Rightarrow> (Inl e, L')
           | (Inr e, L') \<Rightarrow>
               if int_field e ''estimated_units'' + n > mb_limit mb then (Inr PNone, L')
               else (let e1 = charge_entry e n in
                 case bump ''allocated_units'' n e1 of
                   Inl x \<Rightarrow> (Inl x, put_entry L' p q e1)
                 | Inr e2 \<Rightarrow> (case bump ''allocations'' 1 e2 of
                       Inl x \<Rightarrow> (Inl x, put_entry L' p q e2)
                     | Inr e3 \<Rightarrow> (Inr (grant_payload q p role n), put_entry L' p q e3)))))"

section \<open>DurableChunkBudget\<close>

record durable =
  d_account :: mbudget
  d_chunk :: int
  d_role :: pyval
  d_grant :: "grant option"
  d_used :: int
  d_attempts :: int
  d_failed :: bool

definition durable_budget :: "mbudget \<Rightarrow> pyval \<Rightarrow> pyval \<Rightarrow> durable res" where
  "durable_budget account chunk role =
     bindR (units_of chunk) (\<lambda>c. Inr \<lparr>d_account = account, d_chunk = max 1 c, d_role = role,
       d_grant = None, d_used = 0, d_attempts = 0, d_failed = False\<rparr>)"

definition durable_remaining :: "clock \<Rightarrow> durable \<Rightarrow> ledger \<Rightarrow> int res \<times> ledger" where
  "durable_remaining r d L =
     (if d_failed d then (Inr 0, L)
      else (case monthly_remaining (d_account d) r L of (x, L') \<Rightarrow>
        (bindR x (\<lambda>m. Inr (m + (case d_grant d of None \<Rightarrow> 0 | Some g \<Rightarrow> grant_remaining g (r 1)))), L')))"

definition durable_allows :: "clock \<Rightarrow> pyval \<Rightarrow> durable \<Rightarrow> ledger \<Rightarrow> bool res \<times> ledger" where
  "durable_allows r u d L =
     (case units_of u of
        Inl e \<Rightarrow> (Inl e, L)
      | Inr n \<Rightarrow> (case durable_remaining r d L of (x, L') \<Rightarrow>
          (bindR x (\<lambda>m. Inr (n \<le> m \<and> \<not> d_failed d)), L')))"

text \<open>\<open>if not self.grant.reserve(units): return False\<close> and the counters of the run.\<close>

definition durable_spend :: "clock \<Rightarrow> pyval \<Rightarrow> int \<Rightarrow> durable \<Rightarrow> bool res \<times> durable" where
  "durable_spend r u n d =
     (case d_grant d of
        None \<Rightarrow> (Inl AttributeError, d)
      | Some g \<Rightarrow>
          (case grant_reserve r u g of
             (Inl e, g') \<Rightarrow> (Inl e, d\<lparr>d_grant := Some g'\<rparr>)
           | (Inr False, g') \<Rightarrow> (Inr False, d\<lparr>d_grant := Some g'\<rparr>)
           | (Inr True, g') \<Rightarrow> (Inr True, d\<lparr>d_grant := Some g', d_used := d_used d + n,
                                             d_attempts := d_attempts d + 1\<rparr>)))"

text \<open>
  \<open>commit\<close> is the callback that writes the ledger to its store; only the answer \<open>True\<close> is an
  acknowledgement, an exception is none.
\<close>

type_synonym 'w committer = "ledger \<Rightarrow> 'w \<Rightarrow> pyval res \<times> 'w"

text \<open>A new grant: the charge, the commit, and the grant object.  \<open>Inr False\<close> is the early return.\<close>

definition durable_issue ::
    "'w committer \<Rightarrow> clock \<Rightarrow> int \<Rightarrow> durable \<Rightarrow> ledger \<Rightarrow> 'w \<Rightarrow> bool res \<times> durable \<times> ledger \<times> 'w" where
  "durable_issue commit r n d L w =
     (case monthly_remaining (d_account d) r L of
        (Inl e, L1) \<Rightarrow> (Inl e, d, L1, w)
      | (Inr m1, L1) \<Rightarrow>
          if n > m1 then (Inr False, d, L1, w)
          else (case monthly_remaining (d_account d) (\<lambda>i. r (i + 1)) L1 of
            (Inl e, L2) \<Rightarrow> (Inl e, d, L2, w)
          | (Inr m2, L2) \<Rightarrow>
              (case allocate_run_budget (d_account d) (\<lambda>i. r (i + 2)) (PInt (min m2 (max (d_chunk d) n))) (d_role d) L2 of
                 (Inl e, L3) \<Rightarrow> (Inl e, d, L3, w)
               | (Inr payload, L3) \<Rightarrow>
                   if payload = PNone then (Inr False, d, L3, w)
                   else (case commit L3 w of (answer, w') \<Rightarrow>
                     if answer \<noteq> Inr (PBool True) then (Inr False, d\<lparr>d_failed := True\<rparr>, L3, w')
                     else (case preallocated payload of
                         Inl e \<Rightarrow> (Inl e, d, L3, w')
                       | Inr g \<Rightarrow> (Inr True, d\<lparr>d_grant := Some g\<rparr>, L3, w'))))))"

definition durable_reserve ::
    "'w committer \<Rightarrow> clock \<Rightarrow> pyval \<Rightarrow> durable \<Rightarrow> ledger \<Rightarrow> 'w \<Rightarrow> bool res \<times> durable \<times> ledger \<times> 'w" where
  "durable_reserve commit r u d L w =
     (case units_of u of
        Inl e \<Rightarrow> (Inl e, d, L, w)
      | Inr n \<Rightarrow>
          if d_failed d then (Inr False, d, L, w)
          else (case (case d_grant d of None \<Rightarrow> Inr False | Some g \<Rightarrow> grant_allows r u g) of
              Inl e \<Rightarrow> (Inl e, d, L, w)
            | Inr True \<Rightarrow> (case durable_spend (\<lambda>i. r (i + 5)) u n d of (x, d') \<Rightarrow> (x, d', L, w))
            | Inr False \<Rightarrow>
                (case durable_issue commit (\<lambda>i. r (i + 2)) n d L w of
                   (Inr True, d', L', w') \<Rightarrow>
                     (case durable_spend (\<lambda>i. r (i + 5)) u n d' of (x, d'') \<Rightarrow> (x, d'', L', w'))
                 | (x, d', L', w') \<Rightarrow> (x, d', L', w'))))"

end
