(* ===== verification/Rpc_Provider.thy ===== *)
theory Rpc_Provider
  imports Rpc_Budget Rpc_Routing
begin

text \<open>
  \<^verbatim>\<open>src/scanner.py\<close>, \<open>class SolanaRpcProvider\<close>: one provider's request loop with its retries, circuit
  breaker, cooldowns and per-scan credit budget.

  The outside of the program is the record \<open>net\<close>, over a world \<open>'w\<close>: the clocks, \<open>sleep\<close>, the HTTP
  session, the process-wide rate limiter and the monthly budget (whose own models are the budgets of
  \<open>Rpc_Budget\<close>).  Exceptions: \<open>RpcError category text\<close> is \<open>HeliusRpcError\<close>, \<open>RuntimeError\<close> is
  \<open>HeliusCircuitOpen\<close>.  \<open>safe_error_detail\<close> redacts by plain replacement; the query values and the last
  path segment of the URL come from \<open>urllib\<close> and are fields of the provider.
\<close>

section \<open>The outside\<close>

record response =
  hr_status :: int
  hr_text :: string
  hr_reason :: string
  hr_retry_after :: rat           \<comment> \<open>\<open>to_float(headers.get("Retry-After"))\<close>, 0 when absent\<close>
  hr_json :: "pyval option"       \<comment> \<open>\<open>None\<close> when the body is not JSON\<close>

datatype http = NoResponse string | Response response

record 'w net =
  nt_monotonic :: "'w \<Rightarrow> rat \<times> 'w"
  nt_time :: "'w \<Rightarrow> rat \<times> 'w"
  nt_now :: "'w \<Rightarrow> string \<times> 'w"
  nt_sleep :: "rat \<Rightarrow> 'w \<Rightarrow> 'w"
  nt_acquire :: "string \<Rightarrow> string \<Rightarrow> 'w \<Rightarrow> unit res \<times> 'w"
  nt_post :: "string \<Rightarrow> string \<Rightarrow> pyval list \<Rightarrow> rat \<times> rat \<Rightarrow> 'w \<Rightarrow> (rat \<times> http) \<times> 'w"
    \<comment> \<open>provider, method, params, timeouts; answers with the elapsed \<open>perf_counter\<close> time\<close>
  nt_allows :: "string \<Rightarrow> pyval \<Rightarrow> 'w \<Rightarrow> bool res \<times> 'w"
  nt_reserve :: "string \<Rightarrow> pyval \<Rightarrow> 'w \<Rightarrow> bool res \<times> 'w"
  nt_str :: "pyval \<Rightarrow> string"     \<comment> \<open>\<open>str(v)\<close> of a value that is not a string\<close>

section \<open>State\<close>

type_synonym counts = "(string \<times> int) list"

record provider =
  pv_name :: string
  pv_url :: string
  pv_secrets :: "string list"
  pv_enhanced :: bool
  pv_model :: string
  pv_timeout :: rat
  pv_history_timeout :: rat        \<comment> \<open>\<open>transactions_timeout_seconds\<close>\<close>
  pv_max_retries :: nat
  pv_retry_base :: rat
  pv_retry_max :: rat
  pv_threshold :: int              \<comment> \<open>\<open>circuit_failure_threshold\<close>\<close>
  pv_interval :: rat
  pv_method_intervals :: "(string \<times> rat) list"
  pv_unsupported :: "string list"
  pv_credit_budget :: int
  pv_has_budget :: bool            \<comment> \<open>\<open>monthly_budget is not None\<close>\<close>
  pv_estimated :: int
  pv_attempted :: int
  pv_calls :: counts
  pv_retries :: counts
  pv_failures :: counts
  pv_latency :: "(string \<times> rat list) list"
  pv_last_started :: "rat option"
  pv_consecutive :: int
  pv_method_failures :: counts
  pv_circuit :: "string option"
  pv_method_circuits :: "(string \<times> string) list"
  pv_cooldowns :: "(string \<times> rat) list"
  pv_last_error :: "string option"
  pv_last_success :: "string option"

definition count_of :: "counts \<Rightarrow> string \<Rightarrow> int" where
  "count_of c k = (case map_of c k of None \<Rightarrow> 0 | Some n \<Rightarrow> n)"

definition count_up :: "string \<Rightarrow> counts \<Rightarrow> counts" where
  "count_up k c = AList.update k (count_of c k + 1) c"

section \<open>Prices and limits\<close>

definition flat_cost :: "provider \<Rightarrow> string \<Rightarrow> int" where
  "flat_cost p method = (if pv_model p = ''drpc'' then (if method = ''getHealth'' then 0 else 20) else 1)"

definition reservation_of :: "provider \<Rightarrow> string \<Rightarrow> pyval list \<Rightarrow> int res" where
  "reservation_of p method params =
     bindR (request_reservation (pv_model p) (PInt (flat_cost p method)) method params) units_of"

definition credit_cost :: "provider \<Rightarrow> string \<Rightarrow> pyval \<Rightarrow> int res" where
  "credit_cost p method result =
     (if pv_model p \<in> {''alchemy'', ''helius'', ''chainstack''}
      then (if result = PNone then native_cost (pv_model p) method [] None
            else native_cost (pv_model p) method [] (Some result))
      else Inr (flat_cost p method))"

definition over_budget :: "provider \<Rightarrow> int \<Rightarrow> bool" where
  "over_budget p cost \<longleftrightarrow> pv_credit_budget p \<noteq> 0 \<and> max (pv_estimated p) (pv_attempted p) + cost > pv_credit_budget p"

definition request_timeout :: "provider \<Rightarrow> rat option \<Rightarrow> rat \<times> rat" where
  "request_timeout p timeout =
     (let s = (case timeout of None \<Rightarrow> pv_timeout p | Some t \<Rightarrow> t) in (min 10 (max 3 (s / 3)), s))"

definition retry_delay :: "provider \<Rightarrow> nat \<Rightarrow> rat \<Rightarrow> rat" where
  "retry_delay p attempt retry_after =
     (let delay = (if retry_after \<noteq> 0 then retry_after else pv_retry_base p * 2 ^ attempt)
      in min (pv_retry_max p) (max (1 / 10) delay))"

section \<open>can_call\<close>

text \<open>A cooldown that has run out is forgotten, with the method's circuit and failures.\<close>

definition cool_down :: "'w net \<Rightarrow> string \<Rightarrow> provider \<Rightarrow> 'w \<Rightarrow> provider \<times> 'w" where
  "cool_down net method p w =
     (case map_of (pv_cooldowns p) method of
        None \<Rightarrow> (p, w)
      | Some until \<Rightarrow>
          (case nt_monotonic net w of (t, w') \<Rightarrow>
             if t \<ge> until
             then (p\<lparr>pv_cooldowns := AList.delete method (pv_cooldowns p),
                     pv_method_circuits := AList.delete method (pv_method_circuits p),
                     pv_method_failures := AList.update method 0 (pv_method_failures p)\<rparr>, w')
             else (p, w')))"

definition method_open :: "provider \<Rightarrow> string \<Rightarrow> bool" where
  "method_open p method \<longleftrightarrow> method \<in> set (map fst (pv_method_circuits p)) \<or> method \<in> set (map fst (pv_cooldowns p))"

definition can_call :: "'w net \<Rightarrow> string \<Rightarrow> pyval list \<Rightarrow> provider \<Rightarrow> 'w \<Rightarrow> bool res \<times> provider \<times> 'w" where
  "can_call net method params p w =
     (case cool_down net method p w of (p1, w1) \<Rightarrow>
        if pv_circuit p1 \<noteq> None \<or> method_open p1 method \<or> method \<in> set (pv_unsupported p1) then (Inr False, p1, w1)
        else (case reservation_of p1 method params of
            Inl e \<Rightarrow> (Inl e, p1, w1)
          | Inr cost \<Rightarrow>
              (case (if pv_has_budget p1 then nt_allows net (pv_name p1) (PInt cost) w1 else (Inr True, w1)) of
                 (Inl e, w2) \<Rightarrow> (Inl e, p1, w2)
               | (Inr b, w2) \<Rightarrow> (Inr (b \<and> \<not> over_budget p1 cost), p1, w2))))"

section \<open>Errors\<close>

definition has_marker :: "string list \<Rightarrow> string \<Rightarrow> bool" where
  "has_marker markers detail \<longleftrightarrow> list_ex (\<lambda>m. py_contains m detail) markers"

definition unsupported_markers :: "string list" where
  "unsupported_markers = [''only available on dedicated nodes'', ''indexed requests require a personal token'',
     ''method is not available'', ''method not found'', ''method is not supported on'', ''method not supported on'',
     ''not supported in your plan'', ''not available for your plan'']"

definition auth_markers :: "string list" where
  "auth_markers = [''unauthorized'', ''forbidden'', ''invalid api key'']"

definition exhausted_markers :: "string list" where
  "exhausted_markers = [''max usage'', ''usage reached'', ''quota'', ''credits exhausted'', ''credit limit'',
     ''insufficient credit'']"

definition quota_markers :: "string list" where
  "quota_markers = [''credit'', ''quota'', ''billing'', ''payment required'', ''max usage'', ''usage reached'',
     ''free plan'', ''please upgrade'']"

definition rate_limited :: "int option \<Rightarrow> pyval \<Rightarrow> string \<Rightarrow> bool" where
  "rate_limited status code detail \<longleftrightarrow>
     status = Some 429 \<or> py_eq code (PInt (- 32429)) \<or> has_marker [''rate limit'', ''too many requests''] detail"

definition error_category :: "int option \<Rightarrow> pyval \<Rightarrow> string \<Rightarrow> string" where
  "error_category status code text =
     (let detail = lower text in
      if py_eq code (PInt (- 32601)) \<or> has_marker unsupported_markers detail then ''unsupported''
      else if status = Some 401 \<or> status = Some 403 \<or> has_marker auth_markers detail then ''auth''
      else if rate_limited status code detail \<and> \<not> has_marker exhausted_markers detail then ''rate_limit''
      else if status = Some 402 \<or> py_eq code (PInt 35) \<or> has_marker quota_markers detail then ''quota''
      else if rate_limited status code detail then ''rate_limit''
      else if py_eq code (PInt (- 32600)) \<or> py_eq code (PInt (- 32602)) \<or> py_eq code (PInt (- 32015)) \<or>
              (py_contains ''transaction version'' detail \<and> py_contains ''not supported'' detail) then ''client''
      else if has_marker [''timeout'', ''timed out'', ''temporarily unavailable''] detail then ''temporary''
      else if (case status of Some s \<Rightarrow> s \<ge> 500 | None \<Rightarrow> False) then ''provider''
      else ''rpc'')"

fun py_replace_aux :: "nat \<Rightarrow> string \<Rightarrow> string \<Rightarrow> string \<Rightarrow> string" where
  "py_replace_aux 0 old new s = s"
| "py_replace_aux (Suc n) old new [] = []"
| "py_replace_aux (Suc n) old new (c # s) =
     (if take (length old) (c # s) = old then new @ py_replace_aux n old new (drop (length old) (c # s))
      else c # py_replace_aux n old new s)"

text \<open>\<open>s.replace(old, new)\<close> for a non-empty \<open>old\<close>.\<close>

definition py_replace :: "string \<Rightarrow> string \<Rightarrow> string \<Rightarrow> string" where
  "py_replace old new s = (if old = [] then s else py_replace_aux (length s) old new s)"

definition safe_error_detail :: "provider \<Rightarrow> string \<Rightarrow> string" where
  "safe_error_detail p detail =
     take 300 (foldl (\<lambda>text secret. if length secret \<ge> 6 then py_replace secret ''[redacted]'' text else text)
       (py_replace (pv_url p) ''[RPC endpoint]'' detail) (pv_secrets p))"

text \<open>\<open>str(HeliusRpcError(...))\<close>\<close>

definition error_text :: "provider \<Rightarrow> string \<Rightarrow> string \<Rightarrow> string \<Rightarrow> string" where
  "error_text p method category detail = pv_name p @ '':'' @ method @ '': '' @ category @ '': '' @ detail"

definition rpc_error :: "provider \<Rightarrow> string \<Rightarrow> string \<Rightarrow> string \<Rightarrow> pyexc" where
  "rpc_error p method category detail = RpcError category (error_text p method category detail)"

definition record_failure :: "'w net \<Rightarrow> string \<Rightarrow> string \<Rightarrow> string \<Rightarrow> provider \<Rightarrow> 'w \<Rightarrow> provider \<times> 'w" where
  "record_failure net method category text p w =
     (let p1 = p\<lparr>pv_failures := count_up category (pv_failures p), pv_last_error := Some text\<rparr> in
      if category \<in> {''auth'', ''quota''} then
        (let n = pv_consecutive p1 + 1 in
         (p1\<lparr>pv_consecutive := n, pv_circuit := (if n \<ge> pv_threshold p1 then Some text else pv_circuit p1)\<rparr>, w))
      else if category \<in> {''rate_limit'', ''provider'', ''temporary''} then
        (case nt_monotonic net w of (t, w') \<Rightarrow>
          (let n = count_of (pv_method_failures p1) method + 1 in
           (p1\<lparr>pv_method_failures := AList.update method n (pv_method_failures p1),
               pv_cooldowns := AList.update method (t + max 2 (min 30 (pv_retry_max p1))) (pv_cooldowns p1),
               pv_method_circuits := (if n \<ge> pv_threshold p1 then AList.update method text (pv_method_circuits p1)
                                      else pv_method_circuits p1)\<rparr>, w')))
      else (p1, w))"

definition record_success :: "'w net \<Rightarrow> string \<Rightarrow> provider \<Rightarrow> 'w \<Rightarrow> provider \<times> 'w" where
  "record_success net method p w =
     (case nt_now net w of (s, w') \<Rightarrow>
        (p\<lparr>pv_consecutive := 0, pv_method_failures := AList.update method 0 (pv_method_failures p),
           pv_last_success := Some s\<rparr>, w'))"

section \<open>call\<close>

text \<open>\<open>wait_for_rate_slot\<close>\<close>

definition wait_for_slot :: "'w net \<Rightarrow> string \<Rightarrow> provider \<Rightarrow> 'w \<Rightarrow> unit res \<times> provider \<times> 'w" where
  "wait_for_slot net method p w =
     (case (if pv_model p \<in> {''alchemy'', ''helius'', ''chainstack''} then nt_acquire net (pv_model p) method w
            else (Inr (), w)) of
        (Inl e, w1) \<Rightarrow> (Inl e, p, w1)
      | (Inr u, w1) \<Rightarrow>
          (let spacing = max (pv_interval p)
                 (case map_of (pv_method_intervals p) method of None \<Rightarrow> 0 | Some s \<Rightarrow> s) in
           if spacing \<le> 0 then (Inr (), p, w1)
           else (case nt_monotonic net w1 of (now, w2) \<Rightarrow>
             (let wait = (case pv_last_started p of None \<Rightarrow> 0 | Some s \<Rightarrow> s + spacing - now) in
              if wait > 0 then (Inr (), p\<lparr>pv_last_started := Some (now + wait)\<rparr>, nt_sleep net wait w2)
              else (Inr (), p\<lparr>pv_last_started := Some now\<rparr>, w2)))))"

datatype step = Again | Finished "pyval res"

definition fail_with :: "'w net \<Rightarrow> string \<Rightarrow> string \<Rightarrow> string \<Rightarrow> provider \<Rightarrow> 'w \<Rightarrow> step \<times> provider \<times> 'w" where
  "fail_with net method category detail p w =
     (case record_failure net method category (error_text p method category detail) p w of
        (p', w') \<Rightarrow> (Finished (Inl (rpc_error p method category detail)), p', w'))"

definition retry_after :: "'w net \<Rightarrow> string \<Rightarrow> nat \<Rightarrow> rat \<Rightarrow> provider \<Rightarrow> 'w \<Rightarrow> step \<times> provider \<times> 'w" where
  "retry_after net method k after p w =
     (Again, p\<lparr>pv_retries := count_up method (pv_retries p)\<rparr>, nt_sleep net (retry_delay p k after) w)"

text \<open>The guards of an attempt: the scan's credits, then the monthly reservation.\<close>

definition reserve_attempt ::
    "'w net \<Rightarrow> string \<Rightarrow> pyval list \<Rightarrow> int \<Rightarrow> provider \<Rightarrow> 'w \<Rightarrow> unit res \<times> 'w" where
  "reserve_attempt net method params cost p w =
     (if over_budget p cost then (Inl (rpc_error p method ''quota'' ''local per-scan credit budget reached''), w)
      else if pv_has_budget p then
        (case reservation_of p method params of
           Inl e \<Rightarrow> (Inl e, w)
         | Inr units \<Rightarrow>
             (case nt_reserve net (pv_name p) (PInt units) w of
                (Inl e, w1) \<Rightarrow> (Inl e, w1)
              | (Inr b, w1) \<Rightarrow>
                  (if b then Inr ()
                   else Inl (rpc_error p method ''quota'' ''shared monthly estimated budget reached''), w1)))
      else (Inr (), w))"

definition note_latency :: "string \<Rightarrow> rat \<Rightarrow> provider \<Rightarrow> provider" where
  "note_latency method elapsed p =
     (let xs = (case map_of (pv_latency p) method of None \<Rightarrow> [] | Some ys \<Rightarrow> ys) @ [elapsed]
      in p\<lparr>pv_latency := AList.update method (drop (length xs - 200) xs) (pv_latency p)\<rparr>)"

definition one_line :: "string \<Rightarrow> string" where
  "one_line s = take 300 (map (\<lambda>c. if (of_char c :: nat) = 10 then CHR '' '' else c) (py_strip s))"

definition str_or :: "string \<Rightarrow> string \<Rightarrow> string" where
  "str_or a b = (if a \<noteq> [] then a else b)"

definition body_code :: "pyval option \<Rightarrow> pyval" where
  "body_code body = (case body of None \<Rightarrow> PNone | Some b \<Rightarrow> getd (getd b ''error'') ''code'')"

definition handle_error_body ::
    "'w net \<Rightarrow> string \<Rightarrow> nat \<Rightarrow> pyval \<Rightarrow> provider \<Rightarrow> 'w \<Rightarrow> step \<times> provider \<times> 'w" where
  "handle_error_body net method k error p w =
     (let m = (if is_dict error then getd error ''message'' else error);
          message = (case m of PStr s \<Rightarrow> s | _ \<Rightarrow> nt_str net m);
          code = getd error ''code'';
          exhausted = has_marker [''max usage'', ''usage reached'', ''quota'', ''credits exhausted''] (lower message);
          retryable = (\<not> exhausted \<and> (py_eq code (PInt (- 32004)) \<or> py_eq code (PInt (- 32005)) \<or> py_eq code (PInt (- 32429)) \<or>
             has_marker [''rate limit'', ''timeout'', ''temporarily unavailable''] (lower message)))
      in if retryable \<and> k < pv_max_retries p then retry_after net method k 0 p w
         else fail_with net method (error_category None code message) (safe_error_detail p message) p w)"

definition handle_result ::
    "'w net \<Rightarrow> string \<Rightarrow> pyval \<Rightarrow> provider \<Rightarrow> 'w \<Rightarrow> step \<times> provider \<times> 'w" where
  "handle_result net method result p w =
     (case credit_cost p method result of
        Inl e \<Rightarrow> (Finished (Inl e), p, w)
      | Inr c \<Rightarrow>
          (case record_success net method (p\<lparr>pv_estimated := pv_estimated p + c\<rparr>) w of
             (p', w') \<Rightarrow> (Finished (Inr result), p', w')))"

definition handle_response ::
    "'w net \<Rightarrow> string \<Rightarrow> nat \<Rightarrow> response \<Rightarrow> provider \<Rightarrow> 'w \<Rightarrow> step \<times> provider \<times> 'w" where
  "handle_response net method k r p w =
     (if hr_status r \<in> {429, 500, 502, 503, 504} \<and> k < pv_max_retries p \<and>
         \<not> has_marker exhausted_markers (lower (str_or (hr_text r) (hr_reason r)))
      then retry_after net method k (hr_retry_after r) p w
      else if 400 \<le> hr_status r \<and> hr_status r < 600 then
        (let detail = one_line (str_or (hr_text r) (str_or (hr_reason r) ''request failed'')) in
         fail_with net method (error_category (Some (hr_status r)) (body_code (hr_json r)) detail)
           (safe_error_detail p detail) p w)
      else (case hr_json r of
          None \<Rightarrow> fail_with net method ''provider'' ''invalid JSON response'' p w
        | Some body \<Rightarrow>
            if \<not> is_dict body \<or> (\<not> has_key body ''result'' \<and> \<not> truthy (getd body ''error''))
            then fail_with net method ''provider'' ''missing RPC result envelope'' p w
            else if truthy (getd body ''error'') then handle_error_body net method k (getd body ''error'') p w
            else handle_result net method (getd body ''result'') p w))"

definition attempt ::
    "'w net \<Rightarrow> string \<Rightarrow> pyval list \<Rightarrow> rat option \<Rightarrow> int \<Rightarrow> nat \<Rightarrow> provider \<Rightarrow> 'w \<Rightarrow> step \<times> provider \<times> 'w" where
  "attempt net method params timeout cost k p w =
     (case reserve_attempt net method params cost p w of
        (Inl e, w1) \<Rightarrow> (Finished (Inl e), p, w1)
      | (Inr u, w1) \<Rightarrow>
          (case wait_for_slot net method p w1 of
             (Inl e, p1, w2) \<Rightarrow> (Finished (Inl e), p1, w2)
           | (Inr u, p1, w2) \<Rightarrow>
               (let p2 = p1\<lparr>pv_calls := count_up method (pv_calls p1), pv_attempted := pv_attempted p1 + cost\<rparr> in
                case nt_post net (pv_name p2) method params (request_timeout p2 timeout) w2 of
                  ((elapsed, NoResponse name), w3) \<Rightarrow>
                    (if k \<ge> pv_max_retries p2
                     then fail_with net method ''temporary'' name (note_latency method elapsed p2) w3
                     else retry_after net method k 0 (note_latency method elapsed p2) w3)
                | ((elapsed, Response r), w3) \<Rightarrow> handle_response net method k r (note_latency method elapsed p2) w3)))"

fun attempts ::
    "nat \<Rightarrow> 'w net \<Rightarrow> string \<Rightarrow> pyval list \<Rightarrow> rat option \<Rightarrow> int \<Rightarrow> nat \<Rightarrow> provider \<Rightarrow> 'w \<Rightarrow> pyval res \<times> provider \<times> 'w" where
  "attempts 0 net method params timeout cost k p w =
     (case fail_with net method ''temporary'' ''retry budget exhausted'' p w of
        (Finished r, p', w') \<Rightarrow> (r, p', w')
      | (Again, p', w') \<Rightarrow> (Inl (rpc_error p method ''temporary'' ''retry budget exhausted''), p', w'))"
| "attempts (Suc n) net method params timeout cost k p w =
     (case attempt net method params timeout cost k p w of
        (Finished r, p', w') \<Rightarrow> (r, p', w')
      | (Again, p', w') \<Rightarrow> attempts n net method params timeout cost (k + 1) p' w')"

definition circuit_error :: "provider \<Rightarrow> string \<Rightarrow> pyexc" where
  "circuit_error p method =
     (if pv_circuit p \<noteq> None \<and> method \<noteq> ''getHealth''
      then RuntimeError (pv_name p @ '' circuit open: '' @ the (pv_circuit p))
      else RuntimeError (pv_name p @ '' '' @ method @ '' circuit open: '' @
             (case map_of (pv_method_circuits p) method of None \<Rightarrow> ''temporary cooldown'' | Some s \<Rightarrow> s)))"

definition provider_call ::
    "'w net \<Rightarrow> string \<Rightarrow> pyval list \<Rightarrow> rat option \<Rightarrow> provider \<Rightarrow> 'w \<Rightarrow> pyval res \<times> provider \<times> 'w" where
  "provider_call net method params timeout p w =
     (case can_call net method params p w of
        (Inl e, p1, w1) \<Rightarrow> (Inl e, p1, w1)
      | (Inr b, p1, w1) \<Rightarrow>
          if (pv_circuit p1 \<noteq> None \<and> method \<noteq> ''getHealth'') \<or> method_open p1 method
          then (Inl (circuit_error p1 method), p1, w1)
          else (case reservation_of p1 method params of
              Inl e \<Rightarrow> (Inl e, p1, w1)
            | Inr cost \<Rightarrow>
                if over_budget p1 cost
                then (Inl (rpc_error p1 method ''quota''
                        (''local per-scan credit budget '' @ str_of_int (pv_credit_budget p1) @ '' reached'')), p1, w1)
                else attempts (Suc (pv_max_retries p1)) net method params timeout cost 0 p1 w1))"

end
