(* ===== verification/Rpc_Router.thy ===== *)
theory Rpc_Router
  imports Rpc_Provider
begin

text \<open>
  \<^verbatim>\<open>src/scanner.py\<close>, \<open>class RoutedSolanaRpc\<close>: the routing of a call over the configured providers.

  The orders are fixed when the router is made (\<open>routes\<close>); what a call may change is the record
  \<open>router\<close>, with the providers in it.  The orders are the names \<open>_ordered_names\<close> returns.
\<close>

section \<open>State\<close>

record routes =
  ro_standard :: "string list"
  ro_enhanced :: "string list"
  ro_balance :: "string list"
  ro_archive :: "string list"
  ro_methods :: "(string \<times> string list) list"

record capability =
  cb_fingerprint :: string
  cb_learned :: "(string \<times> rat) list"   \<comment> \<open>\<open>unsupported\<close>: method and expiry\<close>

record router =
  rt_providers :: "(string \<times> provider) list"
  rt_blocked :: "(string \<times> string) list"
  rt_unsupported :: "(string \<times> string list) list"
  rt_failovers :: counts
  rt_nulls :: counts
  rt_calls :: counts              \<comment> \<open>\<open>route_calls\<close>, by method and provider\<close>
  rt_last :: "(string \<times> string) list"
  rt_cache :: "(string \<times> capability) list option"
  rt_cache_seconds :: rat

definition set_provider :: "string \<Rightarrow> provider \<Rightarrow> router \<Rightarrow> router" where
  "set_provider name p rt = rt\<lparr>rt_providers := AList.update name p (rt_providers rt)\<rparr>"

definition unsupported_of :: "router \<Rightarrow> string \<Rightarrow> string list" where
  "unsupported_of rt name = (case map_of (rt_unsupported rt) name of None \<Rightarrow> [] | Some ms \<Rightarrow> ms)"

definition add_unsupported :: "string \<Rightarrow> string \<Rightarrow> router \<Rightarrow> router" where
  "add_unsupported name method rt =
     rt\<lparr>rt_unsupported := AList.update name (insert_new method (unsupported_of rt name)) (rt_unsupported rt)\<rparr>"

section \<open>Making the router\<close>

definition order_add :: "(string \<times> provider) list \<Rightarrow> bool \<Rightarrow> string list \<Rightarrow> string \<Rightarrow> string list" where
  "order_add ps enhanced_only acc name =
     (case map_of ps name of
        None \<Rightarrow> acc
      | Some p \<Rightarrow> if name \<in> set acc \<or> (enhanced_only \<and> \<not> pv_enhanced p) then acc else acc @ [name])"

definition ordered_names :: "(string \<times> provider) list \<Rightarrow> string list \<Rightarrow> bool \<Rightarrow> string list" where
  "ordered_names ps names enhanced_only = foldl (order_add ps enhanced_only) [] (names @ map fst ps)"

definition list_or :: "'a list \<Rightarrow> 'a list \<Rightarrow> 'a list" where
  "list_or a b = (if a \<noteq> [] then a else b)"

definition make_routes ::
    "(string \<times> provider) list \<Rightarrow> string list \<Rightarrow> string list \<Rightarrow> string list \<Rightarrow> string list \<Rightarrow> (string \<times> string list) list \<Rightarrow> routes" where
  "make_routes ps standard enhanced balance archive methods =
     \<lparr>ro_standard = ordered_names ps (list_or standard STANDARD_ORDER) False,
      ro_enhanced = ordered_names ps (list_or enhanced HISTORY_ORDER) True,
      ro_balance = ordered_names ps (list_or balance BALANCE_ORDER) False,
      ro_archive = ordered_names ps (list_or archive [''helius'', ''alchemy'']) True,
      ro_methods = map (\<lambda>(m, names). (m, ordered_names ps names (m = ''getTransactionsForAddress''))) methods\<rparr>"

definition make_router :: "provider list \<Rightarrow> router" where
  "make_router providers =
     (let ps = foldl (\<lambda>d p. AList.update (pv_name p) p d) [] providers in
      \<lparr>rt_providers = ps, rt_blocked = [], rt_unsupported = map (\<lambda>(n, p). (n, pv_unsupported p)) ps, rt_failovers = [],
       rt_nulls = [], rt_calls = [], rt_last = [], rt_cache = None, rt_cache_seconds = 86400\<rparr>)"

text \<open>
  \<open>configure_capabilities\<close>: what was learned of a provider is kept while its endpoint is the same
  (\<open>fingerprint\<close> is SHA-256 of the URL) and until it expires.
\<close>

definition learn_entry :: "rat \<Rightarrow> rat \<Rightarrow> capability \<Rightarrow> capability" where
  "learn_entry seconds now c = c\<lparr>cb_learned := filter (\<lambda>(m, expires). seconds \<noteq> 0 \<and> expires > now) (cb_learned c)\<rparr>"

definition configure_provider ::
    "(string \<Rightarrow> string) \<Rightarrow> rat \<Rightarrow> rat \<Rightarrow> (string \<times> capability) list \<times> router \<Rightarrow> string \<times> provider \<Rightarrow>
     (string \<times> capability) list \<times> router" where
  "configure_provider fingerprint seconds now st np =
     (case st of (cache, rt) \<Rightarrow> (case np of (name, p) \<Rightarrow>
       (let fp = fingerprint (pv_url p);
            old = (case map_of cache name of
                Some c \<Rightarrow> if cb_fingerprint c = fp then c else \<lparr>cb_fingerprint = fp, cb_learned = []\<rparr>
              | None \<Rightarrow> \<lparr>cb_fingerprint = fp, cb_learned = []\<rparr>);
            c = learn_entry seconds now old
        in (AList.update name c cache, foldl (\<lambda>r (m, e). add_unsupported name m r) rt (cb_learned c)))))"

definition configure_capabilities ::
    "(string \<Rightarrow> string) \<Rightarrow> rat \<Rightarrow> rat \<Rightarrow> (string \<times> capability) list \<Rightarrow> router \<Rightarrow> router" where
  "configure_capabilities fingerprint hours now cache rt =
     (let seconds = max 0 (hours * 3600);
          (cache', rt') = foldl (configure_provider fingerprint seconds now) (cache, rt) (rt_providers rt)
      in rt'\<lparr>rt_cache := Some cache', rt_cache_seconds := seconds\<rparr>)"

section \<open>Eligible providers\<close>

abbreviation HISTORY :: string where
  "HISTORY \<equiv> ''getTransactionsForAddress''"

definition eligible :: "router \<Rightarrow> string \<Rightarrow> string list \<Rightarrow> string \<Rightarrow> provider \<Rightarrow> bool" where
  "eligible rt method excluded name p \<longleftrightarrow>
     \<not> (method = HISTORY \<and> \<not> pv_enhanced p) \<and> name \<notin> set excluded \<and> name \<notin> set (map fst (rt_blocked rt)) \<and>
     pv_circuit p = None \<and> \<not> method_open p method \<and> method \<notin> set (unsupported_of rt name)"

text \<open>One name of the generator: \<open>can_call\<close> first (it may end a cooldown), then the conditions.\<close>

definition probe :: "'w net \<Rightarrow> string \<Rightarrow> string list \<Rightarrow> string \<Rightarrow> router \<Rightarrow> 'w \<Rightarrow> bool res \<times> router \<times> 'w" where
  "probe net method excluded name rt w =
     (case map_of (rt_providers rt) name of
        None \<Rightarrow> (Inr False, rt, w)
      | Some p \<Rightarrow>
          (case can_call net method [] p w of (r, p', w') \<Rightarrow>
             (bindR r (\<lambda>_. Inr (eligible rt method excluded name p')), set_provider name p' rt, w')))"

definition names_of :: "string option \<Rightarrow> string list \<Rightarrow> string list" where
  "names_of preferred order = (case preferred of Some p \<Rightarrow> if p \<noteq> [] then [p] else order | None \<Rightarrow> order)"

fun eligible_names ::
    "'w net \<Rightarrow> string \<Rightarrow> string list \<Rightarrow> string list \<Rightarrow> router \<Rightarrow> 'w \<Rightarrow> string list res \<times> router \<times> 'w" where
  "eligible_names net method excluded [] rt w = (Inr [], rt, w)"
| "eligible_names net method excluded (n # ns) rt w =
     (case probe net method excluded n rt w of
        (Inl e, rt1, w1) \<Rightarrow> (Inl e, rt1, w1)
      | (Inr b, rt1, w1) \<Rightarrow>
          (case eligible_names net method excluded ns rt1 w1 of
             (r, rt2, w2) \<Rightarrow> (bindR r (\<lambda>xs. Inr (if b then n # xs else xs)), rt2, w2)))"

text \<open>\<open>next(self._eligible_names(...), None)\<close>\<close>

fun first_eligible ::
    "'w net \<Rightarrow> string \<Rightarrow> string list \<Rightarrow> string list \<Rightarrow> router \<Rightarrow> 'w \<Rightarrow> string option res \<times> router \<times> 'w" where
  "first_eligible net method excluded [] rt w = (Inr None, rt, w)"
| "first_eligible net method excluded (n # ns) rt w =
     (case probe net method excluded n rt w of
        (Inl e, rt1, w1) \<Rightarrow> (Inl e, rt1, w1)
      | (Inr True, rt1, w1) \<Rightarrow> (Inr (Some n), rt1, w1)
      | (Inr False, rt1, w1) \<Rightarrow> first_eligible net method excluded ns rt1 w1)"

definition next_enhanced_provider ::
    "'w net \<Rightarrow> routes \<Rightarrow> string list \<Rightarrow> string \<Rightarrow> router \<Rightarrow> 'w \<Rightarrow> string option res \<times> router \<times> 'w" where
  "next_enhanced_provider net ro excluded task rt w =
     first_eligible net HISTORY excluded (if task = ''archive'' then ro_archive ro else ro_enhanced ro) rt w"

text \<open>\<open>has_available_provider\<close>: the first eligible provider that can call now.\<close>

fun has_available_provider :: "'w net \<Rightarrow> string \<Rightarrow> string list \<Rightarrow> router \<Rightarrow> 'w \<Rightarrow> bool res \<times> router \<times> 'w" where
  "has_available_provider net method [] rt w = (Inr False, rt, w)"
| "has_available_provider net method (n # ns) rt w =
     (case probe net method [] n rt w of
        (Inl e, rt1, w1) \<Rightarrow> (Inl e, rt1, w1)
      | (Inr False, rt1, w1) \<Rightarrow> has_available_provider net method ns rt1 w1
      | (Inr True, rt1, w1) \<Rightarrow>
          (case map_of (rt_providers rt1) n of
             None \<Rightarrow> (Inl KeyError, rt1, w1)
           | Some p \<Rightarrow>
               (case can_call net method [] p w1 of
                  (Inr False, p', w2) \<Rightarrow> has_available_provider net method ns (set_provider n p' rt1) w2
                | (r, p', w2) \<Rightarrow> (r, set_provider n p' rt1, w2))))"

definition available_history_mode ::
    "'w net \<Rightarrow> routes \<Rightarrow> router \<Rightarrow> 'w \<Rightarrow> string option res \<times> router \<times> 'w" where
  "available_history_mode net ro rt w =
     (case has_available_provider net HISTORY (ro_enhanced ro) rt w of
        (Inl e, rt1, w1) \<Rightarrow> (Inl e, rt1, w1)
      | (Inr True, rt1, w1) \<Rightarrow> (Inr (Some ''enhanced''), rt1, w1)
      | (Inr False, rt1, w1) \<Rightarrow>
          (case has_available_provider net ''getSignaturesForAddress'' (ro_standard ro) rt1 w1 of
             (Inl e, rt2, w2) \<Rightarrow> (Inl e, rt2, w2)
           | (Inr False, rt2, w2) \<Rightarrow> (Inr None, rt2, w2)
           | (Inr True, rt2, w2) \<Rightarrow>
               (case has_available_provider net ''getTransaction'' (ro_standard ro) rt2 w2 of
                  (r, rt3, w3) \<Rightarrow> (bindR r (\<lambda>b. Inr (if b then Some ''standard'' else None)), rt3, w3))))"

section \<open>Errors of a provider\<close>

fun category_of :: "pyexc \<Rightarrow> string" where
  "category_of (RpcError c m) = c"
| "category_of _ = []"

fun error_message :: "pyexc \<Rightarrow> string" where
  "error_message (RpcError c m) = m"
| "error_message (RuntimeError m) = m"
| "error_message _ = []"

definition record_provider_error ::
    "'w net \<Rightarrow> string \<Rightarrow> string \<Rightarrow> pyexc \<Rightarrow> router \<Rightarrow> 'w \<Rightarrow> unit res \<times> router \<times> 'w" where
  "record_provider_error net name method exc rt w =
     (if category_of exc = ''unsupported'' then
        (case map_of (rt_providers rt) name of
           None \<Rightarrow> (Inl KeyError, add_unsupported name method rt, w)
         | Some p \<Rightarrow>
             (let rt1 = set_provider name (p\<lparr>pv_unsupported := insert_new method (pv_unsupported p)\<rparr>)
                          (add_unsupported name method rt) in
              (case rt_cache rt1 of
                 None \<Rightarrow> (Inr (), rt1, w)
               | Some cache \<Rightarrow>
                   if rt_cache_seconds rt1 = 0 then (Inr (), rt1, w)
                   else (case map_of cache name of
                       None \<Rightarrow> (Inl KeyError, rt1, w)
                     | Some c \<Rightarrow>
                         (case nt_time net w of (t, w1) \<Rightarrow>
                            (Inr (), rt1\<lparr>rt_cache := Some (AList.update name
                               (c\<lparr>cb_learned := AList.update method (t + rt_cache_seconds rt1) (cb_learned c)\<rparr>) cache)\<rparr>, w1))))))
      else if category_of exc \<in> {''auth'', ''quota''} then
        (if py_contains ''local per-scan'' (error_message exc) \<or>
            py_contains ''shared monthly estimated budget'' (error_message exc)
         then (Inr (), rt, w)
         else (Inr (), rt\<lparr>rt_blocked := AList.update name (error_message exc) (rt_blocked rt)\<rparr>, w))
      else (Inr (), rt, w))"

section \<open>The routed call\<close>

definition options_of :: "pyval list \<Rightarrow> (string \<times> pyval) list" where
  "options_of params = (case params of [a, PDict opts] \<Rightarrow> opts | _ \<Rightarrow> [])"

definition limit_of :: "pyval list \<Rightarrow> int" where
  "limit_of params = (case map_of (options_of params) ''limit'' of Some (PInt n) \<Rightarrow> n | _ \<Rightarrow> 0)"

definition with_limit :: "int \<Rightarrow> pyval list \<Rightarrow> pyval list" where
  "with_limit n params =
     (case params of [a, PDict opts] \<Rightarrow> [a, PDict (AList.update ''limit'' (PInt n) opts)] | _ \<Rightarrow> params)"

lemma limit_of_with_limit: "limit_of params \<noteq> 0 \<Longrightarrow> limit_of (with_limit n params) = n"
  by (auto simp: limit_of_def with_limit_def options_of_def split: list.splits pyval.splits)

text \<open>The page of an indexed request on Helius shrinks until the request fits the credits left.\<close>

function shrink_page ::
    "'w net \<Rightarrow> string \<Rightarrow> pyval list \<Rightarrow> provider \<Rightarrow> 'w \<Rightarrow> pyval list res \<times> provider \<times> 'w" where
  "shrink_page net method params p w =
     (if limit_of params \<le> 100 then (Inr params, p, w)
      else (case can_call net method params p w of
          (Inl e, p', w') \<Rightarrow> (Inl e, p', w')
        | (Inr True, p', w') \<Rightarrow> (Inr params, p', w')
        | (Inr False, p', w') \<Rightarrow> shrink_page net method (with_limit (max 100 (limit_of params - 100)) params) p' w'))"
  by auto
termination by (relation "measure (\<lambda>(net, method, params, p, w). nat (limit_of params))")
  (auto simp: limit_of_with_limit)

declare shrink_page.simps [simp del]

definition provider_params ::
    "'w net \<Rightarrow> string \<Rightarrow> pyval list \<Rightarrow> string \<Rightarrow> provider \<Rightarrow> 'w \<Rightarrow> pyval list res \<times> provider \<times> 'w" where
  "provider_params net method params name p w =
     (if method \<noteq> HISTORY then (Inr params, p, w)
      else (case history_page_params name params of
          Inl e \<Rightarrow> (Inl e, p, w)
        | Inr ps \<Rightarrow> if name = ''helius'' then shrink_page net method ps p w else (Inr ps, p, w)))"

fun read_error :: "pyexc \<Rightarrow> string option" where
  "read_error (ValueError m) = Some m"
| "read_error TypeError = Some []"
| "read_error AttributeError = Some []"
| "read_error _ = None"

text \<open>A response of the wrong shape is a failure of the provider; other exceptions pass.\<close>

definition check_result ::
    "'w net \<Rightarrow> string \<Rightarrow> pyval list \<Rightarrow> pyval \<Rightarrow> provider \<Rightarrow> 'w \<Rightarrow> pyval res \<times> provider \<times> 'w" where
  "check_result net method params result p w =
     (case validate_result method params result of
        Inr u \<Rightarrow> (Inr result, p, w)
      | Inl e \<Rightarrow>
          (case read_error e of
             None \<Rightarrow> (Inl e, p, w)
           | Some m \<Rightarrow>
               (let detail = ''invalid read response: '' @ m in
                case record_failure net method ''provider'' (error_text p method ''provider'' detail) p w of
                  (p', w') \<Rightarrow> (Inl (rpc_error p method ''provider'' detail), p', w'))))"

text \<open>One provider: its parameters, its call, its answer.  The limit is the one asked for.\<close>

definition try_provider ::
    "'w net \<Rightarrow> string \<Rightarrow> pyval list \<Rightarrow> rat option \<Rightarrow> string \<Rightarrow> router \<Rightarrow> 'w \<Rightarrow> (pyval \<times> int) res \<times> router \<times> 'w" where
  "try_provider net method params timeout name rt w =
     (case map_of (rt_providers rt) name of
        None \<Rightarrow> (Inl KeyError, rt, w)
      | Some p \<Rightarrow>
          (case provider_params net method params name p w of
             (Inl e, p1, w1) \<Rightarrow> (Inl e, set_provider name p1 rt, w1)
           | (Inr ps, p1, w1) \<Rightarrow>
               (let seconds = (case timeout of Some t \<Rightarrow> Some t
                               | None \<Rightarrow> if method = HISTORY then Some (pv_history_timeout p1) else None) in
                case provider_call net method ps seconds p1 w1 of
                  (Inl e, p2, w2) \<Rightarrow> (Inl e, set_provider name p2 rt, w2)
                | (Inr result, p2, w2) \<Rightarrow>
                    (case check_result net method ps result p2 w2 of
                       (r, p3, w3) \<Rightarrow> (bindR r (\<lambda>v. Inr (v, limit_of ps)), set_provider name p3 rt, w3)))))"

fun caught :: "pyexc \<Rightarrow> bool" where
  "caught (RpcError c m) = True"
| "caught (RuntimeError m) = True"
| "caught _ = False"

definition error_note :: "string \<Rightarrow> pyexc \<Rightarrow> string" where
  "error_note name e = name @ ''='' @ (case e of RpcError c m \<Rightarrow> c | _ \<Rightarrow> ''circuit'')"

definition failover_if :: "bool \<Rightarrow> string \<Rightarrow> router \<Rightarrow> router" where
  "failover_if another method rt = (if another then rt\<lparr>rt_failovers := count_up method (rt_failovers rt)\<rparr> else rt)"

definition join_notes :: "string list \<Rightarrow> string" where
  "join_notes notes = (case notes of [] \<Rightarrow> ''no configured provider supports this method''
     | n # ns \<Rightarrow> n @ concat (map (\<lambda>s. '', '' @ s) ns))"

definition finish_route :: "string \<Rightarrow> pyval \<Rightarrow> int \<Rightarrow> string \<Rightarrow> router \<Rightarrow> (pyval \<times> string) \<times> router" where
  "finish_route method result limit name rt =
     ((if method = HISTORY
       then (case result of PDict d \<Rightarrow> PDict (AList.update ''_page_limit'' (PInt limit) d) | v \<Rightarrow> v) else result, name),
      rt\<lparr>rt_last := AList.update method name (rt_last rt)\<rparr>)"

fun route_names ::
    "'w net \<Rightarrow> string \<Rightarrow> pyval list \<Rightarrow> rat option \<Rightarrow> string list \<Rightarrow> string list \<Rightarrow> string option \<Rightarrow> router \<Rightarrow> 'w \<Rightarrow>
     (pyval \<times> string) res \<times> router \<times> 'w" where
  "route_names net method params timeout [] notes nulls rt w =
     ((case nulls of
         Some name \<Rightarrow> Inr (PNone, name)
       | None \<Rightarrow> Inl (RuntimeError (''all RPC providers failed for '' @ method @ '': '' @ join_notes notes))), rt, w)"
| "route_names net method params timeout (name # rest) notes nulls rt w =
     (case try_provider net method params timeout name rt w of
        (Inl e, rt1, w1) \<Rightarrow>
          (if \<not> caught e then (Inl e, rt1, w1)
           else (case record_provider_error net name method e rt1 w1 of
               (Inl e', rt2, w2) \<Rightarrow> (Inl e', rt2, w2)
             | (Inr u, rt2, w2) \<Rightarrow>
                 if category_of e = ''client'' then (Inl e, rt2, w2)
                 else route_names net method params timeout rest (notes @ [error_note name e]) nulls
                        (failover_if (rest \<noteq> []) method rt2) w2))
      | (Inr (result, limit), rt1, w1) \<Rightarrow>
          (let rt2 = rt1\<lparr>rt_calls := count_up (method @ '':'' @ name) (rt_calls rt1)\<rparr> in
           if method = ''getTransaction'' \<and> result = PNone
           then route_names net method params timeout rest notes (Some name)
                  (failover_if (rest \<noteq> []) method (rt2\<lparr>rt_nulls := count_up name (rt_nulls rt2)\<rparr>)) w1
           else (case finish_route method result limit name rt2 of (r, rt3) \<Rightarrow> (Inr r, rt3, w1))))"

definition route_order :: "routes \<Rightarrow> string \<Rightarrow> string list option \<Rightarrow> string list" where
  "route_order ro method order =
     (case order of
        Some ns \<Rightarrow> ns
      | None \<Rightarrow>
          (let fallback = (if method = HISTORY then ro_enhanced ro
                           else if method = ''getTokenAccountsByOwner'' then ro_balance ro else ro_standard ro) in
           case map_of (ro_methods ro) method of None \<Rightarrow> fallback | Some ns \<Rightarrow> list_or ns fallback))"

definition route_call ::
    "'w net \<Rightarrow> routes \<Rightarrow> string \<Rightarrow> pyval list \<Rightarrow> string option \<Rightarrow> string list option \<Rightarrow> rat option \<Rightarrow> string list \<Rightarrow>
     router \<Rightarrow> 'w \<Rightarrow> (pyval \<times> string) res \<times> router \<times> 'w" where
  "route_call net ro method params preferred order timeout excluded rt w =
     (if method = HISTORY \<and> names_of preferred [] = [] \<and> length params > 1 \<and>
         truthy (getd (params ! 1) ''paginationToken'')
      then (Inl (ValueError ''indexed cursor requires its originating provider''), rt, w)
      else (case eligible_names net method excluded (names_of preferred (route_order ro method order)) rt w of
          (Inl e, rt1, w1) \<Rightarrow> (Inl e, rt1, w1)
        | (Inr names, rt1, w1) \<Rightarrow> route_names net method params timeout names [] None rt1 w1))"

section \<open>Indexed history\<close>

definition history_opts :: "int \<Rightarrow> string \<Rightarrow> string option \<Rightarrow> pyval \<Rightarrow> (string \<times> pyval) list" where
  "history_opts limit order token block_time =
     [(''transactionDetails'', PStr ''full''), (''encoding'', PStr ''jsonParsed''),
      (''maxSupportedTransactionVersion'', PInt 1), (''sortOrder'', PStr order), (''limit'', PInt (min (max 1 limit) 1000)),
      (''filters'', PDict ((''status'', PStr ''succeeded'') #
         (if truthy block_time then [(''blockTime'', block_time)] else [])))] @
     (case token of Some t \<Rightarrow> if t \<noteq> [] then [(''paginationToken'', PStr t)] else [] | None \<Rightarrow> [])"

definition transactions_for_address ::
    "'w net \<Rightarrow> routes \<Rightarrow> string \<Rightarrow> int \<Rightarrow> string \<Rightarrow> string option \<Rightarrow> pyval \<Rightarrow> string option \<Rightarrow> string list \<Rightarrow> string \<Rightarrow>
     router \<Rightarrow> 'w \<Rightarrow> pyval res \<times> router \<times> 'w" where
  "transactions_for_address net ro address limit order token block_time provider_name excluded task rt w =
     (let timeout = (case provider_name of None \<Rightarrow> None
                     | Some n \<Rightarrow> map_option pv_history_timeout (map_of (rt_providers rt) n)) in
      case route_call net ro HISTORY [PStr address, PDict (history_opts limit order token block_time)] provider_name
             (if task = ''archive'' then Some (ro_archive ro) else None) timeout excluded rt w of
        (Inl e, rt1, w1) \<Rightarrow> (Inl e, rt1, w1)
      | (Inr (PDict d, name), rt1, w1) \<Rightarrow> (Inr (PDict (AList.update ''_provider'' (PStr name) d)), rt1, w1)
      | (Inr (v, name), rt1, w1) \<Rightarrow> 
          (Inl (RpcError ''provider'' (name @ '':'' @ HISTORY @ '': provider: invalid paginated response'')), rt1, w1))"

end
