(* ===== verification/Rpc_Metering.thy ===== *)
theory Rpc_Metering
  imports Rpc_Router
begin

text \<open>
  Spending of the routed calls.  Any outside can be given a log of the reservations it grants and of
  the requests it is sent; on it every request of a budgeted provider follows the reservation of its
  own price, and no provider exceeds its per-scan credits.
\<close>

section \<open>The log\<close>

datatype event = Reserved string int | Posted string string "pyval list"

fun event_name :: "event \<Rightarrow> string" where
  "event_name (Reserved n c) = n"
| "event_name (Posted n m ps) = n"

text \<open>The log is kept newest first.\<close>

definition logged :: "'w net \<Rightarrow> ('w \<times> event list) net" where
  "logged net =
     \<lparr>nt_monotonic = (\<lambda>(w, l). case nt_monotonic net w of (t, w') \<Rightarrow> (t, (w', l))),
      nt_time = (\<lambda>(w, l). case nt_time net w of (t, w') \<Rightarrow> (t, (w', l))),
      nt_now = (\<lambda>(w, l). case nt_now net w of (t, w') \<Rightarrow> (t, (w', l))),
      nt_sleep = (\<lambda>s (w, l). (nt_sleep net s w, l)),
      nt_acquire = (\<lambda>model method (w, l). case nt_acquire net model method w of (r, w') \<Rightarrow> (r, (w', l))),
      nt_post = (\<lambda>name method params timeout (w, l).
        case nt_post net name method params timeout w of (r, w') \<Rightarrow> (r, (w', Posted name method params # l))),
      nt_allows = (\<lambda>name units (w, l). case nt_allows net name units w of (r, w') \<Rightarrow> (r, (w', l))),
      nt_reserve = (\<lambda>name units (w, l). case nt_reserve net name units w of (r, w') \<Rightarrow>
        (r, (w', (case (r, units) of (Inr True, PInt n) \<Rightarrow> [Reserved name n] | _ \<Rightarrow> []) @ l))),
      nt_str = nt_str net\<rparr>"

text \<open>What a request costs a provider that has a monthly budget.\<close>

type_synonym tariff = "string \<Rightarrow> string \<Rightarrow> pyval list \<Rightarrow> int option"

definition price :: "provider \<Rightarrow> string \<Rightarrow> pyval list \<Rightarrow> int option" where
  "price p method params =
     (if pv_has_budget p then (case reservation_of p method params of Inr c \<Rightarrow> Some c | Inl e \<Rightarrow> None) else None)"

definition tariff_of :: "router \<Rightarrow> tariff" where
  "tariff_of rt name = (case map_of (rt_providers rt) name of None \<Rightarrow> \<lambda>m ps. None | Some p \<Rightarrow> price p)"

fun paid :: "tariff \<Rightarrow> event list \<Rightarrow> bool" where
  "paid tf [] = True"
| "paid tf (Reserved n c # l) = paid tf l"
| "paid tf (Posted n m ps # l) =
     ((case tf n m ps of None \<Rightarrow> True
       | Some c \<Rightarrow> (case l of Reserved n' c' # _ \<Rightarrow> n' = n \<and> c' = c | _ \<Rightarrow> False)) \<and> paid tf l)"

section \<open>What a call leaves of a provider\<close>

definition same_provider :: "provider \<Rightarrow> provider \<Rightarrow> bool" where
  "same_provider p p' \<longleftrightarrow> pv_name p' = pv_name p \<and> pv_model p' = pv_model p \<and> pv_has_budget p' = pv_has_budget p \<and>
     pv_enhanced p' = pv_enhanced p \<and> pv_credit_budget p' = pv_credit_budget p"

definition solvent :: "provider \<Rightarrow> bool" where
  "solvent p \<longleftrightarrow> pv_credit_budget p = 0 \<or> pv_attempted p \<le> pv_credit_budget p"

definition keeps :: "provider \<Rightarrow> provider \<Rightarrow> bool" where
  "keeps p p' \<longleftrightarrow> same_provider p p' \<and> pv_attempted p' = pv_attempted p"

lemma same_provider_refl [simp, intro]: "same_provider p p"
  by (simp add: same_provider_def)

lemma same_provider_trans: "same_provider p q \<Longrightarrow> same_provider q r \<Longrightarrow> same_provider p r"
  by (simp add: same_provider_def)

lemma keeps_refl [simp, intro]: "keeps p p"
  by (simp add: keeps_def)

lemma keeps_trans: "keeps p q \<Longrightarrow> keeps q r \<Longrightarrow> keeps p r"
  by (auto simp: keeps_def intro: same_provider_trans)

lemma keeps_same: "keeps p q \<Longrightarrow> same_provider p q"
  by (simp add: keeps_def)

lemma keeps_solvent: "keeps p q \<Longrightarrow> solvent q = solvent p"
  by (auto simp: keeps_def same_provider_def solvent_def)

lemma same_price: "same_provider p q \<Longrightarrow> price q = price p"
  by (auto simp: fun_eq_iff price_def same_provider_def reservation_of_def flat_cost_def)

lemma same_reservation: "same_provider p q \<Longrightarrow> reservation_of q = reservation_of p"
  by (auto simp: fun_eq_iff same_provider_def reservation_of_def flat_cost_def)

section \<open>Quiet operations\<close>

lemma logged_quiet:
  "nt_monotonic (logged net) v = (t, v') \<Longrightarrow> snd v' = snd v"
  "nt_time (logged net) v = (t, v') \<Longrightarrow> snd v' = snd v"
  "nt_now (logged net) v = (s, v') \<Longrightarrow> snd v' = snd v"
  "nt_acquire (logged net) model method v = (r, v') \<Longrightarrow> snd v' = snd v"
  "nt_allows (logged net) name units v = (b, v') \<Longrightarrow> snd v' = snd v"
  by (auto simp: logged_def split: prod.splits)

lemma logged_sleep [simp]: "snd (nt_sleep (logged net) t v) = snd v"
  by (auto simp: logged_def split: prod.splits)

lemma logged_post: "nt_post (logged net) name method params timeout (w, l) =
    (case nt_post net name method params timeout w of (r, w') \<Rightarrow> (r, (w', Posted name method params # l)))"
  by (simp add: logged_def)

lemmas keeps_defs = keeps_def same_provider_def

lemma cool_down_quiet:
  "cool_down (logged net) method p w = (p', w') \<Longrightarrow> keeps p p' \<and> snd w' = snd w"
  by (auto simp: cool_down_def keeps_defs dest: logged_quiet split: option.splits prod.splits if_splits)

lemma can_call_quiet:
  assumes "can_call (logged net) method params p w = (r, p', w')"
  shows "keeps p p' \<and> snd w' = snd w"
proof (cases "cool_down (logged net) method p w")
  case (fields p1 v l)
  with assms have "p' = p1 \<and> snd w' = l"
    by (auto simp: can_call_def dest: logged_quiet split: if_splits sum.splits prod.splits)
  with cool_down_quiet [OF fields] show ?thesis by simp
qed

lemma record_failure_quiet:
  assumes "record_failure (logged net) method category text p w = (p', w')"
  shows "keeps p p' \<and> snd w' = snd w"
proof (cases "nt_monotonic (logged net) w")
  case (fields t v l)
  note same = logged_quiet(1) [OF fields]
  show ?thesis
  proof (cases "category \<in> {''auth'', ''quota''}")
    case True
    with assms show ?thesis unfolding record_failure_def Let_def if_P [OF True] by (auto simp: keeps_defs)
  next
    case False
    show ?thesis
    proof (cases "category \<in> {''rate_limit'', ''provider'', ''temporary''}")
      case limited: True
      from assms have "w' = (v, l)" "keeps p p'"
        unfolding record_failure_def Let_def if_not_P [OF False] if_P [OF limited] fields prod.case
        by (simp_all only: prod.inject, auto simp: keeps_defs)
      with same show ?thesis by simp
    next
      case other: False
      with assms show ?thesis
        unfolding record_failure_def Let_def if_not_P [OF False] if_not_P [OF other] by (auto simp: keeps_defs)
    qed
  qed
qed

lemma record_success_quiet:
  "record_success (logged net) method p w = (p', w') \<Longrightarrow> keeps p p' \<and> snd w' = snd w"
  by (cases "nt_now (logged net) w") (auto simp: record_success_def keeps_defs dest: logged_quiet)

lemma wait_for_slot_quiet:
  assumes "wait_for_slot (logged net) method p w = (r, p', w')"
  shows "keeps p p' \<and> snd w' = snd w"
  using assms
  by (auto simp: wait_for_slot_def Let_def keeps_defs dest!: logged_quiet split: if_split_asm sum.splits prod.splits)

lemma fail_with_quiet:
  assumes "fail_with (logged net) method category detail p w = (r, p', w')"
  shows "keeps p p' \<and> snd w' = snd w"
  using assms
  by (cases "record_failure (logged net) method category (error_text p method category detail) p w")
    (auto simp: fail_with_def dest: record_failure_quiet)

lemma retry_after_quiet:
  "retry_after (logged net) method k after p w = (r, p', w') \<Longrightarrow> keeps p p' \<and> snd w' = snd w"
  by (auto simp: retry_after_def keeps_defs)

lemma handle_error_body_quiet:
  assumes "handle_error_body (logged net) method k e p w = (s, p', w')"
  shows "keeps p p' \<and> snd w' = snd w"
  using assms unfolding handle_error_body_def Let_def
  by (rule if_split_asm [THEN iffD1, elim_format]) (blast dest: retry_after_quiet fail_with_quiet)

lemma handle_result_quiet:
  assumes "handle_result (logged net) method v p w = (s, p', w')"
  shows "keeps p p' \<and> snd w' = snd w"
proof (cases "credit_cost p method v")
  case (Inr c)
  show ?thesis
  proof (cases "record_success (logged net) method (p\<lparr>pv_estimated := pv_estimated p + c\<rparr>) w")
    case (fields p1 v l)
    with record_success_quiet [OF fields] assms Inr show ?thesis by (auto simp: handle_result_def keeps_defs)
  qed
qed (use assms in \<open>auto simp: handle_result_def\<close>)

lemma handle_response_quiet:
  assumes "handle_response (logged net) method k r p w = (s, p', w')"
  shows "keeps p p' \<and> snd w' = snd w"
  using assms unfolding handle_response_def Let_def
  by (auto dest: retry_after_quiet fail_with_quiet handle_error_body_quiet handle_result_quiet
      split: if_split_asm option.splits simp del: disj_not1)

section \<open>A call of one provider\<close>

text \<open>The provider's own part of the log, between two states of a call.\<close>

definition metered :: "tariff \<Rightarrow> string \<Rightarrow> event list \<Rightarrow> event list \<Rightarrow> bool" where
  "metered tf name l l' \<longleftrightarrow> (\<exists>new. l' = new @ l \<and> (\<forall>e \<in> set new. event_name e = name)) \<and> (paid tf l \<longrightarrow> paid tf l')"

lemma metered_refl [simp, intro]: "metered tf name l l"
  by (simp add: metered_def)

lemma metered_trans:
  assumes "metered tf name l l1" and "metered tf name l1 l2"
  shows "metered tf name l l2"
  using assms unfolding metered_def by (metis Un_iff append.assoc set_append)

text \<open>What the provider was sent, at the cost of each request.\<close>

fun bill_of :: "provider \<Rightarrow> event \<Rightarrow> int" where
  "bill_of p (Reserved n c) = 0"
| "bill_of p (Posted n m ps) =
     (if n = pv_name p then (case reservation_of p m ps of Inr c \<Rightarrow> c | Inl e \<Rightarrow> 0) else 0)"

definition billed :: "provider \<Rightarrow> event list \<Rightarrow> int" where
  "billed p l = sum_list (map (bill_of p) l)"

lemma billed_append [simp]: "billed p (l @ l') = billed p l + billed p l'"
  by (simp add: billed_def)

lemma billed_Cons [simp]: "billed p (e # l) = bill_of p e + billed p l"
  by (simp add: billed_def)

lemma billed_Nil [simp]: "billed p [] = 0"
  by (simp add: billed_def)

lemma billed_others: "\<forall>e \<in> set l. event_name e \<noteq> pv_name p \<Longrightarrow> billed p l = 0"
proof (induction l)
  case (Cons e l)
  then show ?case by (cases e) auto
qed simp

lemma same_billed: "same_provider p q \<Longrightarrow> billed q = billed p"
proof -
  assume same: "same_provider p q"
  then have "pv_name q = pv_name p" by (simp add: same_provider_def)
  then have "bill_of q e = bill_of p e" for e by (cases e) (simp_all add: same_reservation [OF same])
  then have "bill_of q = bill_of p" by (rule ext)
  then show ?thesis by (intro ext) (simp add: billed_def)
qed

lemma reserve_attempt_metered:
  assumes "reserve_attempt (logged net) method params cost p w = (r, w')"
  shows "\<exists>new. snd w' = new @ snd w \<and> (\<forall>e \<in> set new. event_name e = pv_name p) \<and> (paid tf (snd w) \<longrightarrow> paid tf (snd w'))
     \<and> billed p (snd w') = billed p (snd w) \<and> (r = Inr () \<longrightarrow> \<not> over_budget p cost \<and>
          (\<forall>c. price p method params = Some c \<longrightarrow> (\<exists>l. snd w' = Reserved (pv_name p) c # l)))"
proof (cases "over_budget p cost \<or> \<not> pv_has_budget p")
  case True
  with assms show ?thesis by (auto simp: reserve_attempt_def price_def split: if_split_asm)
next
  case False
  show ?thesis
  proof (cases "reservation_of p method params")
    case (Inl e)
    with False assms show ?thesis by (auto simp: reserve_attempt_def)
  next
    case (Inr c)
    obtain v l where w: "w = (v, l)" by (cases w)
    show ?thesis
    proof (cases "nt_reserve net (pv_name p) (PInt c) v")
      case (Pair b v')
      with False Inr assms w show ?thesis
        by (auto simp: reserve_attempt_def logged_def price_def split: sum.splits bool.splits if_split_asm)
    qed
  qed
qed


definition attempt_ok :: "tariff \<Rightarrow> provider \<Rightarrow> event list \<Rightarrow> provider \<Rightarrow> event list \<Rightarrow> bool" where
  "attempt_ok tf p l p' l' \<longleftrightarrow> same_provider p p' \<and> metered tf (pv_name p) l l' \<and> (solvent p \<longrightarrow> solvent p') \<and>
     pv_attempted p' - billed p' l' = pv_attempted p - billed p l"

lemma attempt_ok_quiet: "keeps p p' \<Longrightarrow> attempt_ok tf p l p' l"
  using same_billed [OF keeps_same, of p p'] by (simp add: attempt_ok_def keeps_same keeps_solvent) (simp add: keeps_def)

lemma attempt_ok_refl [simp, intro]: "attempt_ok tf p l p l"
  by (simp add: attempt_ok_def)

lemma attempt_ok_trans: "attempt_ok tf p l q l1 \<Longrightarrow> attempt_ok tf q l1 r l2 \<Longrightarrow> attempt_ok tf p l r l2"
  unfolding attempt_ok_def
  by (metis same_provider_trans metered_trans same_provider_def)

lemma keeps_latency: "keeps p (note_latency method elapsed p)"
  by (simp add: note_latency_def Let_def keeps_defs)

text \<open>The guard of an attempt leaves room for its cost.\<close>

lemma solvent_charged:
  assumes "\<not> over_budget p cost" and "keeps p p1"
  shows "solvent (p1\<lparr>pv_calls := c, pv_attempted := pv_attempted p1 + cost\<rparr>)"
  using assms by (auto simp: over_budget_def solvent_def keeps_defs)

lemma attempt_metered:
  assumes run: "attempt (logged net) method params timeout cost k p w = (s, p', w')"
    and tariff: "tf (pv_name p) = price p" and cost: "reservation_of p method params = Inr cost"
  shows "attempt_ok tf p (snd w) p' (snd w')"
proof -
  obtain r w1 where r: "reserve_attempt (logged net) method params cost p w = (r, w1)" by (metis prod.exhaust)
  from reserve_attempt_metered [OF r, of tf]
  have guard: "metered tf (pv_name p) (snd w) (snd w1)"
    and paid: "r = Inr () \<Longrightarrow> price p method params = Some c \<Longrightarrow> \<exists>l. snd w1 = Reserved (pv_name p) c # l"
    and room: "r = Inr () \<Longrightarrow> \<not> over_budget p cost" and unbilled: "billed p (snd w1) = billed p (snd w)" for c
    by (auto simp: metered_def)
  then have first: "attempt_ok tf p (snd w) p (snd w1)" by (simp add: attempt_ok_def)
  show ?thesis
  proof (cases r)
    case (Inl e)
    with run r first show ?thesis by (simp add: attempt_def)
  next
    case (Inr u)
    obtain x p1 w2 where x: "wait_for_slot (logged net) method p w1 = (x, p1, w2)" by (metis prod.exhaust)
    note k1 = wait_for_slot_quiet [OF x]
    show ?thesis
    proof (cases x)
      case (Inl e)
      with run r x Inr k1 have "p' = p1" "snd w' = snd w1" by (simp_all add: attempt_def)
      with attempt_ok_trans [OF first attempt_ok_quiet] k1 show ?thesis by metis
    next
      case (Inr v)
      define p2 where "p2 = p1\<lparr>pv_calls := count_up method (pv_calls p1), pv_attempted := pv_attempted p1 + cost\<rparr>"
      obtain v2 l2 where w2: "w2 = (v2, l2)" by (cases w2)
      obtain elapsed ans v3 where post: "nt_post net (pv_name p2) method params (request_timeout p2 timeout) v2 = ((elapsed, ans), v3)"
        by (metis prod.exhaust)
      let ?w3 = "(v3, Posted (pv_name p2) method params # l2)" and ?q = "note_latency method elapsed p2"
      have l2: "l2 = snd w1" using k1 w2 by simp
      have name: "pv_name p2 = pv_name p" using k1 by (simp add: p2_def keeps_defs)
      have step: "attempt_ok tf p (snd w1) p2 (snd ?w3)"
      proof -
        have same: "same_provider p p2" using k1 by (simp add: p2_def keeps_defs)
        moreover have "pv_attempted p2 - billed p2 (snd ?w3) = pv_attempted p - billed p (snd w1)"
          unfolding same_billed [OF same] using k1 cost by (simp add: p2_def l2 keeps_defs)
        moreover have "solvent p2" unfolding p2_def using solvent_charged [OF room] k1 \<open>r = Inr u\<close> by auto
        moreover have "metered tf (pv_name p) (snd w1) (snd ?w3)"
          using paid \<open>r = Inr u\<close> tariff by (auto simp: metered_def name l2 split: option.splits)
        ultimately show ?thesis by (simp add: attempt_ok_def)
      qed
      have "keeps ?q p' \<and> snd w' = snd ?w3"
      proof (cases ans)
        case (NoResponse failure)
        with run r x \<open>r = Inr u\<close> Inr have
          "(if k \<ge> pv_max_retries p2 then fail_with (logged net) method ''temporary'' failure ?q ?w3
            else retry_after (logged net) method k 0 ?q ?w3) = (s, p', w')"
          unfolding p2_def by (simp add: attempt_def Let_def logged_post w2 post [unfolded p2_def, simplified] split del: if_split cong: if_cong)
        then show ?thesis by (auto dest: retry_after_quiet fail_with_quiet split: if_split_asm)
      next
        case (Response a)
        with run r x \<open>r = Inr u\<close> Inr have "handle_response (logged net) method k a ?q ?w3 = (s, p', w')"
          unfolding p2_def by (simp add: attempt_def Let_def logged_post w2 post [unfolded p2_def, simplified] split del: if_split cong: if_cong)
        then show ?thesis by (rule handle_response_quiet)
      qed
      then have "attempt_ok tf p2 (snd ?w3) p' (snd w')"
        using attempt_ok_quiet [OF keeps_trans [OF keeps_latency]] by metis
      with attempt_ok_trans [OF first attempt_ok_trans [OF step]] show ?thesis by blast
    qed
  qed
qed

lemma attempts_metered:
  assumes "attempts n (logged net) method params timeout cost k p w = (r, p', w')" and "tf (pv_name p) = price p"
    and "reservation_of p method params = Inr cost"
  shows "attempt_ok tf p (snd w) p' (snd w')"
  using assms
proof (induction n arbitrary: k p w)
  case 0
  obtain s p1 w1 where f: "fail_with (logged net) method ''temporary'' ''retry budget exhausted'' p w = (s, p1, w1)"
    by (metis prod.exhaust)
  with 0 have "p' = p1" "w' = w1" by (simp_all split: step.splits)
  with fail_with_quiet [OF f] attempt_ok_quiet show ?case by metis
next
  case (Suc n)
  obtain s p1 w1 where a: "attempt (logged net) method params timeout cost k p w = (s, p1, w1)" by (metis prod.exhaust)
  have one: "attempt_ok tf p (snd w) p1 (snd w1)"
    by (rule attempt_metered [where tf = tf, OF a]) (rule Suc.prems(2,3))+
  show ?case
  proof (cases s)
    case Again
    from one have "same_provider p p1" by (simp add: attempt_ok_def)
    with Suc.prems(2) same_price [OF this] have "tf (pv_name p1) = price p1" by (simp add: same_provider_def)
    moreover from \<open>same_provider p p1\<close> have "reservation_of p1 method params = Inr cost"
      using Suc.prems(3) same_reservation [of p p1] by simp
    ultimately have "attempt_ok tf p1 (snd w1) p' (snd w')"
      using Suc.IH [of "k + 1" p1 w1] Suc.prems(1) a Again by simp
    with one show ?thesis by (rule attempt_ok_trans)
  next
    case (Finished x)
    with Suc.prems(1) a one show ?thesis by simp
  qed
qed

lemma provider_call_metered:
  assumes run: "provider_call (logged net) method params timeout p w = (r, p', w')" and "tf (pv_name p) = price p"
  shows "attempt_ok tf p (snd w) p' (snd w')"
proof -
  obtain b p1 w1 where c: "can_call (logged net) method params p w = (b, p1, w1)" by (metis prod.exhaust)
  note quiet = can_call_quiet [OF c]
  then have one: "attempt_ok tf p (snd w) p1 (snd w1)" using attempt_ok_quiet by metis
  have two: "attempt_ok tf p1 (snd w1) p' (snd w')"
  proof (cases "(\<exists>e. b = Inl e) \<or> (pv_circuit p1 \<noteq> None \<and> method \<noteq> ''getHealth'') \<or> method_open p1 method \<or>
      (\<exists>e. reservation_of p1 method params = Inl e) \<or> (\<exists>c. reservation_of p1 method params = Inr c \<and> over_budget p1 c)")
    case True
    with run c have "p' = p1 \<and> w' = w1" unfolding provider_call_def by (elim disjE exE conjE) (auto split: sum.splits if_split_asm simp del: attempts.simps)
    then show ?thesis by simp
  next
    case False
    then obtain x cost where "b = Inr x" "reservation_of p1 method params = Inr cost" by (metis sumE)
    with run c False have "attempts (Suc (pv_max_retries p1)) (logged net) method params timeout cost 0 p1 w1 = (r, p', w')"
      unfolding provider_call_def by (auto simp del: attempts.simps)
    moreover note \<open>reservation_of p1 method params = Inr cost\<close>
    moreover have "tf (pv_name p1) = price p1"
      using assms(2) same_price [OF keeps_same [of p p1]] quiet by (simp add: keeps_defs)
    ultimately show ?thesis by (intro attempts_metered [where tf = tf])
  qed
  from one two show ?thesis by (rule attempt_ok_trans)
qed

end
