(* ===== verification/Rpc_Routed.thy ===== *)
theory Rpc_Routed
  imports Rpc_Metering
begin

text \<open>
  The routed calls on the logged outside: to whom a call may post (the names of its order that are
  neither excluded nor blocked), and that across any sequence of calls every request is paid for and
  no provider is sent more than its per-scan credits.
\<close>

section \<open>The books of a router\<close>

type_synonym providers = "(string \<times> provider) list"

definition routed_ok :: "tariff \<Rightarrow> providers \<Rightarrow> bool" where
  "routed_ok tf ps \<longleftrightarrow> (\<forall>n p. map_of ps n = Some p \<longrightarrow> pv_name p = n \<and> tf n = price p \<and> solvent p)"

text \<open>What a provider has been charged beyond the requests in the log.\<close>

definition unposted :: "providers \<Rightarrow> event list \<Rightarrow> string \<Rightarrow> int option" where
  "unposted ps l n = map_option (\<lambda>p. pv_attempted p - billed p l) (map_of ps n)"

definition charges :: "tariff \<Rightarrow> string set \<Rightarrow> providers \<Rightarrow> event list \<Rightarrow> providers \<Rightarrow> event list \<Rightarrow> bool" where
  "charges tf N ps l ps' l' \<longleftrightarrow> (routed_ok tf ps \<longrightarrow>
     routed_ok tf ps' \<and> (\<exists>new. l' = new @ l \<and> event_name ` set new \<subseteq> N) \<and> (paid tf l \<longrightarrow> paid tf l') \<and>
     unposted ps' l' = unposted ps l)"

lemma charges_refl [simp, intro]: "charges tf N ps l ps l"
  by (simp add: charges_def)

lemma charges_trans:
  assumes "charges tf M ps l ps1 l1" and "charges tf N ps1 l1 ps2 l2" and "M \<subseteq> K" and "N \<subseteq> K"
  shows "charges tf K ps l ps2 l2"
proof -
  have "\<exists>new. l2 = new @ l \<and> event_name ` set new \<subseteq> K"
    if "\<exists>new. l1 = new @ l \<and> event_name ` set new \<subseteq> M" "\<exists>new. l2 = new @ l1 \<and> event_name ` set new \<subseteq> N"
  proof -
    from that obtain a b where "l1 = a @ l" "event_name ` set a \<subseteq> M" "l2 = b @ l1" "event_name ` set b \<subseteq> N" by blast
    with assms(3,4) show ?thesis by (intro exI [of _ "b @ a"]) auto
  qed
  with assms(1,2) show ?thesis by (simp add: charges_def)
qed

lemma charges_mono: "charges tf M ps l ps' l' \<Longrightarrow> M \<subseteq> N \<Longrightarrow> charges tf N ps l ps' l'"
  by (rule charges_trans [OF _ charges_refl [of tf N]]) simp_all

lemma charges_update:
  assumes p: "map_of ps n = Some p" and a: "attempt_ok tf p l p' l'"
  shows "charges tf {n} ps l (AList.update n p' ps) l'"
  unfolding charges_def
proof (intro impI)
  assume ok: "routed_ok tf ps"
  with p have n: "pv_name p = n" "tf n = price p" "solvent p" by (auto simp: routed_ok_def)
  from a have same: "same_provider p p'" and sol: "solvent p'" and book: "pv_attempted p' - billed p' l' = pv_attempted p - billed p l"
    and met: "metered tf n l l'" using n by (auto simp: attempt_ok_def)
  have ok': "routed_ok tf (AList.update n p' ps)"
    using ok n same sol same_price [OF same] by (auto simp: routed_ok_def update_conv' same_provider_def)
  from met obtain new where new: "l' = new @ l" "\<forall>e \<in> set new. event_name e = n" and pay: "paid tf l \<longrightarrow> paid tf l'"
    by (auto simp: metered_def)
  have "unposted (AList.update n p' ps) l' m = unposted ps l m" for m
  proof (cases "m = n")
    case True
    with p book show ?thesis by (simp add: unposted_def update_conv')
  next
    case False
    have "billed q l' = billed q l" if "map_of ps m = Some q" for q
    proof -
      have "pv_name q = m" using ok that by (simp add: routed_ok_def)
      with False new(2) have "billed q new = 0" by (intro billed_others) auto
      with new(1) show ?thesis by simp
    qed
    then have "map_option (\<lambda>p. pv_attempted p - billed p l') (map_of ps m) = map_option (\<lambda>p. pv_attempted p - billed p l) (map_of ps m)"
      by (cases "map_of ps m") auto
    with False show ?thesis by (simp add: unposted_def update_conv')
  qed
  then have "unposted (AList.update n p' ps) l' = unposted ps l" by (rule ext)
  with ok' new pay show "routed_ok tf (AList.update n p' ps) \<and> (\<exists>new. l' = new @ l \<and> event_name ` set new \<subseteq> {n}) \<and>
     (paid tf l \<longrightarrow> paid tf l') \<and> unposted (AList.update n p' ps) l' = unposted ps l" by blast
qed

text \<open>A step that neither posts nor reserves.\<close>

lemma charges_quiet:
  assumes "map_of ps n = Some p" and "keeps p p'"
  shows "charges tf {} ps l (AList.update n p' ps) l"
proof -
  have "charges tf {n} ps l (AList.update n p' ps) l"
    by (rule charges_update [OF assms(1) attempt_ok_quiet [OF assms(2)]])
  then show ?thesis by (simp add: charges_def)
qed

section \<open>Choosing the names\<close>

lemma set_provider_fields [simp]:
  "rt_providers (set_provider n p rt) = AList.update n p (rt_providers rt)"
  "rt_blocked (set_provider n p rt) = rt_blocked rt"
  "rt_unsupported (set_provider n p rt) = rt_unsupported rt"
  by (simp_all add: set_provider_def)

lemma add_unsupported_fields [simp]:
  "rt_providers (add_unsupported n m rt) = rt_providers rt"
  "rt_blocked (add_unsupported n m rt) = rt_blocked rt"
  by (simp_all add: add_unsupported_def)

lemma failover_if_providers [simp]: "rt_providers (failover_if b m rt) = rt_providers rt"
  by (simp add: failover_if_def)

definition blocked :: "router \<Rightarrow> string \<Rightarrow> bool" where
  "blocked rt n \<longleftrightarrow> n \<in> set (map fst (rt_blocked rt))"

lemma probe_step:
  assumes "probe (logged net) method excluded n rt w = (r, rt', w')"
  shows "charges tf {} (rt_providers rt) (snd w) (rt_providers rt') (snd w')" and "blocked rt' = blocked rt"
    and "r = Inr True \<Longrightarrow> n \<notin> set excluded \<and> \<not> blocked rt n"
proof -
  have "charges tf {} (rt_providers rt) (snd w) (rt_providers rt') (snd w') \<and> blocked rt' = blocked rt \<and>
    (r = Inr True \<longrightarrow> n \<notin> set excluded \<and> \<not> blocked rt n)"
  proof (cases "map_of (rt_providers rt) n")
    case None
    with assms show ?thesis by (auto simp: probe_def)
  next
    case (Some p)
    obtain b p1 w1 where c: "can_call (logged net) method [] p w = (b, p1, w1)" by (metis prod.exhaust)
    from can_call_quiet [OF c] have k: "keeps p p1" "snd w1 = snd w" by auto
    from assms Some c have "rt' = set_provider n p1 rt" "w' = w1" "r = bindR b (\<lambda>_. Inr (eligible rt method excluded n p1))"
      by (simp_all add: probe_def)
    with k charges_quiet [OF Some k(1)] show ?thesis by (auto simp: eligible_def bindR_eq_Inr blocked_def fun_eq_iff)
  qed
  then show "charges tf {} (rt_providers rt) (snd w) (rt_providers rt') (snd w')" and "blocked rt' = blocked rt"
    and "r = Inr True \<Longrightarrow> n \<notin> set excluded \<and> \<not> blocked rt n" by blast+
qed

lemma eligible_names_step:
  assumes "eligible_names (logged net) method excluded ns rt w = (r, rt', w')"
  shows "charges tf {} (rt_providers rt) (snd w) (rt_providers rt') (snd w') \<and> blocked rt' = blocked rt \<and>
    (\<forall>xs. r = Inr xs \<longrightarrow> set xs \<subseteq> {n \<in> set ns. n \<notin> set excluded \<and> \<not> blocked rt n})"
  using assms
proof (induction ns arbitrary: r rt rt' w w')
  case Nil
  then show ?case by auto
next
  case (Cons n ns)
  obtain b rt1 w1 where p: "probe (logged net) method excluded n rt w = (b, rt1, w1)" by (metis prod.exhaust)
  note one = probe_step [OF p]
  show ?case
  proof (cases b)
    case (Inl e)
    with Cons.prems p one(1) [of tf] one(2) show ?thesis by auto
  next
    case (Inr x)
    obtain q rt2 w2 where q: "eligible_names (logged net) method excluded ns rt1 w1 = (q, rt2, w2)" by (metis prod.exhaust)
    note two = Cons.IH [OF q]
    from Cons.prems p q Inr have out: "rt' = rt2" "w' = w2" "r = bindR q (\<lambda>xs. Inr (if x then n # xs else xs))"
      by simp_all
    from charges_trans [OF one(1) two [THEN conjunct1], of "{}"]
    have "charges tf {} (rt_providers rt) (snd w) (rt_providers rt') (snd w')" by (simp add: out)
    moreover have "set xs \<subseteq> {m \<in> set (n # ns). m \<notin> set excluded \<and> \<not> blocked rt m}" if "r = Inr xs" for xs
      using that two one(2,3) Inr unfolding out by (auto simp: bindR_eq_Inr split: if_split_asm)
    ultimately show ?thesis using two one(2) by (simp add: out)
  qed
qed

section \<open>One provider\<close>

lemma shrink_page_quiet:
  assumes "shrink_page (logged net) meth params p w = (r, p', w')"
  shows "keeps p p' \<and> snd w' = snd w"
  using assms
proof (induction "logged net" meth params p w rule: shrink_page.induct)
  case (1 meth params p w)
  obtain b p1 w1 where c: "can_call (logged net) meth params p w = (b, p1, w1)" by (metis prod.exhaust)
  note q = can_call_quiet [OF c]
  show ?case
  proof (cases "limit_of params \<le> 100 \<or> b \<noteq> Inr False")
    case True
    with 1(2) c q show ?thesis by (subst (asm) shrink_page.simps) (auto split: sum.splits bool.splits if_split_asm)
  next
    case False
    with 1(2) c have "shrink_page (logged net) meth (with_limit (max 100 (limit_of params - 100)) params) p1 w1 = (r, p', w')"
      by (subst (asm) shrink_page.simps) simp
    with 1(1) c False q keeps_trans show ?thesis by fastforce
  qed
qed

lemma provider_params_quiet:
  assumes "provider_params (logged net) method params name p w = (r, p', w')"
  shows "keeps p p' \<and> snd w' = snd w"
  using assms by (auto simp: provider_params_def dest: shrink_page_quiet split: if_split_asm sum.splits)

lemma check_result_quiet:
  assumes "check_result (logged net) method params result p w = (r, p', w')"
  shows "keeps p p' \<and> snd w' = snd w"
proof (cases "\<exists>e m. validate_result method params result = Inl e \<and> read_error e = Some m")
  case True
  then obtain e m where e: "validate_result method params result = Inl e" "read_error e = Some m" by blast
  let ?d = "''invalid read response: '' @ m"
  obtain p1 w1 where f: "record_failure (logged net) method ''provider'' (error_text p method ''provider'' ?d) p w = (p1, w1)"
    by (metis prod.exhaust)
  from assms e f have "p' = p1" "w' = w1" by (simp_all add: check_result_def)
  with record_failure_quiet [OF f] show ?thesis by simp
next
  case False
  with assms have "p' = p" "w' = w" by (auto simp: check_result_def split: sum.splits option.splits)
  then show ?thesis by simp
qed


lemma try_provider_step:
  assumes run: "try_provider (logged net) method params timeout name rt w = (r, rt', w')"
    and ok: "routed_ok tf (rt_providers rt)"
  shows "charges tf {name} (rt_providers rt) (snd w) (rt_providers rt') (snd w')"
proof (cases "map_of (rt_providers rt) name")
  case None
  with run show ?thesis by (auto simp: try_provider_def)
next
  case (Some p)
  with ok have tariff: "tf (pv_name p) = price p" by (auto simp: routed_ok_def)
  obtain ps p1 w1 where a: "provider_params (logged net) method params name p w = (ps, p1, w1)" by (metis prod.exhaust)
  note q1 = provider_params_quiet [OF a]
  have "\<exists>p'. rt' = set_provider name p' rt \<and> attempt_ok tf p (snd w) p' (snd w')"
  proof (cases ps)
    case (Inl e)
    with run Some a have "rt' = set_provider name p1 rt" "w' = w1" by (simp_all add: try_provider_def)
    with q1 attempt_ok_quiet show ?thesis by metis
  next
    case (Inr qs)
    let ?t = "case timeout of None \<Rightarrow> if method = HISTORY then Some (pv_history_timeout p1) else None | Some t \<Rightarrow> Some t"
    obtain x p2 w2 where c: "provider_call (logged net) method qs ?t p1 w1 = (x, p2, w2)" by (metis prod.exhaust)
    from q1 tariff same_price [OF keeps_same [of p p1]] have "tf (pv_name p1) = price p1" by (simp add: keeps_defs)
    from provider_call_metered [where tf = tf, OF c this] attempt_ok_quiet [of p p1 tf "snd w1"] q1
    have two: "attempt_ok tf p (snd w) p2 (snd w2)" by (metis attempt_ok_trans)
    show ?thesis
    proof (cases x)
      case (Inl e)
      with run Some a Inr c have "rt' = set_provider name p2 rt" "w' = w2" by (simp_all add: try_provider_def Let_def)
      with two show ?thesis by blast
    next
      case x: (Inr v)
      obtain y p3 w3 where k: "check_result (logged net) method qs v p2 w2 = (y, p3, w3)" by (metis prod.exhaust)
      from run Some a Inr c x k have "rt' = set_provider name p3 rt" "w' = w3" by (simp_all add: try_provider_def Let_def)
      moreover have "attempt_ok tf p (snd w) p3 (snd w3)"
        using two check_result_quiet [OF k] attempt_ok_quiet [of p2 p3 tf "snd w2"] by (metis attempt_ok_trans)
      ultimately show ?thesis by blast
    qed
  qed
  then obtain p' where "rt' = set_provider name p' rt" "attempt_ok tf p (snd w) p' (snd w')" by blast
  with charges_update [OF Some] show ?thesis by simp
qed

lemma record_provider_error_step:
  assumes "record_provider_error (logged net) name method e rt w = (r, rt', w')"
  shows "charges tf {} (rt_providers rt) (snd w) (rt_providers rt') (snd w')"
proof (cases "category_of e = ''unsupported''")
  case False
  with assms show ?thesis unfolding record_provider_error_def if_not_P [OF False] by (auto split: if_split_asm)
next
  case True
  note def = assms [unfolded record_provider_error_def if_P [OF True]]
  show ?thesis
  proof (cases "map_of (rt_providers rt) name")
    case None
    with def show ?thesis by auto
  next
    case (Some p)
    let ?p = "p\<lparr>pv_unsupported := insert_new method (pv_unsupported p)\<rparr>"
    have "keeps p ?p" by (simp add: keeps_defs)
    note c = charges_quiet [OF Some this, of tf "snd w"]
    have "rt_providers rt' = AList.update name ?p (rt_providers rt) \<and> snd w' = snd w"
      using def Some by (auto simp: Let_def split: option.splits if_split_asm prod.splits dest: logged_quiet)
    with c show ?thesis by simp
  qed
qed

section \<open>The routed call\<close>

lemma route_names_step:
  assumes "route_names (logged net) method params timeout ns msgs nulls rt w = (r, rt', w')"
    and "routed_ok tf (rt_providers rt)"
  shows "charges tf (set ns) (rt_providers rt) (snd w) (rt_providers rt') (snd w')"
  using assms
proof (induction ns arbitrary: msgs nulls rt w)
  case Nil
  then show ?case by auto
next
  case (Cons n ns)
  obtain x rt1 w1 where t: "try_provider (logged net) method params timeout n rt w = (x, rt1, w1)" by (metis prod.exhaust)
  note one = try_provider_step [OF t Cons.prems(2)]
  then have ok1: "routed_ok tf (rt_providers rt1)" using Cons.prems(2) by (simp add: charges_def)
  show ?case
  proof (cases x)
    case (Inl e)
    obtain y rt2 w2 where y: "record_provider_error (logged net) n method e rt1 w1 = (y, rt2, w2)" by (metis prod.exhaust)
    from charges_trans [OF one record_provider_error_step [OF y], of "{n}"]
    have two: "charges tf {n} (rt_providers rt) (snd w) (rt_providers rt2) (snd w2)" by simp
    then have ok2: "routed_ok tf (rt_providers rt2)" using Cons.prems(2) by (simp add: charges_def)
    show ?thesis
    proof (cases "caught e \<and> (\<exists>u. y = Inr u) \<and> category_of e \<noteq> ''client''")
      case False
      with Cons.prems(1) t Inl y have "rt' = rt1 \<and> w' = w1 \<or> rt' = rt2 \<and> w' = w2"
        by (auto split: sum.splits if_split_asm)
      with charges_mono [OF one] charges_mono [OF two] show ?thesis by auto
    next
      case True
      let ?rt = "failover_if (ns \<noteq> []) method rt2"
      from True Cons.prems(1) t Inl y
      have "route_names (logged net) method params timeout ns (msgs @ [error_note n e]) nulls ?rt w2 = (r, rt', w')" by auto
      from Cons.IH [OF this] ok2 have "charges tf (set ns) (rt_providers rt2) (snd w2) (rt_providers rt') (snd w')"
        by simp
      from charges_trans [OF two this, of "set (n # ns)"] show ?thesis by auto
    qed
  next
    case (Inr v)
    obtain result limit where v: "v = (result, limit)" by (cases v)
    let ?rt = "rt1\<lparr>rt_calls := count_up (method @ '':'' @ n) (rt_calls rt1)\<rparr>"
    show ?thesis
    proof (cases "method = ''getTransaction'' \<and> result = PNone")
      case True
      let ?rt = "failover_if (ns \<noteq> []) method (?rt\<lparr>rt_nulls := count_up n (rt_nulls ?rt)\<rparr>)"
      from True Cons.prems(1) t Inr v
      have "route_names (logged net) method params timeout ns msgs (Some n) ?rt w1 = (r, rt', w')" by (simp add: Let_def)
      from Cons.IH [OF this] ok1 have "charges tf (set ns) (rt_providers rt1) (snd w1) (rt_providers rt') (snd w')"
        by simp
      from charges_trans [OF one this, of "set (n # ns)"] show ?thesis by auto
    next
      case False
      with Cons.prems(1) t Inr v have "rt_providers rt' = rt_providers rt1" "w' = w1"
        by (auto simp: Let_def finish_route_def)
      with charges_mono [OF one] show ?thesis by auto
    qed
  qed
qed

lemma route_call_step:
  assumes run: "route_call (logged net) ro method params preferred order timeout excluded rt w = (r, rt', w')"
    and ok: "routed_ok tf (rt_providers rt)"
  shows "charges tf {n \<in> set (names_of preferred (route_order ro method order)). n \<notin> set excluded \<and>
      \<not> blocked rt n} (rt_providers rt) (snd w) (rt_providers rt') (snd w')"
    (is "charges tf ?N _ _ _ _")
proof (cases "method = HISTORY \<and> names_of preferred [] = [] \<and> length params > 1 \<and> truthy (getd (params ! 1) ''paginationToken'')")
  case True
  with run show ?thesis by (auto simp: route_call_def)
next
  case False
  obtain x rt1 w1 where e: "eligible_names (logged net) method excluded (names_of preferred (route_order ro method order)) rt w = (x, rt1, w1)"
    by (metis prod.exhaust)
  note one = eligible_names_step [OF e, of tf]
  have ok1: "routed_ok tf (rt_providers rt1)" using one ok by (simp add: charges_def)
  show ?thesis
  proof (cases x)
    case (Inl err)
    with run e False have "rt' = rt1" "w' = w1" unfolding route_call_def if_not_P [OF False] by simp_all
    with one charges_mono show ?thesis by blast
  next
    case (Inr names)
    with run e have "route_names (logged net) method params timeout names [] None rt1 w1 = (r, rt', w')"
      unfolding route_call_def if_not_P [OF False] by simp
    note two = route_names_step [OF this ok1]
    from one Inr have "set names \<subseteq> ?N" by blast
    with charges_trans [OF one [THEN conjunct1] two, of ?N] show ?thesis by blast
  qed
qed


section \<open>Blocked providers stay blocked\<close>

lemma try_provider_blocked:
  "try_provider net method params timeout name rt w = (r, rt', w') \<Longrightarrow> blocked rt' = blocked rt"
  by (auto simp: try_provider_def Let_def blocked_def fun_eq_iff split: option.splits sum.splits prod.splits)

lemma record_provider_error_blocked:
  assumes "record_provider_error net name method e rt w = (r, rt', w')" and "blocked rt n"
  shows "blocked rt' n"
proof (cases "category_of e = ''unsupported''")
  case True
  have "rt_blocked rt' = rt_blocked rt"
    using assms(1) unfolding record_provider_error_def if_P [OF True]
    by (auto simp: Let_def split: option.splits if_split_asm prod.splits)
  with assms(2) show ?thesis by (simp add: blocked_def)
next
  case False
  have "blocked (rt\<lparr>rt_blocked := AList.update k v (rt_blocked rt)\<rparr>) n" for k v
    using assms(2) by (simp add: blocked_def dom_update)
  with assms show ?thesis unfolding record_provider_error_def if_not_P [OF False] by (auto split: if_split_asm)
qed

lemma route_names_blocked:
  assumes "route_names net method params timeout ns msgs nulls rt w = (r, rt', w')" and "blocked rt n"
  shows "blocked rt' n"
  using assms
proof (induction ns arbitrary: msgs nulls rt w)
  case Nil
  then show ?case by auto
next
  case (Cons m ns)
  obtain x rt1 w1 where t: "try_provider net method params timeout m rt w = (x, rt1, w1)" by (metis prod.exhaust)
  have b1: "blocked rt1 n" using try_provider_blocked [OF t] Cons.prems(2) by simp
  have plain: "blocked (failover_if b method rt2) n" if "blocked rt2 n" for b rt2
    using that by (simp add: failover_if_def blocked_def)
  show ?case
  proof (cases x)
    case (Inl e)
    obtain y rt2 w2 where y: "record_provider_error net m method e rt1 w1 = (y, rt2, w2)" by (metis prod.exhaust)
    note b2 = record_provider_error_blocked [OF y b1]
    show ?thesis
    proof (cases "caught e \<and> (\<exists>u. y = Inr u) \<and> category_of e \<noteq> ''client''")
      case False
      with Cons.prems(1) t Inl y b1 b2 show ?thesis by (auto split: sum.splits if_split_asm)
    next
      case True
      with Cons.prems(1) t Inl y
      have "route_names net method params timeout ns (msgs @ [error_note m e]) nulls (failover_if (ns \<noteq> []) method rt2) w2 = (r, rt', w')"
        by auto
      from Cons.IH [OF this plain [OF b2]] show ?thesis .
    qed
  next
    case (Inr v)
    obtain result limit where v: "v = (result, limit)" by (cases v)
    let ?rt = "rt1\<lparr>rt_calls := count_up (method @ '':'' @ m) (rt_calls rt1)\<rparr>"
    let ?rn = "?rt\<lparr>rt_nulls := count_up m (rt_nulls ?rt)\<rparr>"
    have b: "blocked ?rt n" "blocked ?rn n" using b1 by (simp_all add: blocked_def)
    show ?thesis
    proof (cases "method = ''getTransaction'' \<and> result = PNone")
      case True
      with Cons.prems(1) t Inr v
      have "route_names net method params timeout ns msgs (Some m) (failover_if (ns \<noteq> []) method ?rn) w1 = (r, rt', w')"
        by (simp add: Let_def)
      from Cons.IH [OF this plain [OF b(2)]] show ?thesis .
    next
      case False
      with Cons.prems(1) t Inr v b1 show ?thesis by (auto simp: Let_def finish_route_def blocked_def)
    qed
  qed
qed

lemma route_call_blocked:
  assumes run: "route_call (logged net) ro method params preferred order timeout excluded rt w = (r, rt', w')" and "blocked rt n"
  shows "blocked rt' n"
proof (cases "method = HISTORY \<and> names_of preferred [] = [] \<and> length params > 1 \<and> truthy (getd (params ! 1) ''paginationToken'')")
  case True
  with assms show ?thesis by (auto simp: route_call_def)
next
  case False
  obtain x rt1 w1 where e: "eligible_names (logged net) method excluded (names_of preferred (route_order ro method order)) rt w = (x, rt1, w1)"
    by (metis prod.exhaust)
  have b: "blocked rt1 n" using eligible_names_step [OF e] assms(2) by simp
  show ?thesis
  proof (cases x)
    case (Inl err)
    with run e b show ?thesis unfolding route_call_def if_not_P [OF False] by simp
  next
    case (Inr names)
    with run e have "route_names (logged net) method params timeout names [] None rt1 w1 = (r, rt', w')"
      unfolding route_call_def if_not_P [OF False] by simp
    then show ?thesis using b by (rule route_names_blocked)
  qed
qed

section \<open>Sequences of calls\<close>

record routed_query =
  qy_method :: string
  qy_params :: "pyval list"
  qy_preferred :: "string option"
  qy_order :: "string list option"
  qy_timeout :: "rat option"
  qy_excluded :: "string list"

definition routed_request ::
    "'w net \<Rightarrow> routes \<Rightarrow> routed_query \<Rightarrow> router \<Rightarrow> 'w \<Rightarrow> (pyval \<times> string) res \<times> router \<times> 'w" where
  "routed_request net ro q rt w =
     route_call net ro (qy_method q) (qy_params q) (qy_preferred q) (qy_order q) (qy_timeout q) (qy_excluded q) rt w"

fun routed_calls :: "'w net \<Rightarrow> routes \<Rightarrow> routed_query list \<Rightarrow> router \<Rightarrow> 'w \<Rightarrow> router \<times> 'w" where
  "routed_calls net ro [] rt w = (rt, w)"
| "routed_calls net ro (q # qs) rt w = (case routed_request net ro q rt w of (r, rt', w') \<Rightarrow> routed_calls net ro qs rt' w')"

lemma routed_calls_step:
  assumes "routed_calls (logged net) ro qs rt w = (rt', w')" and "routed_ok tf (rt_providers rt)"
  shows "charges tf UNIV (rt_providers rt) (snd w) (rt_providers rt') (snd w') \<and>
    (blocked rt n \<longrightarrow> charges tf (- {n}) (rt_providers rt) (snd w) (rt_providers rt') (snd w'))"
  using assms
proof (induction qs arbitrary: rt w)
  case Nil
  then show ?case by auto
next
  case (Cons q qs)
  obtain r rt1 w1 where q: "routed_request (logged net) ro q rt w = (r, rt1, w1)" by (metis prod.exhaust)
  note call = q [unfolded routed_request_def]
  note one = route_call_step [OF call Cons.prems(2)]
  then have ok1: "routed_ok tf (rt_providers rt1)" using Cons.prems(2) by (simp add: charges_def)
  from Cons.prems(1) q have rest: "routed_calls (logged net) ro qs rt1 w1 = (rt', w')" by simp
  note two = Cons.IH [OF rest ok1]
  from charges_trans [OF one two [THEN conjunct1], of UNIV]
  have "charges tf UNIV (rt_providers rt) (snd w) (rt_providers rt') (snd w')" by simp
  moreover have "charges tf (- {n}) (rt_providers rt) (snd w) (rt_providers rt') (snd w')" if b: "blocked rt n"
  proof -
    have "{m \<in> set (names_of (qy_preferred q) (route_order ro (qy_method q) (qy_order q))).
        m \<notin> set (qy_excluded q) \<and> \<not> blocked rt m} \<subseteq> - {n}" using b by blast
    from charges_trans [OF one two [THEN conjunct2, THEN mp, OF route_call_blocked [OF call b]] this order_refl]
    show ?thesis .
  qed
  ultimately show ?case by simp
qed

definition unused_provider :: "provider \<Rightarrow> bool" where
  "unused_provider p \<longleftrightarrow> pv_attempted p = 0 \<and> 0 \<le> pv_credit_budget p"

definition unused_providers :: "providers \<Rightarrow> bool" where
  "unused_providers d \<longleftrightarrow> (\<forall>n p. map_of d n = Some p \<longrightarrow> pv_name p = n \<and> unused_provider p)"

lemma unused_providers_update:
  "unused_providers d \<Longrightarrow> unused_provider p \<Longrightarrow> unused_providers (AList.update (pv_name p) p d)"
  by (simp add: unused_providers_def update_conv')

lemma unused_providers_foldl:
  "unused_providers d \<Longrightarrow> list_all unused_provider ps \<Longrightarrow>
   unused_providers (foldl (\<lambda>d p. AList.update (pv_name p) p d) d ps)"
  by (induction ps arbitrary: d) (simp_all add: unused_providers_update)

lemma make_router_unused: "list_all unused_provider ps \<Longrightarrow> unused_providers (rt_providers (make_router ps))"
  by (simp add: make_router_def Let_def unused_providers_foldl unused_providers_def [of "[]"])

lemma make_router_ok:
  "list_all unused_provider ps \<Longrightarrow> routed_ok (tariff_of (make_router ps)) (rt_providers (make_router ps))"
  using make_router_unused [of ps]
  by (auto simp: unused_providers_def routed_ok_def tariff_of_def solvent_def unused_provider_def)

lemma run_charges:
  assumes "list_all unused_provider ps" and "routed_calls (logged net) ro qs (make_router ps) (w, []) = (rt', w')"
  shows "charges (tariff_of (make_router ps)) UNIV (rt_providers (make_router ps)) [] (rt_providers rt') (snd w')"
  using routed_calls_step [OF assms(2) make_router_ok [OF assms(1)]] by simp

text \<open>
  C22: Every request the routed calls send to a provider with a monthly budget comes directly after the
  reservation of exactly its own price, whatever fails, is retried or fails over in between.
\<close>

theorem routed_calls_paid:
  assumes "list_all unused_provider ps" and "routed_calls (logged net) ro qs (make_router ps) (w, []) = (rt', w')"
  shows "paid (tariff_of (make_router ps)) (snd w')"
  using run_charges [OF assms] make_router_ok [OF assms(1)] by (simp add: charges_def)

text \<open>
  C23: No provider is sent requests for more than its per-scan credits, retries included: the prices of
  all the requests in the log stay within the budget, when it has one.
\<close>

theorem routed_calls_within_credits:
  assumes "list_all unused_provider ps" and "routed_calls (logged net) ro qs (make_router ps) (w, []) = (rt', w')"
    and "map_of (rt_providers rt') n = Some p" and "pv_credit_budget p \<noteq> 0"
  shows "billed p (snd w') \<le> pv_credit_budget p"
proof -
  let ?ps = "rt_providers (make_router ps)"
  have ok: "routed_ok (tariff_of (make_router ps)) (rt_providers rt')"
    and books: "unposted (rt_providers rt') (snd w') = unposted ?ps []"
    using run_charges [OF assms(1,2)] make_router_ok [OF assms(1)] by (simp_all add: charges_def)
  have "unposted ?ps [] n = Some (pv_attempted p - billed p (snd w'))"
    using assms(3) by (simp add: books [symmetric]) (simp add: unposted_def)
  then obtain q where "map_of ?ps n = Some q" "pv_attempted q = pv_attempted p - billed p (snd w')"
    by (auto simp: unposted_def)
  moreover have "pv_attempted q = 0" if "map_of ?ps n = Some q" for q
    using make_router_unused [OF assms(1)] that by (auto simp: unused_providers_def unused_provider_def)
  ultimately have "billed p (snd w') = pv_attempted p" by simp
  moreover have "pv_attempted p \<le> pv_credit_budget p"
    using ok assms(3,4) by (auto simp: routed_ok_def solvent_def)
  ultimately show ?thesis by simp
qed

text \<open>
  C26: A provider the router has blocked, after an authentication or quota error, is sent nothing by
  any later call.
\<close>

theorem blocked_provider_unused:
  assumes "list_all unused_provider ps" and "routed_calls (logged net) ro qs (make_router ps) (w, []) = (rt1, w1)"
    and "blocked rt1 n" and "routed_calls (logged net) ro qs' rt1 w1 = (rt2, w2)"
  shows "\<exists>new. snd w2 = new @ snd w1 \<and> (\<forall>e \<in> set new. event_name e \<noteq> n)"
proof -
  have ok: "routed_ok (tariff_of (make_router ps)) (rt_providers rt1)"
    using run_charges [OF assms(1,2)] make_router_ok [OF assms(1)] by (simp add: charges_def)
  from routed_calls_step [OF assms(4) ok, of n] assms(3) ok show ?thesis by (auto simp: charges_def)
qed


section \<open>A worked run\<close>

text \<open>An outside that answers each provider's requests with one value and grants every reservation.\<close>

definition sample_net :: "(string \<Rightarrow> int \<times> pyval) \<Rightarrow> unit net" where
  "sample_net answer =
     \<lparr>nt_monotonic = (\<lambda>w. (0, w)), nt_time = (\<lambda>w. (0, w)), nt_now = (\<lambda>w. (''now'', w)), nt_sleep = (\<lambda>s w. w),
      nt_acquire = (\<lambda>model method w. (Inr (), w)),
      nt_post = (\<lambda>name method params timeout w. ((0, Response \<lparr>hr_status = fst (answer name), hr_text = [], hr_reason = [],
        hr_retry_after = 0, hr_json = Some (PDict [(''result'', snd (answer name))])\<rparr>), w)),
      nt_allows = (\<lambda>name units w. (Inr True, w)), nt_reserve = (\<lambda>name units w. (Inr True, w)), nt_str = (\<lambda>v. [])\<rparr>"

definition sample_provider :: "string \<Rightarrow> int \<Rightarrow> provider" where
  "sample_provider name credits =
     \<lparr>pv_name = name, pv_url = ''u'', pv_secrets = [], pv_enhanced = True, pv_model = name, pv_timeout = 30,
      pv_history_timeout = 60, pv_max_retries = 1, pv_retry_base = 1, pv_retry_max = 5, pv_threshold = 2, pv_interval = 0,
      pv_method_intervals = [], pv_unsupported = [], pv_credit_budget = credits, pv_has_budget = True, pv_estimated = 0,
      pv_attempted = 0, pv_calls = [], pv_retries = [], pv_failures = [], pv_latency = [], pv_last_started = None,
      pv_consecutive = 0, pv_method_failures = [], pv_circuit = None, pv_method_circuits = [], pv_cooldowns = [],
      pv_last_error = None, pv_last_success = None\<rparr>"

definition sample_providers :: "provider list" where
  "sample_providers = [sample_provider ''helius'' 25, sample_provider ''alchemy'' 100]"

definition sample_routes :: routes where
  "sample_routes = make_routes (rt_providers (make_router sample_providers)) [] [] [] [] []"

definition slot_request :: routed_query where
  "slot_request = \<lparr>qy_method = ''getSlot'', qy_params = [], qy_preferred = None, qy_order = Some [''helius'', ''alchemy''],
     qy_timeout = None, qy_excluded = []\<rparr>"

definition sample_run :: "(string \<Rightarrow> int \<times> pyval) \<Rightarrow> routed_query list \<Rightarrow> router \<times> unit \<times> event list" where
  "sample_run answer qs = routed_calls (logged (sample_net answer)) sample_routes qs (make_router sample_providers) ((), [])"

definition denying :: "string \<Rightarrow> int \<times> pyval" where
  "denying name = (if name = ''helius'' then (401, PNone) else (200, PInt 7))"

lemma sample_unused: "list_all unused_provider sample_providers"
  by (simp add: sample_providers_def sample_provider_def unused_provider_def)

lemma sample_run_pair: "routed_calls (logged (sample_net answer)) sample_routes qs (make_router sample_providers) ((), []) =
   (fst (sample_run answer qs), snd (sample_run answer qs))"
  by (simp add: sample_run_def)

text \<open>Helius refuses the key: it is blocked, and the later request goes to Alchemy alone.\<close>

lemma denied_run:
  "rev (snd (snd (sample_run denying [slot_request, slot_request]))) =
     [Reserved ''helius'' 1, Posted ''helius'' ''getSlot'' [], Reserved ''alchemy'' 20, Posted ''alchemy'' ''getSlot'' [],
      Reserved ''alchemy'' 20, Posted ''alchemy'' ''getSlot'' []]"
  "map fst (rt_blocked (fst (sample_run denying [slot_request]))) = [''helius'']"
  by code_simp+

theorem routed_calls_paid_witness:
  "paid (tariff_of (make_router sample_providers)) (snd (snd (sample_run denying [slot_request, slot_request])))"
  by (rule routed_calls_paid [OF sample_unused sample_run_pair])

theorem routed_calls_within_credits_witness:
  "let (rt, w) = sample_run denying [slot_request, slot_request]
   in (case map_of (rt_providers rt) ''alchemy'' of None \<Rightarrow> False
       | Some p \<Rightarrow> pv_credit_budget p = 100 \<and> billed p (snd w) = 40 \<and> billed p (snd w) \<le> pv_credit_budget p)"
proof -
  have "case map_of (rt_providers (fst (sample_run denying [slot_request, slot_request]))) ''alchemy'' of None \<Rightarrow> False
     | Some p \<Rightarrow> pv_credit_budget p = 100 \<and> billed p (snd (snd (sample_run denying [slot_request, slot_request]))) = 40"
    by code_simp
  then obtain p where p: "map_of (rt_providers (fst (sample_run denying [slot_request, slot_request]))) ''alchemy'' = Some p"
    "pv_credit_budget p = 100" "billed p (snd (snd (sample_run denying [slot_request, slot_request]))) = 40"
    by (auto split: option.splits)
  have "billed p (snd (snd (sample_run denying [slot_request, slot_request]))) \<le> pv_credit_budget p"
    by (rule routed_calls_within_credits [OF sample_unused sample_run_pair p(1)]) (simp add: p(2))
  with p show ?thesis by (simp add: case_prod_unfold Let_def)
qed

theorem blocked_provider_unused_witness:
  "\<exists>new. snd (snd (routed_calls (logged (sample_net denying)) sample_routes [slot_request]
       (fst (sample_run denying [slot_request])) (snd (sample_run denying [slot_request])))) =
     new @ snd (snd (sample_run denying [slot_request])) \<and> (\<forall>e \<in> set new. event_name e \<noteq> ''helius'')"
proof (rule blocked_provider_unused [OF sample_unused sample_run_pair])
  show "blocked (fst (sample_run denying [slot_request])) ''helius''" by (simp only: blocked_def denied_run(2)) simp
  show "routed_calls (logged (sample_net denying)) sample_routes [slot_request]
       (fst (sample_run denying [slot_request])) (snd (sample_run denying [slot_request])) =
     (fst (routed_calls (logged (sample_net denying)) sample_routes [slot_request]
       (fst (sample_run denying [slot_request])) (snd (sample_run denying [slot_request]))),
      snd (routed_calls (logged (sample_net denying)) sample_routes [slot_request]
       (fst (sample_run denying [slot_request])) (snd (sample_run denying [slot_request]))))" by (rule prod.collapse [symmetric])
qed

section \<open>Answers\<close>

lemma try_provider_valid:
  assumes "try_provider net method params timeout name rt w = (Inr (v, limit), rt', w')"
  shows "\<exists>ps. (method \<noteq> HISTORY \<longrightarrow> ps = params) \<and> validate_result method ps v = Inr ()"
proof (cases "map_of (rt_providers rt) name")
  case None
  with assms show ?thesis by (simp add: try_provider_def)
next
  case (Some p)
  obtain ps p1 w1 where a: "provider_params net method params name p w = (Inr ps, p1, w1)"
    using assms Some by (auto simp: try_provider_def split: sum.splits prod.splits)
  then have "method \<noteq> HISTORY \<longrightarrow> ps = params" by (auto simp: provider_params_def)
  moreover have "validate_result method ps v = Inr ()"
    using assms Some a
    by (auto simp: try_provider_def Let_def check_result_def bindR_eq_Inr split: sum.splits prod.splits option.splits)
  ultimately show ?thesis by blast
qed

text \<open>The note of the page limit keeps an indexed page valid.\<close>

lemma finish_route_valid:
  assumes "validate_result method ps v = Inr ()" and "method \<noteq> HISTORY \<longrightarrow> ps = params"
  shows "validate_result method params (fst (fst (finish_route method v limit name rt))) = Inr ()"
proof (cases "method = HISTORY")
  case True
  with assms(1) show ?thesis
    by (cases v) (auto simp: finish_route_def validate_result_def invalid_def update_conv' split: if_split_asm)
next
  case False
  with assms show ?thesis by (simp add: finish_route_def)
qed

lemma route_names_valid:
  assumes "route_names net method params timeout ns msgs nulls rt w = (Inr (v, name), rt', w')"
    and "set ns \<subseteq> N" and "\<And>m. nulls = Some m \<Longrightarrow> m \<in> N \<and> method = ''getTransaction''"
  shows "name \<in> N \<and> validate_result method params v = Inr ()"
  using assms
proof (induction ns arbitrary: msgs nulls rt w)
  case Nil
  then show ?case by (auto simp: validate_result_def split: option.splits)
next
  case (Cons m ns)
  obtain x rt1 w1 where t: "try_provider net method params timeout m rt w = (x, rt1, w1)" by (metis prod.exhaust)
  have sub: "set ns \<subseteq> N" "m \<in> N" using Cons.prems(2) by auto
  show ?case
  proof (cases x)
    case (Inl e)
    obtain y rt2 w2 where y: "record_provider_error net m method e rt1 w1 = (y, rt2, w2)" by (metis prod.exhaust)
    from Cons.prems(1) t Inl y
    have "route_names net method params timeout ns (msgs @ [error_note m e]) nulls (failover_if (ns \<noteq> []) method rt2) w2 = (Inr (v, name), rt', w')"
      by (auto split: sum.splits if_split_asm)
    from Cons.IH [OF this sub(1) Cons.prems(3)] show ?thesis .
  next
    case (Inr a)
    obtain result limit where a: "a = (result, limit)" by (cases a)
    let ?rt = "rt1\<lparr>rt_calls := count_up (method @ '':'' @ m) (rt_calls rt1)\<rparr>"
    let ?rn = "?rt\<lparr>rt_nulls := count_up m (rt_nulls ?rt)\<rparr>"
    show ?thesis
    proof (cases "method = ''getTransaction'' \<and> result = PNone")
      case True
      with Cons.prems(1) t Inr a
      have "route_names net method params timeout ns msgs (Some m) (failover_if (ns \<noteq> []) method ?rn) w1 = (Inr (v, name), rt', w')"
        by (simp add: Let_def)
      from Cons.IH [OF this sub(1)] sub(2) True show ?thesis by auto
    next
      case False
      with Cons.prems(1) t Inr a have "(v, name) = fst (finish_route method result limit m ?rt)"
        by (auto simp: Let_def split: prod.splits)
      moreover from try_provider_valid [OF t [unfolded Inr a]]
      obtain ps where "method \<noteq> HISTORY \<longrightarrow> ps = params" "validate_result method ps result = Inr ()" by blast
      ultimately show ?thesis using finish_route_valid [of "method" ps result params limit m ?rt] sub(2)
        by (metis fst_conv finish_route_def snd_conv)
    qed
  qed
qed

lemma eligible_names_subset:
  assumes "eligible_names net method excluded ns rt w = (Inr xs, rt', w')"
  shows "set xs \<subseteq> {n \<in> set ns. n \<notin> set excluded}"
  using assms
proof (induction ns arbitrary: xs rt w)
  case Nil
  then show ?case by simp
next
  case (Cons n ns)
  then obtain b rt1 w1 q rt2 w2 where p: "probe net method excluded n rt w = (Inr b, rt1, w1)"
    and q: "eligible_names net method excluded ns rt1 w1 = (Inr q, rt2, w2)" and xs: "xs = (if b then n # q else q)"
    and out: "rt' = rt2" "w' = w2"
    by (auto simp: bindR_eq_Inr split: sum.splits prod.splits)
  from p have "b \<Longrightarrow> n \<notin> set excluded"
    by (auto simp: probe_def bindR_eq_Inr eligible_def split: option.splits prod.splits)
  with Cons.IH [OF q [folded out]] xs show ?case by auto
qed

lemma route_call_answer:
  assumes "route_call net ro method params preferred order timeout excluded rt w = (Inr (v, name), rt', w')"
  shows "name \<in> set (names_of preferred (route_order ro method order))" and "name \<notin> set excluded"
    and "validate_result method params v = Inr ()"
proof -
  from assms obtain xs rt1 w1
    where e: "eligible_names net method excluded (names_of preferred (route_order ro method order)) rt w = (Inr xs, rt1, w1)"
      and r: "route_names net method params timeout xs [] None rt1 w1 = (Inr (v, name), rt', w')"
    by (auto simp: route_call_def split: if_split_asm sum.splits prod.splits)
  from route_names_valid [OF r eligible_names_subset [OF e]]
  show "name \<in> set (names_of preferred (route_order ro method order))" and "name \<notin> set excluded"
    and "validate_result method params v = Inr ()" by simp_all
qed


definition slot_answer :: "(pyval \<times> string) res \<times> router \<times> unit" where
  "slot_answer = route_call (sample_net denying) sample_routes ''getSlot'' [] None (Some [''helius'', ''alchemy'']) None []
     (make_router sample_providers) ()"


section \<open>An answer that stops the call\<close>

definition history_request :: routed_query where
  "history_request = \<lparr>qy_method = HISTORY, qy_params = [PStr ''wallet'', PDict [(''limit'', PInt 100)]], qy_preferred = None,
     qy_order = Some [''helius'', ''alchemy''], qy_timeout = None, qy_excluded = []\<rparr>"

definition broken_page :: "string \<Rightarrow> int \<times> pyval" where
  "broken_page name = (if name = ''helius'' then (200, PDict []) else (200, PDict [(''data'', PList [])]))"


end
