(* ===== verification/Ranges.thy ===== *)
theory Ranges
  imports Prelude "HOL-Library.Product_Lexorder"
begin

text \<open>
  \<^verbatim>\<open>src/pool_history.py\<close>, the interval arithmetic: inclusive ranges of seconds, their merge, the
  complement inside a window, and the repair tasks that tile the complement.  A range list denotes
  the set of its seconds (\<open>seconds\<close>), which is the abstract specification of every operation here.
\<close>

named_theorems range_simps \<open>the set of seconds of a range list\<close>

type_synonym range = "int \<times> int"

definition seconds :: "range list \<Rightarrow> int set" where
  "seconds rs = (\<Union>(a, b) \<in> set rs. {a..b})"

lemma seconds_simps [simp, range_simps]:
  "seconds [] = {}"
  "seconds ((a, b) # rs) = {a..b} \<union> seconds rs"
  "seconds (rs @ rs') = seconds rs \<union> seconds rs'"
  by (auto simp: seconds_def)

lemma seconds_set_cong: "set rs = set rs' \<Longrightarrow> seconds rs = seconds rs'"
  by (simp add: seconds_def)

section \<open>merge_ranges\<close>

text \<open>The body of the loop: extend the last range or append a new one.\<close>

definition merge_add :: "range list \<Rightarrow> range \<Rightarrow> range list" where
  "merge_add merged r =
     (let (start, end) = r in
      if merged \<noteq> [] \<and> start \<le> snd (last merged) + 1
      then butlast merged @ [(fst (last merged), max (snd (last merged)) end)]
      else merged @ [(start, end)])"

definition merge_ranges :: "range list \<Rightarrow> range list" where
  "merge_ranges ranges = foldl merge_add [] (sort (filter (\<lambda>(a, b). b \<ge> a) ranges))"

text \<open>Normal form: each range is nonempty and ends at least two seconds before the next one.\<close>

fun normal :: "range list \<Rightarrow> bool" where
  "normal [] = True"
| "normal [(a, b)] = (a \<le> b)"
| "normal ((a, b) # (c, d) # rs) = (a \<le> b \<and> b + 1 < c \<and> normal ((c, d) # rs))"

lemma normal_Cons_iff:
  "normal ((a, b) # rs) \<longleftrightarrow> a \<le> b \<and> normal rs \<and> (rs \<noteq> [] \<longrightarrow> b + 1 < fst (hd rs))"
  by (cases rs) auto

lemma normal_snoc:
  "normal (rs @ [(c, d)]) \<longleftrightarrow> normal rs \<and> c \<le> d \<and> (rs \<noteq> [] \<longrightarrow> snd (last rs) + 1 < c)"
proof (induction rs)
  case Nil
  then show ?case by simp
next
  case (Cons r rs)
  then show ?case by (cases r; cases rs) auto
qed

lemma normal_lower: "normal ((a, b) # rs) \<Longrightarrow> (c, d) \<in> set rs \<Longrightarrow> b + 1 < c \<and> c \<le> d"
proof (induction rs arbitrary: a b)
  case Nil
  then show ?case by simp
next
  case (Cons r rs)
  obtain x y where r: "r = (x, y)" by (cases r)
  with Cons.prems have n: "normal ((x, y) # rs)" and lt: "b + 1 < x" and "x \<le> y"
    by (auto simp: normal_Cons_iff)
  show ?case
  proof (cases "(c, d) = r")
    case True
    with r lt \<open>x \<le> y\<close> show ?thesis by simp
  next
    case False
    with Cons.prems(2) have "(c, d) \<in> set rs" by simp
    with n have "y + 1 < c \<and> c \<le> d" by (rule Cons.IH)
    with lt \<open>x \<le> y\<close> show ?thesis by linarith
  qed
qed

lemma normal_ne: "normal rs \<Longrightarrow> (a, b) \<in> set rs \<Longrightarrow> a \<le> b"
  by (induction rs rule: normal.induct) auto

lemma normal_append_cases:
  "normal (rs @ rs') \<Longrightarrow> normal rs \<and> normal rs'"
proof (induction rs)
  case Nil
  then show ?case by simp
next
  case (Cons r rs)
  then show ?case by (cases r) (cases rs; cases rs'; auto simp: normal_Cons_iff)
qed

lemma merge_add_normal:
  assumes "normal m" and "a \<le> b" and "m \<noteq> [] \<Longrightarrow> fst (last m) \<le> a"
  shows "normal (merge_add m (a, b)) \<and> seconds (merge_add m (a, b)) = seconds m \<union> {a..b}
    \<and> merge_add m (a, b) \<noteq> [] \<and> fst (last (merge_add m (a, b))) \<le> a"
proof (cases m rule: rev_cases)
  case Nil
  with assms show ?thesis by (simp add: merge_add_def)
next
  case (snoc m' r)
  obtain c d where r: "r = (c, d)" by (cases r)
  from assms(1) snoc r have cd: "c \<le> d" and ca: "c \<le> a"
    using assms(3) by (auto simp: normal_snoc)
  show ?thesis
  proof (cases "a \<le> d + 1")
    case True
    have "{c..max d b} = {c..d} \<union> {a..b}" using True cd ca assms(2) by auto
    with True snoc r assms cd ca show ?thesis
      by (auto simp: merge_add_def normal_snoc)
  next
    case False
    with snoc r assms cd show ?thesis
      using normal_snoc [of "m' @ [(c, d)]" a b] by (simp add: merge_add_def Un_assoc)
  qed
qed

lemma merge_fold:
  assumes "sorted rs" and "\<forall>(a, b) \<in> set rs. a \<le> b"
    and "normal m" and "m \<noteq> [] \<Longrightarrow> \<forall>(a, b) \<in> set rs. fst (last m) \<le> a"
  shows "normal (foldl merge_add m rs) \<and> seconds (foldl merge_add m rs) = seconds m \<union> seconds rs"
  using assms
proof (induction rs arbitrary: m)
  case Nil
  then show ?case by simp
next
  case (Cons r rs)
  obtain a b where r: "r = (a, b)" by (cases r)
  from Cons.prems r have step: "normal (merge_add m (a, b)) \<and>
      seconds (merge_add m (a, b)) = seconds m \<union> {a..b} \<and> merge_add m (a, b) \<noteq> [] \<and>
      fst (last (merge_add m (a, b))) \<le> a"
    by (intro merge_add_normal) auto
  have le: "\<forall>(c, d) \<in> set rs. a \<le> c"
    using Cons.prems(1) r by (auto simp: less_eq_prod_def)
  from step le have "\<forall>(c, d) \<in> set rs. fst (last (merge_add m (a, b))) \<le> c"
    by fastforce
  with Cons.IH [of "merge_add m (a, b)"] Cons.prems r step show ?case
    by (simp add: Un_assoc)
qed

lemma seconds_filter: "seconds (filter (\<lambda>(a, b). b \<ge> a) rs) = seconds rs"
  by (fastforce simp: seconds_def)

lemma merge_ranges_normal_seconds:
  "normal (merge_ranges rs) \<and> seconds (merge_ranges rs) = seconds rs"
proof -
  let ?f = "sort (filter (\<lambda>(a, b). b \<ge> a) rs)"
  have "normal (foldl merge_add [] ?f) \<and> seconds (foldl merge_add [] ?f) = seconds [] \<union> seconds ?f"
    by (rule merge_fold) auto
  moreover have "seconds ?f = seconds rs"
    using seconds_filter [of rs] seconds_set_cong [of ?f "filter (\<lambda>(a, b). b \<ge> a) rs"] by simp
  ultimately show ?thesis by (simp add: merge_ranges_def)
qed

lemma normal_merge_ranges [simp]: "normal (merge_ranges rs)"
  by (simp add: merge_ranges_normal_seconds)

lemma seconds_merge_ranges [simp, range_simps]: "seconds (merge_ranges rs) = seconds rs"
  by (simp add: merge_ranges_normal_seconds)

section \<open>missing_ranges and missing_seconds\<close>

fun missing_loop :: "range list \<Rightarrow> int \<Rightarrow> int \<Rightarrow> range list" where
  "missing_loop [] start end = (if start \<le> end then [(start, end)] else [])"
| "missing_loop ((lower, upper) # rs) start end =
     (if upper < start then missing_loop rs start end
      else if lower > end then (if start \<le> end then [(start, end)] else [])
      else (if lower > start then [(start, min end (lower - 1))] else []) @
           missing_loop rs (max start (upper + 1)) end)"

definition missing_ranges :: "range list \<Rightarrow> int \<Rightarrow> int \<Rightarrow> range list" where
  "missing_ranges ranges start end = missing_loop (merge_ranges ranges) start end"

definition missing_seconds :: "range list \<Rightarrow> int \<Rightarrow> int \<Rightarrow> int" where
  "missing_seconds ranges start end =
     sum_list (map (\<lambda>(a, b). b - a + 1) (missing_ranges ranges start end))"

lemma missing_loop_bounds:
  "(a, b) \<in> set (missing_loop rs s e) \<Longrightarrow> s \<le> a \<and> a \<le> b \<and> b \<le> e"
proof (induction rs s e rule: missing_loop.induct)
  case (1 s e)
  then show ?case by (simp split: if_splits)
next
  case (2 l u rs s e)
  consider "u < s" | "\<not> u < s" "l > e" | "\<not> u < s" "\<not> l > e" by blast
  then show ?case
  proof cases
    case 1
    with 2 show ?thesis by simp
  next
    case 2
    with "2.prems" show ?thesis by (simp split: if_splits)
  next
    case 3
    with "2.prems" have "s < l \<and> a = s \<and> b = min e (l - 1) \<or>
        (a, b) \<in> set (missing_loop rs (max s (u + 1)) e)"
      by (auto split: if_splits)
    with "2.IH"(2) 3 show ?thesis by fastforce
  qed
qed

lemma missing_loop_seconds:
  "normal rs \<Longrightarrow> seconds (missing_loop rs s e) = {s..e} - seconds rs"
proof (induction rs s e rule: missing_loop.induct)
  case (1 s e)
  then show ?case by simp
next
  case (2 l u rs s e)
  from "2.prems" have n: "normal rs" and lu: "l \<le> u" by (auto simp: normal_Cons_iff)
  have above: "x \<in> seconds rs \<Longrightarrow> u + 1 < x" for x
    using normal_lower [OF "2.prems"] by (fastforce simp: seconds_def)
  consider "u < s" | "\<not> u < s" "l > e" | "\<not> u < s" "\<not> l > e" by blast
  then show ?case
  proof cases
    case 1
    with "2.IH"(1) n show ?thesis by auto
  next
    case 2
    then have "{s..e} \<inter> seconds rs = {}" using above lu by fastforce
    with 2 show ?thesis by auto
  next
    case 3
    have rec: "seconds (missing_loop rs (max s (u + 1)) e) = {max s (u + 1)..e} - seconds rs"
      using "2.IH"(2) 3 n by blast
    have "{s..min e (l - 1)} \<inter> seconds rs = {}" using above lu by fastforce
    with 3 rec lu show ?thesis by (auto simp: max_def)
  qed
qed

lemma missing_loop_normal: "normal rs \<Longrightarrow> normal (missing_loop rs s e)"
proof (induction rs s e rule: missing_loop.induct)
  case (1 s e)
  then show ?case by simp
next
  case (2 l u rs s e)
  from "2.prems" have n: "normal rs" and lu: "l \<le> u" by (auto simp: normal_Cons_iff)
  let ?t = "missing_loop rs (max s (u + 1)) e"
  have "?t \<noteq> [] \<Longrightarrow> u + 1 \<le> fst (hd ?t)"
    using missing_loop_bounds [of "fst (hd ?t)" "snd (hd ?t)" rs "max s (u + 1)" e]
    by (cases ?t) (auto simp del: missing_loop.simps)
  with 2 n lu show ?case by (auto simp: normal_Cons_iff min_def)
qed

lemma seconds_missing_ranges [simp, range_simps]:
  "seconds (missing_ranges rs s e) = {s..e} - seconds rs"
  by (simp add: missing_ranges_def missing_loop_seconds)

lemma normal_missing_ranges [simp]: "normal (missing_ranges rs s e)"
  by (simp add: missing_ranges_def missing_loop_normal)

lemma finite_seconds [simp]: "finite (seconds rs)"
  by (auto simp: seconds_def)

lemma normal_total:
  "normal rs \<Longrightarrow> sum_list (map (\<lambda>(a, b). b - a + 1) rs) = int (card (seconds rs))"
proof (induction rs)
  case Nil
  then show ?case by simp
next
  case (Cons r rs)
  obtain a b where r: "r = (a, b)" by (cases r)
  with Cons.prems have n: "normal rs" and ab: "a \<le> b" by (auto simp: normal_Cons_iff)
  have "{a..b} \<inter> seconds rs = {}"
    using normal_lower [of a b rs] Cons.prems r by (fastforce simp: seconds_def)
  then have "card ({a..b} \<union> seconds rs) = card {a..b} + card (seconds rs)"
    by (intro card_Un_disjoint) auto
  with Cons.IH n r ab show ?case by simp
qed

end
