(* ===== verification/Pool_Tasks.thy ===== *)
theory Pool_Tasks
  imports Ranges
begin

text \<open>
  \<^verbatim>\<open>src/pool_history.py\<close>: the repair tasks and \<open>reconcile_tasks\<close>, which tiles the seconds that are
  not covered yet with the tasks that still fit and new tasks for the gaps between them.
\<close>

section \<open>Repair tasks\<close>

record task =
  t_from :: "int option"
  t_to :: "int option"
  t_remaining :: "int option"
  t_cursor :: "string option"
  t_provider :: "string option"

text \<open>\<open>{"from": a, "to": b, "remaining_to": b}\<close>\<close>

definition gap_task :: "int \<Rightarrow> int \<Rightarrow> task" where
  "gap_task a b = \<lparr>t_from = Some a, t_to = Some b, t_remaining = Some b, t_cursor = None, t_provider = None\<rparr>"

text \<open>\<open>int(task.get("from") or 0)\<close> and \<open>int(task.get("remaining_to", task.get("to") or 0))\<close>\<close>

definition task_a :: "task \<Rightarrow> int" where
  "task_a t = (case t_from t of None \<Rightarrow> 0 | Some a \<Rightarrow> a)"

definition task_b :: "task \<Rightarrow> int" where
  "task_b t = (case t_remaining t of Some b \<Rightarrow> b
     | None \<Rightarrow> (case t_to t of None \<Rightarrow> 0 | Some b \<Rightarrow> b))"

abbreviation task_range :: "task \<Rightarrow> range" where
  "task_range t \<equiv> (task_a t, task_b t)"

lemma gap_task_simps [simp]:
  "task_a (gap_task a b) = a" "task_b (gap_task a b) = b"
  "t_from (gap_task a b) = Some a" "t_to (gap_task a b) = Some b"
  "t_remaining (gap_task a b) = Some b"
  "t_cursor (gap_task a b) = None" "t_provider (gap_task a b) = None"
  by (simp_all add: gap_task_def task_a_def task_b_def)

text \<open>The inner loop of \<open>reconcile_tasks\<close> over one missing range.\<close>

fun tile :: "task list \<Rightarrow> int \<Rightarrow> int \<Rightarrow> task list" where
  "tile [] lower upper = (if lower \<le> upper then [gap_task lower upper] else [])"
| "tile (t # ts) lower upper =
     (let a = task_a t; b = task_b t in
      if a < lower \<or> b > upper \<or> b < a then tile ts lower upper
      else (if lower < a then [gap_task lower (a - 1)] else []) @ t # tile ts (b + 1) upper)"

definition reconcile_tasks :: "task list \<Rightarrow> range list \<Rightarrow> int \<Rightarrow> int \<Rightarrow> task list" where
  "reconcile_tasks tasks covered start end =
     concat (map (\<lambda>(lower, upper). tile (sort_key task_a tasks) lower upper)
                 (missing_ranges covered start end))"

text \<open>The ranges of consecutive tasks: each one starts right after the one before.\<close>

fun tiling :: "range list \<Rightarrow> int \<Rightarrow> int \<Rightarrow> bool" where
  "tiling [] l u \<longleftrightarrow> u < l"
| "tiling ((a, b) # rs) l u \<longleftrightarrow> a = l \<and> a \<le> b \<and> b \<le> u \<and> tiling rs (b + 1) u"

lemma tiling_tile: "tiling (map task_range (tile ts l u)) l u"
proof (induction ts arbitrary: l)
  case Nil
  then show ?case by simp
next
  case (Cons t ts)
  then show ?case by (auto simp: Let_def)
qed

lemma tiling_seconds: "tiling rs l u \<Longrightarrow> seconds rs = {l..u}"
proof (induction rs l u rule: tiling.induct)
  case (1 l u)
  then show ?case by simp
next
  case (2 a b rs l u)
  then have "seconds rs = {b + 1..u}" and "l \<le> b" "b \<le> u" "a = l" by auto
  then show ?case by auto
qed

lemma tiling_disjoint: "tiling rs l u \<Longrightarrow> sorted_wrt (\<lambda>r r'. snd r < fst r') rs"
proof (induction rs l u rule: tiling.induct)
  case (1 l u)
  then show ?case by simp
next
  case (2 a b rs l u)
  then have t: "tiling rs (b + 1) u" by simp
  have "(c, d) \<in> set rs \<Longrightarrow> b < c" for c d
  proof -
    assume m: "(c, d) \<in> set rs"
    have "tiling rs l' u' \<Longrightarrow> (c, d) \<in> set rs \<Longrightarrow> l' \<le> c" for l' u'
      by (induction rs l' u' rule: tiling.induct) fastforce+
    from this [OF t m] show "b < c" by simp
  qed
  with 2 t show ?case by auto
qed

lemma tile_origin: "t \<in> set (tile ts l u) \<Longrightarrow> t \<in> set ts \<or> (\<exists>a b. t = gap_task a b)"
  by (induction ts arbitrary: l) (auto simp: Let_def split: if_splits)

lemma reconcile_origin:
  "t \<in> set (reconcile_tasks ts c s e) \<Longrightarrow> t \<in> set ts \<or> (\<exists>a b. t = gap_task a b)"
  by (auto simp: reconcile_tasks_def dest!: tile_origin)

lemma seconds_concat: "seconds (concat rss) = (\<Union>rs \<in> set rss. seconds rs)"
  by (auto simp: seconds_def)

lemma seconds_tile: "seconds (map task_range (tile ts l u)) = {l..u}"
  by (rule tiling_seconds [OF tiling_tile])

lemma seconds_reconcile:
  "seconds (map task_range (reconcile_tasks ts c s e)) = {s..e} - seconds c"
proof -
  have "seconds (map task_range (reconcile_tasks ts c s e)) =
      (\<Union>(l, u) \<in> set (missing_ranges c s e). {l..u})"
    by (auto simp: reconcile_tasks_def map_concat seconds_concat seconds_tile)
  also have "\<dots> = seconds (missing_ranges c s e)" by (simp add: seconds_def)
  finally show ?thesis by simp
qed

lemma tile_bounds: "t \<in> set (tile ts l u) \<Longrightarrow> l \<le> task_a t \<and> task_a t \<le> task_b t \<and> task_b t \<le> u"
proof -
  assume "t \<in> set (tile ts l u)"
  then have m: "task_range t \<in> set (map task_range (tile ts l u))" by auto
  have "tiling rs l' u \<Longrightarrow> (a, b) \<in> set rs \<Longrightarrow> l' \<le> a \<and> a \<le> b \<and> b \<le> u" for rs l' a b
    by (induction rs l' u rule: tiling.induct) fastforce+
  from this [OF tiling_tile m] show ?thesis .
qed

lemma sorted_wrt_concat_tiles:
  "normal rs \<Longrightarrow>
     sorted_wrt (\<lambda>r r'. snd r < fst r') (map task_range (concat (map (\<lambda>(l, u). tile ts l u) rs)))"
proof (induction rs)
  case Nil
  then show ?case by simp
next
  case (Cons r rs)
  obtain l u where r: "r = (l, u)" by (cases r)
  with Cons.prems have n: "normal rs" by (simp add: normal_Cons_iff)
  have "task_b t < task_a t'"
    if "t \<in> set (tile ts l u)" "(l', u') \<in> set rs" "t' \<in> set (tile ts l' u')" for t t' l' u'
    using tile_bounds [OF that(1)] tile_bounds [OF that(3)] normal_lower [of l u rs l' u'] Cons.prems r that(2)
    by simp
  then show ?case
    using Cons.IH [OF n] tiling_disjoint [OF tiling_tile, of ts l u] r
    by (auto simp: sorted_wrt_append)
qed

lemma reconcile_disjoint:
  "sorted_wrt (\<lambda>r r'. snd r < fst r') (map task_range (reconcile_tasks ts c s e))"
  unfolding reconcile_tasks_def by (rule sorted_wrt_concat_tiles) simp

end
