(* ===== verification/Read_Range.thy ===== *)
theory Read_Range
  imports Pool_Tasks
begin

text \<open>
  \<^verbatim>\<open>src/pool_history.py\<close>, \<open>read_range\<close>: the paginated read of one range with provider failover.

  The transport is a parameter: \<open>fetch\<close> is the callback \<open>fetch_page\<close> (RPC providers) and
  \<open>nextp\<close> the callback \<open>next_provider\<close>; both thread a world of any type, so an answer may depend
  on time and on earlier calls.  The only caller always passes a \<open>next_provider\<close>; a missing one
  is the function that answers \<open>None\<close>.

  The loop runs on fuel, \<open>None\<close> being "still running"; the locale \<open>failover_source\<close> states what
  the router promises of \<open>next_provider\<close> and shows how much fuel is enough.
\<close>

named_theorems read_simps \<open>definitions of one iteration of the paginated read\<close>

section \<open>Transactions, pages, requests\<close>

text \<open>A transaction: \<open>int(tx.get("blockTime") or 0)\<close>, its first signature, \<open>transactionIndex or 0\<close>.\<close>

record tx =
  tx_time :: int
  tx_sig :: "string option"
  tx_index :: int

record page =
  pg_provider :: "string option"      \<comment> \<open>\<open>_provider\<close>\<close>
  pg_data :: "tx list option"         \<comment> \<open>\<open>data\<close>; \<open>None\<close> when it is not a list\<close>
  pg_token :: "string option"         \<comment> \<open>\<open>paginationToken\<close>\<close>
  pg_limit :: "int option"            \<comment> \<open>\<open>_page_limit\<close>\<close>

record request =
  rq_limit :: int
  rq_token :: "string option"
  rq_provider :: "string option"
  rq_excluded :: "string list"
  rq_task :: string
  rq_gte :: int
  rq_lte :: int

type_synonym 'w fetcher = "request \<Rightarrow> 'w \<Rightarrow> page res \<times> 'w"
type_synonym 'w failover = "string list \<Rightarrow> string \<Rightarrow> 'w \<Rightarrow> string option \<times> 'w"

definition truthy_opt :: "string option \<Rightarrow> bool" where
  "truthy_opt s = (case s of None \<Rightarrow> False | Some t \<Rightarrow> t \<noteq> [])"

lemma truthy_opt_simps [simp]:
  "\<not> truthy_opt None" "truthy_opt (Some s) \<longleftrightarrow> s \<noteq> []"
  by (simp_all add: truthy_opt_def)

lemma truthy_optE: "truthy_opt s \<Longrightarrow> (\<And>t. s = Some t \<Longrightarrow> t \<noteq> [] \<Longrightarrow> P) \<Longrightarrow> P"
  by (cases s) auto

section \<open>The state of the loop\<close>

record rr =
  rr_from :: int
  rr_to :: int
  rr_cursor :: "string option"
  rr_provider :: "string option"
  rr_excluded :: "string list"
  rr_txs :: "tx list"
  rr_covered :: "range list"
  rr_remaining :: int
  rr_pages :: int
  rr_count :: int
  rr_used :: "string list"
  rr_failovers :: "(string option \<times> string \<times> string) list"
  rr_complete :: bool
  rr_stalled :: bool
  rr_error :: "string option"
  rr_page_limit :: "int option"
  rr_oldest :: "int option"
  rr_newest :: "int option"
  rr_handoff :: "(string \<times> string) option"

datatype 's outcome = Next 's | Stop 's | Raised pyexc

text \<open>\<open>except (AssertionError, KeyError, TypeError, AttributeError): raise\<close>\<close>

fun reraised :: "pyexc \<Rightarrow> bool" where
  "reraised AssertionError = True"
| "reraised KeyError = True"
| "reraised TypeError = True"
| "reraised AttributeError = True"
| "reraised _ = False"

fun exc_str :: "pyexc \<Rightarrow> string" where
  "exc_str (ValueError m) = m"
| "exc_str (RuntimeError m) = m"
| "exc_str (RpcError c m) = m"
| "exc_str _ = []"

section \<open>One iteration\<close>

text \<open>\<open>str(result.get("_provider") or provider or "helius")\<close>\<close>

definition actual_provider :: "page \<Rightarrow> string option \<Rightarrow> string" where
  "actual_provider pg prov =
     (case pg_provider pg of
        Some p \<Rightarrow> if p \<noteq> [] then p else (case prov of Some q \<Rightarrow> if q \<noteq> [] then q else ''helius'' | None \<Rightarrow> ''helius'')
      | None \<Rightarrow> (case prov of Some q \<Rightarrow> if q \<noteq> [] then q else ''helius'' | None \<Rightarrow> ''helius''))"

definition page_batch :: "rr \<Rightarrow> page \<Rightarrow> tx list res" where
  "page_batch s pg =
     (case pg_data pg of
        None \<Rightarrow> Inl (ValueError ''invalid indexed history page'')
      | Some batch \<Rightarrow>
          if list_ex (\<lambda>t. \<not> (rr_from s \<le> tx_time t \<and> tx_time t \<le> rr_to s) \<or> tx_time t \<le> 0) batch
          then Inl (ValueError ''history page has missing or out-of-range timestamps'')
          else if list_ex (\<lambda>t. \<not> truthy_opt (tx_sig t)) batch
          then Inl (ValueError ''history page has missing transaction signatures'')
          else Inr batch)"

text \<open>The \<open>except Exception\<close> branch: exclude the provider, fail over or stop with the error.\<close>

definition rr_fail :: "'w failover \<Rightarrow> string \<Rightarrow> pyexc \<Rightarrow> rr \<Rightarrow> 'w \<Rightarrow> rr outcome \<times> 'w" where
  "rr_fail nextp kind exc s w =
     (let ex = (if truthy_opt (rr_provider s) then insert_new (the (rr_provider s)) (rr_excluded s)
                else rr_excluded s);
          (replacement, w') = nextp ex kind w
      in if \<not> truthy_opt replacement
         then (Stop (s\<lparr>rr_excluded := ex, rr_error := Some (take 300 (exc_str exc))\<rparr>), w')
         else (Next (s\<lparr>rr_excluded := ex,
                 rr_failovers := rr_failovers s @ [(rr_provider s, the replacement, take 200 (exc_str exc))],
                 rr_provider := replacement, rr_cursor := None, rr_to := rr_remaining s\<rparr>), w'))"

text \<open>The part after the \<open>try\<close>: bookkeeping, coverage and the next cursor.\<close>

definition rr_book :: "int \<Rightarrow> page \<Rightarrow> tx list \<Rightarrow> string \<Rightarrow> rr \<Rightarrow> rr" where
  "rr_book limit pg batch actual s =
     (let times = map tx_time batch in
      s\<lparr>rr_provider := Some actual, rr_used := insert_new actual (rr_used s),
        rr_pages := rr_pages s + 1, rr_count := rr_count s + int (length batch),
        rr_page_limit := Some (case pg_limit pg of None \<Rightarrow> limit | Some l \<Rightarrow> l),
        rr_txs := rr_txs s @ batch,
        rr_oldest := (if times = [] then rr_oldest s else
          Some (case rr_oldest s of None \<Rightarrow> Min (set times) | Some o' \<Rightarrow> min (Min (set times)) o')),
        rr_newest := (if times = [] then rr_newest s else
          Some (case rr_newest s of None \<Rightarrow> Max (set times) | Some n \<Rightarrow> max (Max (set times)) n))\<rparr>)"

definition rr_cover :: "tx list \<Rightarrow> rr \<Rightarrow> rr" where
  "rr_cover batch s =
     (if batch \<noteq> [] \<and> Min (tx_time ` set batch) < rr_remaining s
      then s\<lparr>rr_covered := rr_covered s @ [(Min (tx_time ` set batch) + 1, rr_remaining s)],
             rr_remaining := Min (tx_time ` set batch)\<rparr>
      else s)"

definition rr_accept :: "int \<Rightarrow> page \<Rightarrow> tx list \<Rightarrow> string \<Rightarrow> rr \<Rightarrow> rr outcome" where
  "rr_accept limit pg batch actual s =
     (let s1 = rr_book limit pg batch actual s in
      if \<not> truthy_opt (pg_token pg)
      then Stop (s1\<lparr>rr_covered := rr_covered s1 @ [(rr_from s1, rr_to s1)],
                    rr_complete := True, rr_cursor := None\<rparr>)
      else let s2 = rr_cover batch s1 in
           if batch = [] \<or> pg_token pg = rr_cursor s2
           then Stop (s2\<lparr>rr_stalled := True, rr_cursor := None, rr_to := rr_remaining s2\<rparr>)
           else Next (s2\<lparr>rr_cursor := pg_token pg\<rparr>))"

definition rr_request :: "int \<Rightarrow> string \<Rightarrow> rr \<Rightarrow> request" where
  "rr_request limit kind s =
     \<lparr>rq_limit = limit, rq_token = rr_cursor s, rq_provider = rr_provider s,
      rq_excluded = rr_excluded s, rq_task = kind, rq_gte = rr_from s, rq_lte = rr_to s\<rparr>"

definition rr_step ::
    "'w fetcher \<Rightarrow> 'w failover \<Rightarrow> int \<Rightarrow> string \<Rightarrow> rr \<Rightarrow> 'w \<Rightarrow> rr outcome \<times> 'w" where
  "rr_step fetch nextp limit kind s w =
     (case fetch (rr_request limit kind s) w of
        (Inl e, w1) \<Rightarrow> if reraised e then (Raised e, w1) else rr_fail nextp kind e s w1
      | (Inr pg, w1) \<Rightarrow>
          let actual = actual_provider pg (rr_provider s); s1 = s\<lparr>rr_provider := Some actual\<rparr> in
          case page_batch s1 pg of
            Inl e \<Rightarrow> if reraised e then (Raised e, w1) else rr_fail nextp kind e s1 w1
          | Inr batch \<Rightarrow> (rr_accept limit pg batch actual s1, w1))"

section \<open>The loop and the whole read\<close>

fun rr_loop ::
    "nat \<Rightarrow> 'w fetcher \<Rightarrow> 'w failover \<Rightarrow> int \<Rightarrow> int \<Rightarrow> string \<Rightarrow> rr \<Rightarrow> 'w \<Rightarrow> (rr res \<times> 'w) option" where
  "rr_loop 0 fetch nextp pages limit kind s w = None"
| "rr_loop (Suc fuel) fetch nextp pages limit kind s w =
     (if rr_pages s < pages
      then (case rr_step fetch nextp limit kind s w of
              (Next s', w') \<Rightarrow> rr_loop fuel fetch nextp pages limit kind s' w'
            | (Stop s', w') \<Rightarrow> Some (Inr s', w')
            | (Raised e, w') \<Rightarrow> Some (Inl e, w'))
      else Some (Inr s, w))"

text \<open>\<open>remaining_to = int(current.get("remaining_to", current["to"]))\<close> and the archive handoff.\<close>

definition rr_init :: "task \<Rightarrow> int \<Rightarrow> int \<Rightarrow> rr" where
  "rr_init t a b =
     \<lparr>rr_from = a, rr_to = b, rr_cursor = t_cursor t, rr_provider = t_provider t, rr_excluded = [],
      rr_txs = [], rr_covered = [], rr_remaining = (case t_remaining t of None \<Rightarrow> b | Some r \<Rightarrow> r),
      rr_pages = 0, rr_count = 0, rr_used = [], rr_failovers = [], rr_complete = False,
      rr_stalled = False, rr_error = None, rr_page_limit = None, rr_oldest = None, rr_newest = None,
      rr_handoff = None\<rparr>"

definition rr_handoff_step :: "'w failover \<Rightarrow> string \<Rightarrow> rr \<Rightarrow> 'w \<Rightarrow> rr \<times> 'w" where
  "rr_handoff_step nextp kind s w =
     (if kind = ''archive'' \<and> truthy_opt (rr_provider s)
      then let (preferred, w') = nextp [] kind w in
           if truthy_opt preferred \<and> preferred \<noteq> rr_provider s
           then (s\<lparr>rr_handoff := Some (the (rr_provider s), the preferred), rr_provider := preferred,
                   rr_cursor := None, rr_to := rr_remaining s\<rparr>, w')
           else (s, w')
      else (s, w))"

text \<open>What the read returns besides its transactions and ranges: the task that is left, if any.\<close>

definition rr_pending :: "rr \<Rightarrow> task option" where
  "rr_pending s =
     (if rr_complete s then None
      else Some \<lparr>t_from = Some (rr_from s), t_to = Some (rr_to s), t_remaining = Some (rr_remaining s),
                 t_cursor = rr_cursor s, t_provider = rr_provider s\<rparr>)"

definition read_range ::
    "nat \<Rightarrow> 'w fetcher \<Rightarrow> 'w failover \<Rightarrow> task \<Rightarrow> int \<Rightarrow> int \<Rightarrow> string \<Rightarrow> 'w
       \<Rightarrow> ((tx list \<times> range list \<times> task option \<times> rr) res \<times> 'w) option" where
  "read_range fuel fetch nextp t pages limit kind w =
     (case (t_from t, t_to t) of
        (Some a, Some b) \<Rightarrow>
          (case rr_handoff_step nextp kind (rr_init t a b) w of (s, w1) \<Rightarrow>
             map_option
               (\<lambda>(r, w'). (bindR r (\<lambda>s'. Inr (rr_txs s', rr_covered s', rr_pending s', s')), w'))
               (rr_loop fuel fetch nextp pages limit kind s w1))
      | _ \<Rightarrow> Some (Inl KeyError, w))"

section \<open>What one iteration can do\<close>

lemma rr_fail_cases:
  assumes "rr_fail nextp kind e s w = (out, w')"
  obtains (stop) ex err where "out = Stop (s\<lparr>rr_excluded := ex, rr_error := err\<rparr>)"
    | (failover) p ex fs where "out = Next (s\<lparr>rr_excluded := ex, rr_failovers := fs,
          rr_provider := Some p, rr_cursor := None, rr_to := rr_remaining s\<rparr>)" "p \<noteq> []"
          "nextp ex kind w = (Some p, w')"
          "ex = (if truthy_opt (rr_provider s) then insert_new (the (rr_provider s)) (rr_excluded s)
                 else rr_excluded s)"
proof -
  define ex where "ex = (if truthy_opt (rr_provider s)
    then insert_new (the (rr_provider s)) (rr_excluded s) else rr_excluded s)"
  obtain r w1 where n: "nextp ex kind w = (r, w1)" by fastforce
  show thesis
  proof (cases r)
    case None
    with n assms have "out = Stop (s\<lparr>rr_excluded := ex, rr_error := Some (take 300 (exc_str e))\<rparr>)"
      by (auto simp: rr_fail_def ex_def [symmetric])
    then show thesis by (rule stop)
  next
    case (Some p)
    show thesis
    proof (cases "p = []")
      case True
      with n Some assms
      have "out = Stop (s\<lparr>rr_excluded := ex, rr_error := Some (take 300 (exc_str e))\<rparr>)"
        by (auto simp: rr_fail_def ex_def [symmetric])
      then show thesis by (rule stop)
    next
      case False
      with n Some assms have "nextp ex kind w = (Some p, w')"
        "out = Next (s\<lparr>rr_excluded := ex,
           rr_failovers := rr_failovers s @ [(rr_provider s, p, take 200 (exc_str e))],
           rr_provider := Some p, rr_cursor := None, rr_to := rr_remaining s\<rparr>)"
        by (auto simp: rr_fail_def ex_def [symmetric])
      from this(2) False this(1) ex_def show thesis by (rule failover)
    qed
  qed
qed

lemma rr_step_cases:
  assumes "rr_step fetch nextp limit kind s w = (out, w')"
  obtains (raised) e where "out = Raised e" "reraised e"
    | (fail) e w1 s1 where "rr_fail nextp kind e s1 w1 = (out, w')" "\<not> reraised e"
        "s1 = s \<or> (\<exists>pg w2. fetch (rr_request limit kind s) w = (Inr pg, w2) \<and>
           s1 = s\<lparr>rr_provider := Some (actual_provider pg (rr_provider s))\<rparr>)"
    | (accept) pg batch where "fetch (rr_request limit kind s) w = (Inr pg, w')"
        "page_batch s pg = Inr batch"
        "out = rr_accept limit pg batch (actual_provider pg (rr_provider s)) s"
proof -
  have pb: "page_batch (s\<lparr>rr_provider := p\<rparr>) pg = page_batch s pg" for p pg
    by (simp add: page_batch_def split: option.split)
  have ra: "rr_accept limit pg batch a (s\<lparr>rr_provider := Some p\<rparr>) = rr_accept limit pg batch a s"
    for pg batch a p
    by (simp add: rr_accept_def rr_book_def Let_def)
  show thesis
  proof (cases "fetch (rr_request limit kind s) w")
    case (Pair r w1)
    show thesis
    proof (cases r)
      case (Inl e)
      with Pair assms show thesis
        by (cases "reraised e") (auto simp: rr_step_def intro: raised fail)
    next
      case (Inr pg)
      show thesis
      proof (cases "page_batch s pg")
        case (Inl e)
        with Pair Inr assms show thesis
          by (cases "reraised e") (auto simp: rr_step_def Let_def pb intro: raised fail)
      next
        case (Inr batch)
        with Pair \<open>r = Inr pg\<close> assms show thesis
          by (auto simp: rr_step_def Let_def pb ra intro: accept)
      qed
    qed
  qed
qed

lemma page_batchD:
  assumes "page_batch s pg = Inr batch"
  shows "pg_data pg = Some batch" and "t \<in> set batch \<Longrightarrow> rr_from s \<le> tx_time t \<and> tx_time t \<le> rr_to s"
    and "t \<in> set batch \<Longrightarrow> 0 < tx_time t" and "t \<in> set batch \<Longrightarrow> truthy_opt (tx_sig t)"
  using assms by (auto simp: page_batch_def list_ex_iff split: option.splits if_splits)

lemma rr_book_frame [simp]:
  "rr_from (rr_book l pg b a s) = rr_from s" "rr_to (rr_book l pg b a s) = rr_to s"
  "rr_cursor (rr_book l pg b a s) = rr_cursor s" "rr_provider (rr_book l pg b a s) = Some a"
  "rr_excluded (rr_book l pg b a s) = rr_excluded s" "rr_txs (rr_book l pg b a s) = rr_txs s @ b"
  "rr_covered (rr_book l pg b a s) = rr_covered s" "rr_remaining (rr_book l pg b a s) = rr_remaining s"
  "rr_pages (rr_book l pg b a s) = rr_pages s + 1" "rr_complete (rr_book l pg b a s) = rr_complete s"
  "rr_count (rr_book l pg b a s) = rr_count s + int (length b)"
  by (simp_all add: rr_book_def Let_def)

lemma rr_cover_frame [simp]:
  "rr_from (rr_cover b s) = rr_from s" "rr_to (rr_cover b s) = rr_to s"
  "rr_cursor (rr_cover b s) = rr_cursor s" "rr_provider (rr_cover b s) = rr_provider s"
  "rr_excluded (rr_cover b s) = rr_excluded s" "rr_txs (rr_cover b s) = rr_txs s"
  "rr_pages (rr_cover b s) = rr_pages s" "rr_complete (rr_cover b s) = rr_complete s"
  "rr_count (rr_cover b s) = rr_count s"
  by (simp_all add: rr_cover_def)

section \<open>Bounds: what is covered lies inside the range that was asked for\<close>

text \<open>\<open>rr_bounds a z s\<close>: reading \<open>[a, z]\<close>, the state never leaves it.\<close>

definition rr_bounds :: "int \<Rightarrow> int \<Rightarrow> rr \<Rightarrow> bool" where
  "rr_bounds a z s \<longleftrightarrow> rr_from s = a \<and> rr_remaining s \<le> rr_to s \<and> rr_to s \<le> z \<and>
     seconds (rr_covered s) \<subseteq> {a..z} \<and>
     (\<forall>t \<in> set (rr_txs s). a \<le> tx_time t \<and> tx_time t \<le> z \<and> truthy_opt (tx_sig t))"

fun outcome_all :: "('s \<Rightarrow> bool) \<Rightarrow> 's outcome \<Rightarrow> bool" where
  "outcome_all P (Next s) = P s"
| "outcome_all P (Stop s) = P s"
| "outcome_all P (Raised e) = True"

lemma rr_cover_bounds:
  assumes "rr_bounds a z s" and "set batch \<subseteq> set (rr_txs s)"
  shows "rr_bounds a z (rr_cover batch s)"
proof (cases "batch \<noteq> [] \<and> Min (tx_time ` set batch) < rr_remaining s")
  case True
  define m where "m = Min (tx_time ` set batch)"
  from True have "m \<in> tx_time ` set batch" unfolding m_def by (intro Min_in) auto
  with assms have "a \<le> m" by (auto simp: rr_bounds_def)
  with True assms(1) show ?thesis
    by (auto simp: rr_bounds_def rr_cover_def m_def [symmetric])
qed (use assms in \<open>auto simp: rr_bounds_def rr_cover_def\<close>)

lemma rr_accept_bounds:
  assumes b: "rr_bounds a z s" and pb: "page_batch s pg = Inr batch"
  shows "outcome_all (rr_bounds a z) (rr_accept limit pg batch p s)"
proof -
  have 1: "rr_bounds a z (rr_book limit pg batch p s)"
    using b page_batchD [OF pb] by (fastforce simp: rr_bounds_def)
  then have 2: "rr_bounds a z (rr_cover batch (rr_book limit pg batch p s))"
    by (rule rr_cover_bounds) simp
  from 1 2 show ?thesis
    by (auto simp: rr_accept_def Let_def rr_bounds_def)
qed

lemma rr_step_bounds:
  assumes "rr_step fetch nextp limit kind s w = (out, w')" and "rr_bounds a z s"
  shows "outcome_all (rr_bounds a z) out"
  using assms(1)
proof (cases rule: rr_step_cases)
  case (fail e w1 s1)
  from fail(3) assms(2) have "rr_bounds a z s1" by (auto simp: rr_bounds_def)
  with fail(1) show ?thesis by (cases rule: rr_fail_cases) (auto simp: rr_bounds_def)
next
  case (accept pg batch)
  with rr_accept_bounds [OF assms(2)] show ?thesis by simp
qed auto

text \<open>A property that every step keeps holds for the state the loop ends in.\<close>

lemma rr_loop_invariant:
  assumes "rr_loop fuel fetch nextp pages limit kind s w = Some (Inr s', w')" and "P s"
    and "\<And>s w out w'. P s \<Longrightarrow> rr_step fetch nextp limit kind s w = (out, w') \<Longrightarrow> outcome_all P out"
  shows "P s'"
  using assms(1,2)
proof (induction fuel arbitrary: s w)
  case 0
  then show ?case by simp
next
  case (Suc fuel)
  show ?case
  proof (cases "rr_pages s < pages")
    case True
    obtain out w1 where st: "rr_step fetch nextp limit kind s w = (out, w1)" by fastforce
    from assms(3) [OF Suc.prems(2) st] have "outcome_all P out" .
    with Suc True st show ?thesis by (cases out) auto
  next
    case False
    with Suc.prems show ?thesis by simp
  qed
qed

section \<open>Coverage: a covered second has all its transactions\<close>

text \<open>
  What the documentation of an indexed history promises.  \<open>chain\<close> is the set of finalized
  transactions of the address, \<open>left p c a b\<close> what provider \<open>p\<close> still has to deliver of the window
  \<open>[a, b]\<close> behind its cursor \<open>c\<close>.  A page without a cursor finishes what was left; a page with a
  cursor is sorted by descending time, so nothing that is left is newer than the page.
\<close>

definition left_of ::
    "tx set \<Rightarrow> (string \<Rightarrow> string \<Rightarrow> int \<Rightarrow> int \<Rightarrow> tx set) \<Rightarrow> request \<Rightarrow> tx set" where
  "left_of chain left rq =
     (case rq_token rq of
        None \<Rightarrow> {t \<in> chain. rq_gte rq \<le> tx_time t \<and> tx_time t \<le> rq_lte rq}
      | Some c \<Rightarrow> (case rq_provider rq of None \<Rightarrow> {} | Some p \<Rightarrow> left p c (rq_gte rq) (rq_lte rq)))"

definition honest_archive ::
    "tx set \<Rightarrow> (string \<Rightarrow> string \<Rightarrow> int \<Rightarrow> int \<Rightarrow> tx set) \<Rightarrow> 'w fetcher \<Rightarrow> bool" where
  "honest_archive chain left fetch \<longleftrightarrow>
     (\<forall>rq w pg w' batch. fetch rq w = (Inr pg, w') \<longrightarrow> pg_data pg = Some batch \<longrightarrow>
        (\<not> truthy_opt (pg_token pg) \<longrightarrow> left_of chain left rq \<subseteq> set batch) \<and>
        (\<forall>c. pg_token pg = Some c \<longrightarrow> c \<noteq> [] \<longrightarrow>
           (let later = left (actual_provider pg (rq_provider rq)) c (rq_gte rq) (rq_lte rq) in
            left_of chain left rq \<subseteq> set batch \<union> later \<and>
            (\<forall>t \<in> later. \<forall>u \<in> set batch. tx_time t \<le> tx_time u))))"

text \<open>A page requested from one provider is answered by that provider.\<close>

definition pinned :: "'w fetcher \<Rightarrow> bool" where
  "pinned fetch \<longleftrightarrow>
     (\<forall>rq w pg w' p. fetch rq w = (Inr pg, w') \<longrightarrow> rq_provider rq = Some p \<longrightarrow> p \<noteq> [] \<longrightarrow>
        actual_provider pg (Some p) = p)"

lemma actual_provider_ne [simp]: "actual_provider pg prov \<noteq> []"
  by (auto simp: actual_provider_def split: option.splits)

definition sigs :: "tx list \<Rightarrow> string set" where
  "sigs txs = {g. \<exists>t \<in> set txs. tx_sig t = Some g}"

lemma sigs_simps [simp]:
  "sigs [] = {}" "sigs (xs @ ys) = sigs xs \<union> sigs ys"
  by (auto simp: sigs_def)

definition delivered :: "string set \<Rightarrow> tx \<Rightarrow> bool" where
  "delivered D t \<longleftrightarrow> (\<exists>g \<in> D. tx_sig t = Some g)"

lemma delivered_mono: "delivered D t \<Longrightarrow> D \<subseteq> D' \<Longrightarrow> delivered D' t"
  by (auto simp: delivered_def)

lemma delivered_batch:
  assumes "page_batch s pg = Inr batch" and "t \<in> set batch"
  shows "delivered (D \<union> sigs batch) t"
  using page_batchD(4) [OF assms] assms(2) by (auto simp: delivered_def sigs_def elim!: truthy_optE)

text \<open>Every transaction of the chain whose second lies in \<open>rs\<close> is delivered.\<close>

definition covered_ok :: "tx set \<Rightarrow> string set \<Rightarrow> range list \<Rightarrow> bool" where
  "covered_ok chain D rs \<longleftrightarrow> (\<forall>t \<in> chain. tx_time t \<in> seconds rs \<longrightarrow> delivered D t)"

text \<open>A cursor is resumed only for what was not delivered before it was issued.\<close>

definition cursor_ok ::
    "tx set \<Rightarrow> (string \<Rightarrow> string \<Rightarrow> int \<Rightarrow> int \<Rightarrow> tx set) \<Rightarrow> string set
       \<Rightarrow> string option \<Rightarrow> string option \<Rightarrow> int \<Rightarrow> int \<Rightarrow> bool" where
  "cursor_ok chain left D cur prov a b \<longleftrightarrow>
     (\<forall>c. cur = Some c \<longrightarrow>
        (\<exists>p. prov = Some p \<and> p \<noteq> [] \<and>
           (\<forall>t \<in> chain. a \<le> tx_time t \<and> tx_time t \<le> b \<longrightarrow> delivered D t \<or> t \<in> left p c a b)))"

definition rr_sound ::
    "tx set \<Rightarrow> (string \<Rightarrow> string \<Rightarrow> int \<Rightarrow> int \<Rightarrow> tx set) \<Rightarrow> string set \<Rightarrow> rr \<Rightarrow> bool" where
  "rr_sound chain left D s \<longleftrightarrow>
     covered_ok chain (D \<union> sigs (rr_txs s)) (rr_covered s) \<and>
     cursor_ok chain left (D \<union> sigs (rr_txs s)) (rr_cursor s) (rr_provider s) (rr_from s) (rr_to s) \<and>
     rr_remaining s \<le> rr_to s"

lemma cursor_ok_None [simp]: "cursor_ok chain left D None p a b"
  by (simp add: cursor_ok_def)

lemma covered_ok_mono: "covered_ok chain D rs \<Longrightarrow> D \<subseteq> D' \<Longrightarrow> covered_ok chain D' rs"
  by (auto simp: covered_ok_def intro: delivered_mono)

lemma covered_ok_seconds: "covered_ok chain D rs \<Longrightarrow> seconds rs' \<subseteq> seconds rs \<Longrightarrow> covered_ok chain D rs'"
  by (auto simp: covered_ok_def)

lemma cursor_ok_mono:
  assumes "cursor_ok chain left D c p a b" and "D \<subseteq> D'"
  shows "cursor_ok chain left D' c p a b"
  unfolding cursor_ok_def
proof (intro allI impI)
  fix x assume "c = Some x"
  with assms(1) obtain q where q: "p = Some q" "q \<noteq> []"
    "\<forall>t \<in> chain. a \<le> tx_time t \<and> tx_time t \<le> b \<longrightarrow> delivered D t \<or> t \<in> left q x a b"
    unfolding cursor_ok_def by blast
  then have "\<forall>t \<in> chain. a \<le> tx_time t \<and> tx_time t \<le> b \<longrightarrow> delivered D' t \<or> t \<in> left q x a b"
    using delivered_mono [OF _ assms(2)] by blast
  with q show "\<exists>q. p = Some q \<and> q \<noteq> [] \<and>
      (\<forall>t \<in> chain. a \<le> tx_time t \<and> tx_time t \<le> b \<longrightarrow> delivered D' t \<or> t \<in> left q x a b)"
    by blast
qed

text \<open>What the state knew before the page splits into what the page delivers and what is left.\<close>

lemma left_of_request:
  assumes "rr_sound chain left D s" and "t \<in> chain" and "rr_from s \<le> tx_time t" "tx_time t \<le> rr_to s"
  shows "delivered (D \<union> sigs (rr_txs s)) t \<or> t \<in> left_of chain left (rr_request limit kind s)"
  using assms
  by (auto simp: rr_sound_def cursor_ok_def left_of_def rr_request_def split: option.splits)

lemma rr_accept_sound:
  assumes honest: "honest_archive chain left fetch" and sound: "rr_sound chain left D s"
    and fetched: "fetch (rr_request limit kind s) w = (Inr pg, w')"
    and pb: "page_batch s pg = Inr batch"
  shows "outcome_all (rr_sound chain left D)
           (rr_accept limit pg batch (actual_provider pg (rr_provider s)) s)"
proof -
  define D' where "D' = D \<union> sigs (rr_txs s) \<union> sigs batch"
  define p where "p = actual_provider pg (rr_provider s)"
  have D': "D \<union> sigs (rr_txs s) \<subseteq> D'" by (simp add: D'_def)
  have batch: "t \<in> set batch \<Longrightarrow> delivered D' t" for t
    unfolding D'_def by (rule delivered_batch [OF pb])
  have cov: "covered_ok chain D' (rr_covered s)" and rem: "rr_remaining s \<le> rr_to s"
    using sound D' by (auto simp: rr_sound_def intro: covered_ok_mono)
  have known: "delivered D' t \<or> t \<in> left_of chain left (rr_request limit kind s)"
    if "t \<in> chain" "rr_from s \<le> tx_time t" "tx_time t \<le> rr_to s" for t
    using left_of_request [OF sound that] delivered_mono [OF _ D'] by blast
  show ?thesis
  proof (cases "truthy_opt (pg_token pg)")
    case False
    with honest fetched page_batchD(1) [OF pb]
    have "left_of chain left (rr_request limit kind s) \<subseteq> set batch"
      by (fastforce simp: honest_archive_def)
    with known batch have "covered_ok chain D' [(rr_from s, rr_to s)]"
      by (auto simp: covered_ok_def)
    with cov have "covered_ok chain D' (rr_covered s @ [(rr_from s, rr_to s)])"
      by (auto simp: covered_ok_def)
    with False rem show ?thesis
      by (simp add: rr_accept_def Let_def rr_sound_def D'_def Un_assoc)
  next
    case True
    then obtain c where c: "pg_token pg = Some c" "c \<noteq> []" by (rule truthy_optE)
    let ?later = "left p c (rr_from s) (rr_to s)"
    from honest fetched page_batchD(1) [OF pb] c
    have "left_of chain left (rr_request limit kind s) \<subseteq> set batch \<union> ?later"
      and older: "\<And>t u. t \<in> ?later \<Longrightarrow> u \<in> set batch \<Longrightarrow> tx_time t \<le> tx_time u"
      unfolding honest_archive_def Let_def p_def by (fastforce simp: rr_request_def)+
    with known batch have known': "delivered D' t \<or> t \<in> ?later"
      if "t \<in> chain" "rr_from s \<le> tx_time t" "tx_time t \<le> rr_to s" for t
      using that by blast
    define s2 where "s2 = rr_cover batch (rr_book limit pg batch p s)"
    have s2: "covered_ok chain D' (rr_covered s2) \<and> rr_remaining s2 \<le> rr_to s"
    proof (cases "batch \<noteq> [] \<and> Min (tx_time ` set batch) < rr_remaining s")
      case True
      define m where "m = Min (tx_time ` set batch)"
      from True have "m \<in> tx_time ` set batch" unfolding m_def by (intro Min_in) auto
      then obtain u where u: "u \<in> set batch" "tx_time u = m" by auto
      have "rr_from s \<le> m" using page_batchD(2) [OF pb u(1)] u(2) by simp
      have "covered_ok chain D' [(m + 1, rr_remaining s)]"
        unfolding covered_ok_def
      proof (intro ballI impI)
        fix t assume t: "t \<in> chain" "tx_time t \<in> seconds [(m + 1, rr_remaining s)]"
        then have "rr_from s \<le> tx_time t" "tx_time t \<le> rr_to s" "m < tx_time t"
          using \<open>rr_from s \<le> m\<close> rem by auto
        with known' [OF t(1)] older [OF _ u(1)] u(2) show "delivered D' t" by fastforce
      qed
      with cov have "covered_ok chain D' (rr_covered s @ [(m + 1, rr_remaining s)])"
        by (auto simp: covered_ok_def)
      with True rem show ?thesis by (simp add: s2_def rr_cover_def m_def)
    next
      case False
      with cov rem show ?thesis by (auto simp: s2_def rr_cover_def)
    qed
    have "cursor_ok chain left D' (Some c) (Some p) (rr_from s) (rr_to s)"
      using known' by (auto simp: cursor_ok_def p_def)
    with s2 True c show ?thesis
      by (auto simp: rr_accept_def Let_def rr_sound_def D'_def Un_assoc p_def [symmetric] s2_def)
  qed
qed

lemma rr_step_sound:
  assumes honest: "honest_archive chain left fetch" and pin: "pinned fetch"
    and sound: "rr_sound chain left D s"
    and step: "rr_step fetch nextp limit kind s w = (out, w')"
  shows "outcome_all (rr_sound chain left D) out"
  using step
proof (cases rule: rr_step_cases)
  case (fail e w1 s1)
  have s1: "covered_ok chain (D \<union> sigs (rr_txs s1)) (rr_covered s1)" "rr_remaining s1 \<le> rr_to s1"
    using fail(3) sound by (auto simp: rr_sound_def)
  show ?thesis
    using fail(1)
  proof (cases rule: rr_fail_cases)
    case (stop ex err)
    \<comment> \<open>the cursor survives the stop: it still belongs to the provider it was read from\<close>
    have "cursor_ok chain left (D \<union> sigs (rr_txs s)) (rr_cursor s) (rr_provider s1) (rr_from s) (rr_to s)"
    proof (cases "rr_cursor s")
      case None
      then show ?thesis by simp
    next
      case (Some c)
      with sound obtain p where p: "rr_provider s = Some p" "p \<noteq> []"
        unfolding rr_sound_def cursor_ok_def by blast
      have "rr_provider (s\<lparr>rr_provider := Some (actual_provider pg (rr_provider s))\<rparr>) = rr_provider s"
        if "fetch (rr_request limit kind s) w = (Inr pg, w2)" for pg w2
      proof -
        have "rq_provider (rr_request limit kind s) = Some p" by (simp add: rr_request_def p)
        with pin that p(2) have "actual_provider pg (Some p) = p" unfolding pinned_def by blast
        with p show ?thesis by simp
      qed
      with fail(3) have "rr_provider s1 = rr_provider s" by blast
      with sound show ?thesis by (simp add: rr_sound_def)
    qed
    with stop s1 fail(3) show ?thesis by (auto simp: rr_sound_def)
  next
    case (failover p ex fs)
    with s1 show ?thesis by (simp add: rr_sound_def)
  qed
next
  case (accept pg batch)
  with rr_accept_sound [OF honest sound] show ?thesis by simp
qed simp

text \<open>The task a read resumes, and the task it leaves.\<close>

definition task_ok ::
    "tx set \<Rightarrow> (string \<Rightarrow> string \<Rightarrow> int \<Rightarrow> int \<Rightarrow> tx set) \<Rightarrow> string set \<Rightarrow> task \<Rightarrow> bool" where
  "task_ok chain left D t \<longleftrightarrow>
     (case (t_from t, t_to t) of
        (Some a, Some b) \<Rightarrow> cursor_ok chain left D (t_cursor t) (t_provider t) a b \<and>
          (case t_remaining t of None \<Rightarrow> True | Some r \<Rightarrow> r \<le> b)
      | _ \<Rightarrow> True)"

lemma task_ok_gap [simp]: "task_ok chain left D (gap_task a b)"
  by (simp add: task_ok_def)

lemma task_ok_mono: "task_ok chain left D t \<Longrightarrow> D \<subseteq> D' \<Longrightarrow> task_ok chain left D' t"
  by (auto simp: task_ok_def intro: cursor_ok_mono split: option.splits)

lemma rr_handoff_sound:
  assumes "rr_sound chain left D s" and "rr_handoff_step nextp kind s w = (s', w')"
  shows "rr_sound chain left D s' \<and> rr_txs s' = rr_txs s"
  using assms by (auto simp: rr_handoff_step_def rr_sound_def Let_def split: prod.splits if_splits)

lemma rr_init_sound:
  "t_from t = Some a \<Longrightarrow> t_to t = Some b \<Longrightarrow> task_ok chain left D t \<Longrightarrow> rr_sound chain left D (rr_init t a b)"
  by (auto simp: task_ok_def rr_sound_def rr_init_def covered_ok_def split: option.splits)

lemma read_range_sound:
  assumes honest: "honest_archive chain left fetch" and pin: "pinned fetch"
    and task: "task_ok chain left D t"
    and run: "read_range fuel fetch nextp t pages limit kind w = Some (Inr (txs, cov, pend, s'), w')"
  shows "covered_ok chain (D \<union> sigs txs) cov"
    and "pend = Some t' \<Longrightarrow> task_ok chain left (D \<union> sigs txs) t'"
proof -
  from run obtain a b where ab: "t_from t = Some a" "t_to t = Some b"
    by (auto simp: read_range_def split: option.splits)
  obtain s w1 where h: "rr_handoff_step nextp kind (rr_init t a b) w = (s, w1)" by fastforce
  from run ab h have loop: "rr_loop fuel fetch nextp pages limit kind s w1 = Some (Inr s', w')"
    and res: "txs = rr_txs s'" "cov = rr_covered s'" "pend = rr_pending s'"
    by (auto simp: read_range_def bindR_eq_Inr)
  from rr_handoff_sound [OF rr_init_sound [OF ab task] h]
  have "rr_sound chain left D s" ..
  with loop have "rr_sound chain left D s'"
    by (rule rr_loop_invariant) (rule rr_step_sound [OF honest pin])
  with res show "covered_ok chain (D \<union> sigs txs) cov"
    and "pend = Some t' \<Longrightarrow> task_ok chain left (D \<union> sigs txs) t'"
    by (auto simp: rr_sound_def rr_pending_def task_ok_def split: if_splits)
qed

lemma read_range_bounds:
  assumes "t_from t = Some a" "t_to t = Some b" and "\<And>r. t_remaining t = Some r \<Longrightarrow> r \<le> b"
    and "read_range fuel fetch nextp t pages limit kind w = Some (Inr (txs, cov, pend, s'), w')"
  shows "seconds cov \<subseteq> {a..b}"
    and "x \<in> set txs \<Longrightarrow> a \<le> tx_time x \<and> tx_time x \<le> b \<and> truthy_opt (tx_sig x)"
    and "pend = Some t' \<Longrightarrow> t_from t' = Some a \<and> (\<exists>b' r. t_to t' = Some b' \<and> t_remaining t' = Some r
            \<and> r \<le> b' \<and> b' \<le> b)"
proof -
  obtain s w1 where h: "rr_handoff_step nextp kind (rr_init t a b) w = (s, w1)" by fastforce
  from assms h have loop: "rr_loop fuel fetch nextp pages limit kind s w1 = Some (Inr s', w')"
    and res: "txs = rr_txs s'" "cov = rr_covered s'" "pend = rr_pending s'"
    by (auto simp: read_range_def bindR_eq_Inr)
  have "rr_bounds a b (rr_init t a b)"
    using assms(3) by (auto simp: rr_bounds_def rr_init_def split: option.splits)
  with h have "rr_bounds a b s"
    by (auto simp: rr_handoff_step_def rr_bounds_def Let_def split: prod.splits if_splits)
  with loop have "rr_bounds a b s'" by (rule rr_loop_invariant) (rule rr_step_bounds)
  with res show "seconds cov \<subseteq> {a..b}"
    and "x \<in> set txs \<Longrightarrow> a \<le> tx_time x \<and> tx_time x \<le> b \<and> truthy_opt (tx_sig x)"
    and "pend = Some t' \<Longrightarrow> t_from t' = Some a \<and> (\<exists>b' r. t_to t' = Some b' \<and> t_remaining t' = Some r
            \<and> r \<le> b' \<and> b' \<le> b)"
    by (auto simp: rr_bounds_def rr_pending_def split: if_splits)
qed

section \<open>The read ends: the contract of the router\<close>

text \<open>
  \<open>while stats["pages"] < pages\<close> has a \<open>continue\<close> that reads no page: the failover.  It ends because
  the router never offers an excluded provider and knows finitely many of them.
\<close>

locale failover_source =
  fixes fetch :: "'w fetcher"
    and nextp :: "'w failover"
    and names :: "string set"
  assumes finite_names: "finite names"
    and next_fresh: "nextp ex kind w = (Some p, w') \<Longrightarrow> p \<noteq> [] \<Longrightarrow> p \<in> names \<and> p \<notin> set ex"
    and answers_pinned: "pinned fetch"
begin

definition settled :: "rr \<Rightarrow> bool" where
  "settled s \<longleftrightarrow> (\<exists>p. rr_provider s = Some p \<and> p \<noteq> [] \<and> p \<in> names \<and> p \<notin> set (rr_excluded s))"

definition budget :: "int \<Rightarrow> rr \<Rightarrow> nat" where
  "budget pages s = nat (pages - rr_pages s) + card (names - set (rr_excluded s)) +
     (if settled s then 0 else 1)"

lemma pinned_provider:
  assumes "fetch (rr_request limit kind s) w = (Inr pg, w')" and "rr_provider s = Some p" "p \<noteq> []"
  shows "actual_provider pg (rr_provider s) = p"
proof -
  have "rq_provider (rr_request limit kind s) = Some p" by (simp add: rr_request_def assms)
  with answers_pinned assms show ?thesis unfolding pinned_def by metis
qed

lemma fail_budget:
  assumes f: "rr_fail nextp kind e s w = (Next s', w')"
  shows "budget pages s' < budget pages s"
  using f
proof (cases rule: rr_fail_cases)
  case (failover p ex fs)
  from failover(1) have s': "rr_excluded s' = ex" "rr_provider s' = Some p" "rr_pages s' = rr_pages s"
    by simp_all
  from next_fresh [OF failover(3,2)] have p: "p \<in> names" "p \<notin> set ex" by auto
  with s' failover(2) have settled': "settled s'" by (auto simp: settled_def)
  show ?thesis
  proof (cases "settled s")
    case True
    then obtain q where q: "rr_provider s = Some q" "q \<in> names" "q \<notin> set (rr_excluded s)" "q \<noteq> []"
      by (auto simp: settled_def)
    with failover(4) have "set ex = insert q (set (rr_excluded s))" by simp
    then have "names - set ex = (names - set (rr_excluded s)) - {q}" by auto
    with q have "card (names - set ex) < card (names - set (rr_excluded s))"
      using finite_names by (metis DiffI card_Diff1_less finite_Diff)
    with True settled' s' show ?thesis by (simp add: budget_def)
  next
    case False
    have "card (names - set ex) \<le> card (names - set (rr_excluded s))"
      using finite_names failover(4) by (intro card_mono) auto
    with False settled' s' show ?thesis by (simp add: budget_def)
  qed
qed simp

lemma accept_budget:
  assumes a: "rr_accept limit pg batch (actual_provider pg (rr_provider s)) s = Next s'"
    and f: "fetch (rr_request limit kind s) w = (Inr pg, w')" and lt: "rr_pages s < pages"
  shows "budget pages s' < budget pages s"
proof -
  from a have s': "rr_provider s' = Some (actual_provider pg (rr_provider s))"
    "rr_excluded s' = rr_excluded s" "rr_pages s' = rr_pages s + 1"
    by (auto simp: rr_accept_def Let_def split: if_splits)
  have "settled s \<Longrightarrow> settled s'"
    using s' pinned_provider [OF f] by (auto simp: settled_def)
  with s' lt show ?thesis by (auto simp: budget_def)
qed

lemma step_budget:
  assumes st: "rr_step fetch nextp limit kind s w = (Next s', w')" and lt: "rr_pages s < pages"
  shows "budget pages s' < budget pages s"
  using st
proof (cases rule: rr_step_cases)
  case (fail e w1 s1)
  have "settled s \<Longrightarrow> settled s1"
    using fail(3) pinned_provider by (fastforce simp: settled_def)
  then have "budget pages s1 \<le> budget pages s"
    using fail(3) by (auto simp: budget_def)
  with fail_budget [OF fail(1), of pages] show ?thesis by linarith
next
  case (accept pg batch)
  from accept_budget [OF accept(3) [symmetric] accept(1) lt] show ?thesis .
qed simp

lemma loop_returns: "budget pages s < fuel \<Longrightarrow> \<exists>r. rr_loop fuel fetch nextp pages limit kind s w = Some r"
proof (induction fuel arbitrary: s w)
  case 0
  then show ?case by simp
next
  case (Suc fuel)
  show ?case
  proof (cases "rr_pages s < pages")
    case True
    obtain out w1 where st: "rr_step fetch nextp limit kind s w = (out, w1)" by fastforce
    show ?thesis
    proof (cases out)
      case (Next s')
      with step_budget [OF _ True] st have "budget pages s' < budget pages s" by simp
      with Suc.prems have "budget pages s' < fuel" by simp
      from Suc.IH [OF this] True st Next show ?thesis by auto
    qed (use True st in auto)
  qed simp
qed

lemma read_returns:
  assumes "nat pages + card names + 1 < fuel"
  shows "\<exists>r. read_range fuel fetch nextp t pages limit kind w = Some r"
proof (cases "t_from t"; cases "t_to t")
  fix a b assume ab: "t_from t = Some a" "t_to t = Some b"
  obtain s w1 where h: "rr_handoff_step nextp kind (rr_init t a b) w = (s, w1)" by fastforce
  then have "rr_pages s = 0" "rr_excluded s = []"
    by (auto simp: rr_handoff_step_def rr_init_def Let_def split: prod.splits if_splits)
  then have "budget pages s \<le> nat pages + card names + 1" by (simp add: budget_def)
  with assms have "budget pages s < fuel" by simp
  from loop_returns [OF this] obtain r where "rr_loop fuel fetch nextp pages limit kind s w1 = Some r"
    by blast
  with ab h show ?thesis by (simp add: read_range_def)
qed (simp_all add: read_range_def)

end

end
