(* ===== verification/Pool_History.thy ===== *)
theory Pool_History
  imports Read_Range "HOL-Library.Multiset"
begin

text \<open>
  \<^verbatim>\<open>src/pool_history.py\<close>, \<open>collect_history\<close>: one pass over a pool's history.  It reads the live
  head, repairs one gap of the backlog, keeps the stored ranges and tasks bounded, and returns the
  new transactions once each in chain order.  The pool's dictionary is the record \<open>pool_state\<close>; the
  fields are the keys this function reads or writes.
\<close>

section \<open>State\<close>

record pool_state =
  ps_covered :: "range list"          \<comment> \<open>\<open>candidate_covered_ranges\<close>\<close>
  ps_backlogs :: "task list"          \<comment> \<open>\<open>helius_rolling_backlogs\<close>; absent when empty\<close>
  ps_version :: "int option"          \<comment> \<open>\<open>candidate_pool_history_version\<close>\<close>
  ps_observed_to :: "int option"      \<comment> \<open>\<open>candidate_history_head_observed_to\<close>\<close>
  ps_live_from :: "int option"        \<comment> \<open>\<open>candidate_history_live_from\<close>\<close>
  ps_initial_to :: "int option"       \<comment> \<open>\<open>candidate_history_initial_to\<close>\<close>
  ps_head_time :: "int option"        \<comment> \<open>\<open>candidate_history_head_block_time\<close>\<close>
  ps_complete_to :: "int option"      \<comment> \<open>\<open>candidate_history_complete_to\<close>\<close>
  ps_legacy :: "(string \<times> string) list" \<comment> \<open>keys of the version 1 cursor\<close>

definition history_version :: int where
  "history_version = 2"

definition legacy_keys :: "string list" where
  "legacy_keys = [''helius_live_cursor'', ''helius_live_pending_signature'',
     ''helius_live_pending_block_time'', ''helius_live_from'', ''helius_live_cursor_created_at'']"

text \<open>\<open>int(x or d)\<close>\<close>

definition int_or :: "int option \<Rightarrow> int \<Rightarrow> int" where
  "int_or x d = (case x of None \<Rightarrow> d | Some v \<Rightarrow> if v = 0 then d else v)"

definition need :: "int option \<Rightarrow> int res" where
  "need x = (case x of None \<Rightarrow> Inl KeyError | Some v \<Rightarrow> Inr v)"

record options =
  op_live_limit :: int
  op_archive_limit :: int
  op_head_pages :: int
  op_repair_pages :: int
  op_overlap :: int
  op_head_only :: bool
  op_reuse_head :: bool
  op_priority :: "range option"       \<comment> \<open>\<open>priority_window\<close>\<close>

text \<open>The local variables of the function.\<close>

record pass =
  ch_covered :: "range list"
  ch_tasks :: "task list"
  ch_observed :: int
  ch_now :: int
  ch_live_from :: int
  ch_initial_to :: int
  ch_migrated :: bool
  ch_before :: nat
  ch_had_previous :: bool
  ch_txs :: "tx list"
  ch_passes :: "rr list"
  ch_priority :: "string option"
  ch_repair_errors :: int
  ch_ranges_compacted :: bool
  ch_backlog_compacted :: bool

section \<open>The steps of the function\<close>

definition ch_init :: "pool_state \<Rightarrow> int \<Rightarrow> int \<Rightarrow> options \<Rightarrow> pass" where
  "ch_init ps now start opt =
     (let covered = merge_ranges (ps_covered ps);
          migrated = (ps_version ps \<noteq> Some history_version);
          tasks = (if migrated then [] else ps_backlogs ps);
          observed = int_or (ps_observed_to ps)
            (if migrated then (if covered = [] then 0 else Max (set (map snd covered))) else 0);
          now' = (if op_reuse_head opt \<and> observed \<noteq> 0 then min now observed else now);
          live_from = (if op_reuse_head opt then int_or (ps_live_from ps) start
            else if observed \<noteq> 0 then max start (observed - max 0 (op_overlap opt)) else start)
      in \<lparr>ch_covered = covered, ch_tasks = tasks, ch_observed = observed, ch_now = now',
          ch_live_from = live_from, ch_initial_to = int_or (ps_initial_to ps) now',
          ch_migrated = migrated, ch_before = length tasks, ch_had_previous = (observed \<noteq> 0),
          ch_txs = [], ch_passes = [], ch_priority = None, ch_repair_errors = 0,
          ch_ranges_compacted = False, ch_backlog_compacted = False\<rparr>)"

text \<open>\<open>if not reuse_head\<close>: read the head from \<open>live_from\<close> to now.\<close>

definition ch_head ::
    "nat \<Rightarrow> 'w fetcher \<Rightarrow> 'w failover \<Rightarrow> options \<Rightarrow> pass \<Rightarrow> 'w \<Rightarrow> (pass res \<times> 'w) option" where
  "ch_head fuel fetch nextp opt c w =
     (if op_reuse_head opt then Some (Inr c, w)
      else map_option (\<lambda>(r, w').
        (bindR r (\<lambda>(head, prefix, pending, result).
           if truthy_opt (rr_error result) \<and> rr_pages result = 0
           then Inl (RuntimeError (the (rr_error result)))
           else Inr (c\<lparr>ch_txs := ch_txs c @ head,
                       ch_covered := merge_ranges (ch_covered c @ prefix),
                       ch_tasks := ch_tasks c @ (case pending of None \<Rightarrow> [] | Some t \<Rightarrow> [t]),
                       ch_passes := ch_passes c @ [result],
                       ch_observed := ch_now c\<rparr>)), w'))
        (read_range fuel fetch nextp (gap_task (ch_live_from c) (ch_now c))
           (op_head_pages opt) (op_live_limit opt) ''live'' w))"

definition ch_reconcile :: "int \<Rightarrow> pass \<Rightarrow> pass" where
  "ch_reconcile start c =
     c\<lparr>ch_tasks := reconcile_tasks (ch_tasks c) (ch_covered c) start (ch_now c)\<rparr>"

text \<open>\<open>next((i for i, task in enumerate(tasks) if P(task)), None)\<close>\<close>

fun find_index :: "('a \<Rightarrow> bool res) \<Rightarrow> 'a list \<Rightarrow> nat option res" where
  "find_index P [] = Inr None"
| "find_index P (x # xs) =
     bindR (P x) (\<lambda>b. if b then Inr (Some 0) else bindR (find_index P xs) (\<lambda>i. Inr (map_option Suc i)))"

text \<open>Which task to repair, inside which window, and why.\<close>

definition ch_select :: "options \<Rightarrow> pass \<Rightarrow> (nat \<times> range option \<times> string) res" where
  "ch_select opt c =
     bindR (case op_priority opt of
              None \<Rightarrow> Inr None
            | Some (lo, hi) \<Rightarrow>
                if lo \<noteq> 0 \<and> hi \<ge> lo
                then bindR (find_index (\<lambda>t. bindR (need (t_from t)) (\<lambda>a.
                       if a \<le> hi then bindR (need (t_remaining t)) (\<lambda>r. Inr (r \<ge> lo)) else Inr False))
                       (ch_tasks c))
                     (\<lambda>i. Inr (map_option (\<lambda>i. (i, Some (lo, hi), ''signal_window'')) i))
                else Inr None)
       (\<lambda>sel. case sel of
          Some s \<Rightarrow> Inr s
        | None \<Rightarrow>
            bindR (find_index (\<lambda>t. bindR (need (t_remaining t)) (\<lambda>r. Inr (r \<ge> ch_live_from c))) (ch_tasks c))
              (\<lambda>i. Inr (case i of
                 Some i \<Rightarrow> (i, Some (ch_live_from c, ch_now c), ''fresh_window'')
               | None \<Rightarrow> (0, None, ''oldest_gap''))))"

definition ch_narrow :: "task \<Rightarrow> range option \<Rightarrow> task res" where
  "ch_narrow t window =
     (case window of
        None \<Rightarrow> Inr t
      | Some (lo, hi) \<Rightarrow>
          bindR (need (t_from t)) (\<lambda>a. bindR (need (t_remaining t)) (\<lambda>r.
            let lower = max a lo; upper = min r hi in
            if lower \<noteq> a \<or> upper \<noteq> r then Inr (gap_task lower upper) else Inr t)))"

definition ch_repair ::
    "nat \<Rightarrow> 'w fetcher \<Rightarrow> 'w failover \<Rightarrow> options \<Rightarrow> int \<Rightarrow> pass \<Rightarrow> 'w \<Rightarrow> (pass res \<times> 'w) option" where
  "ch_repair fuel fetch nextp opt start c w =
     (if ch_tasks c = [] \<or> op_head_only opt then Some (Inr c, w)
      else case bindR (ch_select opt c) (\<lambda>(selected, window, why).
                  bindR (ch_narrow (ch_tasks c ! selected) window) (\<lambda>t. Inr (selected, t, why))) of
        Inl e \<Rightarrow> Some (Inl e, w)
      | Inr (selected, t, why) \<Rightarrow>
          map_option (\<lambda>(r, w').
            (bindR r (\<lambda>(tail, prefix, pending, result).
               Inr (ch_reconcile start (c\<lparr>ch_priority := Some why,
                      ch_txs := ch_txs c @ tail,
                      ch_covered := merge_ranges (ch_covered c @ prefix),
                      ch_tasks := take selected (ch_tasks c) @
                        (case pending of None \<Rightarrow> [] | Some p \<Rightarrow> [p]) @ drop (Suc selected) (ch_tasks c),
                      ch_passes := ch_passes c @ [result],
                      ch_repair_errors := (if truthy_opt (rr_error result) then 1 else 0)\<rparr>))), w'))
            (read_range fuel fetch nextp t (op_repair_pages opt) (op_archive_limit opt) ''archive'' w))"

text \<open>Keep the stored ranges and tasks at most 128 each.\<close>

definition ch_compact_ranges :: "int \<Rightarrow> pass \<Rightarrow> pass" where
  "ch_compact_ranges start c =
     (let n = length (ch_covered c) in
      if n > 128
      then ch_reconcile start (c\<lparr>ch_covered := hd (ch_covered c) # drop (n - 127) (ch_covered c),
                                 ch_ranges_compacted := True\<rparr>)
      else c)"

definition ch_compact_tasks :: "pass \<Rightarrow> pass res" where
  "ch_compact_tasks c =
     (let n = length (ch_tasks c) in
      if n > 128
      then bindR (need (t_from (hd (ch_tasks c)))) (\<lambda>a.
           bindR (need (t_remaining (ch_tasks c ! (n - 128)))) (\<lambda>b.
             Inr (c\<lparr>ch_tasks := gap_task a b # drop (n - 127) (ch_tasks c),
                    ch_backlog_compacted := True\<rparr>)))
      else Inr c)"

section \<open>Results\<close>

record history_stats =
  hs_observed_to :: int
  hs_live_from :: int
  hs_had_previous :: bool
  hs_live_resumed :: bool
  hs_migrated :: bool
  hs_passes :: "rr list"
  hs_pages :: int
  hs_transactions :: int
  hs_providers :: "string list"
  hs_failovers :: "(string option \<times> string \<times> string) list"
  hs_backlog_before :: nat
  hs_backlog_after :: nat
  hs_repair_priority :: "string option"
  hs_repair_errors :: int
  hs_ranges_compacted :: bool
  hs_backlog_compacted :: bool
  hs_covered :: "range list"
  hs_live_truncated :: bool
  hs_live_complete :: bool
  hs_gap_seconds :: int
  hs_gap_pending :: bool
  hs_initial_pending :: bool
  hs_extended_pending :: bool
  hs_full_complete :: bool
  hs_newest :: int
  hs_oldest :: "int option"
  hs_head_lag :: "int option"

definition ch_stats :: "pool_state \<Rightarrow> int \<Rightarrow> pass \<Rightarrow> history_stats" where
  "ch_stats ps start c =
     (let gap = missing_seconds (ch_covered c) (ch_live_from c) (ch_now c);
          times = map tx_time (ch_txs c);
          newest = Max (set (int_or (ps_head_time ps) 0 # times))
      in \<lparr>hs_observed_to = ch_now c, hs_live_from = ch_live_from c,
          hs_had_previous = ch_had_previous c, hs_live_resumed = (ch_before c > 0),
          hs_migrated = ch_migrated c, hs_passes = ch_passes c,
          hs_pages = sum_list (map rr_pages (ch_passes c)),
          hs_transactions = sum_list (map rr_count (ch_passes c)),
          hs_providers = foldl (\<lambda>ps p. insert_new p ps) [] (concat (map rr_used (ch_passes c))),
          hs_failovers = concat (map rr_failovers (ch_passes c)),
          hs_backlog_before = ch_before c, hs_backlog_after = length (ch_tasks c),
          hs_repair_priority = ch_priority c, hs_repair_errors = ch_repair_errors c,
          hs_ranges_compacted = ch_ranges_compacted c, hs_backlog_compacted = ch_backlog_compacted c,
          hs_covered = ch_covered c, hs_live_truncated = (gap \<noteq> 0), hs_live_complete = (gap = 0),
          hs_gap_seconds = gap, hs_gap_pending = (ch_tasks c \<noteq> []),
          hs_initial_pending = (missing_ranges (ch_covered c) start (ch_initial_to c) \<noteq> []),
          hs_extended_pending = (missing_ranges (ch_covered c) start (ch_live_from c - 1) \<noteq> []),
          hs_full_complete = (ch_tasks c = []),
          hs_newest = newest,
          hs_oldest = (if times = [] then None else Some (Min (set times))),
          hs_head_lag = (if newest \<noteq> 0 then Some (max 0 (ch_now c - newest)) else None)\<rparr>)"

text \<open>\<open>next((b for a, b in covered if a <= start <= b), 0)\<close>\<close>

definition contiguous_to :: "range list \<Rightarrow> int \<Rightarrow> int" where
  "contiguous_to covered start =
     (case find (\<lambda>(a, b). a \<le> start \<and> start \<le> b) covered of None \<Rightarrow> 0 | Some (a, b) \<Rightarrow> b)"

definition ch_store :: "pool_state \<Rightarrow> int \<Rightarrow> pass \<Rightarrow> pool_state" where
  "ch_store ps start c =
     ps\<lparr>ps_version := Some history_version, ps_initial_to := Some (ch_initial_to c),
        ps_observed_to := Some (ch_observed c), ps_live_from := Some (ch_live_from c),
        ps_head_time := Some (hs_newest (ch_stats ps start c)), ps_covered := ch_covered c,
        ps_complete_to := (if contiguous_to (ch_covered c) start \<noteq> 0
          then Some (contiguous_to (ch_covered c) start) else None),
        ps_backlogs := ch_tasks c,
        ps_legacy := filter (\<lambda>(k, v). k \<notin> set legacy_keys) (ps_legacy ps)\<rparr>"

text \<open>Keep the first transaction of each signature.\<close>

fun unique_txs :: "string list \<Rightarrow> tx list \<Rightarrow> tx list" where
  "unique_txs seen [] = []"
| "unique_txs seen (t # ts) =
     (if truthy_opt (tx_sig t) \<and> the (tx_sig t) \<notin> set seen
      then t # unique_txs (the (tx_sig t) # seen) ts
      else unique_txs seen ts)"

definition collect_history ::
    "nat \<Rightarrow> 'w fetcher \<Rightarrow> 'w failover \<Rightarrow> pool_state \<Rightarrow> int \<Rightarrow> int \<Rightarrow> options \<Rightarrow> 'w
       \<Rightarrow> ((tx list \<times> history_stats \<times> pool_state) res \<times> 'w) option" where
  "collect_history fuel fetch nextp ps now start opt w =
     Option.bind (ch_head fuel fetch nextp opt (ch_init ps now start opt) w) (\<lambda>(r, w1).
       case r of Inl e \<Rightarrow> Some (Inl e, w1) | Inr c1 \<Rightarrow>
       Option.bind (ch_repair fuel fetch nextp opt start (ch_reconcile start c1) w1) (\<lambda>(r2, w2).
         Some (bindR r2 (\<lambda>c2. bindR (ch_compact_tasks (ch_compact_ranges start c2)) (\<lambda>c3.
           Inr (sort_key (\<lambda>t. (tx_time t, tx_index t)) (unique_txs [] (ch_txs c3)),
                ch_stats ps start c3, ch_store ps start c3))), w2)))"

section \<open>Soundness of the stored coverage\<close>

text \<open>What the pool's dictionary claims to know of the chain, given the signatures delivered so far.\<close>

definition pool_ok ::
    "tx set \<Rightarrow> (string \<Rightarrow> string \<Rightarrow> int \<Rightarrow> int \<Rightarrow> tx set) \<Rightarrow> string set \<Rightarrow> pool_state \<Rightarrow> bool" where
  "pool_ok chain left D ps \<longleftrightarrow>
     covered_ok chain D (ps_covered ps) \<and> (\<forall>t \<in> set (ps_backlogs ps). task_ok chain left D t)"

definition pass_ok ::
    "tx set \<Rightarrow> (string \<Rightarrow> string \<Rightarrow> int \<Rightarrow> int \<Rightarrow> tx set) \<Rightarrow> string set \<Rightarrow> pass \<Rightarrow> bool" where
  "pass_ok chain left D c \<longleftrightarrow>
     covered_ok chain (D \<union> sigs (ch_txs c)) (ch_covered c) \<and>
     (\<forall>t \<in> set (ch_tasks c). task_ok chain left (D \<union> sigs (ch_txs c)) t) \<and>
     (\<forall>x \<in> set (ch_txs c). truthy_opt (tx_sig x))"

lemma covered_ok_append:
  "covered_ok chain D (rs @ rs') \<longleftrightarrow> covered_ok chain D rs \<and> covered_ok chain D rs'"
  by (auto simp: covered_ok_def)

lemma covered_ok_merge [simp]: "covered_ok chain D (merge_ranges rs) \<longleftrightarrow> covered_ok chain D rs"
  by (simp add: covered_ok_def)

lemma ch_init_ok: "pool_ok chain left D ps \<Longrightarrow> pass_ok chain left D (ch_init ps now start opt)"
  by (auto simp: pool_ok_def pass_ok_def ch_init_def Let_def)

lemma ch_reconcile_ok: "pass_ok chain left D c \<Longrightarrow> pass_ok chain left D (ch_reconcile start c)"
  by (auto simp: pass_ok_def ch_reconcile_def dest!: reconcile_origin)

text \<open>Adding one read to a pass.\<close>

lemma pass_ok_read:
  assumes honest: "honest_archive chain left fetch" and pin: "pinned fetch"
    and ok: "pass_ok chain left D c" and task: "task_ok chain left (D \<union> sigs (ch_txs c)) t"
    and run: "read_range fuel fetch nextp t pages limit kind w = Some (Inr (txs, cov, pend, s'), w')"
    and sub: "set ts \<subseteq> set (ch_tasks c) \<union> set_option pend"
  shows "pass_ok chain left D (c\<lparr>ch_txs := ch_txs c @ txs,
           ch_covered := merge_ranges (ch_covered c @ cov), ch_tasks := ts\<rparr>)"
proof -
  let ?D = "D \<union> sigs (ch_txs c)"
  note rs = read_range_sound [OF honest pin task run]
  from run obtain a b where ab: "t_from t = Some a" "t_to t = Some b"
    by (auto simp: read_range_def split: option.splits)
  have rem: "t_remaining t = Some r \<Longrightarrow> r \<le> b" for r
    using task ab by (simp add: task_ok_def)
  have "\<forall>x \<in> set txs. truthy_opt (tx_sig x)"
    using read_range_bounds(2) [OF ab rem run] by blast
  moreover have "\<forall>x \<in> set ts. task_ok chain left (?D \<union> sigs txs) x"
  proof
    fix x assume "x \<in> set ts"
    with sub consider "x \<in> set (ch_tasks c)" | "pend = Some x" by (cases pend) auto
    then show "task_ok chain left (?D \<union> sigs txs) x"
    proof cases
      case 1
      with ok have "task_ok chain left ?D x" by (simp add: pass_ok_def)
      then show ?thesis by (rule task_ok_mono) simp
    next
      case 2
      then show ?thesis by (rule rs(2))
    qed
  qed
  moreover have "covered_ok chain (?D \<union> sigs txs) (ch_covered c)"
    using ok covered_ok_mono [of chain ?D _ "?D \<union> sigs txs"] by (simp add: pass_ok_def)
  with rs(1) have "covered_ok chain (?D \<union> sigs txs) (ch_covered c @ cov)"
    by (simp add: covered_ok_append)
  ultimately show ?thesis
    by (simp add: pass_ok_def Un_assoc) (use ok in \<open>auto simp: pass_ok_def\<close>)
qed

lemma pass_ok_frame:
  "ch_txs c' = ch_txs c \<Longrightarrow> ch_covered c' = ch_covered c \<Longrightarrow> ch_tasks c' = ch_tasks c \<Longrightarrow>
     pass_ok chain left D c' \<longleftrightarrow> pass_ok chain left D c"
  by (simp add: pass_ok_def)

lemma ch_head_ok:
  assumes honest: "honest_archive chain left fetch" and pin: "pinned fetch"
    and ok: "pass_ok chain left D c"
    and run: "ch_head fuel fetch nextp opt c w = Some (Inr c', w')"
  shows "pass_ok chain left D c' \<and> ch_now c' = ch_now c"
proof (cases "op_reuse_head opt")
  case True
  with run ok show ?thesis by (simp add: ch_head_def)
next
  case False
  with run obtain head prefix pend res where
    rr: "read_range fuel fetch nextp (gap_task (ch_live_from c) (ch_now c))
          (op_head_pages opt) (op_live_limit opt) ''live'' w = Some (Inr (head, prefix, pend, res), w')"
    and c': "c' = c\<lparr>ch_txs := ch_txs c @ head, ch_covered := merge_ranges (ch_covered c @ prefix),
        ch_tasks := ch_tasks c @ (case pend of None \<Rightarrow> [] | Some t \<Rightarrow> [t]),
        ch_passes := ch_passes c @ [res], ch_observed := ch_now c\<rparr>"
    by (auto simp: ch_head_def bindR_eq_Inr split: if_splits)
  have "pass_ok chain left D (c\<lparr>ch_txs := ch_txs c @ head,
      ch_covered := merge_ranges (ch_covered c @ prefix),
      ch_tasks := ch_tasks c @ (case pend of None \<Rightarrow> [] | Some t \<Rightarrow> [t])\<rparr>)"
    by (rule pass_ok_read [OF honest pin ok _ rr]) (auto split: option.splits)
  with c' show ?thesis by (simp add: pass_ok_def)
qed

lemma find_index_bound: "find_index P xs = Inr (Some i) \<Longrightarrow> i < length xs"
  by (induction xs arbitrary: i) (auto simp: bindR_eq_Inr split: if_splits)

lemma ch_select_bound:
  assumes "ch_select opt c = Inr (i, window, why)" and "ch_tasks c \<noteq> []"
  shows "i < length (ch_tasks c)"
  using assms
  by (auto simp: ch_select_def bindR_eq_Inr split: option.splits if_splits dest: find_index_bound)

lemma ch_narrow_cases: "ch_narrow t window = Inr t' \<Longrightarrow> t' = t \<or> (\<exists>a b. t' = gap_task a b)"
  by (auto simp: ch_narrow_def bindR_eq_Inr Let_def split: option.splits if_splits) blast+

lemma ch_repair_cases:
  assumes "ch_repair fuel fetch nextp opt start c w = Some (Inr c', w')"
  obtains (skip) "c' = c" "w' = w" "ch_tasks c = [] \<or> op_head_only opt"
    | (read) i t tail prefix pend res why where
        "i < length (ch_tasks c)" "t = ch_tasks c ! i \<or> (\<exists>a b. t = gap_task a b)"
        "read_range fuel fetch nextp t (op_repair_pages opt) (op_archive_limit opt) ''archive'' w
           = Some (Inr (tail, prefix, pend, res), w')"
        "c' = ch_reconcile start (c\<lparr>ch_priority := Some why, ch_txs := ch_txs c @ tail,
            ch_covered := merge_ranges (ch_covered c @ prefix),
            ch_tasks := take i (ch_tasks c) @ (case pend of None \<Rightarrow> [] | Some p \<Rightarrow> [p]) @
              drop (Suc i) (ch_tasks c),
            ch_passes := ch_passes c @ [res],
            ch_repair_errors := (if truthy_opt (rr_error res) then 1 else 0)\<rparr>)"
proof (cases "ch_tasks c = [] \<or> op_head_only opt")
  case True
  with assms skip show thesis by (auto simp: ch_repair_def)
next
  case False
  with assms obtain i window why t where sel: "ch_select opt c = Inr (i, window, why)"
    and nar: "ch_narrow (ch_tasks c ! i) window = Inr t"
    by (auto simp: ch_repair_def bindR_eq_Inr split: sum.splits prod.splits)
  with assms False obtain tail prefix pend res where
    "read_range fuel fetch nextp t (op_repair_pages opt) (op_archive_limit opt) ''archive'' w
       = Some (Inr (tail, prefix, pend, res), w')"
    "c' = ch_reconcile start (c\<lparr>ch_priority := Some why, ch_txs := ch_txs c @ tail,
       ch_covered := merge_ranges (ch_covered c @ prefix),
       ch_tasks := take i (ch_tasks c) @ (case pend of None \<Rightarrow> [] | Some p \<Rightarrow> [p]) @ drop (Suc i) (ch_tasks c),
       ch_passes := ch_passes c @ [res],
       ch_repair_errors := (if truthy_opt (rr_error res) then 1 else 0)\<rparr>)"
    by (auto simp: ch_repair_def bindR_eq_Inr)
  with read ch_select_bound [OF sel] ch_narrow_cases [OF nar] False show thesis by blast
qed

lemma ch_repair_ok:
  assumes honest: "honest_archive chain left fetch" and pin: "pinned fetch"
    and ok: "pass_ok chain left D c"
    and run: "ch_repair fuel fetch nextp opt start c w = Some (Inr c', w')"
  shows "pass_ok chain left D c'"
  using run
proof (cases rule: ch_repair_cases)
  case (read i t tail prefix pend res why)
  have t: "task_ok chain left (D \<union> sigs (ch_txs c)) t"
    using read(1,2) ok by (auto simp: pass_ok_def)
  have "set (take i (ch_tasks c) @ (case pend of None \<Rightarrow> [] | Some p \<Rightarrow> [p]) @ drop (Suc i) (ch_tasks c))
      \<subseteq> set (ch_tasks c) \<union> set_option pend"
    by (auto split: option.splits dest: in_set_takeD in_set_dropD)
  note r = pass_ok_read [OF honest pin ok t read(3) this]
  show ?thesis
    unfolding read(4)
    by (rule ch_reconcile_ok) (use r in \<open>simp add: pass_ok_def\<close>)
qed (use ok in simp)

lemma seconds_sub: "set rs \<subseteq> set rs' \<Longrightarrow> seconds rs \<subseteq> seconds rs'"
  by (auto simp: seconds_def)

lemma ch_compact_ranges_ok:
  assumes "pass_ok chain left D c"
  shows "pass_ok chain left D (ch_compact_ranges start c)"
proof (cases "length (ch_covered c) > 128")
  case True
  then have "set (hd (ch_covered c) # drop (length (ch_covered c) - 127) (ch_covered c)) \<subseteq> set (ch_covered c)"
    by (cases "ch_covered c") (auto dest: in_set_dropD)
  then have "covered_ok chain (D \<union> sigs (ch_txs c))
      (hd (ch_covered c) # drop (length (ch_covered c) - 127) (ch_covered c))"
    using assms covered_ok_seconds [OF _ seconds_sub] by (simp only: pass_ok_def) blast
  with assms have "pass_ok chain left D (c\<lparr>ch_covered := hd (ch_covered c) #
      drop (length (ch_covered c) - 127) (ch_covered c), ch_ranges_compacted := True\<rparr>)"
    by (simp add: pass_ok_def)
  from ch_reconcile_ok [OF this] True show ?thesis
    by (simp add: ch_compact_ranges_def Let_def)
qed (use assms in \<open>simp add: ch_compact_ranges_def\<close>)

lemma ch_compact_tasks_ok:
  "pass_ok chain left D c \<Longrightarrow> ch_compact_tasks c = Inr c' \<Longrightarrow> pass_ok chain left D c'"
  using set_drop_subset [of "length (ch_tasks c) - 127" "ch_tasks c"]
  by (auto simp: ch_compact_tasks_def bindR_eq_Inr pass_ok_def Let_def split: if_splits) blast

lemma sigs_unique_txs:
  "\<forall>x \<in> set ts. truthy_opt (tx_sig x) \<Longrightarrow> sigs (unique_txs seen ts) \<union> set seen = sigs ts \<union> set seen"
proof (induction ts arbitrary: seen)
  case Nil
  then show ?case by simp
next
  case (Cons t ts)
  then obtain g where g: "tx_sig t = Some g" "g \<noteq> []" by (auto elim: truthy_optE)
  have 1: "sigs (t # xs) = insert g (sigs xs)" for xs using g by (auto simp: sigs_def)
  show ?case
  proof (cases "g \<in> set seen")
    case True
    with Cons g 1 show ?thesis by auto
  next
    case False
    with Cons.IH [of "g # seen"] Cons.prems g 1 show ?thesis by auto
  qed
qed

lemma sigs_sort_key [simp]: "sigs (sort_key f xs) = sigs xs"
  by (simp add: sigs_def)

text \<open>The phases of a call that returns.\<close>

lemma collect_history_phases:
  assumes "collect_history fuel fetch nextp ps now start opt w = Some (Inr (txs, stats, ps'), w')"
  obtains c1 w1 c2 c3 where
    "ch_head fuel fetch nextp opt (ch_init ps now start opt) w = Some (Inr c1, w1)"
    "ch_repair fuel fetch nextp opt start (ch_reconcile start c1) w1 = Some (Inr c2, w')"
    "ch_compact_tasks (ch_compact_ranges start c2) = Inr c3"
    "txs = sort_key (\<lambda>t. (tx_time t, tx_index t)) (unique_txs [] (ch_txs c3))"
    "stats = ch_stats ps start c3" "ps' = ch_store ps start c3"
proof -
  from assms obtain r w1 where 1: "ch_head fuel fetch nextp opt (ch_init ps now start opt) w = Some (r, w1)"
    and rest: "(case r of Inl e \<Rightarrow> Some (Inl e, w1) | Inr c1 \<Rightarrow>
       Option.bind (ch_repair fuel fetch nextp opt start (ch_reconcile start c1) w1) (\<lambda>(r2, w2).
         Some (bindR r2 (\<lambda>c2. bindR (ch_compact_tasks (ch_compact_ranges start c2)) (\<lambda>c3.
           Inr (sort_key (\<lambda>t. (tx_time t, tx_index t)) (unique_txs [] (ch_txs c3)),
                ch_stats ps start c3, ch_store ps start c3))), w2))) = Some (Inr (txs, stats, ps'), w')"
    unfolding collect_history_def Option.bind_eq_Some_conv by (auto simp only: prod.case)
  from rest obtain c1 where r: "r = Inr c1" by (cases r) auto
  from rest r obtain r2 w2 where
    2: "ch_repair fuel fetch nextp opt start (ch_reconcile start c1) w1 = Some (r2, w2)"
    and fin: "bindR r2 (\<lambda>c2. bindR (ch_compact_tasks (ch_compact_ranges start c2)) (\<lambda>c3.
           Inr (sort_key (\<lambda>t. (tx_time t, tx_index t)) (unique_txs [] (ch_txs c3)),
                ch_stats ps start c3, ch_store ps start c3))) = Inr (txs, stats, ps')" and "w2 = w'"
    by (cases "ch_repair fuel fetch nextp opt start (ch_reconcile start c1) w1") auto
  from fin obtain c2 c3 where "r2 = Inr c2" "ch_compact_tasks (ch_compact_ranges start c2) = Inr c3"
    "txs = sort_key (\<lambda>t. (tx_time t, tx_index t)) (unique_txs [] (ch_txs c3))"
    "stats = ch_stats ps start c3" "ps' = ch_store ps start c3"
    unfolding bindR_eq_Inr by blast
  with 1 2 r \<open>w2 = w'\<close> that show thesis by blast
qed

lemma collect_history_coverage_lemma:
  assumes "honest_archive chain left fetch" and "pinned fetch"
    and "pool_ok chain left D ps"
    and "collect_history fuel fetch nextp ps now start opt w = Some (Inr (txs, stats, ps'), w')"
  shows "pool_ok chain left (D \<union> sigs txs) ps'"
  using assms(4)
proof (cases rule: collect_history_phases)
  case (1 c1 w1 c2 c3)
  have "pass_ok chain left D c1"
    using ch_head_ok [OF assms(1,2) ch_init_ok [OF assms(3)] 1(1)] ..
  then have "pass_ok chain left D c2"
    by (rule ch_repair_ok [OF assms(1,2) ch_reconcile_ok 1(2)])
  then have ok: "pass_ok chain left D c3"
    by (rule ch_compact_tasks_ok [OF ch_compact_ranges_ok 1(3)])
  then have "sigs txs = sigs (ch_txs c3)"
    using sigs_unique_txs [of "ch_txs c3" "[]"] 1(4) by (simp add: pass_ok_def)
  with ok 1(6) show ?thesis by (simp add: pool_ok_def pass_ok_def ch_store_def)
qed

text \<open>
  C1: Coverage soundness.  Against an archive that keeps its documented paging contract, one pass
  keeps the claim the pool's state makes: every finalized transaction whose second lies in the
  stored covered ranges has been delivered, by this pass or an earlier one, and every stored cursor
  still leads to all transactions of its task that were not delivered.
\<close>

theorem collect_history_coverage:
  assumes "honest_archive chain left fetch" and "pinned fetch"
    and "pool_ok chain left D ps"
    and "collect_history fuel fetch nextp ps now start opt w = Some (Inr (txs, stats, ps'), w')"
  shows "pool_ok chain left (D \<union> sigs txs) ps'"
  using assms by (rule collect_history_coverage_lemma)

section \<open>The backlog is exactly what is not covered\<close>

definition exact :: "int \<Rightarrow> pass \<Rightarrow> bool" where
  "exact start c \<longleftrightarrow>
     (ch_tasks c = [] \<longleftrightarrow> {start..ch_now c} \<subseteq> seconds (ch_covered c)) \<and>
     (\<not> ch_backlog_compacted c \<longrightarrow>
        seconds (map task_range (ch_tasks c)) = {start..ch_now c} - seconds (ch_covered c))"

lemma reconcile_empty: "reconcile_tasks ts cov s e = [] \<longleftrightarrow> {s..e} \<subseteq> seconds cov"
proof
  assume "reconcile_tasks ts cov s e = []"
  then show "{s..e} \<subseteq> seconds cov" using seconds_reconcile [of ts cov s e] by auto
next
  assume sub: "{s..e} \<subseteq> seconds cov"
  show "reconcile_tasks ts cov s e = []"
  proof (rule ccontr)
    assume "reconcile_tasks ts cov s e \<noteq> []"
    then obtain t where t: "t \<in> set (reconcile_tasks ts cov s e)" by (cases "reconcile_tasks ts cov s e") auto
    then have "task_a t \<le> task_b t" by (auto simp: reconcile_tasks_def dest!: tile_bounds)
    then have "task_a t \<in> seconds (map task_range (reconcile_tasks ts cov s e))"
      using t by (force simp: seconds_def)
    then have "task_a t \<in> {s..e}" "task_a t \<notin> seconds cov" by (simp_all add: seconds_reconcile)
    with sub show False by blast
  qed
qed

lemma exact_reconcile: "exact start (ch_reconcile start c)"
  by (simp add: exact_def ch_reconcile_def reconcile_empty seconds_reconcile)

lemma exact_compact_ranges: "exact start c \<Longrightarrow> exact start (ch_compact_ranges start c)"
  by (simp add: ch_compact_ranges_def Let_def exact_reconcile)

lemma exact_compact_tasks: "exact start c \<Longrightarrow> ch_compact_tasks c = Inr c' \<Longrightarrow> exact start c'"
  by (auto simp: ch_compact_tasks_def Let_def bindR_eq_Inr exact_def split: if_splits)

lemma exact_repair:
  assumes "ch_repair fuel fetch nextp opt start (ch_reconcile start c) w = Some (Inr c', w')"
  shows "exact start c'"
  using assms by (cases rule: ch_repair_cases) (simp_all add: exact_reconcile)

lemma collect_history_exact:
  assumes "collect_history fuel fetch nextp ps now start opt w = Some (Inr (txs, stats, ps'), w')"
  shows "hs_full_complete stats \<longleftrightarrow> {start..hs_observed_to stats} \<subseteq> seconds (ps_covered ps')"
    and "\<not> hs_backlog_compacted stats \<Longrightarrow>
      seconds (map task_range (ps_backlogs ps')) = {start..hs_observed_to stats} - seconds (ps_covered ps')"
proof -
  from assms obtain c1 w1 c2 c3 where
    2: "ch_repair fuel fetch nextp opt start (ch_reconcile start c1) w1 = Some (Inr c2, w')"
    and 3: "ch_compact_tasks (ch_compact_ranges start c2) = Inr c3"
    and out: "stats = ch_stats ps start c3" "ps' = ch_store ps start c3"
    by (rule collect_history_phases)
  have "exact start c3"
    by (rule exact_compact_tasks [OF exact_compact_ranges [OF exact_repair [OF 2]] 3])
  with out show "hs_full_complete stats \<longleftrightarrow> {start..hs_observed_to stats} \<subseteq> seconds (ps_covered ps')"
    and "\<not> hs_backlog_compacted stats \<Longrightarrow>
      seconds (map task_range (ps_backlogs ps')) = {start..hs_observed_to stats} - seconds (ps_covered ps')"
    by (simp_all add: exact_def ch_stats_def ch_store_def Let_def)
qed

text \<open>
  C13: A pass that reports \<open>full_history_complete\<close> against an archive that keeps its contract has
  delivered every transaction of the chain between the start of the window and the second it
  observed.
\<close>

theorem full_history_complete_sound:
  assumes "honest_archive chain left fetch" and "pinned fetch" and "pool_ok chain left D ps"
    and "collect_history fuel fetch nextp ps now start opt w = Some (Inr (txs, stats, ps'), w')"
    and "hs_full_complete stats"
    and "t \<in> chain" and "start \<le> tx_time t" and "tx_time t \<le> hs_observed_to stats"
  shows "delivered (D \<union> sigs txs) t"
proof -
  have "covered_ok chain (D \<union> sigs txs) (ps_covered ps')"
    using collect_history_coverage_lemma [OF assms(1-4)] by (simp add: pool_ok_def)
  moreover have "tx_time t \<in> seconds (ps_covered ps')"
    using collect_history_exact(1) [OF assms(4)] assms(5,7,8) by auto
  ultimately show ?thesis using assms(6) by (simp add: covered_ok_def)
qed

text \<open>
  The backlog is exact.  As long as the backlog was not compacted, the tasks left after a pass
  are the seconds of the window that are not covered, no more and no less.
\<close>

theorem backlog_is_uncovered:
  assumes "collect_history fuel fetch nextp ps now start opt w = Some (Inr (txs, stats, ps'), w')"
    and "\<not> hs_backlog_compacted stats"
  shows "seconds (map task_range (ps_backlogs ps')) =
    {start..hs_observed_to stats} - seconds (ps_covered ps')"
  using collect_history_exact(2) [OF assms] .

section \<open>Bounded storage and returned transactions\<close>

lemma length_compact_ranges: "length (ch_covered (ch_compact_ranges start c)) \<le> 128"
  by (simp add: ch_compact_ranges_def Let_def ch_reconcile_def)

lemma compact_tasks_frame:
  "ch_compact_tasks c = Inr c' \<Longrightarrow> ch_covered c' = ch_covered c \<and> ch_txs c' = ch_txs c \<and>
     length (ch_tasks c') \<le> 128"
  by (auto simp: ch_compact_tasks_def bindR_eq_Inr Let_def split: if_splits)

text \<open>
  Storage stays bounded.  However long the history, a pass stores at most 128 covered ranges
  and 128 repair tasks.
\<close>

theorem history_storage_bounded:
  assumes "collect_history fuel fetch nextp ps now start opt w = Some (Inr (txs, stats, ps'), w')"
  shows "length (ps_covered ps') \<le> 128 \<and> length (ps_backlogs ps') \<le> 128"
proof -
  from assms obtain c2 c3 where
    3: "ch_compact_tasks (ch_compact_ranges start c2) = Inr c3" and out: "ps' = ch_store ps start c3"
    by (rule collect_history_phases)
  with compact_tasks_frame [OF 3] length_compact_ranges [of start c2] show ?thesis
    by (simp add: ch_store_def)
qed

lemma unique_txs_distinct:
  "distinct (map tx_sig (unique_txs seen ts)) \<and> (\<forall>t \<in> set (unique_txs seen ts). \<forall>g.
     tx_sig t = Some g \<longrightarrow> g \<notin> set seen)"
proof (induction ts arbitrary: seen)
  case Nil
  then show ?case by simp
next
  case (Cons t ts)
  show ?case
  proof (cases "truthy_opt (tx_sig t) \<and> the (tx_sig t) \<notin> set seen")
    case True
    then obtain g where g: "tx_sig t = Some g" "g \<notin> set seen" by (auto elim: truthy_optE)
    with True Cons.IH [of "g # seen"] show ?thesis
      by (auto simp: image_iff) metis
  next
    case False
    with Cons.IH [of seen] show ?thesis by auto
  qed
qed

text \<open>
  The transactions a pass returns are in chain order (block time, then index in the block) and
  no signature occurs twice.
\<close>

theorem history_transactions_ordered:
  assumes "collect_history fuel fetch nextp ps now start opt w = Some (Inr (txs, stats, ps'), w')"
  shows "sorted (map (\<lambda>t. (tx_time t, tx_index t)) txs) \<and> distinct (map tx_sig txs)"
proof -
  from assms obtain c3 :: pass where t: "txs = sort_key (\<lambda>t. (tx_time t, tx_index t)) (unique_txs [] (ch_txs c3))"
    by (rule collect_history_phases) blast
  have "distinct (map tx_sig (unique_txs [] (ch_txs c3)))" using unique_txs_distinct by blast
  moreover have "mset (map tx_sig txs) = mset (map tx_sig (unique_txs [] (ch_txs c3)))"
    by (simp add: t)
  ultimately have "distinct (map tx_sig txs)" by (metis mset_eq_imp_distinct_iff)
  with t show ?thesis by simp
qed

section \<open>A pass returns\<close>

context failover_source
begin

lemma head_returns:
  assumes "nat (op_head_pages opt) + card names + 1 < fuel"
  shows "\<exists>r. ch_head fuel fetch nextp opt c w = Some r"
proof (cases "op_reuse_head opt")
  case False
  obtain r where "read_range fuel fetch nextp (gap_task (ch_live_from c) (ch_now c))
      (op_head_pages opt) (op_live_limit opt) ''live'' w = Some r"
    using read_returns [OF assms] by blast
  with False show ?thesis by (simp add: ch_head_def)
qed (simp add: ch_head_def)

lemma repair_returns:
  assumes "nat (op_repair_pages opt) + card names + 1 < fuel"
  shows "\<exists>r. ch_repair fuel fetch nextp opt start c w = Some r"
proof -
  have "\<exists>r. read_range fuel fetch nextp t (op_repair_pages opt) (op_archive_limit opt) ''archive'' w = Some r"
    for t by (rule read_returns [OF assms])
  then show ?thesis
    by (fastforce simp: ch_repair_def split: sum.splits)
qed

lemma collect_returns:
  assumes "nat (op_head_pages opt) + card names + 1 < fuel"
    and "nat (op_repair_pages opt) + card names + 1 < fuel"
  shows "\<exists>r. collect_history fuel fetch nextp ps now start opt w = Some r"
proof -
  obtain r w1 where 1: "ch_head fuel fetch nextp opt (ch_init ps now start opt) w = Some (r, w1)"
    using head_returns [OF assms(1)] by fastforce
  show ?thesis
  proof (cases r)
    case (Inl e)
    with 1 show ?thesis by (simp add: collect_history_def)
  next
    case (Inr c1)
    obtain r2 w2 where "ch_repair fuel fetch nextp opt start (ch_reconcile start c1) w1 = Some (r2, w2)"
      using repair_returns [OF assms(2)] by fastforce
    with 1 Inr show ?thesis by (simp add: collect_history_def)
  qed
qed

end

section \<open>A worked example\<close>

text \<open>
  One transaction at second 150 of a window [100, 200], behind a provider that answers in one page:
  the hypotheses of the theorems above hold for it, and the pass evaluates.
\<close>

definition demo_tx :: tx where
  "demo_tx = \<lparr>tx_time = 150, tx_sig = Some ''S'', tx_index = 0\<rparr>"

definition demo_fetch :: "unit fetcher" where
  "demo_fetch rq w =
     (Inr \<lparr>pg_provider = rq_provider rq,
           pg_data = Some (if rq_gte rq \<le> 150 \<and> 150 \<le> rq_lte rq then [demo_tx] else []),
           pg_token = None, pg_limit = None\<rparr>, w)"

definition demo_next :: "unit failover" where
  "demo_next ex kind w = (None, w)"

definition demo_left :: "string \<Rightarrow> string \<Rightarrow> int \<Rightarrow> int \<Rightarrow> tx set" where
  "demo_left p c a b = {}"

definition demo_pool :: pool_state where
  "demo_pool = \<lparr>ps_covered = [], ps_backlogs = [], ps_version = Some 2, ps_observed_to = None,
     ps_live_from = None, ps_initial_to = None, ps_head_time = None, ps_complete_to = None, ps_legacy = []\<rparr>"

definition demo_options :: options where
  "demo_options = \<lparr>op_live_limit = 100, op_archive_limit = 1000, op_head_pages = 1, op_repair_pages = 1,
     op_overlap = 30, op_head_only = False, op_reuse_head = False, op_priority = None\<rparr>"

definition demo_pass :: "((tx list \<times> history_stats \<times> pool_state) res \<times> unit) option" where
  "demo_pass = collect_history 4 demo_fetch demo_next demo_pool 200 100 demo_options ()"

lemma demo_honest: "honest_archive {demo_tx} demo_left demo_fetch"
  by (auto simp: honest_archive_def demo_fetch_def left_of_def demo_left_def demo_tx_def
      split: option.splits)

lemma demo_pinned: "pinned demo_fetch"
  by (simp add: pinned_def demo_fetch_def actual_provider_def)

lemma demo_pool_ok: "pool_ok {demo_tx} demo_left {} demo_pool"
  by (simp add: pool_ok_def covered_ok_def demo_pool_def)

definition demo_check :: "((tx list \<times> history_stats \<times> pool_state) res \<times> unit) option \<Rightarrow> bool" where
  "demo_check r = (case r of None \<Rightarrow> False | Some (v, u) \<Rightarrow> (case v of Inl e \<Rightarrow> False | Inr (txs, stats, ps') \<Rightarrow>
     txs = [demo_tx] \<and> ps_covered ps' = [(100, 200)] \<and> hs_full_complete stats \<and>
     hs_observed_to stats = 200 \<and> \<not> hs_backlog_compacted stats))"

lemma demo_pass_check: "demo_check demo_pass"
  by code_simp

lemma demo_pass_result:
  obtains stats ps' where
    "collect_history 4 demo_fetch demo_next demo_pool 200 100 demo_options () =
       Some (Inr ([demo_tx], stats, ps'), ())"
    "ps_covered ps' = [(100, 200)]" "hs_full_complete stats" "hs_observed_to stats = 200"
    "\<not> hs_backlog_compacted stats"
proof -
  obtain v u where v: "demo_pass = Some (v, u)"
    using demo_pass_check by (cases demo_pass) (auto simp: demo_check_def)
  with demo_pass_check have c: "demo_check (Some (v, u))" by simp
  then obtain txs stats ps' where t: "v = Inr (txs, stats, ps')"
    by (cases v) (auto simp: demo_check_def)
  show thesis
    by (rule that [of stats ps']) (use c t v in \<open>simp_all add: demo_check_def demo_pass_def\<close>)
qed

theorem collect_history_coverage_witness:
  "\<exists>stats ps'. collect_history 4 demo_fetch demo_next demo_pool 200 100 demo_options () =
       Some (Inr ([demo_tx], stats, ps'), ()) \<and> ps_covered ps' = [(100, 200)] \<and>
     pool_ok {demo_tx} demo_left ({} \<union> sigs [demo_tx]) ps'"
proof (rule demo_pass_result)
  fix stats ps'
  assume run: "collect_history 4 demo_fetch demo_next demo_pool 200 100 demo_options () =
       Some (Inr ([demo_tx], stats, ps'), ())" and cov: "ps_covered ps' = [(100, 200)]"
  from collect_history_coverage [OF demo_honest demo_pinned demo_pool_ok run] run cov
  show ?thesis by blast
qed

theorem full_history_complete_sound_witness:
  "\<exists>stats ps'. collect_history 4 demo_fetch demo_next demo_pool 200 100 demo_options () =
       Some (Inr ([demo_tx], stats, ps'), ()) \<and> hs_full_complete stats \<and>
     delivered ({} \<union> sigs [demo_tx]) demo_tx"
proof (rule demo_pass_result)
  fix stats ps'
  assume run: "collect_history 4 demo_fetch demo_next demo_pool 200 100 demo_options () =
       Some (Inr ([demo_tx], stats, ps'), ())"
    and full: "hs_full_complete stats" and obs: "hs_observed_to stats = 200"
  from full_history_complete_sound [OF demo_honest demo_pinned demo_pool_ok run full, of demo_tx] obs
  have "delivered ({} \<union> sigs [demo_tx]) demo_tx" by (simp add: demo_tx_def)
  with run full show ?thesis by blast
qed

theorem backlog_is_uncovered_witness:
  "\<exists>stats ps'. collect_history 4 demo_fetch demo_next demo_pool 200 100 demo_options () =
       Some (Inr ([demo_tx], stats, ps'), ()) \<and>
     seconds (map task_range (ps_backlogs ps')) = {100..hs_observed_to stats} - seconds (ps_covered ps')"
proof (rule demo_pass_result)
  fix stats ps'
  assume run: "collect_history 4 demo_fetch demo_next demo_pool 200 100 demo_options () =
       Some (Inr ([demo_tx], stats, ps'), ())" and nc: "\<not> hs_backlog_compacted stats"
  from backlog_is_uncovered [OF run nc] run show ?thesis by blast
qed

theorem history_storage_bounded_witness:
  "\<exists>stats ps'. collect_history 4 demo_fetch demo_next demo_pool 200 100 demo_options () =
       Some (Inr ([demo_tx], stats, ps'), ()) \<and>
     length (ps_covered ps') \<le> 128 \<and> length (ps_backlogs ps') \<le> 128"
proof (rule demo_pass_result)
  fix stats ps'
  assume run: "collect_history 4 demo_fetch demo_next demo_pool 200 100 demo_options () =
       Some (Inr ([demo_tx], stats, ps'), ())"
  from history_storage_bounded [OF run] run show ?thesis by blast
qed

theorem history_transactions_ordered_witness:
  "\<exists>stats ps'. collect_history 4 demo_fetch demo_next demo_pool 200 100 demo_options () =
       Some (Inr ([demo_tx], stats, ps'), ()) \<and>
     sorted (map (\<lambda>t. (tx_time t, tx_index t)) [demo_tx]) \<and> distinct (map tx_sig [demo_tx])"
proof (rule demo_pass_result)
  fix stats ps'
  assume run: "collect_history 4 demo_fetch demo_next demo_pool 200 100 demo_options () =
       Some (Inr ([demo_tx], stats, ps'), ())"
  from history_transactions_ordered [OF run] run show ?thesis by blast
qed

end
