(* ===== verification/Rpc_History.thy ===== *)
theory Rpc_History
  imports Rpc_Routed Pool_History
begin

text \<open>
  The pool history read through the router (\<^verbatim>\<open>src/scanner.py\<close>, the callbacks of
  \<open>fetch_attention_pool_transactions\<close>): the two functions the read of \<open>Read_Range\<close> takes as its
  transport, over the router and the outside as their world, and the contract they keep.
\<close>

section \<open>The callbacks\<close>

text \<open>A row of an indexed page, \<open>int(tx.get("blockTime") or 0)\<close> and its first signature.\<close>

definition tx_of :: "pyval \<Rightarrow> tx" where
  "tx_of v =
     \<lparr>tx_time = (case getd v ''blockTime'' of PInt n \<Rightarrow> n | _ \<Rightarrow> 0),
      tx_sig = (case getd (getd v ''transaction'') ''signatures'' of PList (PStr s # _) \<Rightarrow> Some s | _ \<Rightarrow> None),
      tx_index = (case getd v ''transactionIndex'' of PInt n \<Rightarrow> n | _ \<Rightarrow> 0)\<rparr>"

definition str_opt :: "pyval \<Rightarrow> string option" where
  "str_opt v = (case v of PStr s \<Rightarrow> Some s | _ \<Rightarrow> None)"

definition page_of :: "pyval \<Rightarrow> page" where
  "page_of v =
     \<lparr>pg_provider = str_opt (getd v ''_provider''),
      pg_data = (case getd v ''data'' of PList rows \<Rightarrow> Some (map tx_of rows) | _ \<Rightarrow> None),
      pg_token = str_opt (getd v ''paginationToken''),
      pg_limit = (case getd v ''_page_limit'' of PInt n \<Rightarrow> Some n | _ \<Rightarrow> None)\<rparr>"

definition routed_fetch :: "'w net \<Rightarrow> routes \<Rightarrow> string \<Rightarrow> (router \<times> 'w) fetcher" where
  "routed_fetch net ro address q s =
     (case transactions_for_address net ro address (rq_limit q) ''desc'' (rq_token q)
             (PDict [(''gte'', PInt (rq_gte q)), (''lte'', PInt (rq_lte q))]) (rq_provider q) (rq_excluded q) (rq_task q)
             (fst s) (snd s) of
        (r, rt, w) \<Rightarrow> (bindR r (\<lambda>v. Inr (page_of v)), (rt, w)))"

text \<open>
  \<open>next_enhanced_provider\<close> asks each provider whether it can call with no parameters; an error of
  that question counts as no provider.
\<close>

definition routed_next :: "'w net \<Rightarrow> routes \<Rightarrow> (router \<times> 'w) failover" where
  "routed_next net ro excluded task s =
     (case next_enhanced_provider net ro excluded task (fst s) (snd s) of
        (r, rt, w) \<Rightarrow> ((case r of Inl e \<Rightarrow> None | Inr p \<Rightarrow> p), (rt, w)))"

definition history_names :: "routes \<Rightarrow> string set" where
  "history_names ro = set (ro_archive ro) \<union> set (ro_enhanced ro)"

section \<open>The router is a failover source\<close>

lemma first_eligible_fresh:
  assumes "first_eligible net method excluded ns rt w = (Inr (Some p), rt', w')"
  shows "p \<in> set ns \<and> p \<notin> set excluded"
  using assms
proof (induction ns arbitrary: rt w)
  case Nil
  then show ?case by simp
next
  case (Cons n ns)
  obtain b rt1 w1 where n: "probe net method excluded n rt w = (b, rt1, w1)" by (metis prod.exhaust)
  show ?case
  proof (cases "b = Inr True")
    case True
    with n have "n \<notin> set excluded"
      by (auto simp: probe_def bindR_eq_Inr eligible_def split: option.splits prod.splits)
    with Cons.prems n True show ?thesis by simp
  next
    case False
    with Cons.prems n have "first_eligible net method excluded ns rt1 w1 = (Inr (Some p), rt', w')"
      by (auto split: sum.splits bool.splits)
    with Cons.IH show ?thesis by auto
  qed
qed

lemma routed_page:
  assumes "routed_fetch net ro address q s = (Inr pg, s')" and "rq_provider q = Some p" and "p \<noteq> []"
  shows "pg_provider pg = Some p" and "\<exists>rows. pg_data pg = Some rows"
proof -
  obtain rt w where s: "s = (rt, w)" by (cases s)
  from assms(1,2) obtain d name rt' w' order timeout
    where c: "route_call net ro HISTORY [PStr address, PDict (history_opts (rq_limit q) ''desc'' (rq_token q)
          (PDict [(''gte'', PInt (rq_gte q)), (''lte'', PInt (rq_lte q))]))] (Some p) order timeout (rq_excluded q) rt w =
        (Inr (PDict d, name), rt', w')"
      and pg: "pg = page_of (PDict (AList.update ''_provider'' (PStr name) d))"
    by (auto simp: routed_fetch_def transactions_for_address_def Let_def bindR_eq_Inr s split: sum.splits prod.splits pyval.splits)
  from route_call_answer(1) [OF c] assms(3) have "name = p" by (simp add: names_of_def)
  with pg show "pg_provider pg = Some p" by (simp add: page_of_def str_opt_def update_conv')
  from route_call_answer(3) [OF c] have "is_list (getd (PDict d) ''data'')"
    by (simp add: validate_result_def invalid_def split: if_split_asm)
  then obtain rows where "getd (PDict d) ''data'' = PList rows" by (cases "getd (PDict d) ''data''") auto
  with pg show "\<exists>rows. pg_data pg = Some rows" by (simp add: page_of_def update_conv')
qed

interpretation routed: failover_source "routed_fetch net ro address" "routed_next net ro" "history_names ro" for net ro address
proof
  show "finite (history_names ro)" by (simp add: history_names_def)
next
  fix ex kind p and w w' :: "router \<times> 'a"
  assume "routed_next net ro ex kind w = (Some p, w')"
  then have "next_enhanced_provider net ro ex kind (fst w) (snd w) = (Inr (Some p), fst w', snd w')"
    by (auto simp: routed_next_def split: prod.splits sum.splits)
  from first_eligible_fresh [OF this [unfolded next_enhanced_provider_def]]
  show "p \<in> history_names ro \<and> p \<notin> set ex" by (auto simp: history_names_def split: if_split_asm)
next
  show "pinned (routed_fetch net ro address)"
    unfolding pinned_def using routed_page(1) by (fastforce simp: actual_provider_def)
qed

text \<open>
  C25: The pool history collected through the router always returns: a bound on the page budgets and
  the number of indexed providers is enough, however the providers answer, fail or repeat cursors.
\<close>

theorem routed_history_returns:
  assumes "nat (op_head_pages opt) + card (history_names ro) + 1 < fuel"
    and "nat (op_repair_pages opt) + card (history_names ro) + 1 < fuel"
  shows "\<exists>r. collect_history fuel (routed_fetch net ro address) (routed_next net ro) ps now start opt (rt, w) = Some r"
  by (rule routed.collect_returns [OF assms])

text \<open>
  A page the router answers to a request pinned to a provider comes from that provider, so that a
  cursor is never continued on another provider's pages.
\<close>

theorem routed_page_pinned:
  assumes "routed_fetch net ro address q s = (Inr pg, s')" and "rq_provider q = Some p" and "p \<noteq> []"
  shows "actual_provider pg (rq_provider q) = p \<and> (\<exists>rows. pg_data pg = Some rows)"
  using routed_page [OF assms] assms(2,3) by (simp add: actual_provider_def)

section \<open>A worked read\<close>

definition page_net :: "unit net" where
  "page_net = sample_net (\<lambda>name. (200, PDict [(''data'', PList []), (''paginationToken'', PStr ''next'')]))"

definition pinned_request :: request where
  "pinned_request = \<lparr>rq_limit = 100, rq_token = None, rq_provider = Some ''alchemy'', rq_excluded = [], rq_task = ''live'',
     rq_gte = 1, rq_lte = 9\<rparr>"

theorem routed_page_pinned_witness:
  "let (r, s) = routed_fetch page_net sample_routes ''pool'' pinned_request (make_router sample_providers, ())
   in (case r of Inl e \<Rightarrow> False | Inr pg \<Rightarrow> pg_token pg = Some ''next'' \<and> actual_provider pg (Some ''alchemy'') = ''alchemy'')"
proof -
  let ?run = "routed_fetch page_net sample_routes ''pool'' pinned_request (make_router sample_providers, ())"
  have "case fst ?run of Inl e \<Rightarrow> False | Inr pg \<Rightarrow> pg_token pg = Some ''next''" by code_simp
  then obtain pg where pg: "fst ?run = Inr pg" "pg_token pg = Some ''next''" by (auto split: sum.splits)
  then have run: "?run = (Inr pg, snd ?run)" by (metis prod.collapse)
  have "rq_provider pinned_request = Some ''alchemy''" by (simp add: pinned_request_def)
  from routed_page_pinned [OF run this] have "actual_provider pg (Some ''alchemy'') = ''alchemy''"
    by (simp add: pinned_request_def)
  with pg show ?thesis by (simp add: case_prod_unfold Let_def)
qed

theorem routed_history_returns_witness:
  "history_names sample_routes = {''helius'', ''alchemy''} \<and>
   (\<exists>r. collect_history 6 (routed_fetch page_net sample_routes ''pool'') (routed_next page_net sample_routes)
      demo_pool 200 100 demo_options (make_router sample_providers, ()) = Some r)"
proof -
  have "ro_archive sample_routes = [''helius'', ''alchemy''] \<and> ro_enhanced sample_routes = [''alchemy'', ''helius'']"
    by code_simp
  then have names: "history_names sample_routes = {''helius'', ''alchemy''}" by (auto simp: history_names_def)
  have "nat (op_head_pages demo_options) + card (history_names sample_routes) + 1 < 6"
    "nat (op_repair_pages demo_options) + card (history_names sample_routes) + 1 < 6"
    by (simp_all add: names demo_options_def)
  from conjI [OF names routed_history_returns [OF this]] show ?thesis .
qed

end
