(* ===== verification/Rpc_Limiter.thy ===== *)
theory Rpc_Limiter
  imports Rpc_Costs
begin

text \<open>
  \<^verbatim>\<open>src/rpc_limiter.py\<close>: the process-wide pacing of requests, by spacing or by a leaky bucket.

  Times and units are exact rationals for the program's floats.  An \<open>acquire\<close> reads the clock twice,
  before and after its sleep: the readings are arguments.  The lock makes one \<open>acquire\<close> one step.
\<close>

section \<open>NativeUnitLimiter\<close>

record limiter =
  lm_rate :: rat
  lm_capacity :: "rat option"
  lm_next :: rat               \<comment> \<open>\<open>next_at\<close>\<close>
  lm_level :: rat
  lm_updated :: "rat option"

definition new_limiter :: "rat \<Rightarrow> rat option \<Rightarrow> limiter res" where
  "new_limiter rate capacity =
     (if rate \<le> 0 then Inl (ValueError ''rate must be positive and finite'')
      else if (case capacity of None \<Rightarrow> False | Some c \<Rightarrow> c \<le> 0)
      then Inl (ValueError ''capacity must be positive and finite'')
      else Inr \<lparr>lm_rate = rate, lm_capacity = capacity, lm_next = 0, lm_level = 0, lm_updated = None\<rparr>)"

text \<open>The units of a request: a positive finite number.\<close>

fun throughput_units :: "pyval \<Rightarrow> rat res" where
  "throughput_units (PInt n) =
     (if n \<le> 0 then Inl (ValueError ''throughput units must be positive and finite'') else Inr (of_int n))"
| "throughput_units (PFloat (Fin q)) =
     (if q \<le> 0 then Inl (ValueError ''throughput units must be positive and finite'') else Inr q)"
| "throughput_units (PFloat f) = Inl (ValueError ''throughput units must be positive and finite'')"
| "throughput_units (PBool b) = Inl (ValueError ''throughput units must be positive and finite'')"
| "throughput_units v = Inl TypeError"

text \<open>The bucket's level when the clock is first read.\<close>

definition drained :: "limiter \<Rightarrow> rat \<Rightarrow> rat" where
  "drained l now =
     (let elapsed = (case lm_updated l of None \<Rightarrow> 0 | Some t \<Rightarrow> max 0 (now - t))
      in max 0 (lm_level l - elapsed * lm_rate l))"

definition slot_delay :: "limiter \<Rightarrow> rat \<Rightarrow> rat \<Rightarrow> rat" where
  "slot_delay l units now =
     (case lm_capacity l of
        None \<Rightarrow> max 0 (lm_next l - now)
      | Some c \<Rightarrow> max 0 ((drained l now + units - c) / lm_rate l))"

definition take_slot :: "limiter \<Rightarrow> rat \<Rightarrow> rat \<Rightarrow> rat \<Rightarrow> limiter" where
  "take_slot l units now started =
     (case lm_capacity l of
        None \<Rightarrow> l\<lparr>lm_next := started + units / lm_rate l\<rparr>
      | Some c \<Rightarrow> l\<lparr>lm_level := max 0 (drained l now - (started - now) * lm_rate l) + units, lm_updated := Some started\<rparr>)"

definition deadline_error :: pyexc where
  "deadline_error = RuntimeError ''native limiter time budget exhausted''"

definition past_deadline :: "rat option \<Rightarrow> rat \<Rightarrow> bool" where
  "past_deadline deadline t \<longleftrightarrow> (case deadline of None \<Rightarrow> False | Some d \<Rightarrow> t \<ge> d)"

text \<open>\<open>now\<close> and \<open>after\<close> are the two readings; the answer is the delay.\<close>

definition acquire :: "pyval \<Rightarrow> rat option \<Rightarrow> rat \<Rightarrow> rat \<Rightarrow> limiter \<Rightarrow> rat res \<times> limiter" where
  "acquire units deadline now after l =
     (case throughput_units units of
        Inl e \<Rightarrow> (Inl e, l)
      | Inr u \<Rightarrow>
          if (case lm_capacity l of None \<Rightarrow> False | Some c \<Rightarrow> u > c)
          then (Inl (ValueError ''request weight exceeds bucket capacity''), l)
          else (let delay = slot_delay l u now; started = max after (now + delay) in
                if past_deadline deadline (now + delay) \<or> past_deadline deadline started then (Inl deadline_error, l)
                else (Inr delay, take_slot l u now started)))"

section \<open>ProviderLimiters\<close>

type_synonym buckets = "(string \<times> limiter) list"

definition plain_limiter :: "rat \<Rightarrow> limiter" where
  "plain_limiter rate = \<lparr>lm_rate = rate, lm_capacity = None, lm_next = 0, lm_level = 0, lm_updated = None\<rparr>"

definition provider_buckets :: "rat \<Rightarrow> rat \<Rightarrow> rat \<Rightarrow> rat \<Rightarrow> buckets" where
  "provider_buckets alchemy helius history chainstack =
     [(''alchemy'', plain_limiter alchemy), (''helius'', plain_limiter helius), (''helius_indexed'', plain_limiter history),
      (''helius_enhanced'', plain_limiter history), (''chainstack'', plain_limiter chainstack)]"

definition acquire_bucket :: "string \<Rightarrow> pyval \<Rightarrow> rat option \<Rightarrow> rat \<Rightarrow> rat \<Rightarrow> buckets \<Rightarrow> rat res \<times> buckets" where
  "acquire_bucket name units deadline now after bs =
     (case map_of bs name of
        None \<Rightarrow> (Inl KeyError, bs)
      | Some l \<Rightarrow> (case acquire units deadline now after l of (r, l') \<Rightarrow> (r, AList.update name l' bs)))"

text \<open>The clock is the sequence of its readings.\<close>

definition acquire_provider ::
    "string \<Rightarrow> string \<Rightarrow> rat option \<Rightarrow> (nat \<Rightarrow> rat) \<Rightarrow> buckets \<Rightarrow> rat res \<times> buckets" where
  "acquire_provider provider method deadline r bs =
     (if provider = ''helius'' then
        (if method \<in> set HELIUS_DAS_METHODS \<or> method \<in> {''enhancedTransactions'', ''parsedEvents''}
         then acquire_bucket ''helius_enhanced'' (PInt 1) deadline (r 0) (r 1) bs
         else if method = ''getTransactionsForAddress'' then
           (case acquire_bucket ''helius_indexed'' (PInt 1) deadline (r 0) (r 1) bs of
              (Inl e, bs') \<Rightarrow> (Inl e, bs')
            | (Inr waited, bs') \<Rightarrow>
                (case acquire_bucket ''helius'' (PInt 1) deadline (r 2) (r 3) bs' of
                   (x, bs'') \<Rightarrow> (bindR x (\<lambda>d. Inr (waited + d)), bs'')))
         else acquire_bucket ''helius'' (PInt 1) deadline (r 0) (r 1) bs)
      else (case map_of bs provider of
          None \<Rightarrow> (Inl KeyError, bs)
        | Some l \<Rightarrow>
            (case throughput_cost provider method of
               Inl e \<Rightarrow> (Inl e, bs)
             | Inr c \<Rightarrow> acquire_bucket provider (PInt c) deadline (r 0) (r 1) bs)))"

section \<open>GMGN\<close>

definition GMGN_WEIGHTS :: "((string \<times> string) \<times> int) list" where
  "GMGN_WEIGHTS = [((''token'', ''info''), 1), ((''token'', ''security''), 1), ((''token'', ''pool''), 1),
     ((''token'', ''holders''), 5), ((''token'', ''traders''), 5), ((''market'', ''kline''), 2),
     ((''market'', ''trending''), 3), ((''market'', ''trenches''), 2), ((''market'', ''signal''), 1),
     ((''market'', ''hot-searches''), 3), ((''market'', ''search''), 1)]"

definition gmgn_limiter :: limiter where
  "gmgn_limiter = \<lparr>lm_rate = 5, lm_capacity = Some 5, lm_next = 0, lm_level = 0, lm_updated = None\<rparr>"

fun one_second_flag :: "string list \<Rightarrow> bool" where
  "one_second_flag (a # b # rest) \<longleftrightarrow> (a = ''--resolution'' \<and> b = ''1s'') \<or> one_second_flag (b # rest)"
| "one_second_flag _ \<longleftrightarrow> False"

definition gmgn_request_weight :: "string list \<Rightarrow> int res" where
  "gmgn_request_weight arguments =
     (case arguments of
        a # b # rest \<Rightarrow>
          (case map_of GMGN_WEIGHTS (a, b) of
             None \<Rightarrow> Inl (ValueError ''unknown or non-read-only GMGN command weight'')
           | Some weight \<Rightarrow>
               if (a, b) = (''market'', ''kline'') \<and> (''--resolution=1s'' \<in> set arguments \<or> one_second_flag arguments)
               then Inl (ValueError ''1s GMGN kline requires separately verified Pro/global limits'')
               else Inr weight)
      | _ \<Rightarrow> Inl (ValueError ''unknown or non-read-only GMGN command weight''))"

definition wait_for_gmgn_slot :: "string list \<Rightarrow> rat option \<Rightarrow> rat \<Rightarrow> rat \<Rightarrow> limiter \<Rightarrow> rat res \<times> limiter" where
  "wait_for_gmgn_slot arguments deadline now after l =
     (case gmgn_request_weight arguments of
        Inl e \<Rightarrow> (Inl e, l)
      | Inr w \<Rightarrow> acquire (PInt w) deadline now after l)"

section \<open>The contract of a pacer\<close>

text \<open>
  What a limiter owes at a time, in units: it falls by at most the rate, and a grant adds its units
  and stays within the burst.  Over any stretch of time the grants then amount to at most the burst
  and the rate times the stretch.
\<close>

locale pacer =
  fixes owed :: "'s \<Rightarrow> rat \<Rightarrow> rat"
    and grant :: "'s \<Rightarrow> rat \<Rightarrow> rat \<Rightarrow> 's \<Rightarrow> bool" \<comment> \<open>state, start, units, state after\<close>
    and rate :: rat and burst :: rat
    and ready :: "'s \<Rightarrow> rat \<Rightarrow> bool"             \<comment> \<open>the last start is not after the time\<close>
  assumes owed_nonneg: "0 \<le> owed s t"
    and rate_pos: "ready s t \<Longrightarrow> 0 < rate"
    and owed_falls: "ready s t \<Longrightarrow> t \<le> t' \<Longrightarrow> owed s t \<le> owed s t' + rate * (t' - t)"
    and granted: "ready s t \<Longrightarrow> grant s t u s' \<Longrightarrow> ready s' t \<and> owed s' t = owed s t + u \<and> owed s' t \<le> burst"
    and in_order: "ready s t \<Longrightarrow> grant s t u s' \<Longrightarrow> grant s' t' u' s'' \<Longrightarrow> t \<le> t'"
begin

text \<open>The grants of a run, in the order of their starts.\<close>

inductive paced :: "'s \<Rightarrow> (rat \<times> rat) list \<Rightarrow> 's \<Rightarrow> bool" where
  none: "paced s [] s"
| some: "ready s t \<Longrightarrow> grant s t u s1 \<Longrightarrow> paced s1 gs s' \<Longrightarrow> paced s ((t, u) # gs) s'"

inductive_cases paced_ConsE: "paced s (g # gs) s'"

lemma paced_sorted: "paced s gs s' \<Longrightarrow> sorted (map fst gs)"
proof (induction rule: paced.induct)
  case (some s t u s1 gs s')
  have "t \<le> fst g" if "gs = g # hs" for g hs
    using some.hyps(3) that by (auto elim!: paced_ConsE intro: in_order [OF some.hyps(1,2)])
  with some.IH show ?case by (cases gs) auto
qed simp

lemma paced_upto:
  assumes "paced s gs s'" and "ready s t" and "owed s t \<le> burst" and "t \<le> b" and "\<forall>g \<in> set gs. t \<le> fst g"
  shows "owed s t + sum_list (map snd (filter (\<lambda>g. fst g \<le> b) gs)) \<le> burst + rate * (b - t)"
  using assms
proof (induction arbitrary: t rule: paced.induct)
  case (none s)
  have "0 \<le> rate * (b - t)" using rate_pos [OF none(1)] none(3) by simp
  with none show ?case by simp
next
  case (some s v u s1 gs s')
  have pos: "0 < rate" by (rule rate_pos [OF some.hyps(1)])
  have v: "t \<le> v" using some.prems(4) by simp
  have fall: "owed s t \<le> owed s v + rate * (v - t)" by (rule owed_falls [OF some.prems(1) v])
  have sorted: "\<forall>g \<in> set gs. v \<le> fst g"
    using paced_sorted [OF paced.some [OF some.hyps]] by simp
  show ?case
  proof (cases "v \<le> b")
    case True
    from granted [OF some.hyps(1,2)] have g: "ready s1 v" "owed s1 v = owed s v + u" "owed s1 v \<le> burst" by simp_all
    from some.IH [OF g(1,3) True sorted] g(2) fall True show ?thesis by (simp add: algebra_simps)
  next
    case False
    with sorted have "filter (\<lambda>g. fst g \<le> b) ((v, u) # gs) = []" by (auto simp: filter_empty_conv)
    moreover have "0 \<le> rate * (b - t)" using pos some.prems(3) by simp
    ultimately show ?thesis using some.prems(2) by simp
  qed
qed

lemma paced_window:
  assumes "paced s gs s'" and "0 \<le> burst" and "0 < rate" and "a \<le> b"
  shows "sum_list (map snd (filter (\<lambda>g. a \<le> fst g \<and> fst g \<le> b) gs)) \<le> burst + rate * (b - a)"
  using assms
proof (induction rule: paced.induct)
  case (none s)
  then show ?case by simp
next
  case (some s v u s1 gs s')
  have sorted: "\<forall>g \<in> set gs. v \<le> fst g"
    using paced_sorted [OF paced.some [OF some.hyps]] by simp
  show ?case
  proof (cases "a \<le> v \<and> v \<le> b")
    case True
    from granted [OF some.hyps(1,2)] have g: "ready s1 v" "owed s1 v = owed s v + u" "owed s1 v \<le> burst" by simp_all
    have "filter (\<lambda>g. a \<le> fst g \<and> fst g \<le> b) gs = filter (\<lambda>g. fst g \<le> b) gs"
      using sorted True by (intro filter_cong) auto
    moreover have "owed s1 v + sum_list (map snd (filter (\<lambda>g. fst g \<le> b) gs)) \<le> burst + rate * (b - v)"
      using paced_upto [OF some.hyps(3) g(1,3) _ sorted] True by simp
    moreover have "rate * (b - v) \<le> rate * (b - a)" using True some.prems by (simp add: mult_left_mono)
    ultimately show ?thesis using True g(2) owed_nonneg [of s v] by simp
  next
    case False
    with some.IH [OF some.prems] show ?thesis by auto
  qed
qed

end

section \<open>The limiters keep it\<close>

definition wf_limiter :: "limiter \<Rightarrow> bool" where
  "wf_limiter l \<longleftrightarrow> 0 < lm_rate l \<and> 0 \<le> lm_level l"

text \<open>Units a limiter still owes at a time not before its last start.\<close>

definition owed_units :: "limiter \<Rightarrow> rat \<Rightarrow> rat" where
  "owed_units l t = (case lm_capacity l of None \<Rightarrow> max 0 ((lm_next l - t) * lm_rate l) | Some c \<Rightarrow> drained l t)"

definition started_by :: "rat \<Rightarrow> rat option \<Rightarrow> limiter \<Rightarrow> rat \<Rightarrow> bool" where
  "started_by rate capacity l t \<longleftrightarrow> wf_limiter l \<and> lm_rate l = rate \<and> lm_capacity l = capacity \<and>
     (case lm_updated l of None \<Rightarrow> lm_level l = 0 | Some u \<Rightarrow> u \<le> t)"

definition burst_of :: "rat option \<Rightarrow> rat \<Rightarrow> rat" where
  "burst_of capacity heaviest = (case capacity of None \<Rightarrow> heaviest | Some c \<Rightarrow> c)"

text \<open>A grant at \<open>t\<close>: a reading not before the last start, the delay waited out, units within the burst.\<close>

definition granted_at :: "rat \<Rightarrow> rat option \<Rightarrow> rat \<Rightarrow> limiter \<Rightarrow> rat \<Rightarrow> rat \<Rightarrow> limiter \<Rightarrow> bool" where
  "granted_at rate capacity burst l t u l' \<longleftrightarrow> 0 < u \<and> u \<le> burst_of capacity burst \<and>
     (\<exists>now. started_by rate capacity l now \<and> now + slot_delay l u now \<le> t \<and> l' = take_slot l u now t)"

lemma drained_nonneg: "0 \<le> drained l t"
  by (simp add: drained_def Let_def)

lemma slot_delay_nonneg: "0 \<le> slot_delay l u now"
  by (simp add: slot_delay_def split: option.splits)

lemma drain_twice: "0 \<le> (y :: rat) \<Longrightarrow> max 0 (v - (x + y)) = max 0 (max 0 (v - x) - y)"
  by (simp add: max_def)

lemma drained_falls:
  assumes "started_by r c l t" and "t \<le> t'"
  shows "drained l t' = max 0 (drained l t - (t' - t) * r)"
proof (cases "lm_updated l")
  case None
  with assms have "lm_level l = 0" "0 < r" by (auto simp: started_by_def wf_limiter_def)
  then have "0 \<le> (t' - t) * r" using assms(2) by simp
  with None \<open>lm_level l = 0\<close> show ?thesis by (simp add: drained_def Let_def max_def)
next
  case (Some u)
  with assms have u: "u \<le> t" "lm_rate l = r" "0 < r" by (auto simp: started_by_def wf_limiter_def)
  have "(t' - u) * r = (t - u) * r + (t' - t) * r" by (simp add: algebra_simps)
  moreover have "0 \<le> (t' - t) * r" using assms(2) u(3) by simp
  moreover have "max 0 (t - u) = t - u" "max 0 (t' - u) = t' - u" using u(1) assms(2) by simp_all
  ultimately show ?thesis using Some u(2) by (simp only: drained_def Let_def option.case drain_twice)
qed

lemma started_by_mono: "started_by r c l t \<Longrightarrow> t \<le> t' \<Longrightarrow> started_by r c l t'"
  by (auto simp: started_by_def split: option.splits)

text \<open>The spacing limiter owes nothing at a start; the bucket has drained to make room.\<close>

lemma grant_owed:
  assumes g: "granted_at r c B l t u l'"
  shows "started_by r c l' t" and "owed_units l' t = owed_units l t + u" and "owed_units l' t \<le> burst_of c B"
proof -
  from g obtain now where u: "0 < u" "u \<le> burst_of c B" and now: "started_by r c l now" "now + slot_delay l u now \<le> t"
    and l': "l' = take_slot l u now t" by (auto simp: granted_at_def)
  from now(1) have l: "0 < r" "lm_rate l = r" "lm_capacity l = c" "0 \<le> lm_level l"
    by (auto simp: started_by_def wf_limiter_def)
  have "now \<le> t" using now(2) slot_delay_nonneg [of l u now] by linarith
  show "started_by r c l' t"
    using now(1) l u(1) started_by_mono [OF now(1) \<open>now \<le> t\<close>]
    by (auto simp: l' take_slot_def started_by_def wf_limiter_def split: option.splits)
  have "owed_units l' t = owed_units l t + u \<and> owed_units l' t \<le> burst_of c B"
  proof (cases c)
    case None
    with now(2) l have "lm_next l \<le> t" by (simp add: slot_delay_def)
    then have "(lm_next l - t) * r \<le> 0" using l(1) by (simp add: mult_le_0_iff)
    moreover have "(t + u / r - t) * r = u" using l(1) by simp
    ultimately show ?thesis using None l u by (simp add: l' owed_units_def take_slot_def burst_of_def max_def)
  next
    case (Some k)
    have d: "drained l t = max 0 (drained l now - (t - now) * r)" by (rule drained_falls [OF now(1) \<open>now \<le> t\<close>])
    have "owed_units l' t = drained l t + u"
      using Some l u(1) by (simp add: l' owed_units_def take_slot_def drained_def [of "l\<lparr>lm_level := x, lm_updated := y\<rparr>" for x y] Let_def d)
    moreover have "drained l t + u \<le> k"
    proof -
      have "(drained l now + u - k) / r \<le> t - now" using now(2) l Some by (simp add: slot_delay_def)
      then have "drained l now + u - k \<le> (t - now) * r" using l(1) by (simp add: pos_divide_le_eq)
      with u(2) Some show ?thesis by (simp add: d burst_of_def)
    qed
    ultimately show ?thesis using Some l by (simp add: owed_units_def burst_of_def)
  qed
  then show "owed_units l' t = owed_units l t + u" and "owed_units l' t \<le> burst_of c B" by simp_all
qed

interpretation limiter: pacer owed_units "granted_at rate capacity heaviest" rate "burst_of capacity heaviest"
  "started_by rate capacity" for rate capacity heaviest
proof (unfold_locales, goal_cases)
  case (1 s t)
  then show ?case by (simp add: owed_units_def drained_nonneg split: option.splits)
next
  case (2 s t)
  then show ?case by (auto simp: started_by_def wf_limiter_def)
next
  case (3 s t t')
  then have l: "0 < rate" "lm_rate s = rate" by (auto simp: started_by_def wf_limiter_def)
  show ?case
  proof (cases "lm_capacity s")
    case None
    have "(lm_next s - t) * rate = (lm_next s - t') * rate + rate * (t' - t)" by (simp add: algebra_simps)
    moreover have "0 \<le> rate * (t' - t)" using l(1) 3(2) by simp
    ultimately show ?thesis using None l by (simp add: owed_units_def max_def)
  next
    case (Some k)
    from drained_falls [OF 3] Some show ?thesis by (simp add: owed_units_def algebra_simps max_def)
  qed
next
  case (4 s t u s')
  from grant_owed [OF 4(2)] show ?case by simp
next
  case (5 s t u s' t' u' s'')
  from 5(2) obtain now where n: "0 < u" "started_by rate capacity s now" "s' = take_slot s u now t"
    by (auto simp: granted_at_def)
  from 5(3) obtain now' where n': "started_by rate capacity s' now'" "now' + slot_delay s' u' now' \<le> t'"
    by (auto simp: granted_at_def)
  from n have l: "0 < rate" "lm_rate s = rate" by (auto simp: started_by_def wf_limiter_def)
  show ?case
  proof (cases "lm_capacity s")
    case None
    have "0 \<le> u / rate" using n(1) l(1) by simp
    moreover have "t + u / rate \<le> t'" using n'(2) None by (simp add: slot_delay_def n(3) take_slot_def l)
    ultimately show ?thesis by linarith
  next
    case (Some k)
    then have "t \<le> now'" using n'(1) by (simp add: n(3) take_slot_def started_by_def)
    then show ?thesis using n'(2) slot_delay_nonneg [of s' u' now'] by linarith
  qed
qed

section \<open>Runs of a limiter\<close>

definition units_value :: "pyval \<Rightarrow> rat" where
  "units_value v = (case throughput_units v of Inl e \<Rightarrow> 0 | Inr u \<Rightarrow> u)"

text \<open>The starts granted by a sequence of acquisitions, each with its deadline and its two readings.\<close>

type_synonym acquisition = "pyval \<times> rat option \<times> rat \<times> rat"

fun acquires :: "acquisition list \<Rightarrow> limiter \<Rightarrow> (rat \<times> rat) list \<times> limiter" where
  "acquires [] l = ([], l)"
| "acquires ((units, deadline, now, after) # qs) l =
     (case acquire units deadline now after l of
        (Inl e, l') \<Rightarrow> acquires qs l'
      | (Inr d, l') \<Rightarrow> (case acquires qs l' of (gs, l'') \<Rightarrow> ((max after (now + d), units_value units) # gs, l'')))"

text \<open>The clock does not run backwards: no acquisition reads a time before the last start.\<close>

fun timely :: "acquisition list \<Rightarrow> limiter \<Rightarrow> bool" where
  "timely [] l = True"
| "timely ((units, deadline, now, after) # qs) l =
     ((case lm_updated l of None \<Rightarrow> True | Some t \<Rightarrow> t \<le> now) \<and> timely qs (snd (acquire units deadline now after l)))"

definition fit_limiter :: "rat \<Rightarrow> rat option \<Rightarrow> limiter \<Rightarrow> bool" where
  "fit_limiter rate capacity l \<longleftrightarrow> wf_limiter l \<and> lm_rate l = rate \<and> lm_capacity l = capacity \<and>
     (lm_updated l = None \<longrightarrow> lm_level l = 0)"

lemma throughput_units_pos: "throughput_units v = Inr u \<Longrightarrow> 0 < u"
  by (induction v rule: throughput_units.induct) (auto split: if_split_asm)

lemma acquire_cases:
  assumes "acquire units deadline now after l = (r, l')"
  obtains (refused) e where "r = Inl e" "l' = l"
    | (granted) u where "throughput_units units = Inr u" "\<And>c. lm_capacity l = Some c \<Longrightarrow> u \<le> c" "r = Inr (slot_delay l u now)"
      "l' = take_slot l u now (max after (now + slot_delay l u now))"
proof (cases "throughput_units units")
  case (Inl e)
  with assms show ?thesis by (intro refused [of e]) (auto simp: acquire_def)
next
  case (Inr u)
  show ?thesis
  proof (cases "case lm_capacity l of None \<Rightarrow> False | Some c \<Rightarrow> u > c")
    case True
    with assms Inr show ?thesis by (intro refused) (auto simp: acquire_def)
  next
    case False
    note fits = this
    let ?d = "slot_delay l u now"
    show ?thesis
    proof (cases "past_deadline deadline (now + ?d) \<or> past_deadline deadline (max after (now + ?d))")
      case True
      with assms Inr fits show ?thesis by (intro refused [of deadline_error]) (auto simp: acquire_def Let_def)
    next
      case False
      with assms Inr fits show ?thesis by (intro granted [of u]) (auto simp: acquire_def Let_def)
    qed
  qed
qed

lemma take_slot_fit: "fit_limiter r c l \<Longrightarrow> 0 < u \<Longrightarrow> fit_limiter r c (take_slot l u now t)"
  by (auto simp: fit_limiter_def wf_limiter_def take_slot_def split: option.splits)

lemma acquires_paced:
  assumes "acquires qs l = (gs, l')" and "timely qs l" and "fit_limiter r c l"
    and "\<forall>g \<in> set gs. snd g \<le> burst_of c heaviest"
  shows "limiter.paced r c heaviest l gs l'"
  using assms
proof (induction qs arbitrary: l gs)
  case Nil
  then show ?case by (auto intro: limiter.none)
next
  case (Cons q qs)
  obtain units deadline now after where q: "q = (units, deadline, now, after)" by (cases q)
  obtain x l1 where a: "acquire units deadline now after l = (x, l1)" by (metis prod.exhaust)
  from a show ?case
  proof (cases rule: acquire_cases)
    case (refused e)
    with Cons a q show ?thesis by simp
  next
    case (granted u)
    let ?t = "max after (now + slot_delay l u now)"
    obtain hs where hs: "acquires qs l1 = (hs, l')" "gs = (?t, u) # hs"
      using Cons.prems(1) a q granted by (auto simp: units_value_def split: prod.splits)
    have u: "0 < u" by (rule throughput_units_pos [OF granted(1)])
    have ready: "started_by r c l now"
      using Cons.prems(2,3) q by (auto simp: started_by_def fit_limiter_def split: option.splits)
    have le: "now \<le> ?t" using slot_delay_nonneg [of l u now] by linarith
    have "granted_at r c heaviest l ?t u l1"
      using u Cons.prems(4) hs(2) ready granted(4) by (auto simp: granted_at_def intro!: exI [of _ now])
    moreover have "fit_limiter r c l1" using take_slot_fit [OF Cons.prems(3) u] granted(4) by simp
    moreover have "timely qs l1" using Cons.prems(2) q a by simp
    ultimately have "limiter.paced r c heaviest l1 hs l'" using Cons.IH hs Cons.prems(4) by simp
    with started_by_mono [OF ready le] \<open>granted_at r c heaviest l ?t u l1\<close> show ?thesis
      unfolding hs(2) by (intro limiter.some)
  qed
qed

text \<open>
  C28: In any stretch of time, the units a limiter grants amount to at most its burst (the bucket's
  capacity, or the heaviest request when requests are spaced) and its rate times the stretch.
\<close>

theorem limiter_window_bounded:
  assumes "new_limiter rate capacity = Inr l" and "timely qs l" and "acquires qs l = (gs, l')"
    and "\<forall>g \<in> set gs. snd g \<le> burst_of capacity heaviest" and "0 \<le> heaviest" and "a \<le> b"
  shows "sum_list (map snd (filter (\<lambda>g. a \<le> fst g \<and> fst g \<le> b) gs)) \<le> burst_of capacity heaviest + rate * (b - a)"
proof -
  have "0 < rate" "fit_limiter rate capacity l" "0 \<le> burst_of capacity heaviest"
    using assms(1,5) by (auto simp: new_limiter_def fit_limiter_def wf_limiter_def burst_of_def split: if_split_asm option.splits)
  with limiter.paced_window [OF acquires_paced [OF assms(3,2)]] assms(4,6) show ?thesis by blast
qed

text \<open>Requests of three, one and two units (and two refused ones), in a bucket of four that drains five a second.\<close>

definition sample_acquisitions :: "acquisition list" where
  "sample_acquisitions = [(PInt 3, None, 10, 10), (PInt 1, None, 10, 10), (PInt 2, Some 11, 10, 10),
     (PInt 9, None, 11, 11), (PInt 4, Some (52 / 5), 11, 11)]"

theorem limiter_window_bounded_witness:
  "\<exists>l l'. new_limiter 5 (Some 4) = Inr l \<and> acquires sample_acquisitions l = ([(10, 3), (10, 1), (52 / 5, 2)], l') \<and>
     sum_list (map snd (filter (\<lambda>g. 10 \<le> fst g \<and> fst g \<le> 10) [(10 :: rat, 3), (10, 1), (52 / 5, 2 :: rat)])) \<le> burst_of (Some 4) 0 + 5 * (10 - 10)"
proof -
  define l where "l = \<lparr>lm_rate = 5, lm_capacity = Some 4, lm_next = 0, lm_level = 0, lm_updated = None\<rparr>"
  have l: "new_limiter 5 (Some 4) = Inr l" by (simp add: new_limiter_def l_def)
  have run: "fst (acquires sample_acquisitions l) = [(10, 3), (10, 1), (52 / 5, 2)] \<and> timely sample_acquisitions l"
    unfolding l_def by code_simp
  then have acq: "acquires sample_acquisitions l = ([(10, 3), (10, 1), (52 / 5, 2)], snd (acquires sample_acquisitions l))"
    by (metis prod.collapse)
  from limiter_window_bounded [OF l _ acq, of 0 10 10] run acq l show ?thesis by (auto simp: burst_of_def)
qed

section \<open>GMGN requests fit their bucket\<close>

lemma gmgn_weight_bounds:
  assumes "gmgn_request_weight arguments = Inr w"
  shows "1 \<le> w \<and> w \<le> 5"
proof -
  from assms obtain k where "map_of GMGN_WEIGHTS k = Some w"
    by (auto simp: gmgn_request_weight_def split: list.splits option.splits if_split_asm)
  then have "(k, w) \<in> set GMGN_WEIGHTS" by (rule map_of_SomeD)
  moreover have "\<forall>(k, w) \<in> set GMGN_WEIGHTS. 1 \<le> w \<and> w \<le> 5" by (simp add: GMGN_WEIGHTS_def)
  ultimately show ?thesis by blast
qed

text \<open>
  C29: A command GMGN's table knows is never refused for its weight: without a deadline its slot is
  granted, after a delay of at most its own drain time and the bucket's.
\<close>

theorem gmgn_slot_granted:
  assumes "gmgn_request_weight arguments = Inr w" and "lm_capacity l = Some 5" and "lm_rate l = 5" and "lm_level l \<le> 5"
  shows "\<exists>d l'. wait_for_gmgn_slot arguments None now after l = (Inr d, l') \<and> 0 \<le> d \<and> d \<le> 1"
proof -
  have w: "1 \<le> w" "w \<le> 5" using gmgn_weight_bounds [OF assms(1)] by simp_all
  have "drained l now \<le> 5" using assms(3,4) by (auto simp: drained_def Let_def max_def split: option.splits)
  moreover have "(of_int w :: rat) \<le> 5" using w(2) of_int_le_iff [of w 5] by simp
  ultimately have "slot_delay l (of_int w) now \<le> 1" "0 \<le> slot_delay l (of_int w) now"
    using assms(2,3) by (simp_all add: slot_delay_def)
  with assms(1,2) w \<open>(of_int w :: rat) \<le> 5\<close> show ?thesis
    by (simp add: wait_for_gmgn_slot_def acquire_def past_deadline_def Let_def)
qed

theorem gmgn_slot_granted_witness:
  "\<exists>d l'. wait_for_gmgn_slot [''token'', ''holders'', ''x''] None 3 3 gmgn_limiter = (Inr d, l') \<and> 0 \<le> d \<and> d \<le> 1"
proof (rule gmgn_slot_granted)
  show "gmgn_request_weight [''token'', ''holders'', ''x''] = Inr 5" by code_simp
qed (simp_all add: gmgn_limiter_def)

end
