(* ===== verification/Token_Retirement.thy ===== *)
theory Token_Retirement
  imports Py_Time
begin

text \<open>
  \<^verbatim>\<open>src/token_retirement.py\<close>: retiring a token that has stayed under the market-cap floor for a day, the
  evidence that takes it back, and what a retirement removes from the state.

  Rows of the state are the JSON values the program keeps; the watch of a token is the record this
  module writes, with its times as the ISO texts it stores.  Numbers are exact.
\<close>

section \<open>Reading values\<close>

definition mcap_floor :: rat where "mcap_floor = 20000"
definition below_seconds :: rat where "below_seconds = 86400"
definition quote_max_age :: rat where "quote_max_age = 1200"
definition max_gap_seconds :: rat where "max_gap_seconds = 7200"
definition recapture_min :: rat where "recapture_min = 30000"
definition recapture_max :: rat where "recapture_max = 500000"
definition recapture_growth :: rat where "recapture_growth = 3"

text \<open>\<open>timestamp(value)\<close>: a positive number, or an aware ISO text; 0 otherwise.\<close>

fun instant :: "pyval \<Rightarrow> rat" where
  "instant (PInt n) = (if n > 0 then of_int n else 0)"
| "instant (PFloat (Fin q)) = (if q > 0 then q else 0)"
| "instant (PStr s) = text_instant s"
| "instant _ = 0"

text \<open>\<open>number(value)\<close>\<close>

fun number :: "pyval \<Rightarrow> rat option" where
  "number (PInt n) = Some (of_int n)"
| "number (PFloat (Fin q)) = Some q"
| "number _ = None"

definition or_empty :: "pyval \<Rightarrow> pyval" where
  "or_empty v = py_or v (PDict [])"

definition drop_prefix :: "string \<Rightarrow> string \<Rightarrow> string" where
  "drop_prefix p s = (if take (length p) s = p then drop (length p) s else s)"

text \<open>\<open>token_key\<close> on rows whose addresses are texts.\<close>

definition text_of :: "pyval \<Rightarrow> string" where
  "text_of v = (case v of PStr s \<Rightarrow> s | _ \<Rightarrow> [])"

definition token_key :: "pyval \<Rightarrow> string" where
  "token_key row =
     drop_prefix ''solana:'' (text_of (py_or (getd row ''token_address'') (getd (or_empty (getd row ''pool'')) ''token_address'')))"

definition signal_time :: "pyval \<Rightarrow> rat" where
  "signal_time row = instant (foldr (\<lambda>k v. py_or (getd row k) v)
     [''window_start'', ''signal_at'', ''caught_at'', ''captured_at''] (getd row ''created_at''))"

text \<open>The markers, by token: \<open>state["token_retirements"]\<close>.\<close>

type_synonym table = "(string \<times> pyval) list"

definition current_record :: "pyval \<Rightarrow> table \<Rightarrow> bool" where
  "current_record row markers =
     (case map_of markers (token_key row) of
        None \<Rightarrow> True
      | Some marker \<Rightarrow> \<not> truthy marker \<or>
          (truthy (getd marker ''reactivated_at'') \<and> signal_time row > instant (getd marker ''retired_at'')))"

definition tracked_tokens :: "pyval list \<Rightarrow> pyval list \<Rightarrow> pyval list \<Rightarrow> string set" where
  "tracked_tokens alerts pools outcomes =
     {token_key row |row. row \<in> set (alerts @ map (\<lambda>e. or_empty (getd e ''signal_thesis'')) pools @ outcomes) \<and> token_key row \<noteq> []}"

section \<open>Watching a low market cap\<close>

record low_watch =
  lw_since :: string       \<comment> \<open>\<open>below_since\<close>\<close>
  lw_last :: string        \<comment> \<open>\<open>last_quote_at\<close>\<close>
  lw_cap :: rat            \<comment> \<open>\<open>mcap_usd\<close>\<close>
  lw_samples :: int
  lw_gap :: rat            \<comment> \<open>\<open>max_gap_seconds\<close>\<close>

record retirement =
  rt_token :: string
  rt_at :: string          \<comment> \<open>\<open>retired_at\<close>\<close>
  rt_watch :: low_watch

definition last_quote :: "low_watch option \<Rightarrow> rat" where
  "last_quote w = (case w of None \<Rightarrow> 0 | Some v \<Rightarrow> text_instant (lw_last v))"

definition quote_at :: "pyval \<Rightarrow> rat" where
  "quote_at quote = instant (getd quote ''current_market_verified_at'')"

definition quote_cap :: "pyval \<Rightarrow> rat option" where
  "quote_cap quote = number (getd quote ''latest_mcap_usd'')"

text \<open>A verified quote of a known, positive market cap, read at most twenty minutes ago.\<close>

definition fresh_quote :: "rat \<Rightarrow> pyval \<Rightarrow> bool" where
  "fresh_quote now quote \<longleftrightarrow> \<not> truthy (getd quote ''market_snapshot_stale'') \<and> quote_at quote \<noteq> 0 \<and>
     (case quote_cap quote of None \<Rightarrow> False | Some cap \<Rightarrow> cap > 0) \<and>
     0 \<le> now - quote_at quote \<and> now - quote_at quote \<le> quote_max_age"

definition watch_due :: "rat \<Rightarrow> low_watch \<Rightarrow> bool" where
  "watch_due tm v \<longleftrightarrow> tm - text_instant (lw_since v) \<ge> below_seconds \<and> lw_samples v \<ge> 13"

definition retire :: "string \<Rightarrow> rat \<Rightarrow> rat \<Rightarrow> low_watch \<Rightarrow> retirement list res" where
  "retire token now tm v =
     (if watch_due tm v then bindR (iso now) (\<lambda>s. Inr [\<lparr>rt_token = token, rt_at = s, rt_watch = v\<rparr>]) else Inr [])"

text \<open>A low quote later than the last one extends the watch, or starts it after too long a gap.\<close>

definition extend_watch :: "rat \<Rightarrow> rat \<Rightarrow> low_watch option \<Rightarrow> low_watch res" where
  "extend_watch tm cap previous =
     bindR (iso tm) (\<lambda>s.
       let gap = tm - last_quote previous in
       Inr (case previous of
              Some v \<Rightarrow>
                if last_quote previous = 0 \<or> gap > max_gap_seconds
                then \<lparr>lw_since = s, lw_last = s, lw_cap = cap, lw_samples = 1, lw_gap = 0\<rparr>
                else v\<lparr>lw_last := s, lw_cap := cap, lw_samples := lw_samples v + 1, lw_gap := max (lw_gap v) gap\<rparr>
            | None \<Rightarrow> \<lparr>lw_since = s, lw_last = s, lw_cap = cap, lw_samples = 1, lw_gap = 0\<rparr>))"

definition observe_token ::
    "rat \<Rightarrow> string \<Rightarrow> pyval \<Rightarrow> low_watch option \<Rightarrow> (low_watch option \<times> retirement list) res" where
  "observe_token now token quote previous =
     (if \<not> fresh_quote now quote then
        Inr (if now - last_quote previous > max_gap_seconds then None else previous, [])
      else
        let tm = quote_at quote; cap = the (quote_cap quote) in
        if tm < last_quote previous then Inr (previous, [])
        else if cap \<ge> mcap_floor then Inr (None, [])
        else if tm = last_quote previous then
          (case previous of
             None \<Rightarrow> Inr (previous, [])
           | Some v \<Rightarrow> bindR (retire token now tm v) (\<lambda>acts. Inr (previous, acts)))
        else bindR (extend_watch tm cap previous) (\<lambda>v. bindR (retire token now tm v) (\<lambda>acts. Inr (Some v, acts))))"

definition inactive :: "table \<Rightarrow> string \<Rightarrow> bool" where
  "inactive markers token \<longleftrightarrow>
     (case map_of markers token of None \<Rightarrow> False | Some m \<Rightarrow> \<not> truthy (getd m ''reactivated_at''))"

type_synonym watches = "(string \<times> low_watch) list"

definition put_watch :: "string \<Rightarrow> low_watch option \<Rightarrow> watches \<Rightarrow> watches" where
  "put_watch token v ws = (case v of None \<Rightarrow> AList.delete token ws | Some x \<Rightarrow> AList.update token x ws)"

definition observe_next ::
    "rat \<Rightarrow> table \<Rightarrow> table \<Rightarrow> watches \<times> retirement list \<Rightarrow> string \<Rightarrow> (watches \<times> retirement list) res" where
  "observe_next now markers market st token =
     (case st of (ws, acts) \<Rightarrow>
        if inactive markers token then Inr (put_watch token None ws, acts)
        else bindR (observe_token now token (or_empty (case map_of market token of None \<Rightarrow> PNone | Some q \<Rightarrow> q)) (map_of ws token))
               (\<lambda>(v, new). Inr (put_watch token v ws, acts @ new)))"

definition observe_low_caps ::
    "pyval \<Rightarrow> table \<Rightarrow> table \<Rightarrow> string list \<Rightarrow> watches \<Rightarrow> (watches \<times> retirement list) res" where
  "observe_low_caps observed_at markers market tokens ws =
     bindR (foldR (observe_next (instant observed_at) markers market) (ws, []) tokens) (\<lambda>(ws', acts).
       Inr (filter (\<lambda>(t, v). t \<in> set tokens) ws', acts))"

section \<open>The watch is a full day of low quotes\<close>

type_synonym look = "rat \<times> pyval" \<comment> \<open>the time of a pass and the token's quote in it\<close>

definition fresh_look :: "look \<Rightarrow> bool" where
  "fresh_look r = fresh_quote (fst r) (snd r)"

definition look_at :: "look \<Rightarrow> rat" where
  "look_at r = quote_at (snd r)"

definition low_look :: "look \<Rightarrow> bool" where
  "low_look r \<longleftrightarrow> the (quote_cap (snd r)) < mcap_floor"

fun watch_run :: "string \<Rightarrow> look list \<Rightarrow> low_watch option \<Rightarrow> low_watch option res" where
  "watch_run token [] w = Inr w"
| "watch_run token ((now, quote) # rs) w = bindR (observe_token now token quote w) (\<lambda>(w', acts). watch_run token rs w')"

text \<open>The samples behind a watch: times of low quotes in an unbroken tail of the passes.\<close>

definition unbroken :: "rat list \<Rightarrow> bool" where
  "unbroken ts \<longleftrightarrow> sorted_wrt (<) ts \<and> (\<forall>i. Suc i < length ts \<longrightarrow> ts ! Suc i - ts ! i \<le> max_gap_seconds)"

definition low_tail :: "look list \<Rightarrow> rat list \<Rightarrow> bool" where
  "low_tail rs ts \<longleftrightarrow> (\<exists>pre post. rs = pre @ post \<and> (\<forall>r \<in> set post. fresh_look r \<longrightarrow> low_look r) \<and>
     (\<forall>t \<in> set ts. \<exists>r \<in> set post. fresh_look r \<and> look_at r = t)) \<and> unbroken ts"

definition watch_ok :: "look list \<Rightarrow> low_watch option \<Rightarrow> bool" where
  "watch_ok rs w \<longleftrightarrow> (case w of None \<Rightarrow> True | Some v \<Rightarrow>
     \<exists>ts. ts \<noteq> [] \<and> low_tail rs ts \<and> text_instant (lw_since v) = hd ts \<and> text_instant (lw_last v) = last ts \<and>
       lw_samples v = int (length ts))"

text \<open>Quotes are stamped with ISO texts, and do not go back in time from pass to pass.\<close>

definition orderly_looks :: "look list \<Rightarrow> bool" where
  "orderly_looks rs \<longleftrightarrow> sorted (map look_at (filter fresh_look rs)) \<and>
     (\<forall>r \<in> set rs. is_str (getd (snd r) ''current_market_verified_at''))"

lemma text_instant_micros: "\<exists>k. text_instant s = of_int k / 1000000"
proof (cases "\<exists>dt off. fromisoformat (expand_z s) = Inr dt \<and> dt_tz dt = Some off")
  case True
  then show ?thesis by (auto simp: text_instant_def Py_Time.timestamp_def)
next
  case False
  then have "text_instant s = 0" by (auto simp: text_instant_def split: sum.splits option.splits)
  then show ?thesis by (intro exI [of _ 0]) simp
qed

lemma iso_instant:
  assumes "iso (text_instant s) = Inr x"
  shows "text_instant x = text_instant s"
proof -
  from text_instant_micros obtain k where k: "text_instant s = of_int k / 1000000" by blast
  then have "iso_micros k = Inr x" using assms by (simp add: iso_def)
  from iso_roundtrip [OF this] obtain dt where "fromisoformat (expand_z x) = Inr dt" "dt_tz dt = Some 0" "dt_micros dt 0 = k" by blast
  with k show ?thesis by (simp add: text_instant_def Py_Time.timestamp_def)
qed

lemma unbroken_snoc:
  assumes "unbroken ts" and "ts \<noteq> []" and "last ts < t" and "t - last ts \<le> max_gap_seconds"
  shows "unbroken (ts @ [t])"
proof -
  have "u < t" if "u \<in> set ts" for u
  proof -
    from assms(1,2) that have "u \<le> last ts" unfolding unbroken_def
      by (metis append_butlast_last_id in_set_conv_decomp last_in_set less_imp_le order_refl sorted_wrt_append
          set_ConsD set_append Un_iff list.set_intros(1) empty_iff list.set(1))
    with assms(3) show ?thesis by simp
  qed
  moreover have "(ts @ [t]) ! Suc i - (ts @ [t]) ! i \<le> max_gap_seconds" if "Suc i < Suc (length ts)" for i
  proof (cases "Suc i < length ts")
    case True
    with assms(1) show ?thesis by (simp add: unbroken_def nth_append)
  next
    case False
    with that have "Suc i = length ts" by simp
    then have "ts ! i = last ts" using assms(2) by (metis last_conv_nth diff_Suc_1)
    with \<open>Suc i = length ts\<close> assms(4) show ?thesis by (simp add: nth_append)
  qed
  ultimately show ?thesis using assms(1) by (simp add: unbroken_def sorted_wrt_append)
qed

lemma low_tail_idle:
  assumes "low_tail rs ts" and "fresh_look r \<longrightarrow> low_look r"
  shows "low_tail (rs @ [r]) ts"
proof -
  from assms(1) obtain pre post where "rs = pre @ post" "\<forall>r \<in> set post. fresh_look r \<longrightarrow> low_look r"
    "\<forall>t \<in> set ts. \<exists>r \<in> set post. fresh_look r \<and> look_at r = t" "unbroken ts" by (auto simp: low_tail_def)
  with assms(2) show ?thesis
    unfolding low_tail_def by (intro conjI exI [of _ pre] exI [of _ "post @ [r]"]) auto
qed

lemma low_tail_extend:
  assumes "low_tail rs ts" and "fresh_look r" and "low_look r" and "ts \<noteq> []"
    and "last ts < look_at r" and "look_at r - last ts \<le> max_gap_seconds"
  shows "low_tail (rs @ [r]) (ts @ [look_at r])"
proof -
  from assms(1) obtain pre post where "rs = pre @ post" "\<forall>r \<in> set post. fresh_look r \<longrightarrow> low_look r"
    "\<forall>t \<in> set ts. \<exists>r \<in> set post. fresh_look r \<and> look_at r = t" "unbroken ts" by (auto simp: low_tail_def)
  with assms(2-) show ?thesis
    unfolding low_tail_def by (intro conjI exI [of _ pre] exI [of _ "post @ [r]"] unbroken_snoc) auto
qed

lemma low_tail_start: "fresh_look r \<Longrightarrow> low_look r \<Longrightarrow> low_tail (rs @ [r]) [look_at r]"
  unfolding low_tail_def by (intro conjI exI [of _ rs] exI [of _ "[r]"]) (auto simp: unbroken_def)

lemma low_tail_member: "low_tail rs ts \<Longrightarrow> t \<in> set ts \<Longrightarrow> \<exists>r \<in> set rs. fresh_look r \<and> look_at r = t"
  unfolding low_tail_def by (metis Un_iff set_append)

lemma orderly_last:
  assumes "orderly_looks (rs @ [r])" and "fresh_look r" and "x \<in> set rs" and "fresh_look x"
  shows "look_at x \<le> look_at r"
  using assms by (cases x) (auto simp: orderly_looks_def sorted_append)

lemma observe_token_ok:
  assumes ok: "watch_ok rs w" and ord: "orderly_looks (rs @ [(now, quote)])"
    and run: "observe_token now token quote w = Inr (w', acts)"
  shows "watch_ok (rs @ [(now, quote)]) w'"
    and "a \<in> set acts \<Longrightarrow> \<exists>v. w' = Some v \<and> watch_due (text_instant (lw_last v)) v"
proof -
  let ?r = "(now, quote)" and ?tm = "quote_at quote" and ?cap = "the (quote_cap quote)"
  have idle: "watch_ok (rs @ [?r]) w" if "fresh_look ?r \<longrightarrow> low_look ?r"
    using ok low_tail_idle [OF _ that] by (auto simp: watch_ok_def split: option.splits)
  have "watch_ok (rs @ [?r]) w' \<and> (a \<in> set acts \<longrightarrow> (\<exists>v. w' = Some v \<and> watch_due (text_instant (lw_last v)) v))"
  proof (cases "fresh_quote now quote")
    case False
    with run have "acts = [] \<and> (w' = None \<or> w' = w)" by (auto simp: observe_token_def split: if_split_asm)
    moreover have "fresh_look ?r \<longrightarrow> low_look ?r" using False by (simp add: fresh_look_def)
    ultimately show ?thesis using idle by (auto simp: watch_ok_def)
  next
    case fresh: True
    then have fr: "fresh_look ?r" "look_at ?r = ?tm" by (simp_all add: fresh_look_def look_at_def)
    have run': "(if ?tm < last_quote w then Inr (w, [])
        else if ?cap \<ge> mcap_floor then Inr (None, [])
        else if ?tm = last_quote w then
          (case w of None \<Rightarrow> Inr (w, []) | Some v \<Rightarrow> bindR (retire token now ?tm v) (\<lambda>acts. Inr (w, acts)))
        else bindR (extend_watch ?tm ?cap w) (\<lambda>v. bindR (retire token now ?tm v) (\<lambda>acts. Inr (Some v, acts)))) = Inr (w', acts)"
      using run fresh by (simp add: observe_token_def Let_def)
    have last: "last ts \<le> ?tm \<and> last_quote w = last ts" if "w = Some v" "ts \<noteq> []" "low_tail rs ts" "text_instant (lw_last v) = last ts" for v ts
    proof -
      from low_tail_member [OF that(3) last_in_set [OF that(2)]] obtain x where "x \<in> set rs" "fresh_look x" "look_at x = last ts" by blast
      with orderly_last [OF ord fr(1), of x] that(1,4) fr(2) show ?thesis by (simp add: last_quote_def)
    qed
    show ?thesis
    proof (cases "?tm < last_quote w")
      case True
      have "w = None"
      proof (cases w)
        case (Some v)
        with ok obtain ts where "ts \<noteq> []" "low_tail rs ts" "text_instant (lw_last v) = last ts" by (auto simp: watch_ok_def)
        from last [OF Some this] True show ?thesis by simp
      qed
      with run' True show ?thesis by (simp add: watch_ok_def)
    next
      case ge: False
      show ?thesis
      proof (cases "?cap \<ge> mcap_floor")
        case True
        with run' ge show ?thesis by (simp add: watch_ok_def)
      next
        case low: False
        then have lr: "low_look ?r" by (simp add: low_look_def)
        show ?thesis
        proof (cases "?tm = last_quote w")
          case same: True
          show ?thesis
          proof (cases w)
            case None
            with run' ge low same show ?thesis by (simp add: watch_ok_def)
          next
            case (Some v)
            with run' ge low same have "w' = w" "retire token now ?tm v = Inr acts" by (auto simp: bindR_eq_Inr)
            moreover have "?tm = text_instant (lw_last v)" using same Some by (simp add: last_quote_def)
            ultimately show ?thesis using idle lr Some by (auto simp: retire_def bindR_eq_Inr split: if_split_asm)
          qed
        next
          case False
          with run' ge low obtain v where v: "extend_watch ?tm ?cap w = Inr v" "retire token now ?tm v = Inr acts" "w' = Some v"
            by (auto simp: bindR_eq_Inr)
          obtain stamp where stamp: "getd quote ''current_market_verified_at'' = PStr stamp"
            using ord by (auto simp: orderly_looks_def elim: is_strE)
          then have tm: "?tm = text_instant stamp" by (simp add: quote_at_def)
          from v(1) obtain x where x: "iso ?tm = Inr x" by (auto simp: extend_watch_def bindR_eq_Inr)
          then have read: "text_instant x = ?tm" using iso_instant tm by simp
          have fresh_start: "watch_ok (rs @ [?r]) (Some \<lparr>lw_since = x, lw_last = x, lw_cap = ?cap, lw_samples = 1, lw_gap = 0\<rparr>)"
            using low_tail_start [OF fr(1) lr, of rs] read fr(2)
            by (auto simp: watch_ok_def intro!: exI [of _ "[?tm]"])
          have "watch_ok (rs @ [?r]) (Some v) \<and> text_instant (lw_last v) = ?tm"
          proof (cases "w = None \<or> last_quote w = 0 \<or> ?tm - last_quote w > max_gap_seconds")
            case True
            then have "v = \<lparr>lw_since = x, lw_last = x, lw_cap = ?cap, lw_samples = 1, lw_gap = 0\<rparr>"
              using v(1) x by (auto simp: extend_watch_def Let_def split: option.splits if_split_asm)
            with fresh_start read show ?thesis by simp
          next
            case False
            then obtain u where u: "w = Some u" by auto
            with False v(1) x have "v = u\<lparr>lw_last := x, lw_cap := ?cap, lw_samples := lw_samples u + 1, lw_gap := max (lw_gap u) (?tm - last_quote w)\<rparr>"
              by (auto simp: extend_watch_def Let_def)
            moreover from ok u obtain ts where ts: "ts \<noteq> []" "low_tail rs ts" "text_instant (lw_since u) = hd ts"
              "text_instant (lw_last u) = last ts" "lw_samples u = int (length ts)" by (auto simp: watch_ok_def)
            moreover from last [OF u ts(1,2,4)] ge \<open>?tm \<noteq> last_quote w\<close> False
            have "last ts < look_at ?r" "look_at ?r - last ts \<le> max_gap_seconds" by (simp_all add: fr(2))
            from low_tail_extend [OF ts(2) fr(1) lr ts(1) this] have "low_tail (rs @ [?r]) (ts @ [?tm])" by (simp add: fr(2))
            ultimately show ?thesis using read by (auto simp: watch_ok_def intro!: exI [of _ "ts @ [?tm]"])
          qed
          with v(2,3) show ?thesis by (auto simp: retire_def bindR_eq_Inr split: if_split_asm)
        qed
      qed
    qed
  qed
  then show "watch_ok (rs @ [?r]) w'" and "a \<in> set acts \<Longrightarrow> \<exists>v. w' = Some v \<and> watch_due (text_instant (lw_last v)) v"
    by blast+
qed

lemma watch_run_ok:
  assumes "watch_run token rs w = Inr w'" and "watch_ok pre w" and "orderly_looks (pre @ rs)"
  shows "watch_ok (pre @ rs) w'"
  using assms
proof (induction rs arbitrary: pre w)
  case Nil
  then show ?case by simp
next
  case (Cons r rs)
  obtain now quote where r: "r = (now, quote)" by (cases r)
  with Cons.prems(1) obtain w1 acts where o: "observe_token now token quote w = Inr (w1, acts)" and rest: "watch_run token rs w1 = Inr w'"
    by (auto simp: bindR_eq_Inr)
  have "orderly_looks (pre @ [r])"
    using Cons.prems(3) by (auto simp: orderly_looks_def sorted_append)
  from observe_token_ok(1) [OF Cons.prems(2) this [unfolded r] o] have "watch_ok (pre @ [r]) w1" by (simp add: r)
  from Cons.IH [OF rest this] Cons.prems(3) show ?case by simp
qed

text \<open>
  C30: A token is retired only on a full day of evidence: at least thirteen verified quotes, at most two
  hours apart and together spanning a day, all of them under the floor, with no verified quote at or
  above the floor since the first of them.
\<close>

theorem retired_after_low_day:
  assumes "watch_run token rs None = Inr w" and "observe_token now token quote w = Inr (w', acts)" and "acts \<noteq> []"
    and "orderly_looks (rs @ [(now, quote)])"
  shows "\<exists>pre post ts. rs @ [(now, quote)] = pre @ post \<and> (\<forall>r \<in> set post. fresh_look r \<longrightarrow> low_look r) \<and>
    (\<forall>t \<in> set ts. \<exists>r \<in> set post. fresh_look r \<and> look_at r = t) \<and> sorted_wrt (<) ts \<and>
    (\<forall>i. Suc i < length ts \<longrightarrow> ts ! Suc i - ts ! i \<le> 7200) \<and> 13 \<le> length ts \<and> 86400 \<le> last ts - hd ts"
proof -
  have "orderly_looks rs" using assms(4) by (auto simp: orderly_looks_def sorted_append)
  then have ok: "watch_ok rs w" using watch_run_ok [OF assms(1), of "[]"] by (simp add: watch_ok_def)
  obtain a where "a \<in> set acts" using assms(3) by (cases acts) auto
  from observe_token_ok(2) [OF ok assms(4,2) this] obtain v where v: "w' = Some v" "watch_due (text_instant (lw_last v)) v" by blast
  from observe_token_ok(1) [OF ok assms(4,2)] v(1) obtain ts where ts: "ts \<noteq> []" "low_tail (rs @ [(now, quote)]) ts"
    "text_instant (lw_since v) = hd ts" "text_instant (lw_last v) = last ts" "lw_samples v = int (length ts)"
    by (auto simp: watch_ok_def)
  then have "13 \<le> length ts" "86400 \<le> last ts - hd ts" using v(2) by (simp_all add: watch_due_def below_seconds_def)
  with ts(2) show ?thesis unfolding low_tail_def unbroken_def max_gap_seconds_def by blast
qed

section \<open>A worked day\<close>

definition sample_stamps :: "string list" where
  "sample_stamps = [''2024-01-01T00:00:00Z'', ''2024-01-01T02:00:00Z'', ''2024-01-01T04:00:00Z'', ''2024-01-01T06:00:00Z'',
     ''2024-01-01T08:00:00Z'', ''2024-01-01T10:00:00Z'', ''2024-01-01T12:00:00Z'', ''2024-01-01T14:00:00Z'',
     ''2024-01-01T16:00:00Z'', ''2024-01-01T18:00:00Z'', ''2024-01-01T20:00:00Z'', ''2024-01-01T22:00:00Z'']"

definition low_quote :: "string \<Rightarrow> pyval" where
  "low_quote s = PDict [(''current_market_verified_at'', PStr s), (''latest_mcap_usd'', PInt 1500)]"

definition sample_looks :: "look list" where
  "sample_looks = map (\<lambda>s. (text_instant s + 60, low_quote s)) sample_stamps"

definition sample_watch :: low_watch where
  "sample_watch = \<lparr>lw_since = ''2024-01-01T00:00:00Z'', lw_last = ''2024-01-01T22:00:00Z'', lw_cap = 1500, lw_samples = 12,
     lw_gap = 7200\<rparr>"

definition final_watch :: low_watch where
  "final_watch = sample_watch\<lparr>lw_last := ''2024-01-02T00:00:00Z'', lw_samples := 13\<rparr>"

definition final_look :: look where
  "final_look = (text_instant ''2024-01-02T00:00:00Z'' + 60, low_quote ''2024-01-02T00:00:00Z'')"

lemma digit_chars:
  "digit_char 0 = CHR ''0''" "digit_char (Suc 0) = CHR ''1''" "digit_char 2 = CHR ''2''" "digit_char 3 = CHR ''3''"
  "digit_char 4 = CHR ''4''" "digit_char 5 = CHR ''5''" "digit_char 6 = CHR ''6''" "digit_char 7 = CHR ''7''"
  "digit_char 8 = CHR ''8''" "digit_char 9 = CHR ''9''"
  by code_simp+

lemmas iso_eval = iso_def round_half_even_def iso_micros_def day_us_def epoch_ord_def ord2ymd_def Let_def month_of_def
  days_before_month_def leap_def pad4_def pad2_def digit_chars

lemma sample_isos:
  "iso 1704067200 = Inr ''2024-01-01T00:00:00Z''"
  "iso 1704074400 = Inr ''2024-01-01T02:00:00Z''"
  "iso 1704081600 = Inr ''2024-01-01T04:00:00Z''"
  "iso 1704088800 = Inr ''2024-01-01T06:00:00Z''"
  "iso 1704096000 = Inr ''2024-01-01T08:00:00Z''"
  "iso 1704103200 = Inr ''2024-01-01T10:00:00Z''"
  "iso 1704110400 = Inr ''2024-01-01T12:00:00Z''"
  "iso 1704117600 = Inr ''2024-01-01T14:00:00Z''"
  "iso 1704124800 = Inr ''2024-01-01T16:00:00Z''"
  "iso 1704132000 = Inr ''2024-01-01T18:00:00Z''"
  "iso 1704139200 = Inr ''2024-01-01T20:00:00Z''"
  "iso 1704146400 = Inr ''2024-01-01T22:00:00Z''"
  "iso 1704153600 = Inr ''2024-01-02T00:00:00Z''"
  "iso 1704153660 = Inr ''2024-01-02T00:01:00Z''"
  by (simp_all add: iso_eval)

lemma iso_read: "iso (numeral n) = Inr s \<Longrightarrow> text_instant s = numeral n"
proof -
  assume "iso (numeral n) = Inr s"
  moreover have "(numeral n * 1000000 :: rat) = of_int (numeral n * 1000000)" by simp
  ultimately have "iso_micros (numeral n * 1000000) = Inr s" unfolding iso_def by (simp only: round_half_even_int)
  from iso_roundtrip [OF this] show ?thesis by (auto simp: text_instant_def Py_Time.timestamp_def)
qed

lemmas sample_reads = sample_isos [THEN iso_read]

lemma low_quote_fields [simp]:
  "quote_at (low_quote s) = text_instant s" "quote_cap (low_quote s) = Some 1500"
  "\<not> truthy (getd (low_quote s) ''market_snapshot_stale'')" "is_str (getd (low_quote s) ''current_market_verified_at'')"
  by (simp_all add: quote_at_def quote_cap_def low_quote_def)

lemmas observe_eval = observe_token_def fresh_quote_def Let_def last_quote_def extend_watch_def retire_def watch_due_def
  quote_max_age_def mcap_floor_def max_gap_seconds_def below_seconds_def sample_isos sample_reads

lemma sample_day:
  "watch_run ''T'' sample_looks None = Inr (Some sample_watch)"
  "observe_token (fst final_look) ''T'' (snd final_look) (Some sample_watch) =
     Inr (Some final_watch, [\<lparr>rt_token = ''T'', rt_at = ''2024-01-02T00:01:00Z'', rt_watch = final_watch\<rparr>])"
  by (simp_all add: sample_looks_def sample_stamps_def sample_watch_def final_look_def final_watch_def observe_eval)

theorem retired_after_low_day_witness:
  "\<exists>pre post ts. sample_looks @ [final_look] = pre @ post \<and> (\<forall>r \<in> set post. fresh_look r \<longrightarrow> low_look r) \<and>
    (\<forall>t \<in> set ts. \<exists>r \<in> set post. fresh_look r \<and> look_at r = t) \<and> sorted_wrt (<) ts \<and>
    (\<forall>i. Suc i < length ts \<longrightarrow> ts ! Suc i - ts ! i \<le> 7200) \<and> 13 \<le> length ts \<and> 86400 \<le> last ts - hd ts"
proof -
  have "orderly_looks (sample_looks @ [(fst final_look, snd final_look)])"
    by (simp add: orderly_looks_def sample_looks_def sample_stamps_def final_look_def fresh_look_def fresh_quote_def look_at_def
        quote_max_age_def sample_reads)
  from retired_after_low_day [OF sample_day _ this] show ?thesis by simp
qed

section \<open>Recapture\<close>

definition instant_or :: "pyval \<Rightarrow> pyval \<Rightarrow> rat" where
  "instant_or a b = instant (py_or a b)"

text \<open>The price an event states, or that its amounts give.\<close>

definition event_price :: "pyval \<Rightarrow> rat option" where
  "event_price event =
     (case number (getd event ''price_native'') of
        Some p \<Rightarrow> if p \<noteq> 0 then Some p else (case (number (getd event ''sol_amount''), number (getd event ''token_amount'')) of
            (Some sol, Some tokens) \<Rightarrow> if sol \<noteq> 0 \<and> tokens > 0 then Some (sol / tokens) else None
          | _ \<Rightarrow> None)
      | None \<Rightarrow> (case (number (getd event ''sol_amount''), number (getd event ''token_amount'')) of
            (Some sol, Some tokens) \<Rightarrow> if sol \<noteq> 0 \<and> tokens > 0 then Some (sol / tokens) else None
          | _ \<Rightarrow> None))"

definition event_quote :: "rat \<Rightarrow> rat \<Rightarrow> pyval \<Rightarrow> (rat \<times> rat) list" where
  "event_quote cutoff now event =
     (let time = instant_or (getd event ''block_time'') (getd event ''time'') in
      case event_price event of
        None \<Rightarrow> []
      | Some price \<Rightarrow> if price > 0 \<and> cutoff < time \<and> time \<le> now then [(time, price)] else [])"

text \<open>\<open>quotes.sort()\<close>: by time, then price.\<close>

definition price_quotes :: "rat \<Rightarrow> rat \<Rightarrow> pyval list \<Rightarrow> (rat \<times> rat) list" where
  "price_quotes cutoff now events = sort_key fst (sort_key snd (concat (map (event_quote cutoff now) events)))"

definition net_buy :: "pyval \<Rightarrow> rat" where
  "net_buy alert = (case number (getd (or_empty (getd alert ''wave'')) ''net_buy_sol'') of None \<Rightarrow> 0 | Some n \<Rightarrow> n)"

text \<open>The conditions on the alert, its pool's snapshot and its attention.\<close>

definition recapture_blocked :: "pyval \<Rightarrow> rat \<Rightarrow> rat \<Rightarrow> bool" where
  "recapture_blocked alert cutoff now =
     (let pool = or_empty (getd alert ''pool''); tm = instant (getd pool ''market_snapshot_at'');
          attention = or_empty (getd pool ''gmgn_attention''); seen = instant (getd attention ''last_seen_at'') in
      getd alert ''signal_family'' \<noteq> PStr ''reactivation_wave'' \<or> signal_time alert \<le> cutoff \<or>
      \<not> (signal_time alert \<le> instant (getd alert ''window_end'') \<and> instant (getd alert ''window_end'') \<le> now) \<or>
      truthy (getd pool ''market_snapshot_stale'') \<or> tm = 0 \<or> \<not> (0 \<le> now - tm \<and> now - tm \<le> 1200) \<or>
      (case number (getd pool ''mcap_usd'') of None \<Rightarrow> True | Some cap \<Rightarrow> \<not> (recapture_min \<le> cap \<and> cap \<le> recapture_max)) \<or>
      \<not> truthy (getd attention ''memberships'') \<or> \<not> (0 \<le> now - seen \<and> now - seen \<le> 1800) \<or> net_buy alert \<le> 0)"

record recapture =
  rc_token :: string
  rc_retired :: pyval
  rc_signal_at :: string
  rc_at :: string
  rc_cap :: rat
  rc_growth :: rat
  rc_net_buy :: pyval
  rc_quote_at :: string
  rc_attention_at :: string
  rc_samples :: nat
  rc_price_start :: string
  rc_price_observed :: string

definition mean2 :: "rat \<Rightarrow> rat \<Rightarrow> rat" where
  "mean2 a b = (a + b) / 2"

text \<open>\<open>median\<close> of two prices is their mean.\<close>

definition price_growth :: "(rat \<times> rat) list \<Rightarrow> rat" where
  "price_growth qs =
     (let n = length qs; before = mean2 (snd (qs ! 0)) (snd (qs ! 1)); after = mean2 (snd (qs ! (n - 2))) (snd (qs ! (n - 1)))
      in (after / before - 1) * 100)"

definition thin_prices :: "rat \<Rightarrow> (rat \<times> rat) list \<Rightarrow> bool" where
  "thin_prices now qs \<longleftrightarrow> length qs < 4 \<or> fst (qs ! (length qs - 2)) \<le> fst (qs ! 1) \<or>
     now - fst (qs ! (length qs - 2)) > quote_max_age"

definition recapture_entry :: "pyval \<Rightarrow> pyval \<Rightarrow> rat \<Rightarrow> (rat \<times> rat) list \<Rightarrow> recapture res" where
  "recapture_entry alert marker now qs =
     (let pool = or_empty (getd alert ''pool''); attention = or_empty (getd pool ''gmgn_attention'') in
      bindR (dict_item marker ''retired_at'') (\<lambda>retired.
      bindR (iso (signal_time alert)) (\<lambda>signal.
      bindR (iso now) (\<lambda>reactivated.
      bindR (iso (instant (getd pool ''market_snapshot_at''))) (\<lambda>quoted.
      bindR (iso (instant (getd attention ''last_seen_at''))) (\<lambda>seen.
      bindR (iso (fst (qs ! 0))) (\<lambda>started.
      bindR (iso (fst (qs ! (length qs - 2)))) (\<lambda>observed.
        Inr \<lparr>rc_token = token_key alert, rc_retired = retired, rc_signal_at = signal, rc_at = reactivated,
             rc_cap = (case number (getd pool ''mcap_usd'') of None \<Rightarrow> 0 | Some c \<Rightarrow> c), rc_growth = price_growth qs,
             rc_net_buy = getd (getd alert ''wave'') ''net_buy_sol'', rc_quote_at = quoted, rc_attention_at = seen,
             rc_samples = length qs, rc_price_start = started, rc_price_observed = observed\<rparr>))))))))"

definition alert_events :: "pyval \<Rightarrow> pyval list option \<Rightarrow> pyval list" where
  "alert_events alert price_events =
     (case price_events of Some es \<Rightarrow> es
      | None \<Rightarrow> as_list (py_or (getd alert ''coordination_events'') (getd alert ''events'')))"

definition recapture_proof :: "pyval \<Rightarrow> pyval \<Rightarrow> pyval \<Rightarrow> pyval list option \<Rightarrow> recapture option res" where
  "recapture_proof alert marker now price_events =
     (let cutoff = instant (getd marker ''retired_at''); t = instant now;
          qs = price_quotes cutoff t (alert_events alert price_events) in
      if recapture_blocked alert cutoff t then Inr None
      else if thin_prices t qs then Inr None
      else if price_growth qs < recapture_growth then Inr None
      else bindR (recapture_entry alert marker t qs) (\<lambda>p. Inr (Some p)))"

lemma price_quotes_after:
  assumes "q \<in> set (price_quotes cutoff now events)"
  shows "cutoff < fst q \<and> fst q \<le> now \<and> 0 < snd q"
  using assms by (auto simp: price_quotes_def event_quote_def Let_def split: option.splits if_split_asm)

text \<open>
  A retired token comes back only on its own later trading: a signal after the retirement, at
  least four positive prices after it and not in the future, in time order, whose last pair stands
  three percent above the first.
\<close>

theorem recapture_needs_growth:
  assumes "recapture_proof alert marker now price_events = Inr (Some p)"
  shows "signal_time alert > instant (getd marker ''retired_at'') \<and>
    (\<exists>qs. length qs = rc_samples p \<and> 4 \<le> length qs \<and> sorted (map fst qs) \<and>
      (\<forall>q \<in> set qs. instant (getd marker ''retired_at'') < fst q \<and> fst q \<le> instant now \<and> 0 < snd q) \<and>
      mean2 (snd (qs ! (length qs - 2))) (snd (qs ! (length qs - 1))) \<ge> 103 / 100 * mean2 (snd (qs ! 0)) (snd (qs ! 1)))"
proof -
  let ?cut = "instant (getd marker ''retired_at'')"
  define qs where "qs = price_quotes ?cut (instant now) (alert_events alert price_events)"
  from assms have b: "\<not> recapture_blocked alert ?cut (instant now)" and thin: "\<not> thin_prices (instant now) qs"
    and g: "recapture_growth \<le> price_growth qs" and e: "recapture_entry alert marker (instant now) qs = Inr p"
    by (auto simp: recapture_proof_def qs_def Let_def bindR_eq_Inr split: if_split_asm)
  from thin have four: "4 \<le> length qs" by (simp add: thin_prices_def)
  have pos: "?cut < fst q \<and> fst q \<le> instant now \<and> 0 < snd q" if "q \<in> set qs" for q
    using price_quotes_after that by (simp add: qs_def)
  let ?a = "mean2 (snd (qs ! 0)) (snd (qs ! 1))" and ?b = "mean2 (snd (qs ! (length qs - 2))) (snd (qs ! (length qs - 1)))"
  have "0 < snd (qs ! i)" if "i < 4" for i using pos [OF nth_mem, of i] four that by simp
  from this [of 0] this [of 1] have "0 < snd (qs ! 0)" "0 < snd (qs ! 1)" by simp_all
  then have "0 < ?a" by (simp add: mean2_def)
  moreover from g have "3 \<le> (?b / ?a - 1) * 100" by (simp add: price_growth_def Let_def recapture_growth_def)
  ultimately have "103 / 100 * ?a \<le> ?b" by (simp add: field_simps)
  moreover have "rc_samples p = length qs" using e by (auto simp: recapture_entry_def Let_def bindR_eq_Inr)
  moreover have "sorted (map fst qs)" by (simp add: qs_def price_quotes_def)
  moreover have "signal_time alert > ?cut" using b by (auto simp: recapture_blocked_def Let_def)
  ultimately show ?thesis using four pos by (intro conjI exI [of _ qs] ballI) simp_all
qed

definition sample_alert :: pyval where
  "sample_alert = PDict [(''token_address'', PStr ''solana:T''), (''signal_family'', PStr ''reactivation_wave''),
     (''window_start'', PInt 2000), (''window_end'', PInt 2600),
     (''pool'', PDict [(''market_snapshot_at'', PInt 2900), (''mcap_usd'', PInt 40000),
        (''gmgn_attention'', PDict [(''last_seen_at'', PInt 2800), (''memberships'', PList [PStr ''m''])])]),
     (''wave'', PDict [(''net_buy_sol'', PInt 3)])]"

definition sample_event :: "int \<Rightarrow> int \<Rightarrow> pyval" where
  "sample_event t price = PDict [(''block_time'', PInt t), (''price_native'', PInt price)]"

theorem recapture_needs_growth_witness:
  "\<exists>p. recapture_proof sample_alert (PDict [(''retired_at'', PInt 1000)]) (PInt 3000)
      (Some [sample_event 2500 11, sample_event 1500 10, sample_event 900 90, sample_event 2600 12, sample_event 1600 10]) = Inr (Some p) \<and>
    rc_samples p = 4 \<and> rc_growth p = 15 \<and> signal_time sample_alert > 1000"
proof -
  let ?run = "recapture_proof sample_alert (PDict [(''retired_at'', PInt 1000)]) (PInt 3000)
      (Some [sample_event 2500 11, sample_event 1500 10, sample_event 900 90, sample_event 2600 12, sample_event 1600 10])"
  have "case ?run of Inr (Some p) \<Rightarrow> rc_samples p = 4 \<and> rc_growth p = 15 | _ \<Rightarrow> False" by code_simp
  then obtain p where p: "?run = Inr (Some p)" "rc_samples p = 4" "rc_growth p = 15" by (auto split: sum.splits option.splits)
  from recapture_needs_growth [OF p(1)] have "signal_time sample_alert > 1000" by simp
  with p show ?thesis by blast
qed

section \<open>What a retirement removes\<close>

record stored =
  st_markers :: table                      \<comment> \<open>\<open>token_retirements\<close>\<close>
  st_pools :: table
  st_fields :: "(string \<times> table) list"    \<comment> \<open>the token tables that are dictionaries, by field\<close>
  st_dataset :: "(string \<times> pyval) list"   \<comment> \<open>\<open>signal_evaluation_dataset\<close>\<close>
  st_queue :: pyval                        \<comment> \<open>\<open>discovery_queue\<close>\<close>

definition token_fields :: "string list" where
  "token_fields = [''market'', ''activity_baselines'', ''gmgn_candidates'', ''signal_outcomes'', ''token_low_cap_watch'',
     ''token_account_enumerations'', ''social_cache'', ''token_intel_cache'']"

definition field_table :: "stored \<Rightarrow> string \<Rightarrow> table" where
  "field_table st f = (case map_of (st_fields st) f of None \<Rightarrow> [] | Some t \<Rightarrow> t)"

definition pool_token :: "string \<times> pyval \<Rightarrow> string \<times> string" where
  "pool_token kv = (fst kv, token_key (py_or (getd (snd kv) ''signal_thesis'') (py_or (getd (snd kv) ''pool'') (snd kv))))"

text \<open>The token of each pool: of the pool's own row, then the market's, then the candidates'.\<close>

definition pool_tokens :: "stored \<Rightarrow> (string \<times> string) list" where
  "pool_tokens st =
     map pool_token (st_pools st) @
     map (\<lambda>(token, e). (text_of (getd e ''pool_address''), token)) (field_table st ''market'') @
     map (\<lambda>(token, e). (text_of (getd (or_empty (getd e ''market_pool'')) ''pool_address''), token)) (field_table st ''gmgn_candidates'')"

text \<open>A dictionary built by updates keeps the last.\<close>

definition pool_token_of :: "stored \<Rightarrow> string \<Rightarrow> string option" where
  "pool_token_of st key = map_of (rev (pool_tokens st)) key"

definition token_of_pool :: "stored \<Rightarrow> string \<Rightarrow> pyval \<Rightarrow> string option" where
  "token_of_pool st key thesis = (if token_key thesis \<noteq> [] then Some (token_key thesis) else pool_token_of st key)"

definition pool_thesis :: "pyval \<Rightarrow> pyval" where
  "pool_thesis entry = py_or (getd entry ''signal_thesis'') (or_empty (getd entry ''pending_signal_thesis''))"

definition marked :: "table \<Rightarrow> string \<Rightarrow> bool" where
  "marked markers token \<longleftrightarrow> map_of markers token \<noteq> None"

definition retired_pool :: "stored \<Rightarrow> string \<times> pyval \<Rightarrow> bool" where
  "retired_pool st kv =
     (let thesis = pool_thesis (snd kv) in
      case token_of_pool st (fst kv) thesis of
        None \<Rightarrow> False
      | Some token \<Rightarrow> inactive (st_markers st) token \<or>
          (marked (st_markers st) token \<and> truthy thesis \<and> \<not> current_record thesis (st_markers st)))"

definition old_catch :: "table \<Rightarrow> string \<Rightarrow> pyval \<Rightarrow> bool" where
  "old_catch markers token row \<longleftrightarrow>
     (case map_of markers token of
        None \<Rightarrow> False
      | Some m \<Rightarrow> truthy (getd row ''first_signal_at'') \<and> instant (getd row ''first_signal_at'') \<le> instant (getd m ''retired_at''))"

definition retired_row :: "table \<Rightarrow> string \<Rightarrow> string \<times> pyval \<Rightarrow> bool" where
  "retired_row markers name kv =
     (let token = drop_prefix ''solana:'' (fst kv); row = snd kv in
      inactive markers token \<or> (name = ''market'' \<and> old_catch markers token row) \<or>
      (name = ''signal_outcomes'' \<and> marked markers token \<and> \<not> current_record row markers))"

definition purge_field :: "table \<Rightarrow> string \<times> table \<Rightarrow> string \<times> table" where
  "purge_field markers ft =
     (fst ft, if fst ft \<in> set token_fields then filter (\<lambda>kv. \<not> retired_row markers (fst ft) kv) (snd ft) else snd ft)"

definition purge_group :: "table \<Rightarrow> string \<times> pyval \<Rightarrow> string \<times> pyval" where
  "purge_group markers g =
     (fst g, case snd g of PDict rows \<Rightarrow> PDict (filter (\<lambda>kv. \<not> (is_dict (snd kv) \<and> \<not> current_record (snd kv) markers)) rows) | v \<Rightarrow> v)"

definition inactive_pool :: "stored \<Rightarrow> string \<Rightarrow> bool" where
  "inactive_pool st key = (case pool_token_of st key of None \<Rightarrow> False | Some token \<Rightarrow> inactive (st_markers st) token)"

definition purge_queue :: "stored \<Rightarrow> pyval" where
  "purge_queue st =
     (case st_queue st of
        PDict rows \<Rightarrow> PDict (filter (\<lambda>kv. \<not> (inactive (st_markers st) (fst kv) \<or> inactive_pool st (fst kv))) rows)
      | PList rows \<Rightarrow> PList (filter (\<lambda>row. \<not> inactive (st_markers st) (token_key row)) rows)
      | v \<Rightarrow> v)"

definition purge_retired_state :: "stored \<Rightarrow> int \<times> stored" where
  "purge_retired_state st =
     (int (length (filter (retired_pool st) (st_pools st))),
      st\<lparr>st_pools := filter (\<lambda>kv. \<not> retired_pool st kv) (st_pools st),
         st_fields := map (purge_field (st_markers st)) (st_fields st),
         st_dataset := map (purge_group (st_markers st)) (st_dataset st),
         st_queue := purge_queue st\<rparr>)"

lemma map_of_purge_field:
  "map_of (map (purge_field markers) fs) f = map_option (\<lambda>t. snd (purge_field markers (f, t))) (map_of fs f)"
  by (induction fs) (auto simp: purge_field_def)

lemma inactive_marked: "inactive markers token \<Longrightarrow> marked markers token"
  by (cases "map_of markers token") (auto simp: inactive_def marked_def)

lemma current_unmarked: "\<not> marked markers (token_key row) \<Longrightarrow> current_record row markers"
  by (simp add: marked_def current_record_def)


text \<open>Token R is retired; T never was, B came back.\<close>

definition sample_stored :: stored where
  "sample_stored =
     \<lparr>st_markers = [(''R'', PDict [(''retired_at'', PInt 50)]),
        (''B'', PDict [(''retired_at'', PInt 50), (''reactivated_at'', PInt 60)])],
      st_pools = [(''p1'', PDict [(''pool'', PDict [(''token_address'', PStr ''solana:R'')])]),
        (''p2'', PDict [(''pool'', PDict [(''token_address'', PStr ''T'')])]),
        (''p3'', PDict [(''signal_thesis'', PDict [(''token_address'', PStr ''B''), (''signal_at'', PInt 40)])])],
      st_fields = [(''market'', [(''R'', PDict []), (''T'', PDict []), (''B'', PDict [(''first_signal_at'', PInt 45)])]),
        (''other'', [(''R'', PDict [])])],
      st_dataset = [], st_queue = PList [PDict [(''token_address'', PStr ''R'')], PDict [(''token_address'', PStr ''T'')]]\<rparr>"


end
