(* ===== verification/Rpc_Spending.thy ===== *)
theory Rpc_Spending
  imports Rpc_Budget
begin

text \<open>
  What the budgets of \<^verbatim>\<open>src/rpc_budget.py\<close> promise their caller.  The locale \<open>reservation\<close> is the
  interface a provider uses (\<open>reserve(units)\<close> before each send); the three budget classes are
  interpretations of it, and no sequence of reservations spends more than the cap of one of them.
  The step relation \<open>spend_step\<close> is the whole account: direct spenders, grants issued to workers,
  grants lost on the way, and the workers' own reservations, in any order.
\<close>

section \<open>The interface\<close>

text \<open>The units accepted in one period by a sequence of reservations, each with its clock readings.\<close>

fun accepted_units ::
    "(clock \<Rightarrow> pyval \<Rightarrow> 's \<Rightarrow> bool res \<times> 's) \<Rightarrow> nat \<Rightarrow> string \<Rightarrow> (clock \<times> pyval) list \<Rightarrow> 's \<Rightarrow> int \<times> 's" where
  "accepted_units reserve site p [] s = (0, s)"
| "accepted_units reserve site p ((r, u) # qs) s =
     (case reserve r u s of (x, s') \<Rightarrow> (case accepted_units reserve site p qs s' of (k, s'') \<Rightarrow>
        ((if x = Inr True \<and> utc_period (r site) = p then case u of PInt n \<Rightarrow> n | _ \<Rightarrow> 0 else 0) + k, s'')))"

locale reservation =
  fixes reserve :: "clock \<Rightarrow> pyval \<Rightarrow> 's \<Rightarrow> bool res \<times> 's"
    and site :: nat
    and spent :: "string \<Rightarrow> 's \<Rightarrow> int"
    and cap :: int
    and ok :: "'s \<Rightarrow> bool"
  assumes ok_reserve: "ok s \<Longrightarrow> reserve r u s = (x, s') \<Longrightarrow> ok s'"
    and accepted: "ok s \<Longrightarrow> reserve r u s = (Inr True, s') \<Longrightarrow>
      \<exists>n. u = PInt n \<and> 0 \<le> n \<and> spent (utc_period (r site)) s + n \<le> spent (utc_period (r site)) s'"
    and grows: "ok s \<Longrightarrow> reserve r u s = (x, s') \<Longrightarrow> spent p s \<le> spent p s'"
    and capped: "ok s \<Longrightarrow> spent p s \<le> cap"
begin

lemma accepted_le_spent:
  assumes "ok s" and "accepted_units reserve site p qs s = (k, s')"
  shows "ok s' \<and> spent p s + k \<le> spent p s'"
  using assms
proof (induction qs arbitrary: s k s')
  case Nil
  then show ?case by simp
next
  case (Cons q qs)
  obtain r u where q: "q = (r, u)" by (cases q)
  obtain x t where t: "reserve r u s = (x, t)" by (cases "reserve r u s")
  obtain k' where k': "accepted_units reserve site p qs t = (k', s')"
    and k: "k = (if x = Inr True \<and> utc_period (r site) = p then case u of PInt n \<Rightarrow> n | _ \<Rightarrow> 0 else 0) + k'"
    using Cons.prems(2) by (auto simp: q t split: prod.splits)
  have okt: "ok t" by (rule ok_reserve [OF Cons.prems(1) t])
  note IH = Cons.IH [OF okt k']
  show ?case
  proof (cases "x = Inr True \<and> utc_period (r site) = p")
    case True
    with accepted [OF Cons.prems(1), of r u t] t IH k show ?thesis by auto
  next
    case False
    then have "k = k'" by (auto simp: k)
    with grows [OF Cons.prems(1) t, of p] IH show ?thesis by auto
  qed
qed

lemma accepted_bounded:
  assumes "ok s" and "accepted_units reserve site p qs s = (k, s')"
  shows "k \<le> cap - spent p s"
  using accepted_le_spent [OF assms] capped [of s' p] by simp

end

section \<open>One operation at a time\<close>

lemma monthly_remaining_result:
  assumes "monthly_remaining mb r L = (x, L')"
  shows "charged L' = charged L"
    and "x = Inr m \<Longrightarrow> m = max 0 (mb_limit mb - charged L (utc_period (r 0)) (mb_provider mb))"
proof -
  obtain y where e: "entry_for_period L (utc_period (r 0)) (mb_provider mb) = (y, L')"
    and x: "x = bindR y (\<lambda>e. Inr (max 0 (mb_limit mb - int_field e ''estimated_units'')))"
    using assms by (auto simp: monthly_remaining_def split: prod.splits)
  show "charged L' = charged L" by (rule entry_for_period_charged [OF e])
  assume "x = Inr m"
  with x obtain f where "y = Inr f" and m: "m = max 0 (mb_limit mb - int_field f ''estimated_units'')"
    by (cases y) auto
  with e entry_for_period_Inr(2) [of L "utc_period (r 0)" "mb_provider mb" f L']
  show "m = max 0 (mb_limit mb - charged L (utc_period (r 0)) (mb_provider mb))" by simp
qed

definition charge_at :: "string \<Rightarrow> string \<Rightarrow> int \<Rightarrow> (string \<Rightarrow> string \<Rightarrow> int) \<Rightarrow> string \<Rightarrow> string \<Rightarrow> int" where
  "charge_at p q n c = (\<lambda>p' q'. if p' = p \<and> q' = q then c p q + n else c p' q')"

lemma charge_at_apply:
  "charge_at p q n c p' q' = (if p' = p \<and> q' = q then c p q + n else c p' q')"
  by (simp add: charge_at_def)

lemma charge_at_mono: "0 \<le> n \<Longrightarrow> c p' q' \<le> charge_at p q n c p' q'"
  by (simp add: charge_at_def)

lemma monthly_reserve_cases:
  assumes "monthly_reserve mb r u L = (x, L')"
  obtains (accepted) n where "x = Inr True" "u = PInt n" "0 \<le> n"
      "charged L' = charge_at (utc_period (r 0)) (mb_provider mb) n (charged L)"
      "charged L (utc_period (r 0)) (mb_provider mb) + n \<le> mb_limit mb"
    | (refused) "x \<noteq> Inr True" "charged L' = charged L"
proof (cases "units_of u")
  case (Inl e)
  with assms have "x = Inl e" "L' = L" by (auto simp: monthly_reserve_def)
  then show ?thesis by (intro refused) auto
next
  case (Inr n)
  then have n: "u = PInt n" "0 \<le> n" by (simp_all add: units_of_Inr)
  obtain y L1 where e: "entry_for_period L (utc_period (r 0)) (mb_provider mb) = (y, L1)" by fastforce
  note c = entry_for_period_charged [OF e]
  show ?thesis
  proof (cases y)
    case (Inl z)
    with assms Inr e have "x = Inl z" "L' = L1" by (auto simp: monthly_reserve_def)
    then show ?thesis using c by (intro refused) auto
  next
    case f: (Inr f)
    note eq = entry_for_period_Inr(2) [OF e [unfolded f]]
    show ?thesis
    proof (cases "int_field f ''estimated_units'' + n > mb_limit mb")
      case True
      with assms Inr e f have "x = Inr False" "L' = L1" by (auto simp: monthly_reserve_def)
      then show ?thesis using c by (intro refused) auto
    next
      case False
      with assms Inr e f have "x = Inr True" and L': "L' = put_entry L1 (utc_period (r 0)) (mb_provider mb)
          (AList.update ''attempts'' (PInt (int_field f ''attempts'' + 1)) (charge_entry f n))"
        by (auto simp: monthly_reserve_def)
      moreover have "charged L' = charge_at (utc_period (r 0)) (mb_provider mb) n (charged L)"
        by (intro ext) (simp add: L' charge_at_def charge_entry_def eq c)
      ultimately show ?thesis using n False eq by (intro accepted [of n]) auto
    qed
  qed
qed

lemma preallocated_grant_payload:
  "preallocated (grant_payload q p role n) = Inr g \<longleftrightarrow>
     q \<in> set (map fst NATIVE_UNITS) \<and> py_in_strs role grant_roles = Inr True \<and> 0 \<le> n \<and>
     g = \<lparr>g_provider = q, g_period = PStr p, g_role = str_of role, g_limit = n, g_used = 0, g_attempts = 0\<rparr>"
  by (auto simp: preallocated_def grant_payload_def bindR_eq_Inr units_of_Inr split: if_splits)

lemma plus_int_not_none: "plus_int v n \<noteq> Inr PNone"
  by (cases v; simp) (rename_tac f, case_tac f; simp)

lemma bump_estimated:
  assumes "bump k n e = Inr e'" and "k \<noteq> ''estimated_units''"
  shows "int_field e' ''estimated_units'' = int_field e ''estimated_units''"
  using assms by (auto simp: bump_def bindR_eq_Inr int_field_def)

lemma allocate_run_budget_cases:
  assumes "allocate_run_budget mb r u role L = (x, L')"
  obtains (granted) n where "u = PInt n" "0 \<le> n" "x = Inr (grant_payload (mb_provider mb) (utc_period (r 0)) role n)"
      "charged L' = charge_at (utc_period (r 0)) (mb_provider mb) n (charged L)"
      "charged L (utc_period (r 0)) (mb_provider mb) + n \<le> mb_limit mb"
    | (raised) n e where "x = Inl e" "0 \<le> n"
      "charged L' = charge_at (utc_period (r 0)) (mb_provider mb) n (charged L)"
      "charged L (utc_period (r 0)) (mb_provider mb) + n \<le> mb_limit mb"
    | (refused) "x = Inr PNone \<or> (\<exists>e. x = Inl e)" "charged L' = charged L"
proof -
  let ?p = "utc_period (r 0)" let ?q = "mb_provider mb"
  let ?args = "bindR (units_of u) (\<lambda>n. bindR (py_in_strs role grant_roles) (\<lambda>b.
             if b then Inr n else Inl (ValueError ''unknown grant role'')))"
  show ?thesis
  proof (cases ?args)
    case (Inl e)
    with assms have "x = Inl e" "L' = L" by (auto simp: allocate_run_budget_def)
    then show ?thesis by (intro refused) auto
  next
    case (Inr n)
    then have n: "u = PInt n" "0 \<le> n" by (auto simp: bindR_eq_Inr units_of_Inr split: if_splits)
    obtain y L1 where e: "entry_for_period L ?p ?q = (y, L1)" by fastforce
    note c = entry_for_period_charged [OF e]
    show ?thesis
    proof (cases y)
      case (Inl z)
      with assms Inr e have "x = Inl z" "L' = L1" by (auto simp: allocate_run_budget_def Let_def)
      then show ?thesis using c by (intro refused) auto
    next
      case f: (Inr f)
      note eq = entry_for_period_Inr(2) [OF e [unfolded f]]
      show ?thesis
      proof (cases "int_field f ''estimated_units'' + n > mb_limit mb")
        case True
        with assms Inr e f have "x = Inr PNone" "L' = L1" by (auto simp: allocate_run_budget_def Let_def)
        then show ?thesis using c by (intro refused) auto
      next
        case False
        then have fits: "charged L ?p ?q + n \<le> mb_limit mb" using eq by simp
        have put: "charged (put_entry L1 ?p ?q d) = charge_at ?p ?q n (charged L)"
          if "int_field d ''estimated_units'' = int_field f ''estimated_units'' + n" for d
          by (intro ext) (simp add: that charge_at_def eq c)
        let ?e1 = "charge_entry f n"
        have e1: "int_field ?e1 ''estimated_units'' = int_field f ''estimated_units'' + n"
          by (simp add: charge_entry_def)
        show ?thesis
        proof (cases "bump ''allocated_units'' n ?e1")
          case (Inl z)
          with assms Inr e f False have "x = Inl z" "L' = put_entry L1 ?p ?q ?e1"
            by (auto simp: allocate_run_budget_def Let_def)
          then show ?thesis using put [OF e1] fits n by (intro raised [of z n]) auto
        next
          case e2: (Inr e2)
          have e2f: "int_field e2 ''estimated_units'' = int_field f ''estimated_units'' + n"
            using bump_estimated [OF e2] e1 by simp
          show ?thesis
          proof (cases "bump ''allocations'' 1 e2")
            case (Inl z)
            with assms Inr e f False e2 have "x = Inl z" "L' = put_entry L1 ?p ?q e2"
              by (auto simp: allocate_run_budget_def Let_def)
            then show ?thesis using put [OF e2f] fits n by (intro raised [of z n]) auto
          next
            case e3: (Inr e3)
            have e3f: "int_field e3 ''estimated_units'' = int_field f ''estimated_units'' + n"
              using bump_estimated [OF e3] e2f by simp
            from assms Inr e f False e2 e3 have "x = Inr (grant_payload ?q ?p role n)" "L' = put_entry L1 ?p ?q e3"
              by (auto simp: allocate_run_budget_def Let_def)
            then show ?thesis using put [OF e3f] fits n by (intro granted [of n]) auto
          qed
        qed
      qed
    qed
  qed
qed

definition grant_ok :: "grant \<Rightarrow> bool" where
  "grant_ok g \<longleftrightarrow> 0 \<le> g_used g \<and> g_used g \<le> g_limit g"

lemma grant_reserve_cases:
  assumes "grant_reserve r u g = (x, g')"
  obtains (accepted) n where "x = Inr True" "u = PInt n" "0 \<le> n" "g_period g = PStr (utc_period (r 0))"
      "g_used g + n \<le> g_limit g \<or> n = 0" "g' = g\<lparr>g_used := g_used g + n, g_attempts := g_attempts g + 1\<rparr>"
    | (refused) "x \<noteq> Inr True" "g' = g"
proof (cases "grant_allows r u g")
  case (Inl e)
  with assms show ?thesis by (intro refused) (auto simp: grant_reserve_def)
next
  case (Inr b)
  show ?thesis
  proof (cases b)
    case False
    with assms Inr show ?thesis by (intro refused) (auto simp: grant_reserve_def)
  next
    case True
    with Inr obtain n where n: "u = PInt n" "0 \<le> n" "grant_current g (r 0)" "n \<le> grant_remaining g (r 1)"
      by (auto simp: grant_allows_def bindR_eq_Inr units_of_Inr)
    with assms Inr True show ?thesis
      by (intro accepted [of n])
        (auto simp: grant_reserve_def grant_current_def grant_remaining_def split: if_splits)
  qed
qed

definition charged_within :: "(string \<Rightarrow> string \<Rightarrow> int) \<Rightarrow> mbudget \<Rightarrow> (string \<Rightarrow> string \<Rightarrow> int) \<Rightarrow> bool" where
  "charged_within c mb c' \<longleftrightarrow> c' = c \<or>
     (\<exists>p n. 0 \<le> n \<and> c p (mb_provider mb) + n \<le> mb_limit mb \<and> c' = charge_at p (mb_provider mb) n c)"

lemma charged_within_mono: "charged_within c mb c' \<Longrightarrow> c p q \<le> c' p q"
  by (auto simp: charged_within_def charge_at_def)

lemma charged_within_cap:
  "charged_within c mb c' \<Longrightarrow> c p (mb_provider mb) \<le> mb_limit mb \<Longrightarrow> c' p (mb_provider mb) \<le> mb_limit mb"
  by (auto simp: charged_within_def charge_at_def)

lemma charged_within_refl [simp]: "charged_within c mb c"
  by (simp add: charged_within_def)

lemma charged_withinI:
  "0 \<le> n \<Longrightarrow> c p (mb_provider mb) + n \<le> mb_limit mb \<Longrightarrow> charged_within c mb (charge_at p (mb_provider mb) n c)"
  unfolding charged_within_def by blast

lemma durable_issue_cases:
  assumes "durable_issue commit r n d L w = (x, d', L', w')"
  obtains (issued) g m p where "x = Inr True" "d' = d\<lparr>d_grant := Some g\<rparr>" "g_period g = PStr p" "g_used g = 0"
      "g_limit g = m" "0 \<le> m" "charged L p (mb_provider (d_account d)) + m \<le> mb_limit (d_account d)"
      "charged L' = charge_at p (mb_provider (d_account d)) m (charged L)"
      "commit L' w = (Inr (PBool True), w')"
    | (failed) "x \<noteq> Inr True" "d' = d \<or> d' = d\<lparr>d_failed := True\<rparr>"
      "charged_within (charged L) (d_account d) (charged L')"
      "w' = w \<or> (\<exists>a. commit L' w = (a, w'))"
proof -
  let ?acc = "d_account d"
  obtain y1 L1 where 1: "monthly_remaining ?acc r L = (y1, L1)" by fastforce
  note c1 = monthly_remaining_result(1) [OF 1]
  obtain y2 L2 where 2: "monthly_remaining ?acc (\<lambda>i. r (i + 1)) L1 = (y2, L2)" by fastforce
  note c2 = monthly_remaining_result(1) [OF 2, unfolded c1]
  note def = durable_issue_def
  show ?thesis
  proof (cases "\<exists>m1 m2. y1 = Inr m1 \<and> n \<le> m1 \<and> y2 = Inr m2")
    case False
    then have "x \<noteq> Inr True \<and> d' = d \<and> w' = w \<and> (L' = L1 \<or> L' = L2)"
      using assms 1 2 by (auto simp: def split: sum.splits if_splits)
    then show ?thesis using c1 c2 by (intro failed) auto
  next
    case True
    then obtain m1 m2 where m: "y1 = Inr m1" "n \<le> m1" "y2 = Inr m2" by blast
    obtain z L3 where 3: "allocate_run_budget ?acc (\<lambda>i. r (i + 2)) (PInt (min m2 (max (d_chunk d) n))) (d_role d) L2 = (z, L3)"
      by fastforce
    show ?thesis
    proof (cases "z = Inr PNone \<or> (\<exists>e. z = Inl e)")
      case True
      then have "x \<noteq> Inr True \<and> d' = d \<and> w' = w \<and> L' = L3"
        using assms 1 2 m 3 by (auto simp: def)
      moreover from 3 have "charged_within (charged L) ?acc (charged L3)"
        by (rule allocate_run_budget_cases) (use True in \<open>auto simp: c2 intro: charged_withinI\<close>)
      ultimately show ?thesis by (intro failed) auto
    next
      case False
      from 3 obtain k p where k: "z = Inr (grant_payload (mb_provider ?acc) p (d_role d) k)" "0 \<le> k"
          "charged L3 = charge_at p (mb_provider ?acc) k (charged L)"
          "charged L p (mb_provider ?acc) + k \<le> mb_limit ?acc"
        by (rule allocate_run_budget_cases) (use False in \<open>auto simp: c2\<close>)
      have nn: "grant_payload (mb_provider ?acc) p (d_role d) k \<noteq> PNone" by (simp add: grant_payload_def)
      have within: "charged_within (charged L) ?acc (charged L3)"
        unfolding k(3) by (rule charged_withinI [of k "charged L" p ?acc, OF k(2,4)])
      obtain a v where a: "commit L3 w = (a, v)" by fastforce
      show ?thesis
      proof (cases "a = Inr (PBool True) \<and> (\<exists>g. preallocated (grant_payload (mb_provider ?acc) p (d_role d) k) = Inr g)")
        case True
        then obtain g where g: "a = Inr (PBool True)" "preallocated (grant_payload (mb_provider ?acc) p (d_role d) k) = Inr g"
          by blast
        have out: "x = Inr True \<and> d' = d\<lparr>d_grant := Some g\<rparr> \<and> L' = L3 \<and> w' = v"
          using assms 1 2 m 3 k(1) nn a g by (simp add: def)
        have gf: "g_period g = PStr p" "g_used g = 0" "g_limit g = k"
          using g(2) by (simp_all add: preallocated_grant_payload)
        show ?thesis using out gf g(1) a k by (intro issued [of g p k]) auto
      next
        case False
        then have "x \<noteq> Inr True \<and> (d' = d \<or> d' = d\<lparr>d_failed := True\<rparr>) \<and> L' = L3 \<and> w' = v"
          using assms 1 2 m 3 k(1) nn a by (auto simp: def split: sum.splits if_splits)
        then show ?thesis using within a by (intro failed) auto
      qed
    qed
  qed
qed

definition unused :: "string \<Rightarrow> durable \<Rightarrow> int" where
  "unused p d = (case d_grant d of None \<Rightarrow> 0 | Some g \<Rightarrow> if g_period g = PStr p then g_limit g - g_used g else 0)"

definition grant_fine :: "durable \<Rightarrow> bool" where
  "grant_fine d \<longleftrightarrow> (\<forall>g. d_grant d = Some g \<longrightarrow> grant_ok g)"

lemma unused_nonneg: "grant_fine d \<Longrightarrow> 0 \<le> unused p d"
  by (auto simp: grant_fine_def unused_def grant_ok_def split: option.splits)

lemma durable_spend_cases:
  assumes "durable_spend r u n d = (x, d')" and "u = PInt n" and "grant_fine d"
  obtains (accepted) "x = Inr True" "grant_fine d'" "0 \<le> n" "d_account d' = d_account d" "d_failed d' = d_failed d"
      "\<And>p. unused p d' = unused p d - (if p = utc_period (r 0) then n else 0)"
    | (refused) "x \<noteq> Inr True" "d' = d"
proof (cases "d_grant d")
  case None
  with assms(1) show ?thesis by (intro refused) (auto simp: durable_spend_def)
next
  case (Some g)
  obtain y g' where y: "grant_reserve r u g = (y, g')" by fastforce
  from Some assms(3) have ok: "grant_ok g" by (simp add: grant_fine_def)
  from y show ?thesis
  proof (cases rule: grant_reserve_cases)
    case (accepted m)
    have [simp]: "m = n" using accepted(2) assms(2) by simp
    have out: "x = Inr True \<and> d' = d\<lparr>d_grant := Some g', d_used := d_used d + n, d_attempts := d_attempts d + 1\<rparr>"
      using assms(1) Some y accepted(1) by (auto simp: durable_spend_def)
    with Some show ?thesis using accepted ok
      by (intro that(1)) (auto simp: grant_fine_def grant_ok_def unused_def)
  next
    case refused
    have "x \<noteq> Inr True \<and> d' = d\<lparr>d_grant := Some g\<rparr>"
      using assms(1) Some y refused by (auto simp: durable_spend_def split: sum.splits bool.splits)
    then show ?thesis using Some by (intro that(2)) auto
  qed
qed

text \<open>
  One reservation of the durable budget: the units accepted come out of the grant in hand, or out
  of a new one whose charge was committed and acknowledged first.
\<close>

lemma durable_reserve_cases:
  assumes "durable_reserve commit r u d L w = (x, d', L', w')" and "grant_fine d"
  obtains (held) n where "x = Inr True" "u = PInt n" "0 \<le> n" "\<not> d_failed d" "L' = L" "w' = w" "grant_fine d'"
      "d_account d' = d_account d" "d_failed d' = d_failed d"
      "\<And>p. unused p d' = unused p d - (if p = utc_period (r 5) then n else 0)"
    | (renewed) n m q where "x = Inr True \<and> u = PInt n \<and> 0 \<le> n \<or> x \<noteq> Inr True \<and> n = 0" "\<not> d_failed d" "grant_fine d'" "0 \<le> m"
      "commit L' w = (Inr (PBool True), w')" "d_account d' = d_account d" "d_failed d' = d_failed d"
      "charged L q (mb_provider (d_account d)) + m \<le> mb_limit (d_account d)"
      "charged L' = charge_at q (mb_provider (d_account d)) m (charged L)"
      "\<And>p. unused p d' = (if p = q then m else 0) - (if p = utc_period (r 5) then n else 0)"
    | (refused) "x \<noteq> Inr True" "d' = d \<or> d' = d\<lparr>d_failed := True\<rparr>" "charged_within (charged L) (d_account d) (charged L')"
      "w' = w \<or> (\<exists>a. commit L' w = (a, w'))" "d_failed d \<longrightarrow> w' = w \<and> L' = L"
proof -
  note def = durable_reserve_def
  show ?thesis
  proof (cases "(\<exists>e. units_of u = Inl e) \<or> d_failed d \<or>
      (\<exists>e. (case d_grant d of None \<Rightarrow> Inr False | Some g \<Rightarrow> grant_allows r u g) = Inl e)")
    case True
    then have "x \<noteq> Inr True \<and> d' = d \<and> L' = L \<and> w' = w"
      using assms(1) by (auto simp: def split: sum.splits if_splits)
    then show ?thesis by (intro refused) auto
  next
    case False
    then obtain n b where n: "units_of u = Inr n" "\<not> d_failed d"
      and b: "(case d_grant d of None \<Rightarrow> Inr False | Some g \<Rightarrow> grant_allows r u g) = Inr b"
      by (metis sumE)
    have u: "u = PInt n" using n(1) by (simp add: units_of_Inr)
    show ?thesis
    proof (cases b)
      case True
      obtain y e where y: "durable_spend (\<lambda>i. r (i + 5)) u n d = (y, e)" by fastforce
      have out: "x = y \<and> d' = e \<and> L' = L \<and> w' = w" using assms(1) n b True y by (simp add: def)
      from y u assms(2) show ?thesis
      proof (cases rule: durable_spend_cases)
        case accepted
        with out u n show ?thesis by (intro held [of n]) auto
      next
        case refused
        with out n show ?thesis by (intro that(3)) auto
      qed
    next
      case False
      obtain y e M v where y: "durable_issue commit (\<lambda>i. r (i + 2)) n d L w = (y, e, M, v)"
        by (metis prod_cases4)
      from y show ?thesis
      proof (cases rule: durable_issue_cases)
        case (issued g m q)
        obtain z f where z: "durable_spend (\<lambda>i. r (i + 5)) u n e = (z, f)" by fastforce
        have fine: "grant_fine e" using issued by (auto simp: grant_fine_def grant_ok_def)
        have un: "unused p e = (if p = q then m else 0)" for p using issued by (simp add: unused_def)
        have out: "x = z \<and> d' = f \<and> L' = M \<and> w' = v"
          using assms(1) n b False y issued(1) z by (simp add: def)
        from z u fine show ?thesis
        proof (cases rule: durable_spend_cases)
          case accepted
          with out un issued n u show ?thesis by (intro renewed [of n m q]) auto
        next
          case refused
          with out un issued n u fine show ?thesis by (intro renewed [of 0 m q]) auto
        qed
      next
        case failed
        have "x = y \<and> d' = e \<and> L' = M \<and> w' = v"
          using assms(1) n b False y failed(1) by (auto simp: def split: sum.splits bool.splits)
        with failed n show ?thesis by (intro refused) auto
      qed
    qed
  qed
qed

section \<open>The three budgets keep the contract\<close>

definition monthly_ok :: "mbudget \<Rightarrow> ledger \<Rightarrow> bool" where
  "monthly_ok mb L \<longleftrightarrow> (\<forall>p. charged L p (mb_provider mb) \<le> mb_limit mb)"

lemma monthly_okD: "monthly_ok mb L \<Longrightarrow> charged L p (mb_provider mb) \<le> mb_limit mb"
  by (simp add: monthly_ok_def)

interpretation monthly: reservation "monthly_reserve mb" 0 "\<lambda>p L. charged L p (mb_provider mb)" "mb_limit mb"
  "monthly_ok mb" for mb
proof (unfold_locales, goal_cases)
  case (1 s r u x s')
  from 1(2) show ?case
    by (cases rule: monthly_reserve_cases) (use 1(1) in \<open>auto simp: monthly_ok_def charge_at_def\<close>)
next
  case (2 s r u s')
  from 2(2) show ?case by (cases rule: monthly_reserve_cases) (auto simp: charge_at_def)
next
  case (3 s r u x s' p)
  from 3(2) show ?case by (cases rule: monthly_reserve_cases) (auto simp: charge_at_def)
next
  case (4 s p)
  then show ?case by (rule monthly_okD)
qed

interpretation preallocated: reservation grant_reserve 0 "\<lambda>p g. if g_period g = PStr p then g_used g else 0"
  limit "\<lambda>g. grant_ok g \<and> g_limit g = limit" for limit
proof (unfold_locales, goal_cases)
  case (1 s r u x s')
  from 1(2) show ?case
    by (cases rule: grant_reserve_cases) (use 1(1) in \<open>auto simp: grant_ok_def\<close>)
next
  case (2 s r u s')
  from 2(2) show ?case by (cases rule: grant_reserve_cases) auto
next
  case (3 s r u x s' p)
  from 3(2) show ?case by (cases rule: grant_reserve_cases) auto
next
  case (4 s p)
  then show ?case by (auto simp: grant_ok_def)
qed

text \<open>The durable budget with the ledger and the world its operations change.\<close>

definition durable_on ::
    "'w committer \<Rightarrow> clock \<Rightarrow> pyval \<Rightarrow> durable \<times> ledger \<times> 'w \<Rightarrow> bool res \<times> durable \<times> ledger \<times> 'w" where
  "durable_on commit r u s = (case s of (d, L, w) \<Rightarrow> durable_reserve commit r u d L w)"

definition durable_ok :: "mbudget \<Rightarrow> durable \<times> ledger \<times> 'w \<Rightarrow> bool" where
  "durable_ok mb s \<longleftrightarrow> (case s of (d, L, w) \<Rightarrow> d_account d = mb \<and> grant_fine d \<and> monthly_ok mb L)"

definition durable_spent :: "mbudget \<Rightarrow> string \<Rightarrow> durable \<times> ledger \<times> 'w \<Rightarrow> int" where
  "durable_spent mb p s = (case s of (d, L, w) \<Rightarrow> charged L p (mb_provider mb) - unused p d)"

lemma unused_failed [simp]: "unused p (d\<lparr>d_failed := b\<rparr>) = unused p d"
  by (simp add: unused_def)

lemma grant_fine_failed [simp]: "grant_fine (d\<lparr>d_failed := b\<rparr>) = grant_fine d"
  by (simp add: grant_fine_def)

lemma durable_on_laws:
  assumes ok: "durable_ok mb s" and run: "durable_on commit r u s = (x, s')"
  shows "durable_ok mb s'"
    and "x = Inr True \<Longrightarrow> \<exists>n. u = PInt n \<and> 0 \<le> n \<and>
      durable_spent mb (utc_period (r 5)) s + n \<le> durable_spent mb (utc_period (r 5)) s'"
    and "durable_spent mb p s \<le> durable_spent mb p s'"
proof -
  obtain d L w where s: "s = (d, L, w)" by (cases s)
  obtain d' L' w' where s': "s' = (d', L', w')" by (cases s')
  from ok s have d: "d_account d = mb" "grant_fine d" "monthly_ok mb L" by (simp_all add: durable_ok_def)
  note nn = unused_nonneg [OF d(2)]
  from run s s' have "durable_reserve commit r u d L w = (x, d', L', w')" by (simp add: durable_on_def)
  from this d(2) have "durable_ok mb s' \<and> (x = Inr True \<longrightarrow> (\<exists>n. u = PInt n \<and> 0 \<le> n \<and>
      durable_spent mb (utc_period (r 5)) s + n \<le> durable_spent mb (utc_period (r 5)) s')) \<and>
      (\<forall>p. durable_spent mb p s \<le> durable_spent mb p s')"
  proof (cases rule: durable_reserve_cases)
    case (held n)
    then show ?thesis using d by (auto simp: s s' durable_ok_def durable_spent_def)
  next
    case (renewed n m q)
    have "monthly_ok mb L'"
      using d renewed by (auto simp: monthly_ok_def charge_at_def)
    then have ok': "durable_ok mb s'" using renewed(3,6) d(1) by (simp add: s' durable_ok_def)
    have n: "0 \<le> n" using renewed(1) by auto
    have add: "durable_spent mb p s + (if p = utc_period (r 5) then n else 0) \<le> durable_spent mb p s'" for p
      using renewed(10) [of p] nn [of p] d(1) by (auto simp: s s' durable_spent_def renewed(9) charge_at_def)
    have "durable_spent mb p s \<le> durable_spent mb p s'" for p
      using add [of p] n by (auto split: if_splits)
    moreover have "durable_spent mb (utc_period (r 5)) s + n \<le> durable_spent mb (utc_period (r 5)) s'"
      using add [of "utc_period (r 5)"] by simp
    moreover have "x = Inr True \<Longrightarrow> u = PInt n" using renewed(1) by auto
    ultimately show ?thesis using ok' n by auto
  next
    case refused
    have "unused p d' = unused p d" "grant_fine d'" "d_account d' = mb" for p using refused d by auto
    moreover have "monthly_ok mb L'"
      using d refused(3) by (auto simp: monthly_ok_def intro: charged_within_cap)
    ultimately show ?thesis using refused charged_within_mono [OF refused(3)]
      by (auto simp: s s' durable_ok_def durable_spent_def)
  qed
  then show "durable_ok mb s'"
    and "x = Inr True \<Longrightarrow> \<exists>n. u = PInt n \<and> 0 \<le> n \<and>
      durable_spent mb (utc_period (r 5)) s + n \<le> durable_spent mb (utc_period (r 5)) s'"
    and "durable_spent mb p s \<le> durable_spent mb p s'" by auto
qed

interpretation durable: reservation "durable_on commit" 5 "durable_spent mb" "mb_limit mb" "durable_ok mb" for commit mb
proof (unfold_locales, goal_cases)
  case (1 s r u x s')
  then show ?case by (rule durable_on_laws(1))
next
  case (2 s r u s')
  then show ?case using durable_on_laws(2) by blast
next
  case (3 s r u x s' p)
  then show ?case by (rule durable_on_laws(3))
next
  case (4 s p)
  obtain d L w where s: "s = (d, L, w)" by (cases s)
  with 4 have "grant_fine d" "charged L p (mb_provider mb) \<le> mb_limit mb" by (auto simp: durable_ok_def monthly_ok_def)
  with unused_nonneg [of d p] show ?case by (simp add: s durable_spent_def)
qed

end
