(* ===== verification/Rpc_Account.thy ===== *)
theory Rpc_Account
  imports Rpc_Spending
begin

text \<open>
  The account as a whole: the sequences of reservations of one durable budget (what its caller may
  spend, and that every unit spent is covered by a charge the store acknowledged), and the step
  relation of all spenders of one ledger (direct clients, grants issued, grants lost, workers).
\<close>

section \<open>One durable budget\<close>

lemma durable_budget_fresh:
  assumes "durable_budget mb chunk role = Inr d"
  shows "d_account d = mb" "grant_fine d" "unused p d = 0" "\<not> d_failed d"
  using assms by (auto simp: durable_budget_def bindR_eq_Inr grant_fine_def unused_def)

text \<open>
  C6: However many requests a run makes and however its commits fare, the units its durable budget
  accepts in a month stay within the monthly limit less what the account had been charged before.
\<close>

theorem durable_run_bounded:
  assumes "durable_budget mb chunk role = Inr d" and "monthly_ok mb L"
    and "accepted_units (durable_on commit) 5 p qs (d, L, w) = (k, s')"
  shows "k \<le> mb_limit mb - charged L p (mb_provider mb)"
proof -
  have ok: "durable_ok mb (d, L, w)"
    using durable_budget_fresh(1,2) [OF assms(1)] assms(2) by (simp add: durable_ok_def)
  have "durable_spent mb p (d, L, w) = charged L p (mb_provider mb)"
    by (simp add: durable_spent_def durable_budget_fresh(3) [OF assms(1)])
  with durable.accepted_bounded [OF ok assms(3)] show ?thesis by simp
qed

text \<open>
  What the commit callback promises: \<open>True\<close> means the store now holds the ledger; any other answer
  leaves the store with the ledger it was sent or with what it had.
\<close>

definition ack_store :: "'w committer \<Rightarrow> ('w \<Rightarrow> ledger) \<Rightarrow> bool" where
  "ack_store commit stored \<longleftrightarrow> (\<forall>L w a w'. commit L w = (a, w') \<longrightarrow>
     (a = Inr (PBool True) \<longrightarrow> charged (stored w') = charged L) \<and>
     (charged (stored w') = charged L \<or> charged (stored w') = charged (stored w)))"

definition acked_ok :: "('w \<Rightarrow> ledger) \<Rightarrow> mbudget \<Rightarrow> durable \<times> ledger \<times> 'w \<Rightarrow> bool" where
  "acked_ok stored mb s \<longleftrightarrow> durable_ok mb s \<and> (case s of (d, L, w) \<Rightarrow>
     \<forall>p. charged (stored w) p (mb_provider mb) \<le> charged L p (mb_provider mb))"

definition acked_spent :: "('w \<Rightarrow> ledger) \<Rightarrow> mbudget \<Rightarrow> string \<Rightarrow> durable \<times> ledger \<times> 'w \<Rightarrow> int" where
  "acked_spent stored mb p s = (case s of (d, L, w) \<Rightarrow>
     charged (stored w) p (mb_provider mb) - unused p d)"

lemma acked_reservation:
  assumes ack: "ack_store commit stored"
  shows "reservation (durable_on commit) 5 (acked_spent stored mb) (mb_limit mb) (acked_ok stored mb)"
proof -
  have law: "acked_ok stored mb s' \<and> (x = Inr True \<longrightarrow> (\<exists>n. u = PInt n \<and> 0 \<le> n \<and>
        acked_spent stored mb (utc_period (r 5)) s + n \<le> acked_spent stored mb (utc_period (r 5)) s')) \<and>
        (\<forall>p. acked_spent stored mb p s \<le> acked_spent stored mb p s')"
    if ok: "acked_ok stored mb s" and run: "durable_on commit r u s = (x, s')" for s r u x s'
  proof -
    let ?q = "mb_provider mb"
    obtain d L w where s: "s = (d, L, w)" by (cases s)
    obtain d' L' w' where s': "s' = (d', L', w')" by (cases s')
    from ok s have d: "d_account d = mb" "grant_fine d" and dok: "durable_ok mb s"
      and below: "\<And>p. charged (stored w) p ?q \<le> charged L p ?q"
      by (simp_all add: acked_ok_def durable_ok_def)
    note dok' = durable_on_laws(1) [OF dok run]
    note nn = unused_nonneg [OF d(2)]
    from run s s' have "durable_reserve commit r u d L w = (x, d', L', w')" by (simp add: durable_on_def)
    from this d(2) show ?thesis
    proof (cases rule: durable_reserve_cases)
      case (held n)
      with dok' below show ?thesis by (auto simp: s s' acked_ok_def acked_spent_def)
    next
      case (renewed n m q)
      have st: "charged (stored w') = charged L'"
        using ack renewed(5) unfolding ack_store_def by blast
      have n: "0 \<le> n" using renewed(1) by auto
      have add: "acked_spent stored mb p s + (if p = utc_period (r 5) then n else 0) \<le> acked_spent stored mb p s'" for p
        using renewed(10) [of p] nn [of p] below [of p] d(1)
        by (auto simp: s s' acked_spent_def st renewed(9) charge_at_def)
      have "acked_spent stored mb p s \<le> acked_spent stored mb p s'" for p
        using add [of p] n by (auto split: if_splits)
      moreover have "acked_spent stored mb (utc_period (r 5)) s + n \<le> acked_spent stored mb (utc_period (r 5)) s'"
        using add [of "utc_period (r 5)"] by simp
      moreover have "acked_ok stored mb s'" using dok' by (simp add: s' acked_ok_def st)
      moreover have "x = Inr True \<Longrightarrow> u = PInt n" using renewed(1) by auto
      ultimately show ?thesis using n by auto
    next
      case refused
      have mono: "charged L p ?q \<le> charged L' p ?q" for p by (rule charged_within_mono [OF refused(3)])
      have "charged (stored w') = charged (stored w) \<or> charged (stored w') = charged L'"
        using refused(4) ack unfolding ack_store_def by metis
      then have st: "charged (stored w) p ?q \<le> charged (stored w') p ?q \<and> charged (stored w') p ?q \<le> charged L' p ?q" for p
        using below [of p] mono [of p] by auto
      have "unused p d' = unused p d" for p using refused(2) by auto
      with st refused(1) dok' show ?thesis by (simp add: s s' acked_ok_def acked_spent_def)
    qed
  qed
  have cap: "acked_spent stored mb p s \<le> mb_limit mb" if ok: "acked_ok stored mb s" for p s
  proof -
    obtain d L w where s: "s = (d, L, w)" by (cases s)
    with ok have "grant_fine d" "charged L p (mb_provider mb) \<le> mb_limit mb"
      "charged (stored w) p (mb_provider mb) \<le> charged L p (mb_provider mb)"
      by (auto simp: acked_ok_def durable_ok_def monthly_ok_def)
    with unused_nonneg [of d p] show ?thesis by (simp add: s acked_spent_def)
  qed
  show ?thesis
  proof (unfold_locales, goal_cases)
    case 1 then show ?case using law by blast
  next
    case 2 then show ?case using law by blast
  next
    case 3 then show ?case using law by blast
  next
    case 4 then show ?case by (rule cap)
  qed
qed

text \<open>
  C19: Write-ahead.  Every unit a durable budget lets a request spend is covered by a charge the store
  acknowledged: a run that dies at any moment has spent no more than the store's ledger shows.
\<close>

theorem durable_write_ahead:
  assumes "durable_budget mb chunk role = Inr d" and "monthly_ok mb L" and "ack_store commit stored"
    and "\<forall>q. charged (stored w) q (mb_provider mb) \<le> charged L q (mb_provider mb)"
    and "accepted_units (durable_on commit) 5 p qs (d, L, w) = (k, (d', L', w'))"
  shows "charged (stored w) p (mb_provider mb) + k \<le> charged (stored w') p (mb_provider mb)"
proof -
  note fresh = durable_budget_fresh [OF assms(1)]
  have ok: "acked_ok stored mb (d, L, w)"
    using fresh(1,2) assms(2,4) by (simp add: acked_ok_def durable_ok_def)
  from reservation.accepted_le_spent [OF acked_reservation [OF assms(3)] ok assms(5)]
  have "acked_ok stored mb (d', L', w')"
    "acked_spent stored mb p (d, L, w) + k \<le> acked_spent stored mb p (d', L', w')" by simp_all
  moreover from this(1) have "0 \<le> unused p d'"
    by (auto simp: acked_ok_def durable_ok_def intro: unused_nonneg)
  ultimately show ?thesis by (simp add: acked_spent_def fresh(3))
qed

text \<open>
  A commit that was not acknowledged ends the run's spending: no later reservation is accepted,
  the ledger keeps its charge and the store is not called again.
\<close>

theorem durable_fails_closed:
  assumes "d_failed d" and "durable_reserve commit r u d L w = (x, d', L', w')"
  shows "x \<noteq> Inr True \<and> d' = d \<and> L' = L \<and> w' = w"
  using assms by (auto simp: durable_reserve_def split: sum.splits)

section \<open>All spenders of one ledger\<close>

record account =
  ac_ledger :: ledger
  ac_grants :: "grant list"
  ac_direct :: "string \<Rightarrow> string \<Rightarrow> int" \<comment> \<open>units accepted by direct clients, per period and provider\<close>

definition budget_of :: "(string \<Rightarrow> int) \<Rightarrow> string \<Rightarrow> mbudget" where
  "budget_of limit q = \<lparr>mb_provider = q, mb_limit = limit q\<rparr>"

inductive spend_step :: "(string \<Rightarrow> int) \<Rightarrow> account \<Rightarrow> account \<Rightarrow> bool" for limit where
  direct: "monthly_reserve (budget_of limit q) r (PInt n) (ac_ledger s) = (x, L') \<Longrightarrow>
     spend_step limit s (s\<lparr>ac_ledger := L',
       ac_direct := (if x = Inr True then charge_at (utc_period (r 0)) q n (ac_direct s) else ac_direct s)\<rparr>)"
| issue: "allocate_run_budget (budget_of limit q) r u role (ac_ledger s) = (Inr payload, L') \<Longrightarrow>
     preallocated payload = Inr g \<Longrightarrow>
     spend_step limit s (s\<lparr>ac_ledger := L', ac_grants := ac_grants s @ [g]\<rparr>)"
| lost: "allocate_run_budget (budget_of limit q) r u role (ac_ledger s) = (x, L') \<Longrightarrow>
     spend_step limit s (s\<lparr>ac_ledger := L'\<rparr>)"
| worker: "i < length (ac_grants s) \<Longrightarrow> grant_reserve r u (ac_grants s ! i) = (x, g) \<Longrightarrow>
     spend_step limit s (s\<lparr>ac_grants := (ac_grants s)[i := g]\<rparr>)"

inductive_cases spend_stepE: "spend_step limit s s'"

definition granted :: "(grant \<Rightarrow> int) \<Rightarrow> string \<Rightarrow> string \<Rightarrow> grant list \<Rightarrow> int" where
  "granted f p q gs = sum_list (map (\<lambda>g. if g_period g = PStr p \<and> g_provider g = q then f g else 0) gs)"

lemma granted_append [simp]: "granted f p q (gs @ hs) = granted f p q gs + granted f p q hs"
  by (simp add: granted_def)

lemma granted_le: "(\<And>g. g \<in> set gs \<Longrightarrow> f g \<le> h g) \<Longrightarrow> granted f p q gs \<le> granted h p q gs"
  by (induction gs) (auto simp: granted_def intro!: add_mono)

text \<open>Units spent in a period: by direct clients, and out of every grant.\<close>

definition spent_units :: "account \<Rightarrow> string \<Rightarrow> string \<Rightarrow> int" where
  "spent_units s p q = ac_direct s p q + granted g_used p q (ac_grants s)"

definition account_ok :: "(string \<Rightarrow> int) \<Rightarrow> ledger \<Rightarrow> account \<Rightarrow> bool" where
  "account_ok limit L0 s \<longleftrightarrow>
     (\<forall>g \<in> set (ac_grants s). grant_ok g) \<and>
     (\<forall>p q. charged L0 p q + ac_direct s p q + granted g_limit p q (ac_grants s) \<le> charged (ac_ledger s) p q) \<and>
     (\<forall>p q. charged (ac_ledger s) p q \<le> limit q)"

lemma granted_update:
  assumes "i < length gs" "g_period g = g_period (gs ! i)" "g_provider g = g_provider (gs ! i)" "f g = f (gs ! i)"
  shows "granted f p q (gs[i := g]) = granted f p q gs"
proof -
  have "map (\<lambda>g. if g_period g = PStr p \<and> g_provider g = q then f g else 0) (gs[i := g]) =
        map (\<lambda>g. if g_period g = PStr p \<and> g_provider g = q then f g else 0) gs"
    using assms by (auto simp: map_update list_update_same_conv)
  then show ?thesis by (simp only: granted_def)
qed

lemma spend_step_ok:
  assumes "spend_step limit s s'" and ok: "account_ok limit L0 s"
  shows "account_ok limit L0 s'"
  using assms(1)
proof (cases rule: spend_step.cases)
  case (direct q r n x L')
  from direct(2) show ?thesis
    by (cases rule: monthly_reserve_cases)
      (use ok direct(1) in \<open>auto simp: account_ok_def budget_of_def charge_at_def algebra_simps\<close>)
next
  case (issue q r u role payload L' g)
  from issue(2) show ?thesis
  proof (cases rule: allocate_run_budget_cases)
    case (granted n)
    from issue(3) granted(3) have g: "g_provider g = q" "g_period g = PStr (utc_period (r 0))" "g_limit g = n" "grant_ok g"
      by (auto simp: preallocated_grant_payload budget_of_def grant_ok_def)
    have one: "Rpc_Account.granted g_limit p q' [g] = (if p = utc_period (r 0) \<and> q' = q then n else 0)" for p q'
      using g by (auto simp: granted_def)
    show ?thesis
      unfolding account_ok_def issue(1)
      using ok granted(4,5) g(4) by (auto simp: account_ok_def budget_of_def charge_at_def one add.assoc)
  next
    case raised
    then show ?thesis by simp
  next
    case refused
    with issue(3) show ?thesis by (auto simp: preallocated_def dget_def)
  qed
next
  case (lost q r u role x L')
  from lost(2) show ?thesis
    by (cases rule: allocate_run_budget_cases)
      (use ok lost(1) in \<open>auto simp: account_ok_def budget_of_def charge_at_def algebra_simps intro: add_increasing\<close>)
next
  case (worker i r u x g)
  from worker(3) show ?thesis
  proof (cases rule: grant_reserve_cases)
    case (accepted n)
    have "granted g_limit p q ((ac_grants s)[i := g]) = granted g_limit p q (ac_grants s)" for p q
      by (rule granted_update) (use worker accepted in auto)
    moreover have "grant_ok g"
      using ok worker(2) accepted by (auto simp: account_ok_def grant_ok_def)
    ultimately show ?thesis
      unfolding account_ok_def worker(1)
      using ok set_update_subset_insert [of "ac_grants s" i g] by (auto simp: account_ok_def)
  next
    case refused
    with ok worker show ?thesis by simp
  qed
qed

lemma spend_reachable_ok:
  assumes "(spend_step limit)\<^sup>*\<^sup>* s s'" and "account_ok limit L0 s"
  shows "account_ok limit L0 s'"
  using assms by (induction rule: rtranclp_induct) (auto intro: spend_step_ok)

definition fresh_account :: "ledger \<Rightarrow> account" where
  "fresh_account L = \<lparr>ac_ledger = L, ac_grants = [], ac_direct = (\<lambda>p q. 0)\<rparr>"


section \<open>A worked account\<close>

text \<open>On 2026-10-04 a run with a chunk of 250 Helius credits makes two requests of 100 and 10.\<close>

definition demo_now :: pydt where
  "demo_now = \<lparr>dt_ord = ymd2ord 2026 10 4, dt_us = 0, dt_tz = Some 0\<rparr>"

definition demo_mb :: mbudget where
  "demo_mb = \<lparr>mb_provider = ''helius'', mb_limit = 900000\<rparr>"

definition demo_durable :: durable where
  "demo_durable = \<lparr>d_account = demo_mb, d_chunk = 250, d_role = PStr ''solana'', d_grant = None,
     d_used = 0, d_attempts = 0, d_failed = False\<rparr>"

definition demo_commit :: "ledger committer" where
  "demo_commit L w = (Inr (PBool True), L)"

definition demo_requests :: "(clock \<times> pyval) list" where
  "demo_requests = [(\<lambda>_. demo_now, PInt 100), (\<lambda>_. demo_now, PInt 10)]"

definition demo_run :: "int \<times> durable \<times> ledger \<times> ledger" where
  "demo_run = accepted_units (durable_on demo_commit) 5 ''2026-10'' demo_requests (demo_durable, [], [])"

lemma demo_run_result:
  obtains d' L' where
    "accepted_units (durable_on demo_commit) 5 ''2026-10'' demo_requests (demo_durable, [], []) = (110, (d', L', L'))"
proof -
  have "fst demo_run = 110 \<and> fst (snd (snd demo_run)) = snd (snd (snd demo_run))" by code_simp
  with that show thesis unfolding demo_run_def by (metis prod.collapse)
qed

lemma demo_durable_new: "durable_budget demo_mb (PInt 250) (PStr ''solana'') = Inr demo_durable"
  by (simp add: durable_budget_def demo_durable_def)

lemma demo_monthly_ok: "monthly_ok demo_mb []"
  by (simp add: monthly_ok_def charged_def entry_at_def demo_mb_def)

lemma demo_ack: "ack_store demo_commit id"
  by (simp add: ack_store_def demo_commit_def)

theorem durable_run_bounded_witness:
  "(110::int) \<le> mb_limit demo_mb - charged [] ''2026-10'' (mb_provider demo_mb)"
  by (rule demo_run_result) (rule durable_run_bounded [OF demo_durable_new demo_monthly_ok])

theorem durable_write_ahead_witness:
  "\<exists>d' L'. accepted_units (durable_on demo_commit) 5 ''2026-10'' demo_requests (demo_durable, [], []) = (110, (d', L', L')) \<and>
     charged [] ''2026-10'' ''helius'' + 110 \<le> charged L' ''2026-10'' ''helius''"
proof (rule demo_run_result)
  fix d' L'
  assume run: "accepted_units (durable_on demo_commit) 5 ''2026-10'' demo_requests (demo_durable, [], []) = (110, (d', L', L'))"
  have "\<forall>q. charged (id []) q (mb_provider demo_mb) \<le> charged [] q (mb_provider demo_mb)" by simp
  from durable_write_ahead [OF demo_durable_new demo_monthly_ok demo_ack this run] run
  show ?thesis by (auto simp: demo_mb_def)
qed

theorem durable_fails_closed_witness:
  "durable_reserve demo_commit (\<lambda>_. demo_now) (PInt 1) (demo_durable\<lparr>d_failed := True\<rparr>) [] [] =
     (Inr False, demo_durable\<lparr>d_failed := True\<rparr>, [], []) \<and> (Inr False :: bool res) \<noteq> Inr True"
proof -
  have run: "durable_reserve demo_commit (\<lambda>_. demo_now) (PInt 1) (demo_durable\<lparr>d_failed := True\<rparr>) [] [] =
     (Inr False, demo_durable\<lparr>d_failed := True\<rparr>, [], [])" by (simp add: durable_reserve_def)
  from durable_fails_closed [OF _ run] run show ?thesis by simp
qed


end
