(* ===== verification/Position_Truth.thy ===== *)
theory Position_Truth
  imports Position_Bounds
begin

text \<open>
  The meaning of a guaranteed amount.  Tokens are fungible: a transfer out of a mixed balance moves
  some number of original tokens that no ledger shows.  The abstract specification is a ledger that
  does know it (\<open>truth\<close>), with every choice allowed; the replay refines it when its guaranteed amounts
  are lower bounds for every choice.
\<close>

record truth =
  tr_balance :: "string \<Rightarrow> int"
  tr_original :: "string \<Rightarrow> int"   \<comment> \<open>tokens of the frozen position in the account\<close>
  tr_sold :: int                   \<comment> \<open>tokens of the frozen position sold by verified sales\<close>

text \<open>One transfer that moves \<open>x\<close> original tokens among its amount.\<close>

definition moves :: "truth \<Rightarrow> leg \<Rightarrow> int \<Rightarrow> truth \<Rightarrow> bool" where
  "moves t l x t' \<longleftrightarrow>
     0 \<le> x \<and> x \<le> lg_amount l \<and> x \<le> tr_original t (lg_src l) \<and>
     lg_amount l - x \<le> tr_balance t (lg_src l) - tr_original t (lg_src l) \<and> lg_src l \<noteq> lg_dst l \<and>
     t' = \<lparr>tr_balance = (tr_balance t)(lg_src l := tr_balance t (lg_src l) - lg_amount l,
                                       lg_dst l := tr_balance t (lg_dst l) + lg_amount l),
           tr_original = (tr_original t)(lg_src l := tr_original t (lg_src l) - x,
                                         lg_dst l := tr_original t (lg_dst l) + x),
           tr_sold = tr_sold t + (if lg_sale l then x else 0)\<rparr>"

text \<open>The abstraction relation: while nothing is missing, balances are exact.\<close>

definition tracks :: "replay \<Rightarrow> truth \<Rightarrow> bool" where
  "tracks s t \<longleftrightarrow>
     (\<forall>a n. map_of (rp_nodes s) a = Some n \<longrightarrow>
        n_lower n \<le> tr_original t a \<and> (rp_complete s \<longrightarrow> n_balance n = tr_balance t a)) \<and>
     rp_sold_lower s \<le> tr_sold t \<and> (\<forall>a. 0 \<le> tr_original t a)"

text \<open>
  What the replay takes for granted at a transfer: owners as recorded, the pre-balance of a new
  account is its balance now, a sale or a service goes to an account that is not tracked.
\<close>

definition leg_current :: "replay_options \<Rightarrow> batch \<Rightarrow> replay \<Rightarrow> truth \<Rightarrow> leg \<Rightarrow> bool" where
  "leg_current opt b s t l \<longleftrightarrow>
     (\<forall>n. map_of (rp_nodes s) (lg_src l) = Some n \<longrightarrow> n_owner n = lg_src_owner l) \<and>
     (\<forall>n. map_of (rp_nodes s) (lg_dst l) = Some n \<longrightarrow> n_owner n = lg_dst_owner l \<and> \<not> lg_sale l \<and> \<not> service_leg opt l) \<and>
     (map_of (rp_nodes s) (lg_dst l) = None \<longrightarrow>
        (\<forall>row. map_of (b_accounts b) (lg_dst l) = Some row \<longrightarrow> ar_before row = Some (tr_balance t (lg_dst l)))) \<and>
     (\<forall>a row. map_of (b_accounts b) a = Some row \<longrightarrow> ar_complete row)"

lemma moves_nonneg: "moves t l x t' \<Longrightarrow> \<forall>a. 0 \<le> tr_original t a \<Longrightarrow> \<forall>a. 0 \<le> tr_original t' a"
  by (auto simp: moves_def)

text \<open>What an incomplete replay says holds of every truth.\<close>

lemma tracks_incomplete:
  assumes "replay_ok pos s" "\<not> rp_complete s" "rp_sold_lower s \<le> tr_sold t" "\<forall>a. 0 \<le> tr_original t a"
  shows "tracks s t"
  using assms replay_okD(2) [OF assms(1)] by (auto simp: tracks_def)

lemma place_leg_sold:
  assumes "place_leg opt l drow slot valid sender lower upper s = Inr s'"
  shows "rp_sold_lower s' = rp_sold_lower s + (if lg_sale l \<and> valid then lower else 0)"
proof -
  have r: "rp_sold_lower (receive_leg l v lo up sl t) = rp_sold_lower t" for v lo up sl t
    by (simp add: receive_leg_def split: option.splits)
  have d: "discover_leg opt l drow sl x t = Inr t' \<Longrightarrow> rp_sold_lower t' = rp_sold_lower t" for sl x t t'
    by (auto simp: discover_leg_def bindR_eq_Inr split: if_splits)
  show ?thesis
    using assms by (auto simp: place_leg_def bindR_eq_Inr sell_leg_def r dest!: d split: if_splits)
qed

lemma send_leg_sold: "send_leg l valid slot s = (s', lower, upper) \<Longrightarrow> rp_sold_lower s' = rp_sold_lower s"
  by (auto simp: send_leg_def split: option.splits if_splits)

lemma note_edge_sold [simp]: "rp_sold_lower (note_edge b e s) = rp_sold_lower s"
  "rp_complete (note_edge b e s) = rp_complete s" "rp_nodes (note_edge b e s) = rp_nodes s"
  by (simp_all add: note_edge_def)

definition exact_nodes :: "nodes \<Rightarrow> (string \<Rightarrow> int) \<Rightarrow> (string \<Rightarrow> int) \<Rightarrow> bool" where
  "exact_nodes ns orig bal \<longleftrightarrow> (\<forall>a n. map_of ns a = Some n \<longrightarrow> n_lower n \<le> orig a \<and> n_balance n = bal a)"

lemma exact_nodesD: "exact_nodes ns orig bal \<Longrightarrow> map_of ns a = Some n \<Longrightarrow> n_lower n \<le> orig a \<and> n_balance n = bal a"
  by (simp add: exact_nodes_def)

lemma exact_nodes_update:
  assumes "exact_nodes ns orig bal" "n_lower n \<le> orig' a" "n_balance n = bal' a"
    and "\<And>c. c \<noteq> a \<Longrightarrow> orig c \<le> orig' c \<and> bal' c = bal c"
  shows "exact_nodes (AList.update a n ns) orig' bal'"
  unfolding exact_nodes_def
proof (intro allI impI)
  fix c m
  assume "map_of (AList.update a n ns) c = Some m"
  then show "n_lower m \<le> orig' c \<and> n_balance m = bal' c"
    using assms(2,3) assms(4) [of c] exact_nodesD [OF assms(1), of c m] by (auto split: if_splits)
qed

lemma exact_nodes_untracked:
  assumes "exact_nodes ns orig bal" "map_of ns a = None" and "\<And>c. c \<noteq> a \<Longrightarrow> orig c \<le> orig' c \<and> bal' c = bal c"
  shows "exact_nodes ns orig' bal'"
  unfolding exact_nodes_def
proof (intro allI impI)
  fix c m
  assume m: "map_of ns c = Some m"
  with assms(2) have "c \<noteq> a" by auto
  with exact_nodesD [OF assms(1) m] assms(3) [of c] show "n_lower m \<le> orig' c \<and> n_balance m = bal' c" by auto
qed

text \<open>The truth after the debit, before the credit.\<close>

definition debited :: "truth \<Rightarrow> leg \<Rightarrow> int \<Rightarrow> truth" where
  "debited t l x = t\<lparr>tr_balance := (tr_balance t)(lg_src l := tr_balance t (lg_src l) - lg_amount l),
     tr_original := (tr_original t)(lg_src l := tr_original t (lg_src l) - x)\<rparr>"

lemma moves_credit:
  assumes "moves t l x t'"
  shows "tr_original t' = (tr_original (debited t l x))(lg_dst l := tr_original t (lg_dst l) + x)"
    "tr_balance t' = (tr_balance (debited t l x))(lg_dst l := tr_balance t (lg_dst l) + lg_amount l)"
    "tr_original (debited t l x) (lg_dst l) = tr_original t (lg_dst l)"
    "tr_balance (debited t l x) (lg_dst l) = tr_balance t (lg_dst l)" "0 \<le> x"
  using assms by (auto simp: moves_def debited_def)

text \<open>A complete replay: the sender's part moved is at least the guaranteed part.\<close>

lemma send_leg_tracks:
  assumes ok: "replay_ok pos s" and tr: "exact_nodes (rp_nodes s) (tr_original t) (tr_balance t)"
    and own: "\<And>n. map_of (rp_nodes s) (lg_src l) = Some n \<Longrightarrow> n_owner n = lg_src_owner l" and mv: "moves t l x t'"
    and run: "send_leg l True slot s = (s1, lower, upper)"
  shows "lower \<le> x \<and> rp_complete s1 = rp_complete s \<and> map_of (rp_nodes s1) (lg_dst l) = map_of (rp_nodes s) (lg_dst l) \<and>
    exact_nodes (rp_nodes s1) (tr_original (debited t l x)) (tr_balance (debited t l x))"
proof (cases "map_of (rp_nodes s) (lg_src l)")
  case None
  with run have "s1 = s" "lower = 0" by (auto simp: send_leg_def)
  moreover have "exact_nodes (rp_nodes s) (tr_original (debited t l x)) (tr_balance (debited t l x))"
    by (rule exact_nodes_untracked [OF tr None]) (auto simp: debited_def)
  ultimately show ?thesis using moves_credit(5) [OF mv] by simp
next
  case (Some n)
  have n: "node_ok n" by (rule replay_okD(1) [OF ok Some])
  note b = exact_nodesD [OF tr Some]
  have le: "\<not> lg_amount l > n_balance n" using mv b by (auto simp: moves_def)
  with run Some own have out: "s1 = set_node (lg_src l) (debit (lg_amount l) slot n) s" "lower = guaranteed (lg_amount l) n"
    by (auto simp: send_leg_def)
  have x: "lower \<le> x" "max 0 (n_lower n - lg_amount l) \<le> tr_original t (lg_src l) - x"
    using mv b n by (auto simp: out(2) guaranteed_def moves_def)
  have "exact_nodes (rp_nodes s1) (tr_original (debited t l x)) (tr_balance (debited t l x))"
    unfolding out(1) set_node_simps
    by (rule exact_nodes_update [OF tr]) (use x b in \<open>auto simp: debit_def debited_def\<close>)
  moreover have "lg_src l \<noteq> lg_dst l" using mv by (simp add: moves_def)
  ultimately show ?thesis using x by (simp add: out(1))
qed

lemma place_leg_tracks:
  assumes run: "place_leg opt l drow slot True sender lower upper s1 = Inr s2"
    and mv: "moves t l x t'" and x: "lower \<le> x"
    and nodes: "exact_nodes (rp_nodes s1) (tr_original (debited t l x)) (tr_balance (debited t l x))"
    and own: "\<forall>n. map_of (rp_nodes s1) (lg_dst l) = Some n \<longrightarrow> n_owner n = lg_dst_owner l \<and> \<not> lg_sale l \<and> \<not> service_leg opt l"
    and before: "map_of (rp_nodes s1) (lg_dst l) = None \<longrightarrow> ar_before drow = Some (tr_balance t (lg_dst l))"
    and pos: "0 \<le> tr_original t (lg_dst l)"
  shows "exact_nodes (rp_nodes s2) (tr_original t') (tr_balance t')"
proof -
  let ?o = "tr_original (debited t l x)" let ?b = "tr_balance (debited t l x)"
  note cr = moves_credit [OF mv]
  have other: "?o c \<le> tr_original t' c \<and> tr_balance t' c = ?b c" if "c \<noteq> lg_dst l" for c
    using that by (simp add: cr)
  show ?thesis
  proof (cases "lg_sale l \<or> service_leg opt l")
    case True
    with run have s2: "rp_nodes s2 = rp_nodes s1" by (auto simp: place_leg_def sell_leg_def split: if_splits)
    have none: "map_of (rp_nodes s1) (lg_dst l) = None" using own True by (cases "map_of (rp_nodes s1) (lg_dst l)") auto
    show ?thesis unfolding s2 by (rule exact_nodes_untracked [OF nodes none]) (rule other)
  next
    case False
    let ?find = "map_of (rp_nodes s1) (lg_dst l) = None \<and> sender \<noteq> None \<and> upper \<noteq> 0"
    let ?new = "\<lparr>n_owner = lg_dst_owner l, n_balance = tr_balance t (lg_dst l), n_lower = 0, n_upper = 0,
      n_depth = n_depth (the sender) + 1, n_slot = slot\<rparr>"
    from False run obtain s3 where
      3: "(if ?find then discover_leg opt l drow slot (the sender) s1 else Inr s1) = Inr s3"
      and s2: "s2 = receive_leg l True lower upper slot s3"
      by (auto simp: place_leg_def bindR_eq_Inr)
    have "rp_nodes s3 = rp_nodes s1 \<or> ?find \<and> rp_nodes s3 = AList.update (lg_dst l) ?new (rp_nodes s1)"
    proof (cases ?find)
      case True
      with 3 before show ?thesis
        by (auto simp: discover_leg_def raw_opt_def raw_int_def split: if_splits)
    next
      case False
      with 3 have "s3 = s1" by (simp only: if_False sum.inject)
      then show ?thesis by simp
    qed
    moreover have "exact_nodes (AList.update (lg_dst l) ?new (rp_nodes s1)) ?o ?b"
      by (rule exact_nodes_update [OF nodes]) (use pos cr in auto)
    ultimately have n3: "exact_nodes (rp_nodes s3) ?o ?b"
      and own3: "map_of (rp_nodes s3) (lg_dst l) = Some n \<Longrightarrow> n_owner n = lg_dst_owner l" for n
      using nodes own by (auto split: if_splits)
    show ?thesis
    proof (cases "map_of (rp_nodes s3) (lg_dst l)")
      case None
      with s2 have "rp_nodes s2 = rp_nodes s3" by (simp add: receive_leg_def)
      then show ?thesis using exact_nodes_untracked [OF n3 None] other by simp
    next
      case (Some m)
      note m = exact_nodesD [OF n3 Some]
      have out: "rp_nodes s2 = AList.update (lg_dst l) (m\<lparr>n_balance := n_balance m + lg_amount l, n_lower := n_lower m + lower,
          n_upper := n_upper m + upper, n_slot := slot\<rparr>) (rp_nodes s3)"
        using s2 Some own3 [OF Some] by (simp add: receive_leg_def)
      show ?thesis unfolding out
        by (rule exact_nodes_update [OF n3]) (use m x cr other in auto)
    qed
  qed
qed

lemma replay_leg_tracks:
  assumes ok: "replay_ok pos s" and tr: "tracks s t" and cur: "leg_current opt b s t l"
    and mv: "moves t l x t'" and run: "replay_leg opt b slot s l = Inr s'" and amount: "lg_amount l \<noteq> 0"
  shows "tracks s' t'"
  using run
proof (cases rule: replay_leg_cases)
  case idle
  with mv amount show ?thesis by (simp add: moves_def)
next
  case (moved srow drow valid s1 lower upper s2 e)
  have v: "valid" using cur moved(1-3) by (auto simp: leg_current_def)
  have am: "0 \<le> lg_amount l" using moved(4) by simp
  note ok' = replay_leg_ok [OF ok run]
  note send = send_leg_ok [OF ok moved(6) am]
  have pos: "\<forall>a. 0 \<le> tr_original t a" using tr by (simp add: tracks_def)
  note pos' = moves_nonneg [OF mv pos]
  have sold: "rp_sold_lower s' = rp_sold_lower s + (if lg_sale l then lower else 0)"
    using place_leg_sold [OF moved(7)] send_leg_sold [OF moved(6)] moved(8) v by simp
  have ts: "tr_sold t' = tr_sold t + (if lg_sale l then x else 0)" using mv by (simp add: moves_def)
  have x0: "0 \<le> x" using mv by (simp add: moves_def)
  show ?thesis
  proof (cases "rp_complete s")
    case False
    have "lower = 0" using send(1) send_leg_complete [OF moved(6)] False by (auto simp: pending_ok_def)
    with sold ts tr x0 have "rp_sold_lower s' \<le> tr_sold t'" by (auto simp: tracks_def)
    moreover have "\<not> rp_complete s'" using replay_leg_complete [OF run] False by blast
    ultimately show ?thesis using tracks_incomplete [OF ok'] pos' by blast
  next
    case True
    have ex: "exact_nodes (rp_nodes s) (tr_original t) (tr_balance t)"
      using tr True by (simp add: tracks_def exact_nodes_def)
    have own: "map_of (rp_nodes s) (lg_src l) = Some n \<Longrightarrow> n_owner n = lg_src_owner l" for n
      using cur by (simp add: leg_current_def)
    have run1: "send_leg l True slot s = (s1, lower, upper)" using moved(6) v by simp
    from send_leg_tracks [OF ok ex own mv run1] True
    have s: "lower \<le> x" "rp_complete s1" "map_of (rp_nodes s1) (lg_dst l) = map_of (rp_nodes s) (lg_dst l)"
      "exact_nodes (rp_nodes s1) (tr_original (debited t l x)) (tr_balance (debited t l x))" by auto
    have run2: "place_leg opt l drow slot True (map_of (rp_nodes s) (lg_src l)) lower upper s1 = Inr s2"
      using moved(7) v by simp
    have "exact_nodes (rp_nodes s2) (tr_original t') (tr_balance t')"
      by (rule place_leg_tracks [OF run2 mv s(1,4)])
        (use moved(2) s(3) cur pos in \<open>auto simp: leg_current_def\<close>)
    moreover have "rp_sold_lower s' \<le> tr_sold t'" using sold ts s(1) tr by (auto simp: tracks_def)
    ultimately show ?thesis using moved(8) pos' by (auto simp: tracks_def exact_nodes_def)
  qed
qed

text \<open>A run of transfers, each with the number of original tokens it happened to move.\<close>

inductive true_run :: "replay_options \<Rightarrow> batch \<Rightarrow> int \<Rightarrow> replay \<Rightarrow> truth \<Rightarrow> leg list \<Rightarrow> replay \<Rightarrow> truth \<Rightarrow> bool"
  for opt b slot where
  stop: "true_run opt b slot s t [] s t"
| leg: "leg_current opt b s t l \<Longrightarrow> moves t l x t1 \<Longrightarrow> lg_amount l \<noteq> 0 \<Longrightarrow> replay_leg opt b slot s l = Inr s1 \<Longrightarrow>
    true_run opt b slot s1 t1 ls s' t' \<Longrightarrow> true_run opt b slot s t (l # ls) s' t'"


section \<open>A worked run, and the limit of the guarantee\<close>

definition demo_replay :: replay where
  "demo_replay = \<lparr>rp_nodes = [(''A'', \<lparr>n_owner = Some ''O'', n_balance = 100, n_lower = 100, n_upper = 100, n_depth = 0, n_slot = 5\<rparr>)],
     rp_complete = True, rp_issues = [], rp_sold_lower = 0, rp_sold_upper = 0, rp_sale = 0, rp_edges = []\<rparr>"

definition demo_truth :: truth where
  "demo_truth = \<lparr>tr_balance = (\<lambda>a. if a = ''A'' then 100 else if a = ''V'' then 500 else 0),
     tr_original = (\<lambda>a. if a = ''A'' then 100 else 0), tr_sold = 0\<rparr>"

definition demo_truth_after :: truth where
  "demo_truth_after = \<lparr>tr_balance = (tr_balance demo_truth)(''A'' := 60, ''V'' := 540),
     tr_original = (tr_original demo_truth)(''A'' := 60, ''V'' := 40), tr_sold = 40\<rparr>"

definition demo_replay_after :: "replay res" where
  "demo_replay_after = replay_leg demo_replay_options demo_batch 9 demo_replay demo_leg"

lemma demo_rows:
  "list_all (\<lambda>p. ar_complete (snd p)) (b_accounts demo_batch)"
  "map_of (b_accounts demo_batch) ''V'' = Some (demo_row\<lparr>ar_owner := Some ''L'', ar_before := Some 500, ar_after := Some 540\<rparr>)"
  by code_simp+


text \<open>
  The side condition on new accounts is needed.  In one transaction an outsider pays 10 into the
  empty account \<open>B\<close>, the position's account \<open>A\<close> pays 5 into it, and \<open>B\<close> sells 5 to \<open>V\<close>.
\<close>

definition mixed_row :: "string \<Rightarrow> int \<Rightarrow> int \<Rightarrow> account_row" where
  "mixed_row o' before after = \<lparr>ar_owner = Some o', ar_mint = Some ''M'', ar_decimals = Some 6, ar_before = Some before,
     ar_after = Some after, ar_identity = True, ar_complete = True\<rparr>"

definition mixed_leg :: "nat \<Rightarrow> string \<Rightarrow> string \<Rightarrow> string \<Rightarrow> string \<Rightarrow> int \<Rightarrow> bool \<Rightarrow> leg" where
  "mixed_leg i src so dst do' amount sale = \<lparr>lg_outer = i, lg_inner = 0, lg_src = src, lg_dst = dst, lg_src_owner = Some so,
     lg_dst_owner = Some do', lg_mint = ''M'', lg_amount = amount, lg_sale = sale\<rparr>"

definition mixed_legs :: "leg list" where
  "mixed_legs = [mixed_leg 0 ''U'' ''X'' ''B'' ''N'' 10 False, mixed_leg 1 ''A'' ''O'' ''B'' ''N'' 5 False,
                 mixed_leg 2 ''B'' ''N'' ''V'' ''L'' 5 True]"

definition mixed_batch :: batch where
  "mixed_batch = (empty_batch ''M'' PNone)\<lparr>b_signature := Some ''S2'', b_slot := Some 9, b_status := ''parsed'',
     b_accounts := [(''A'', mixed_row ''O'' 100 95), (''B'', mixed_row ''N'' 0 10), (''U'', mixed_row ''X'' 30 20),
                    (''V'', mixed_row ''L'' 500 505)], b_transfers := mixed_legs\<rparr>"

definition mixed_report :: "summary res" where
  "mixed_report = analyze ''M'' [demo_seed] [mixed_batch] 5 10 True [] demo_replay_options"

fun true_moves :: "truth \<Rightarrow> (leg \<times> int) list \<Rightarrow> truth \<Rightarrow> bool" where
  "true_moves t [] t' = (t' = t)"
| "true_moves t ((l, x) # ls) t' = (\<exists>t1. moves t l x t1 \<and> true_moves t1 ls t')"

definition mixed_truth :: "int \<Rightarrow> int \<Rightarrow> int \<Rightarrow> int \<Rightarrow> int \<Rightarrow> truth" where
  "mixed_truth a b u v o' = \<lparr>tr_balance = (\<lambda>x. 0)(''A'' := a, ''B'' := b, ''U'' := u, ''V'' := v),
     tr_original = (\<lambda>x. 0)(''A'' := a, ''B'' := o'), tr_sold = 0\<rparr>"


end
