(* ===== verification/Position_Seeds_Laws.thy ===== *)
theory Position_Seeds_Laws
  imports Position_Seeds "HOL-Library.Multiset"
begin

text \<open>
  What a frozen receipt promises: its seed rows are exact positive deltas of one successful receipt,
  it is the latest nominated one, and \<open>analyze_position\<close> reads the rows back unchanged.
\<close>

section \<open>Rows of a parsed transaction\<close>

definition exact_name :: "string \<Rightarrow> bool" where
  "exact_name s \<longleftrightarrow> address (PStr s) = Some s"

lemma exact_name_address: "address v = Some s \<Longrightarrow> exact_name s"
  by (auto simp: exact_name_def address_Some)

definition row_exact :: "string \<Rightarrow> account_row \<Rightarrow> bool" where
  "row_exact a row \<longleftrightarrow> exact_name a \<and> (\<forall>s. ar_owner row = Some s \<longrightarrow> exact_name s) \<and>
     (\<forall>v. ar_before row = Some v \<longrightarrow> 0 \<le> v) \<and> (\<forall>v. ar_after row = Some v \<longrightarrow> 0 \<le> v)"

definition snap_exact :: "snapshot \<Rightarrow> bool" where
  "snap_exact snap \<longleftrightarrow> (\<forall>(a, x) \<in> set snap. exact_name a \<and>
     (\<forall>ow m d n. x = Some ((ow, m, d), n) \<longrightarrow> exact_name ow \<and> 0 \<le> n))"

lemma snapshot_row_exact:
  assumes "snapshot_row ks row = Some (a, (ow, m, d), n)"
  shows "exact_name a \<and> exact_name ow \<and> 0 \<le> n"
proof -
  from assms obtain account where "address account = Some a" "address (getd row ''owner'') = Some ow"
    "token_amount row ''amount'' = Inr n"
    by (auto simp: snapshot_row_def bindR_eq_Inr split: sum.splits option.splits if_splits)
  moreover from this(3) have "0 \<le> n" by (auto simp: token_amount_def bindR_eq_Inr dest: raw_of_nonneg)
  ultimately show ?thesis using exact_name_address by blast
qed

lemma snap_exact_update:
  assumes "snap_exact snap" "exact_name a"
    and "\<And>ow m d n. x = Some ((ow, m, d), n) \<Longrightarrow> exact_name ow \<and> 0 \<le> n"
  shows "snap_exact (AList.update a x snap)"
  using assms set_update_subset [of a x snap] unfolding snap_exact_def by blast

lemma snapshot_side_exact: "snap_exact (fst (snapshot_side ks field issues))"
  unfolding snapshot_side_def
proof (rule foldl_invariant [where P = "\<lambda>st. snap_exact (fst st)"])
  show "snap_exact (fst ([], add_if (\<not> is_list field) ''missing_token_balances'' issues))" by (simp add: snap_exact_def)
  fix st :: "snapshot \<times> string list" and row
  assume "snap_exact (fst st)"
  then show "snap_exact (fst (snapshot_add ks st row))"
    by (auto simp: snapshot_add_def split: prod.splits option.splits dest!: snapshot_row_exact intro!: snap_exact_update)
qed

lemma snapshot_at_exact:
  assumes "snap_exact snap" "snapshot_at snap a = Some ((ow, m, d), n)"
  shows "exact_name ow \<and> 0 \<le> n"
proof -
  from assms(2) have "(a, Some ((ow, m, d), n)) \<in> set snap"
    by (auto simp: snapshot_at_def bind_eq_Some_conv dest: map_of_SomeD)
  with assms(1) show ?thesis unfolding snap_exact_def by blast
qed

lemma merge_row_exact:
  assumes "snap_exact pre" "snap_exact post" "exact_name a"
  shows "row_exact a (merge_row (snapshot_at pre a) (snapshot_at post a))"
  using assms(3) snapshot_at_exact [OF assms(1)] snapshot_at_exact [OF assms(2)]
  by (auto simp: row_exact_def merge_row_def Let_def split: option.splits)

lemma account_phase_exact:
  assumes "account_phase ks meta = (accounts, issues)" and "(a, row) \<in> set accounts"
  shows "row_exact a row"
proof -
  obtain pre i1 post i2 where s: "snapshot_side ks (getd meta ''preTokenBalances'') [] = (pre, i1)"
    "snapshot_side ks (getd meta ''postTokenBalances'') i1 = (post, i2)" by fastforce
  have e: "snap_exact pre" "snap_exact post" using snapshot_side_exact s by (metis fst_conv)+
  from assms s have "(a, row) \<in> set (merge_accounts pre post)" by (auto simp: account_phase_def Let_def)
  moreover have "exact_name a" if "a \<in> set (map fst pre @ map fst post)"
    using that e unfolding snap_exact_def by (force)
  ultimately show ?thesis using merge_row_exact [OF e] by (auto simp: merge_accounts_def)
qed

definition rows_exact :: "(string \<times> account_row) list \<Rightarrow> bool" where
  "rows_exact accounts \<longleftrightarrow> (\<forall>(a, row) \<in> set accounts. row_exact a row)"

lemma row_exact_complete [simp]: "row_exact a (row\<lparr>ar_complete := c\<rparr>) = row_exact a row"
  by (simp add: row_exact_def)

lemma reconcile_phase_exact:
  assumes "reconcile_phase legs incomplete accounts issues = (final, i)" and "rows_exact accounts"
  shows "rows_exact final"
proof -
  have map_entry: "rows_exact accs \<Longrightarrow> rows_exact (AList.map_entry k (\<lambda>row. row\<lparr>ar_complete := False\<rparr>) accs)" for k accs
    by (induction accs) (auto simp: rows_exact_def)
  have settle: "rows_exact (map (settle_row legs b) accounts)" for b
    using assms(2) by (fastforce simp: rows_exact_def settle_row_def)
  have "rows_exact (fst (snd (foldl run_leg (r, accs, js) legs)))" if "rows_exact accs" for r accs js
    by (rule foldl_invariant [where P = "\<lambda>st. rows_exact (fst (snd st))"])
      (auto simp: that run_leg_def Let_def map_entry split: prod.splits)
  then have "rows_exact accs' " if "foldl run_leg (r, map (settle_row legs b) accounts, js) legs = (r', accs', js')"
    for r b js r' accs' js' using settle that by (metis fst_conv snd_conv)
  with assms(1) show ?thesis
    by (auto simp: reconcile_phase_def Let_def simp del: set_add_if split: prod.splits)
qed

lemma parsed_rows_exact:
  assumes b: "parse_transaction tx mint index witnesses programs lims = b" and mem: "(a, row) \<in> set (b_accounts b)"
  shows "row_exact a row"
  using b
proof (cases rule: parse_transaction_cases)
  case early
  with mem show ?thesis by (simp add: rejected_def)
next
  case (interpreted b0 signature ks outer inner)
  obtain accounts i1 where 1: "account_phase (map key_of ks) (getd tx ''meta'') = (accounts, i1)" by fastforce
  obtain legs inc i2 where 2: "leg_phase accounts (getd tx ''meta'') outer inner i1 = (legs, inc, i2)" by (metis prod_cases3)
  obtain final i3 where 3: "reconcile_phase legs inc accounts i2 = (final, i3)" by fastforce
  have "b_accounts b = final"
    using 1 2 3 interpreted(1) by (simp add: interpret_transaction_def split: prod.splits)
  moreover have "rows_exact accounts" using account_phase_exact [OF 1] by (auto simp: rows_exact_def)
  ultimately show ?thesis using reconcile_phase_exact [OF 3] mem by (auto simp: rows_exact_def)
qed

lemma parsed_accounts_distinct: "distinct (map fst (b_accounts (parse_transaction tx mint index witnesses programs lims)))"
proof (rule parse_transaction_cases [OF refl, of tx mint index witnesses programs lims])
  assume "rejected (parse_transaction tx mint index witnesses programs lims)"
  then show ?thesis by (simp add: rejected_def)
next
  fix b0 signature ks outer inner
  assume interpreted: "parse_transaction tx mint index witnesses programs lims =
    interpret_transaction b0 signature (getd tx ''meta'') ks outer inner witnesses programs"
  obtain accounts i1 where 1: "account_phase (map key_of ks) (getd tx ''meta'') = (accounts, i1)" by fastforce
  obtain legs inc i2 where 2: "leg_phase accounts (getd tx ''meta'') outer inner i1 = (legs, inc, i2)" by (metis prod_cases3)
  obtain final i3 where 3: "reconcile_phase legs inc accounts i2 = (final, i3)" by fastforce
  have entry_names: "map fst (AList.map_entry k f accs) = map fst accs" for k f and accs :: "(string \<times> account_row) list"
    by (induction accs) auto
  have names: "map fst (map (settle_row legs b) accs) = map fst accs" for b accs
    by (induction accs) (auto simp: settle_row_def)
  have "map fst (fst (snd (foldl run_leg (r, accs, js) ls))) = map fst accs" for r accs js ls
    by (rule foldl_invariant [where P = "\<lambda>st. map fst (fst (snd st)) = map fst accs"])
      (auto simp: run_leg_def Let_def entry_names split: prod.splits)
  then have "map fst accs' = map fst accs" if "foldl run_leg (r, accs, js) ls = (r', accs', js')" for r accs js ls r' accs' js'
    using that by (metis fst_conv snd_conv)
  with 3 names have "map fst final = map fst accounts"
    by (auto simp: reconcile_phase_def Let_def simp del: set_add_if split: prod.splits)
  moreover have "b_accounts (parse_transaction tx mint index witnesses programs lims) = final"
    using 1 2 3 by (subst interpreted) (simp add: interpret_transaction_def split: prod.splits)
  ultimately show ?thesis using account_phase_rows(1) [OF 1] by simp
qed

section \<open>The frozen entry\<close>

text \<open>What a frozen entry says of its receipt: the seeds are the owner's positive rows of a parsed batch.\<close>

definition frozen_from :: "freeze_options \<Rightarrow> string \<Rightarrow> string \<Rightarrow> pyval list \<Rightarrow> string \<Rightarrow> candidate \<Rightarrow> receipt_entry \<Rightarrow> bool" where
  "frozen_from opt mint owner txs pool c e \<longleftrightarrow>
     (let b = parse_transaction (ca_tx c) mint PNone [] [] (fo_limits opt); positive = positive_rows owner (mint_rows mint b)
      in receipt_issue opt mint owner pool b = None \<and>
         en_slot e = Some (ca_slot c) \<and> en_signature e = Some (ca_signature c) \<and> en_pool e = Some pool \<and>
         en_bought e = Some (delta_sum positive) \<and>
         en_seeds e = map (frozen_seed_of mint owner c) (sort_key fst positive) \<and>
         \<not> list_ex (slot_rival opt (ca_signature c) (ca_slot c) (map fst positive)) txs)"

lemma freeze_candidate_seeds:
  assumes "freeze_candidate opt mint txs owner c e0 = e" and "en_seeds e0 = []" and "en_seeds e \<noteq> []"
  obtains pool where "buy_pool c = Inr pool" "frozen_from opt mint owner txs pool c e"
proof -
  from assms obtain pool where pool: "buy_pool c = Inr pool"
    by (cases "buy_pool c") (auto simp: freeze_candidate_def Let_def)
  from assms pool have "frozen_from opt mint owner txs pool c e"
    by (auto simp: freeze_candidate_def frozen_from_def Let_def split: option.splits if_splits)
  with pool that show thesis by blast
qed

lemma nominate_candidates:
  assumes "foldl (nominate mint txs swaps owner) (cs0, ps0) sigs = (cs, ps)"
  shows "set cs \<subseteq> set cs0 \<union> {c. ca_tx c \<in> set txs \<and> tx_signature (ca_tx c) = Some (ca_signature c) \<and>
    raw_of (getd (ca_tx c) ''slot'') = Inr (ca_slot c) \<and> getd (getd (ca_tx c) ''meta'') ''err'' = PNone \<and>
    ca_swap c \<in> set swaps \<and> is_buy_of owner (ca_swap c)}"
  using assms
proof (induction sigs arbitrary: cs0 ps0)
  case Nil
  then show ?case by simp
next
  case (Cons sig sigs)
  obtain cs1 ps1 where step: "nominate mint txs swaps owner (cs0, ps0) sig = (cs1, ps1)" by fastforce
  with Cons.prems have rest: "foldl (nominate mint txs swaps owner) (cs1, ps1) sigs = (cs, ps)" by simp
  have "set cs1 \<subseteq> set cs0 \<union> {c. ca_tx c \<in> set txs \<and> tx_signature (ca_tx c) = Some (ca_signature c) \<and>
    raw_of (getd (ca_tx c) ''slot'') = Inr (ca_slot c) \<and> getd (getd (ca_tx c) ''meta'') ''err'' = PNone \<and>
    ca_swap c \<in> set swaps \<and> is_buy_of owner (ca_swap c)}"
    using step
    by (auto simp: nominate_def receipts_of_def swap_rows_def filter_eq_Cons_iff
        split: list.splits if_splits sum.splits)
  with Cons.IH [OF rest] show ?case by blast
qed

lemma freeze_owner_seeds:
  assumes "freeze_owner opt mint txs swaps issues owner = e" and "en_seeds e \<noteq> []"
  obtains cs c pool where "owner \<notin> set (fo_owners opt)"
    "foldl (nominate mint txs swaps owner) ([], add_if (list_ex (unsigned_buy mint owner) swaps)
       ''missing_buy_receipt_signature'' issues) (swap_signatures mint swaps) = (cs, [])"
    "c \<in> set cs" "\<forall>c' \<in> set cs. c' = c \<or> ca_slot c' < ca_slot c" "frozen_from opt mint owner txs pool c e"
proof -
  define e0 where "e0 = empty_entry\<lparr>en_issues := issues\<rparr>"
  have e0: "en_seeds e0 = []" by (simp add: e0_def empty_entry_def)
  obtain cs ps where f: "foldl (nominate mint txs swaps owner) ([], add_if (list_ex (unsigned_buy mint owner) swaps)
       ''missing_buy_receipt_signature'' issues) (swap_signatures mint swaps) = (cs, ps)" by fastforce
  have no: "owner \<notin> set (fo_owners opt)" and ps: "ps = []" and ne: "cs \<noteq> []"
    using assms f e0 by (auto simp: freeze_owner_def Let_def e0_def [symmetric] split: if_splits)
  from assms f e0 obtain c where c: "filter (\<lambda>c. ca_slot c = Max (ca_slot ` set cs)) cs = [c]"
    and e: "freeze_candidate opt mint txs owner c e0 = e"
    by (auto simp: freeze_owner_def Let_def e0_def [symmetric] split: if_splits list.splits)
  from freeze_candidate_seeds [OF e e0 assms(2)] obtain pool where "frozen_from opt mint owner txs pool c e" by blast
  moreover have mem: "x \<in> set cs \<and> ca_slot x = Max (ca_slot ` set cs) \<longleftrightarrow> x = c" for x
  proof -
    have "x \<in> set (filter (\<lambda>c. ca_slot c = Max (ca_slot ` set cs)) cs) \<longleftrightarrow> x = c" by (simp only: c) simp
    then show ?thesis by simp
  qed
  moreover have "x = c \<or> ca_slot x < ca_slot c" if "x \<in> set cs" for x
  proof -
    have "ca_slot x \<le> Max (ca_slot ` set cs)" using that by simp
    moreover have "ca_slot c = Max (ca_slot ` set cs)" using mem [of c] by blast
    moreover have "x = c" if "ca_slot x = Max (ca_slot ` set cs)" using mem [of x] that \<open>x \<in> set cs\<close> by blast
    ultimately show ?thesis by fastforce
  qed
  ultimately show thesis using that [OF no] f ps by blast
qed

lemma freeze_receipt_entry:
  assumes "freeze_receipt_seeds (PStr mint) txs swaps cohort so sa mo mt ms mi ma = Inr cp"
    and "(owner, e) \<in> set (cp_entries cp)" and "en_seeds e \<noteq> []"
  obtains ni na where "exact_name mint" "exact_name owner"
    "freeze_owner \<lparr>fo_owners = so, fo_accounts = sa, fo_limits = \<lparr>pl_instructions = ni, pl_accounts = na\<rparr>\<rparr>
       mint txs swaps [] owner = e"
proof -
  from assms(1) obtain no nt ns ni na owners where
    r: "address (PStr mint) = Some mint" "raw_of mo = Inr no" "raw_of mt = Inr nt" "raw_of ms = Inr ns" "raw_of mi = Inr ni"
      "raw_of ma = Inr na" "read_owners cohort no = Inr owners"
    by (auto simp: freeze_receipt_seeds_def Let_def bindR_eq_Inr split: option.splits if_splits)
  define opt where "opt = \<lparr>fo_owners = so, fo_accounts = sa, fo_limits = \<lparr>pl_instructions = ni, pl_accounts = na\<rparr>\<rparr>"
  define over where "over = (int (length txs) > nt \<or> int (length swaps) > ns)"
  have "cp_entries cp = map (\<lambda>o'. (o', freeze_owner opt mint (if over then [] else txs) (if over then [] else swaps)
           (add_if over ''receipt_observation_limit'' []) o')) owners"
    using assms(1) r by (auto simp: freeze_receipt_seeds_def Let_def opt_def over_def)
  with assms(2) have o: "owner \<in> set owners" and e: "e = freeze_owner opt mint (if over then [] else txs)
      (if over then [] else swaps) (add_if over ''receipt_observation_limit'' []) owner"
    by auto
  have "\<not> over"
  proof
    assume "over"
    then have "en_seeds e = []"
      unfolding e by (simp add: freeze_owner_def Let_def empty_entry_def swap_signatures_def add_if_def insert_new_def)
    with assms(3) show False by simp
  qed
  moreover have "exact_name owner"
  proof -
    from o r(7) obtain v where "address v = Some owner"
      by (auto simp: read_owners_def Let_def image_iff split: if_splits)
        (metis option.exhaust_sel)
    then show ?thesis by (rule exact_name_address)
  qed
  ultimately show thesis using that [of ni na] r(1) e by (simp add: opt_def exact_name_def add_if_def)
qed

lemma freeze_receipt_source:
  assumes "freeze_receipt_seeds (PStr mint) txs swaps cohort so sa mo mt ms mi ma = Inr cp"
    and "(owner, e) \<in> set (cp_entries cp)" and ne: "en_seeds e \<noteq> []"
  obtains opt cs c pool where "fo_owners opt = so" "fo_accounts opt = sa" "exact_name owner" "owner \<notin> set so"
    "foldl (nominate mint txs swaps owner) ([], add_if (list_ex (unsigned_buy mint owner) swaps)
       ''missing_buy_receipt_signature'' []) (swap_signatures mint swaps) = (cs, [])"
    "c \<in> set cs" "\<forall>c' \<in> set cs. c' = c \<or> ca_slot c' < ca_slot c" "frozen_from opt mint owner txs pool c e"
    "ca_tx c \<in> set txs" "tx_signature (ca_tx c) = Some (ca_signature c)" "raw_of (getd (ca_tx c) ''slot'') = Inr (ca_slot c)"
proof -
  obtain ni na where o: "exact_name owner" and fo: "freeze_owner \<lparr>fo_owners = so, fo_accounts = sa,
       fo_limits = \<lparr>pl_instructions = ni, pl_accounts = na\<rparr>\<rparr> mint txs swaps [] owner = e"
    by (rule freeze_receipt_entry [OF assms])
  show thesis
  proof (rule freeze_owner_seeds [OF fo ne])
    fix cs c pool
    let ?opt = "\<lparr>fo_owners = so, fo_accounts = sa, fo_limits = \<lparr>pl_instructions = ni, pl_accounts = na\<rparr>\<rparr>"
    assume no: "owner \<notin> set (fo_owners ?opt)"
      and f: "foldl (nominate mint txs swaps owner) ([], add_if (list_ex (unsigned_buy mint owner) swaps)
         ''missing_buy_receipt_signature'' []) (swap_signatures mint swaps) = (cs, [])"
      and c: "c \<in> set cs" "\<forall>c' \<in> set cs. c' = c \<or> ca_slot c' < ca_slot c"
      and fr: "frozen_from ?opt mint owner txs pool c e"
    from nominate_candidates [OF f] c(1) have "ca_tx c \<in> set txs" "tx_signature (ca_tx c) = Some (ca_signature c)"
      "raw_of (getd (ca_tx c) ''slot'') = Inr (ca_slot c)" by auto
    with no o f c fr show thesis by (intro that [of ?opt cs c pool]) simp_all
  qed
qed

lemma receipt_issue_clean:
  assumes "receipt_issue opt mint owner pool b = None"
  shows "b_status b = ''parsed''" "\<forall>l \<in> set (b_transfers b). lg_src_owner l = Some pool \<and> lg_dst_owner l = Some owner"
    "delta_sum (positive_rows owner (mint_rows mint b)) \<noteq> 0"
    "\<forall>p \<in> set (positive_rows owner (mint_rows mint b)). fst p \<notin> set (fo_accounts opt)"
  using assms by (auto simp: receipt_issue_def Let_def list_ex_iff split: if_splits)

lemma positive_rows_facts:
  assumes b: "parse_transaction tx mint index [] [] lims = b" and st: "b_status b = ''parsed''"
    and mem: "(a, row) \<in> set (positive_rows owner (mint_rows mint b))"
  shows "(a, row) \<in> set (b_accounts b)" "ar_owner row = Some owner" "0 < row_delta row" "exact_name a"
    "\<exists>v. ar_after row = Some v \<and> row_delta row \<le> v"
proof -
  show m: "(a, row) \<in> set (b_accounts b)" and "ar_owner row = Some owner" "0 < row_delta row"
    using mem by (auto simp: positive_rows_def mint_rows_def)
  have mint: "ar_mint row = Some mint" using mem by (auto simp: positive_rows_def mint_rows_def)
  note ex = parsed_rows_exact [OF b m]
  then show "exact_name a" by (simp add: row_exact_def)
  from parsed_batch_reconciles_lemma [OF b st m mint] ex show "\<exists>v. ar_after row = Some v \<and> row_delta row \<le> v"
    by (auto simp: row_exact_def row_delta_def)
qed

lemma frozen_accounts_distinct:
  assumes "frozen_from opt mint owner txs pool c e"
  shows "distinct (map fs_account (en_seeds e))"
proof -
  define pos where "pos = positive_rows owner (mint_rows mint (parse_transaction (ca_tx c) mint PNone [] [] (fo_limits opt)))"
  have "distinct (map fst pos)"
    using parsed_accounts_distinct by (simp add: pos_def positive_rows_def mint_rows_def distinct_map_filter)
  then have "distinct (map fst (sort_key fst pos))" by (metis mset_map mset_eq_imp_distinct_iff mset_sort)
  moreover have "map fs_account (en_seeds e) = map fst (sort_key fst pos)"
    using assms by (simp add: frozen_from_def Let_def pos_def comp_def frozen_seed_of_def split_def)
  ultimately show ?thesis by simp
qed

lemma frozen_bought_sum:
  assumes "frozen_from opt mint owner txs pool c e"
  shows "en_bought e = Some (sum_list (map fs_bought (en_seeds e)))"
proof -
  define pos where "pos = positive_rows owner (mint_rows mint (parse_transaction (ca_tx c) mint PNone [] [] (fo_limits opt)))"
  have "map fs_bought (en_seeds e) = map (\<lambda>p. row_delta (snd p)) (sort_key fst pos)"
    using assms by (simp add: frozen_from_def Let_def pos_def comp_def frozen_seed_of_def split_def)
  then have "mset (map fs_bought (en_seeds e)) = mset (map (\<lambda>p. row_delta (snd p)) pos)"
    by (simp only: mset_map mset_sort)
  then have "sum_list (map fs_bought (en_seeds e)) = delta_sum pos" unfolding delta_sum_def by (metis sum_mset_sum_list)
  then show ?thesis using assms by (simp add: frozen_from_def Let_def pos_def)
qed

text \<open>
  C8: A frozen seed is exact.  Every seed row of an entry is a positive balance change of the owner in
  one parsed receipt among the given transactions, whose every transfer of the mint goes from the
  nominated pool to the owner; the frozen amount is their sum and no balance is counted twice.
\<close>

theorem frozen_receipt_exact:
  assumes run: "freeze_receipt_seeds (PStr mint) txs swaps cohort so sa mo mt ms mi ma = Inr cp"
    and mem: "(owner, e) \<in> set (cp_entries cp)" and ne: "en_seeds e \<noteq> []"
  shows "\<exists>tx \<in> set txs. \<exists>lims b pool. parse_transaction tx mint PNone [] [] lims = b \<and> b_status b = ''parsed'' \<and>
    tx_signature tx = en_signature e \<and> en_pool e = Some pool \<and>
    (\<forall>l \<in> set (b_transfers b). lg_src_owner l = Some pool \<and> lg_dst_owner l = Some owner) \<and>
    (\<forall>s \<in> set (en_seeds e). \<exists>row. (fs_account s, row) \<in> set (b_accounts b) \<and> ar_owner row = Some owner \<and>
        ar_after row = Some (fs_balance s) \<and> fs_bought s = row_delta row \<and> 0 < fs_bought s) \<and>
    en_bought e = Some (sum_list (map fs_bought (en_seeds e))) \<and> distinct (map fs_account (en_seeds e))"
proof (rule freeze_receipt_source [OF run mem ne])
    fix o' :: freeze_options and cs c pool
    assume fr: "frozen_from o' mint owner txs pool c e" and tx: "ca_tx c \<in> set txs" "tx_signature (ca_tx c) = Some (ca_signature c)"
    define b where "b = parse_transaction (ca_tx c) mint PNone [] [] (fo_limits o')"
    define pos where "pos = positive_rows owner (mint_rows mint b)"
    from fr have e: "receipt_issue o' mint owner pool b = None" "en_signature e = Some (ca_signature c)"
      "en_pool e = Some pool" "en_bought e = Some (delta_sum pos)"
      "en_seeds e = map (frozen_seed_of mint owner c) (sort_key fst pos)"
      by (auto simp: frozen_from_def Let_def b_def pos_def)
    note ok = receipt_issue_clean [OF e(1)]
    have seeds: "\<exists>row. (fs_account s, row) \<in> set (b_accounts b) \<and> ar_owner row = Some owner \<and>
        ar_after row = Some (fs_balance s) \<and> fs_bought s = row_delta row \<and> 0 < fs_bought s"
      if s: "s \<in> set (en_seeds e)" for s
    proof -
      from s e(5) obtain a row where "(a, row) \<in> set pos" "s = frozen_seed_of mint owner c (a, row)" by auto
      with positive_rows_facts [OF b_def [symmetric] ok(1), of a row owner] show ?thesis
        by (auto simp: frozen_seed_of_def pos_def)
    qed
    note sums = frozen_bought_sum [OF fr] and names = frozen_accounts_distinct [OF fr]
    show ?thesis
    proof (intro bexI [OF _ tx(1)] exI [of _ "fo_limits o'"] exI [of _ b] exI [of _ pool] conjI ballI)
      show "tx_signature (ca_tx c) = en_signature e" using tx(2) e(2) by simp
      show "en_bought e = Some (sum_list (map fs_bought (en_seeds e)))" by (rule sums)
    qed (use b_def ok e(3) seeds names in simp_all)
qed

section \<open>The frozen seeds as input of the replay\<close>

lemma raw_of_str_of_int: "0 \<le> n \<Longrightarrow> raw_of (PStr (str_of_int n)) = Inr n"
  by (simp add: str_of_int_def)

lemma seed_add_frozen:
  assumes s: "exact_name (fs_account s)" "exact_name (fs_owner s)" "exact_name (fs_signature s)" "0 < fs_bought s"
      "fs_bought s \<le> fs_balance s" "fs_slot s = start" "0 \<le> start" "fs_mint s = mint"
    and free: "fs_account s \<notin> set (map fst (sd_nodes sd))" "fs_account s \<notin> set (ro_accounts opt)"
      "fs_owner s \<notin> set (ro_owners opt)"
  shows "seed_add mint opt start sd (seed_value s) =
    Inr \<lparr>sd_nodes = sd_nodes sd @ [(fs_account s, \<lparr>n_owner = Some (fs_owner s), n_balance = fs_balance s,
           n_lower = fs_bought s, n_upper = fs_bought s, n_depth = 0, n_slot = start\<rparr>)],
         sd_originals = insert_new (Some (fs_owner s)) (sd_originals sd), sd_total = sd_total sd + fs_bought s,
         sd_unverified = True\<rparr>"
proof -
  have "seed_scope (seed_value s) start = Inr True"
    using s by (simp add: seed_scope_def seed_value_def exact_name_def)
  moreover have "raw_of (getd (seed_value s) ''bought_raw'') = Inr (fs_bought s)"
    "raw_of (getd (seed_value s) ''balance_raw'') = Inr (fs_balance s)"
    "raw_default (seed_value s) ''retained_lower_raw'' 0 = Inr (fs_bought s)"
    "raw_default (seed_value s) ''retained_upper_raw'' v = Inr (fs_bought s)" for v
    using s raw_of_str_of_int [of "fs_bought s"] raw_of_str_of_int [of "fs_balance s"]
    by (simp_all add: seed_value_def raw_default_def del: raw_of.simps)
  moreover have "address (getd (seed_value s) ''account'') = Some (fs_account s)"
    "address (getd (seed_value s) ''owner'') = Some (fs_owner s)" "getd (seed_value s) ''mint'' = PStr mint"
    "is_dict (seed_value s)"
    using s by (simp_all add: seed_value_def exact_name_def)
  ultimately show ?thesis using s free by (simp add: seed_add_def min_absorb2)
qed

definition seed_fits :: "string \<Rightarrow> string \<Rightarrow> int \<Rightarrow> replay_options \<Rightarrow> frozen_seed \<Rightarrow> bool" where
  "seed_fits mint owner start opt s \<longleftrightarrow> exact_name (fs_account s) \<and> fs_owner s = owner \<and> exact_name (fs_signature s) \<and>
     0 < fs_bought s \<and> fs_bought s \<le> fs_balance s \<and> fs_slot s = start \<and> fs_mint s = mint \<and>
     fs_account s \<notin> set (ro_accounts opt)"

definition seed_node :: "frozen_seed \<Rightarrow> string \<times> node" where
  "seed_node s = (fs_account s, \<lparr>n_owner = Some (fs_owner s), n_balance = fs_balance s, n_lower = fs_bought s,
     n_upper = fs_bought s, n_depth = 0, n_slot = fs_slot s\<rparr>)"

lemma read_frozen_seeds:
  assumes "\<forall>s \<in> set seeds. seed_fits mint owner start opt s" and "exact_name owner" "owner \<notin> set (ro_owners opt)" "0 \<le> start"
    and "distinct (map fst (sd_nodes sd) @ map fs_account seeds)"
  shows "foldR (seed_add mint opt start) sd (map seed_value seeds) =
    Inr \<lparr>sd_nodes = sd_nodes sd @ map seed_node seeds,
         sd_originals = (if seeds = [] then sd_originals sd else insert_new (Some owner) (sd_originals sd)),
         sd_total = sd_total sd + sum_list (map fs_bought seeds),
         sd_unverified = (sd_unverified sd \<or> seeds \<noteq> [])\<rparr>"
  using assms
proof (induction seeds arbitrary: sd)
  case Nil
  then show ?case by simp
next
  case (Cons s seeds)
  from Cons.prems have s: "seed_fits mint owner start opt s" by simp
  have "fs_account s \<notin> set (map fst (sd_nodes sd))" using Cons.prems(5) by auto
  with s Cons.prems(2,3,4) have step: "seed_add mint opt start sd (seed_value s) =
    Inr \<lparr>sd_nodes = sd_nodes sd @ [seed_node s], sd_originals = insert_new (Some owner) (sd_originals sd),
         sd_total = sd_total sd + fs_bought s, sd_unverified = True\<rparr>"
    by (subst seed_add_frozen) (auto simp: seed_fits_def seed_node_def)
  have again: "insert_new x (insert_new x xs) = insert_new x xs" for x :: "string option" and xs
    by (simp add: insert_new_def)
  show ?case
    unfolding list.map foldR.simps step bindR_simps
    by (subst Cons.IH) (use Cons.prems in \<open>auto simp: seed_node_def again\<close>)
qed

lemma read_frozen_entry:
  assumes fr: "frozen_from opt mint owner txs pool c e" and tx: "tx_signature (ca_tx c) = Some (ca_signature c)"
    "raw_of (getd (ca_tx c) ''slot'') = Inr (ca_slot c)"
    and o: "exact_name owner" "owner \<notin> set (ro_owners ropt)" and r: "ro_accounts ropt = fo_accounts opt"
    and ne: "en_seeds e \<noteq> []"
  shows "read_seeds mint ropt (ca_slot c) (map seed_value (en_seeds e)) =
    Inr \<lparr>sd_nodes = map seed_node (en_seeds e), sd_originals = [Some owner],
         sd_total = sum_list (map fs_bought (en_seeds e)), sd_unverified = True\<rparr>"
proof -
  define b where "b = parse_transaction (ca_tx c) mint PNone [] [] (fo_limits opt)"
  define pos where "pos = positive_rows owner (mint_rows mint b)"
  from fr have e: "receipt_issue opt mint owner pool b = None"
    "en_seeds e = map (frozen_seed_of mint owner c) (sort_key fst pos)"
    by (auto simp: frozen_from_def Let_def b_def pos_def)
  note ok = receipt_issue_clean [OF e(1)]
  from tx(1) have sig: "exact_name (ca_signature c)"
    by (auto simp: tx_signature_def split: pyval.splits list.splits dest: exact_name_address)
  have fits: "seed_fits mint owner (ca_slot c) ropt s" if s: "s \<in> set (en_seeds e)" for s
  proof -
    from s e(2) obtain a row where m: "(a, row) \<in> set pos" "s = frozen_seed_of mint owner c (a, row)" by auto
    have "a \<notin> set (fo_accounts opt)" using ok(4) m(1) by (fastforce simp: pos_def)
    with positive_rows_facts [OF b_def [symmetric] ok(1), of a row owner] m sig r show ?thesis
      by (auto simp: frozen_seed_of_def pos_def seed_fits_def)
  qed
  note dist = frozen_accounts_distinct [OF fr]
  have "0 \<le> ca_slot c" using tx(2) by (rule raw_of_nonneg)
  then show ?thesis
    unfolding read_seeds_def
    by (subst read_frozen_seeds [where owner = owner]) (use fits o dist ne in \<open>auto simp: insert_new_def\<close>)
qed

text \<open>
  C18: Frozen seeds are read back.  The seed rows of an entry, as the dictionaries handed to the replay,
  are accepted at the entry's slot under the same public services: the frozen position is the entry's
  amount, held by the owner alone with both bounds exact, and it starts unverified at its boundary.
\<close>

theorem frozen_seeds_accepted:
  assumes run: "freeze_receipt_seeds (PStr mint) txs swaps cohort so sa mo mt ms mi ma = Inr cp"
    and mem: "(owner, e) \<in> set (cp_entries cp)" and ne: "en_seeds e \<noteq> []"
    and opt: "ro_accounts opt = sa" "ro_owners opt = so"
  shows "\<exists>slot sd. en_slot e = Some slot \<and> read_seeds mint opt slot (map seed_value (en_seeds e)) = Inr sd \<and>
    en_bought e = Some (sd_total sd) \<and> sd_nodes sd = map seed_node (en_seeds e) \<and> sd_originals sd = [Some owner] \<and>
    sd_unverified sd"
proof -
  obtain o' c pool where o: "exact_name owner" "owner \<notin> set so" "fo_accounts o' = sa"
    and fr: "frozen_from o' mint owner txs pool c e"
    and tx: "tx_signature (ca_tx c) = Some (ca_signature c)" "raw_of (getd (ca_tx c) ''slot'') = Inr (ca_slot c)"
    by (rule freeze_receipt_source [OF run mem ne])
  have "en_bought e = Some (sum_list (map fs_bought (en_seeds e)))"
    using frozen_bought_sum [OF fr] .
  moreover have "en_slot e = Some (ca_slot c)" using fr by (simp add: frozen_from_def Let_def)
  ultimately show ?thesis using read_frozen_entry [OF fr tx o(1), of opt] o opt ne by simp
qed

section \<open>Never an older buy\<close>

lemma nominate_mono:
  assumes "foldl (nominate mint txs swaps owner) (cs0, ps0) sigs = (cs, ps)"
  shows "set cs0 \<subseteq> set cs" "set ps0 \<subseteq> set ps"
proof -
  have "set cs0 \<subseteq> set (fst st) \<and> set ps0 \<subseteq> set (snd st)"
    if "foldl (nominate mint txs swaps owner) (cs0, ps0) sigs = st" for st
    unfolding that [symmetric]
    by (rule foldl_invariant) (auto simp: nominate_def split: prod.splits list.splits if_splits sum.splits)
  from this [OF assms] show "set cs0 \<subseteq> set cs" "set ps0 \<subseteq> set ps" by auto
qed

lemma nominate_all:
  assumes "foldl (nominate mint txs swaps owner) (cs0, ps0) sigs = (cs, [])" and "sig \<in> set sigs"
    and buy: "row \<in> set (swap_rows mint swaps sig)" "is_buy_of owner row"
    and tx: "tx \<in> set (receipts_of txs sig)" "getd (getd tx ''meta'') ''err'' = PNone" "raw_of (getd tx ''slot'') = Inr slot"
  shows "\<exists>c \<in> set cs. ca_signature c = sig \<and> ca_slot c = slot"
  using assms(1,2)
proof (induction sigs arbitrary: cs0 ps0)
  case Nil
  then show ?case by simp
next
  case (Cons s sigs)
  obtain cs1 ps1 where step: "nominate mint txs swaps owner (cs0, ps0) s = (cs1, ps1)" by fastforce
  with Cons.prems have rest: "foldl (nominate mint txs swaps owner) (cs1, ps1) sigs = (cs, [])" by simp
  have ps1: "ps1 = []" using nominate_mono(2) [OF rest] by simp
  show ?case
  proof (cases "s = sig")
    case True
    have "row \<in> set (filter (is_buy_of owner) (swap_rows mint swaps sig))" using buy by simp
    then obtain swap more where b: "filter (is_buy_of owner) (swap_rows mint swaps sig) = swap # more"
      by (cases "filter (is_buy_of owner) (swap_rows mint swaps sig)") auto
    have new: "insert_new x xs \<noteq> []" for x :: string and xs by (auto simp: insert_new_def)
    obtain t ts where r: "receipts_of txs sig = t # ts" using tx(1) by (cases "receipts_of txs sig") auto
    have one: "ts = []" using step ps1 b r True by (cases ts) (auto simp: nominate_def new)
    with tx(1) r have "t = tx" by simp
    with step ps1 b r one True tx(2,3) have "\<exists>c \<in> set cs1. ca_signature c = sig \<and> ca_slot c = slot"
      by (auto simp: nominate_def new split: if_splits)
    with nominate_mono(1) [OF rest] show ?thesis by auto
  next
    case False
    with Cons show ?thesis using rest by auto
  qed
qed

lemma swap_signatures_mem:
  assumes "row \<in> set swaps" "getd row ''token_address'' = PStr mint" "address (getd row ''signature'') = Some sig"
  shows "sig \<in> set (swap_signatures mint swaps)"
proof -
  have "set acc \<union> {s. \<exists>row \<in> set swaps. getd row ''token_address'' = PStr mint \<and> address (getd row ''signature'') = Some s}
      \<subseteq> set (foldl (\<lambda>acc sw. case address (getd sw ''signature'') of
                       Some sig \<Rightarrow> if getd sw ''token_address'' = PStr mint then insert_new sig acc else acc
                     | None \<Rightarrow> acc) acc swaps)" for acc
  proof (induction swaps arbitrary: acc)
    case Nil
    then show ?case by simp
  next
    case (Cons sw swaps)
    show ?case
      using Cons.IH [of "case address (getd sw ''signature'') of
                       Some sig \<Rightarrow> if getd sw ''token_address'' = PStr mint then insert_new sig acc else acc
                     | None \<Rightarrow> acc"]
      by (auto split: option.splits if_splits)
  qed
  with assms show ?thesis unfolding swap_signatures_def by blast
qed

text \<open>
  Never an older buy.  No nominated buy of the owner with a successful receipt among the given
  transactions is later than the frozen one, and none of the same slot is another transaction.
\<close>

theorem frozen_receipt_latest:
  assumes run: "freeze_receipt_seeds (PStr mint) txs swaps cohort so sa mo mt ms mi ma = Inr cp"
    and mem: "(owner, e) \<in> set (cp_entries cp)" and ne: "en_seeds e \<noteq> []"
    and buy: "row \<in> set swaps" "is_buy_of owner row" "getd row ''token_address'' = PStr mint"
      "address (getd row ''signature'') = Some sig"
    and tx: "tx \<in> set txs" "tx_signature tx = Some sig" "getd (getd tx ''meta'') ''err'' = PNone"
      "raw_of (getd tx ''slot'') = Inr slot"
  shows "\<exists>frozen. en_slot e = Some frozen \<and> (slot < frozen \<or> slot = frozen \<and> en_signature e = Some sig)"
proof (rule freeze_receipt_source [OF run mem ne])
  fix o' cs c pool
  assume f: "foldl (nominate mint txs swaps owner) ([], add_if (list_ex (unsigned_buy mint owner) swaps)
       ''missing_buy_receipt_signature'' []) (swap_signatures mint swaps) = (cs, [])"
    and c: "\<forall>c' \<in> set cs. c' = c \<or> ca_slot c' < ca_slot c" and fr: "frozen_from o' mint owner txs pool c e"
  obtain c' where "c' \<in> set cs" "ca_signature c' = sig" "ca_slot c' = slot"
    using nominate_all [OF f swap_signatures_mem [OF buy(1,3,4)], of row tx slot] buy tx
    by (auto simp: swap_rows_def receipts_of_def)
  with c fr show ?thesis by (auto simp: frozen_from_def Let_def)
qed

section \<open>A worked receipt\<close>

text \<open>Owner \<open>O\<close> holds 100 and buys 40 from the pool \<open>L\<close> in slot 9.\<close>

definition demo_buy_tx :: pyval where
  "demo_buy_tx = PDict [(''slot'', PInt 9),
     (''transaction'', PDict [(''signatures'', PList [PStr ''S1'']),
        (''message'', PDict [(''accountKeys'', PList [PStr ''A'', PStr ''V'']),
           (''instructions'', PList [PDict [(''programId'', PStr ''P'')]])])]),
     (''meta'', PDict [(''err'', PNone),
        (''preTokenBalances'', PList [demo_balance 0 ''O'' ''M'' 100, demo_balance 1 ''L'' ''M'' 500]),
        (''postTokenBalances'', PList [demo_balance 0 ''O'' ''M'' 140, demo_balance 1 ''L'' ''M'' 460]),
        (''innerInstructions'', PList [PDict [(''index'', PInt 0),
           (''instructions'', PList [demo_transfer ''V'' ''A'' 40])]])])]"

definition demo_buy_swap :: pyval where
  "demo_buy_swap = PDict [(''kind'', PStr ''buy''), (''token_address'', PStr ''M''), (''pool_address'', PStr ''L''),
     (''token_recipient'', PStr ''O''), (''signature'', PStr ''S1'')]"

definition demo_capture :: "capture res" where
  "demo_capture = freeze_receipt_seeds (PStr ''M'') [demo_buy_tx] [demo_buy_swap] [PStr ''O''] [] [''X'']
     (PInt 40) (PInt 256) (PInt 512) (PInt 512) (PInt 256)"

definition demo_frozen :: frozen_seed where
  "demo_frozen = \<lparr>fs_mint = ''M'', fs_account = ''A'', fs_owner = ''O'', fs_decimals = Some 6, fs_bought = 40,
     fs_balance = 140, fs_slot = 9, fs_signature = ''S1''\<rparr>"

definition demo_entry :: receipt_entry where
  "demo_entry = \<lparr>en_status = ''frozen_receipt_component'', en_seeds = [demo_frozen], en_issues = [], en_slot = Some 9,
     en_signature = Some ''S1'', en_bought = Some 40, en_pool = Some ''L'', en_capture = Some ''M:O:S1''\<rparr>"

lemma demo_capture_value:
  "demo_capture = Inr \<lparr>cp_status = ''partial'', cp_entries = [(''O'', demo_entry)], cp_issues = [], cp_supplied = 1,
     cp_selected = 1\<rparr>"
  by code_simp

theorem frozen_receipt_exact_witness:
  "\<exists>cp. demo_capture = Inr cp \<and> (''O'', demo_entry) \<in> set (cp_entries cp) \<and>
     (\<exists>tx \<in> {demo_buy_tx}. tx_signature tx = en_signature demo_entry) \<and>
     en_bought demo_entry = Some (sum_list (map fs_bought (en_seeds demo_entry)))"
  using frozen_receipt_exact [OF demo_capture_value [unfolded demo_capture_def], of "''O''" demo_entry]
  by (auto simp: demo_capture_value demo_entry_def)

theorem frozen_seeds_accepted_witness:
  "\<exists>sd. read_seeds ''M'' (demo_replay_options\<lparr>ro_accounts := [''X'']\<rparr>) 9 (map seed_value (en_seeds demo_entry)) = Inr sd \<and>
     sd_total sd = 40"
  using frozen_seeds_accepted [OF demo_capture_value [unfolded demo_capture_def], of "''O''" demo_entry
      "demo_replay_options\<lparr>ro_accounts := [''X'']\<rparr>"]
  by (auto simp: demo_entry_def demo_replay_options_def)

theorem frozen_receipt_latest_witness:
  "en_slot demo_entry = Some 9 \<and> is_buy_of ''O'' demo_buy_swap \<and> tx_signature demo_buy_tx = Some ''S1''"
proof -
  have f: "is_buy_of ''O'' demo_buy_swap" "getd demo_buy_swap ''token_address'' = PStr ''M''"
    "address (getd demo_buy_swap ''signature'') = Some ''S1''" "tx_signature demo_buy_tx = Some ''S1''"
    "getd (getd demo_buy_tx ''meta'') ''err'' = PNone" "raw_of (getd demo_buy_tx ''slot'') = Inr 9"
    by code_simp+
  have "\<exists>frozen. en_slot demo_entry = Some frozen \<and> (9 < frozen \<or> 9 = frozen \<and> en_signature demo_entry = Some ''S1'')"
    by (rule frozen_receipt_latest [OF demo_capture_value [unfolded demo_capture_def], of "''O''" demo_entry demo_buy_swap
          "''S1''" demo_buy_tx]) (simp_all add: f, simp_all add: demo_entry_def)
  with f show ?thesis by (simp add: demo_entry_def)
qed

end
