(* ===== verification/Spec2Isabelle.thy ===== *)
theory Spec2Isabelle
  imports Balance_Batch Position_Evidence Launch_History Wallet_Links Position_History_Rpc Noise_Cut Wallet_Activity Evidence_Lifecycle Coordinated_Activity Rpc_History Rpc_Limiter Token_Retirement Rpc_Account Position_Truth Position_Resolve_Laws Position_Seeds_Laws
begin

text \<open>
  A verification development of the on-chain radar.
\<close>

end
